(* ===== verification/Prelude.thy ===== *)
theory Prelude
  imports
    Complex_Main
    "HOL-Library.Char_ord"
    "HOL-Library.List_Lexorder"
    "HOL-Library.Product_Lexorder"
    "HOL-Library.Multiset"
begin

text \<open>
  Shared vocabulary of the development: the JavaScript values the hub reads off the wire,
  the two collection types it keeps its state in (an insertion-ordered \<open>Set\<close> and an
  insertion-ordered \<open>Map\<close>), the string operations it normalises keys with, and the
  lemmas about them every component uses. Finite JavaScript numbers are rationals: every
  double is one, and the arithmetic the hub does on heights, sequence and view numbers is
  exact below \<open>2 ^ 53\<close>.
\<close>

named_theorems js_simps \<open>equations of the JavaScript collections and coercions\<close>

section \<open>JavaScript values\<close>

datatype jsnum = Fin rat | PInf | NInf | NaN

datatype jsval =
    JUndef
  | JNull
  | JBool bool
  | JNum jsnum
  | JStr string
  | JArr "jsval list"
  | JObj "(string \<times> jsval) list"

text \<open>\<open>!!v\<close>: the falsy values are undefined, null, false, 0, NaN and the empty string.\<close>

fun truthy :: "jsval \<Rightarrow> bool" where
  "truthy JUndef = False"
| "truthy JNull = False"
| "truthy (JBool b) = b"
| "truthy (JNum (Fin q)) = (q \<noteq> 0)"
| "truthy (JNum NaN) = False"
| "truthy (JNum PInf) = True"
| "truthy (JNum NInf) = True"
| "truthy (JStr s) = (s \<noteq> [])"
| "truthy (JArr xs) = True"
| "truthy (JObj xs) = True"

text \<open>The finite integer a rational is, if it is one (\<open>Number.isInteger\<close>).\<close>

definition int_valued :: "rat \<Rightarrow> bool" where
  "int_valued q \<longleftrightarrow> of_int \<lfloor>q\<rfloor> = q"

lemma int_valued_of_int [simp]: "int_valued (of_int k)"
  by (simp add: int_valued_def)

lemma int_valued_numeral [simp]:
  "int_valued 0" "int_valued 1" "int_valued (numeral n)" "int_valued (- numeral n)"
  using int_valued_of_int [of 0] int_valued_of_int [of 1] int_valued_of_int [of "numeral n"]
    int_valued_of_int [of "- numeral n"] by simp_all

lemma int_valued_of_nat [simp]: "int_valued (of_nat k)"
  using int_valued_of_int [of "int k"] by simp

lemma int_valuedE:
  assumes "int_valued q"
  obtains k where "q = of_int k"
  using assms by (auto simp: int_valued_def intro: that [of "\<lfloor>q\<rfloor>"])

lemma int_valued_add_int: "int_valued (q + of_int k) \<longleftrightarrow> int_valued q"
  by (simp add: int_valued_def)

text \<open>
  The element \<open>xs[x % n]\<close> of an array of length \<open>n\<close>: JavaScript's remainder keeps the
  sign of the dividend and is a fraction when the dividend is, so only an integral
  dividend whose remainder is not negative names an element; every other index reads
  \<open>undefined\<close>.
\<close>

definition js_index :: "rat \<Rightarrow> nat \<Rightarrow> nat option" where
  "js_index x n =
     (if \<not> int_valued x \<or> n = 0 then None
      else let k = \<lfloor>x\<rfloor>; r = k mod int n in
        if 0 \<le> k \<or> r = 0 then Some (nat r) else None)"

lemma js_index_less: "js_index x n = Some i \<Longrightarrow> i < n"
  by (auto simp: js_index_def Let_def nat_less_iff split: if_splits)

lemma js_index_of_nat: "0 < n \<Longrightarrow> js_index (of_nat k) n = Some (k mod n)"
  by (simp add: js_index_def nat_mod_distrib flip: of_nat_mod)

lemma js_index_fraction [simp]: "\<not> int_valued x \<Longrightarrow> js_index x n = None"
  by (simp add: js_index_def)

section \<open>Insertion-ordered sets\<close>

text \<open>A JavaScript \<open>Set\<close> is its elements in insertion order, without repetition.\<close>

definition js_add :: "'a \<Rightarrow> 'a list \<Rightarrow> 'a list" where
  "js_add x xs = (if x \<in> set xs then xs else xs @ [x])"

lemma set_js_add [simp]: "set (js_add x xs) = insert x (set xs)"
  by (auto simp: js_add_def)

lemma distinct_js_add [simp]: "distinct (js_add x xs) = distinct xs"
  by (auto simp: js_add_def)

lemma length_js_add: "length (js_add x xs) = (if x \<in> set xs then length xs else Suc (length xs))"
  by (simp add: js_add_def)

lemma length_js_add_mono: "length xs \<le> length (js_add x xs)"
  by (simp add: js_add_def)

text \<open>\<open>new Set(iterable)\<close>.\<close>

definition js_set_of :: "'a list \<Rightarrow> 'a list" where
  "js_set_of xs = fold js_add xs []"

lemma fold_js_add_set: "set (fold js_add xs ys) = set xs \<union> set ys"
  by (induction xs arbitrary: ys) auto

lemma fold_js_add_distinct: "distinct ys \<Longrightarrow> distinct (fold js_add xs ys)"
  by (induction xs arbitrary: ys) auto

lemma set_js_set_of [simp]: "set (js_set_of xs) = set xs"
  by (simp add: js_set_of_def fold_js_add_set)

lemma distinct_js_set_of [simp]: "distinct (js_set_of xs)"
  by (simp add: js_set_of_def fold_js_add_distinct)

lemma length_js_set_of: "length (js_set_of xs) = card (set xs)"
  by (metis distinct_card distinct_js_set_of set_js_set_of)

section \<open>Insertion-ordered maps\<close>

text \<open>
  A JavaScript \<open>Map\<close>: \<open>set\<close> overwrites in place or appends, \<open>delete\<close> removes, and
  iteration follows insertion order. The contract every component uses is stated as a
  locale and discharged once for the association lists below.
\<close>

fun js_put :: "'k \<Rightarrow> 'v \<Rightarrow> ('k \<times> 'v) list \<Rightarrow> ('k \<times> 'v) list" where
  "js_put k v [] = [(k, v)]"
| "js_put k v ((k', v') # m) = (if k' = k then (k, v) # m else (k', v') # js_put k v m)"

definition js_del :: "'k \<Rightarrow> ('k \<times> 'v) list \<Rightarrow> ('k \<times> 'v) list" where
  "js_del k m = filter (\<lambda>e. fst e \<noteq> k) m"

definition js_keys :: "('k \<times> 'v) list \<Rightarrow> 'k list" where
  "js_keys m = map fst m"

definition js_map_ok :: "('k \<times> 'v) list \<Rightarrow> bool" where
  "js_map_ok m \<longleftrightarrow> distinct (map fst m)"

locale ordered_map =
  fixes get :: "'m \<Rightarrow> 'k \<Rightarrow> 'v option"
    and put :: "'k \<Rightarrow> 'v \<Rightarrow> 'm \<Rightarrow> 'm"
    and del :: "'k \<Rightarrow> 'm \<Rightarrow> 'm"
    and keys :: "'m \<Rightarrow> 'k list"
    and ok :: "'m \<Rightarrow> bool"
  assumes get_put: "get (put k v m) k' = (if k' = k then Some v else get m k')"
    and get_del: "get (del k m) k' = (if k' = k then None else get m k')"
    and put_keys: "set (keys (put k v m)) = insert k (set (keys m))"
    and del_keys: "set (keys (del k m)) = set (keys m) - {k}"
    and get_dom: "get m k = None \<longleftrightarrow> k \<notin> set (keys m)"
    and put_size: "length (keys (put k v m)) =
        (if k \<in> set (keys m) then length (keys m) else Suc (length (keys m)))"
    and put_ok: "ok m \<Longrightarrow> ok (put k v m)"
    and del_ok: "ok m \<Longrightarrow> ok (del k m)"
    and keys_distinct: "ok m \<Longrightarrow> distinct (keys m)"
begin

lemma get_put_same [simp]: "get (put k v m) k = Some v"
  by (simp add: get_put)

lemma get_del_same [simp]: "get (del k m) k = None"
  by (simp add: get_del)

lemma keys_put_bounded:
  assumes "ok m" and "set (keys (put k v m)) \<subseteq> A" and "finite A"
  shows "length (keys (put k v m)) \<le> card A"
proof -
  have "distinct (keys (put k v m))"
    using assms(1) by (intro keys_distinct put_ok)
  then have "length (keys (put k v m)) = card (set (keys (put k v m)))"
    by (simp add: distinct_card)
  then show ?thesis
    using assms(2,3) by (simp add: card_mono)
qed

lemma del_then_put: "get (put k v (del k m)) = get (put k v m)"
  by (rule ext) (simp add: get_put get_del)

end

lemma js_put_new: "map_of m k = None \<Longrightarrow> js_put k v m = m @ [(k, v)]"
  by (induction m) (auto split: if_splits)

lemma js_put_put: "js_put k v (js_put k w m) = js_put k v m"
  by (induction m) auto

lemma map_of_js_put: "map_of (js_put k v m) k' = (if k' = k then Some v else map_of m k')"
  by (induction m) auto

lemma map_of_js_del: "map_of (js_del k m) k' = (if k' = k then None else map_of m k')"
  by (induction m) (auto simp: js_del_def)

lemma set_keys_js_put: "fst ` set (js_put k v m) = insert k (fst ` set m)"
  by (induction m rule: js_put.induct) (auto simp: image_iff)

lemma length_js_put:
  "length (js_put k v m) = (if k \<in> fst ` set m then length m else Suc (length m))"
  by (induction m) (force split: prod.splits)+

lemma js_put_ok: "distinct (map fst m) \<Longrightarrow> distinct (map fst (js_put k v m))"
  by (induction m) (auto simp: set_keys_js_put)

lemma js_del_ok: "distinct (map fst m) \<Longrightarrow> distinct (map fst (js_del k m))"
  by (induction m) (auto simp: js_del_def)

interpretation js: ordered_map map_of js_put js_del js_keys js_map_ok
proof (unfold_locales, goal_cases)
  case (1 k v m k') then show ?case by (rule map_of_js_put)
next
  case (2 k m k') then show ?case by (rule map_of_js_del)
next
  case (3 k v m) then show ?case by (simp add: js_keys_def set_keys_js_put)
next
  case (4 k m) then show ?case by (auto simp: js_keys_def js_del_def)
next
  case (5 m k) then show ?case by (simp add: js_keys_def map_of_eq_None_iff)
next
  case (6 k v m) then show ?case by (simp add: js_keys_def length_js_put)
next
  case (7 m k v) then show ?case by (simp add: js_map_ok_def js_put_ok)
next
  case (8 m k) then show ?case by (simp add: js_map_ok_def js_del_ok)
next
  case (9 m) then show ?case by (simp add: js_map_ok_def js_keys_def)
qed

lemmas js_map_simps [js_simps] = js.get_put js.get_del

section \<open>Values\<close>

text \<open>A property of a value, \<open>v == null\<close>, and the bounds of \<open>Number.isSafeInteger\<close>.\<close>

definition js_prop :: "jsval \<Rightarrow> string \<Rightarrow> jsval" where
  "js_prop v k = (case v of JObj ms \<Rightarrow> (case map_of ms k of Some x \<Rightarrow> x | None \<Rightarrow> JUndef) | _ \<Rightarrow> JUndef)"

definition nullish :: "jsval \<Rightarrow> bool" where
  "nullish v \<longleftrightarrow> v = JNull \<or> v = JUndef"

definition MAX_SAFE_INTEGER :: rat where
  "MAX_SAFE_INTEGER = 9007199254740991"

definition safe_integer :: "rat \<Rightarrow> bool" where
  "safe_integer q \<longleftrightarrow> int_valued q \<and> \<bar>q\<bar> \<le> MAX_SAFE_INTEGER"

section \<open>Strings\<close>

text \<open>\<open>String.toLowerCase\<close> on the ASCII letters (signing keys are hexadecimal).\<close>

definition lower_char :: "char \<Rightarrow> char" where
  "lower_char c = (let n = (of_char c :: nat) in if 65 \<le> n \<and> n \<le> 90 then char_of (n + 32) else c)"

definition to_lower :: "string \<Rightarrow> string" where
  "to_lower s = map lower_char s"

lemma lower_char_idem [simp]: "lower_char (lower_char c) = lower_char c"
  by (simp add: lower_char_def Let_def)

lemma to_lower_idem [simp]: "to_lower (to_lower s) = to_lower s"
  by (simp add: to_lower_def)

lemma length_to_lower [simp]: "length (to_lower s) = length s"
  by (simp add: to_lower_def)

text \<open>\<open>String.toUpperCase\<close> on the ASCII letters.\<close>

definition upper_char :: "char \<Rightarrow> char" where
  "upper_char c = (let n = (of_char c :: nat) in if 97 \<le> n \<and> n \<le> 122 then char_of (n - 32) else c)"

definition to_upper :: "string \<Rightarrow> string" where
  "to_upper s = map upper_char s"

text \<open>\<open>String.trim\<close> on the ASCII white space.\<close>

definition is_space :: "char \<Rightarrow> bool" where
  "is_space c \<longleftrightarrow> (of_char c :: nat) \<in> {9, 10, 11, 12, 13, 32}"

definition trim :: "string \<Rightarrow> string" where
  "trim s = rev (dropWhile is_space (rev (dropWhile is_space s)))"

definition is_digit :: "char \<Rightarrow> bool" where
  "is_digit c \<longleftrightarrow> (48 :: nat) \<le> of_char c \<and> (of_char c :: nat) \<le> 57"

definition digit_val :: "char \<Rightarrow> nat" where
  "digit_val c = of_char c - 48"

text \<open>The decimal number a digit string spells.\<close>

fun digits_val :: "nat \<Rightarrow> string \<Rightarrow> nat" where
  "digits_val acc [] = acc"
| "digits_val acc (c # cs) = digits_val (10 * acc + digit_val c) cs"

definition hex_val :: "char \<Rightarrow> nat option" where
  "hex_val c = (let n = (of_char c :: nat) in
     if 48 \<le> n \<and> n \<le> 57 then Some (n - 48)
     else if 97 \<le> n \<and> n \<le> 102 then Some (n - 87)
     else if 65 \<le> n \<and> n \<le> 70 then Some (n - 55) else None)"

fun hex_prefix_val :: "nat \<Rightarrow> string \<Rightarrow> nat" where
  "hex_prefix_val acc [] = acc"
| "hex_prefix_val acc (c # cs) =
     (case hex_val c of Some d \<Rightarrow> hex_prefix_val (16 * acc + d) cs | None \<Rightarrow> acc)"

text \<open>
  \<open>Number(text)\<close>: surrounding blanks are dropped, an empty text is 0, a hexadecimal literal is
  unsigned, a decimal literal has a sign, digits with an optional point and an optional
  exponent; everything else is NaN. Results past the largest double are infinite.
\<close>

definition pow10 :: "int \<Rightarrow> rat" where
  "pow10 e = (if 0 \<le> e then 10 ^ nat e else 1 / 10 ^ nat (- e))"

definition clip_double :: "rat \<Rightarrow> jsnum" where
  "clip_double q = (if 2 ^ 1024 \<le> q then PInf else if q \<le> - (2 ^ 1024) then NInf else Fin q)"

fun split_sign :: "string \<Rightarrow> bool \<times> string" where
  "split_sign (CHR ''-'' # cs) = (True, cs)"
| "split_sign (CHR ''+'' # cs) = (False, cs)"
| "split_sign cs = (False, cs)"

definition exponent_val :: "string \<Rightarrow> int option" where
  "exponent_val s =
     (case s of
        [] \<Rightarrow> Some 0
      | c # cs \<Rightarrow>
          if c \<noteq> CHR ''e'' \<and> c \<noteq> CHR ''E'' then None
          else (let (neg, ds) = split_sign cs in
            if ds = [] \<or> \<not> list_all is_digit ds then None
            else Some ((if neg then - 1 else 1) * int (digits_val 0 ds))))"

definition decimal_val :: "string \<Rightarrow> rat option" where
  "decimal_val s =
     (let ip = takeWhile is_digit s; r = dropWhile is_digit s;
          (fp, e) = (case r of CHR ''.'' # t \<Rightarrow> (takeWhile is_digit t, dropWhile is_digit t) | _ \<Rightarrow> ([], r))
      in if ip @ fp = [] then None
         else (case exponent_val e of
             None \<Rightarrow> None
           | Some k \<Rightarrow> Some (of_nat (digits_val 0 (ip @ fp)) * pow10 (k - int (length fp)))))"

definition hex_literal :: "string \<Rightarrow> bool" where
  "hex_literal t = (case t of c # x # ds \<Rightarrow> c = CHR ''0'' \<and> (x = CHR ''x'' \<or> x = CHR ''X'') | _ \<Rightarrow> False)"

definition js_Number_text :: "string \<Rightarrow> jsnum" where
  "js_Number_text s =
     (let t = trim s in
      if t = [] then Fin 0
      else if hex_literal t
      then (let ds = drop 2 t in
        if ds = [] \<or> list_ex (\<lambda>c. hex_val c = None) ds then NaN
        else clip_double (of_nat (hex_prefix_val 0 ds)))
      else (let (neg, u) = split_sign t in
        if u = ''Infinity'' then (if neg then NInf else PInf)
        else (case decimal_val u of
            None \<Rightarrow> NaN
          | Some q \<Rightarrow> clip_double (if neg then - q else q))))"

text \<open>\<open>Number(v)\<close>. An array is read through its text: empty is 0, one element is that element's text, and a comma is no number.\<close>

fun js_Number :: "jsval \<Rightarrow> jsnum" where
  "js_Number JUndef = NaN"
| "js_Number JNull = Fin 0"
| "js_Number (JBool b) = Fin (if b then 1 else 0)"
| "js_Number (JNum x) = x"
| "js_Number (JStr s) = js_Number_text s"
| "js_Number (JArr []) = Fin 0"
| "js_Number (JArr [x]) = (case x of JUndef \<Rightarrow> Fin 0 | JBool b \<Rightarrow> NaN | _ \<Rightarrow> js_Number x)"
| "js_Number (JArr (x # y # xs)) = NaN"
| "js_Number (JObj xs) = NaN"

lemmas text_eval = to_lower_def lower_char_def trim_def is_space_def is_digit_def digit_val_def
  decimal_val_def exponent_val_def pow10_def js_Number_text_def hex_literal_def clip_double_def hex_val_def char_of_def bit_Suc_0_iff Let_def

text \<open>\<open>Array.findIndex\<close> and \<open>splice(i, 1)\<close>: drop the first element that satisfies a test.\<close>

fun remove_first :: "('a \<Rightarrow> bool) \<Rightarrow> 'a list \<Rightarrow> 'a list" where
  "remove_first P [] = []"
| "remove_first P (x # xs) = (if P x then xs else x # remove_first P xs)"

lemma set_remove_first: "set (remove_first P xs) \<subseteq> set xs"
  by (induction xs) auto

lemma remove_first_id: "\<forall>x \<in> set xs. \<not> P x \<Longrightarrow> remove_first P xs = xs"
  by (induction xs) auto

lemma remove_first_snoc:
  "\<forall>x \<in> set xs. \<not> P x \<Longrightarrow> P y \<Longrightarrow> remove_first P (xs @ [y]) = xs"
  by (induction xs) auto

section \<open>Digit texts\<close>

lemma digit_not_space: "is_digit c \<Longrightarrow> \<not> is_space c"
  by (auto simp: is_digit_def is_space_def)

lemma digit_not_sign: "is_digit c \<Longrightarrow> c \<noteq> CHR ''-'' \<and> c \<noteq> CHR ''+'' \<and> c \<noteq> CHR ''x'' \<and> c \<noteq> CHR ''X'' \<and> c \<noteq> CHR ''I''"
  by (auto simp: is_digit_def)

lemma split_sign_other: "c \<noteq> CHR ''-'' \<Longrightarrow> c \<noteq> CHR ''+'' \<Longrightarrow> split_sign (c # cs) = (False, c # cs)"
  by (rule split_sign.cases [of "c # cs"]) auto

lemma trim_no_space: "\<forall>c \<in> set s. \<not> is_space c \<Longrightarrow> trim s = s"
proof -
  have *: "\<forall>c \<in> set xs. \<not> is_space c \<Longrightarrow> dropWhile is_space xs = xs" for xs
    by (cases xs) auto
  show "\<forall>c \<in> set s. \<not> is_space c \<Longrightarrow> trim s = s"
    using * [of s] * [of "rev s"] by (simp add: trim_def)
qed

lemma trim_idem: "trim (trim s) = trim s"
proof -
  let ?d = "dropWhile is_space"
  have keep: "?d (rev (?d (rev t))) = rev (?d (rev t))" if "t = [] \<or> \<not> is_space (hd t)" for t
  proof (cases "rev (?d (rev t))")
    case (Cons c u)
    then have "hd t = c"
      by (metis append_is_Nil_conv hd_append2 list.sel(1) list.simps(3) rev_append rev_rev_ident takeWhile_dropWhile_id)
    moreover have "t \<noteq> []"
      using Cons by auto
    ultimately show ?thesis
      using that Cons by simp
  next
    case Nil
    show ?thesis
      unfolding Nil by simp
  qed
  have "?d s = [] \<or> \<not> is_space (hd (?d s))"
    by (metis hd_dropWhile)
  then show ?thesis
    using keep [of "?d s"] by (simp add: trim_def)
qed

lemma takeWhile_all: "list_all P xs \<Longrightarrow> takeWhile P xs = xs \<and> dropWhile P xs = []"
  by (induction xs) auto

lemma digits_Number:
  assumes "list_all is_digit s" and "s \<noteq> []"
  shows "js_Number_text s = clip_double (of_nat (digits_val 0 s))"
proof -
  obtain c cs where s: "s = c # cs" "is_digit c"
    using assms by (cases s) auto
  have "\<forall>x \<in> set s. \<not> is_space x"
    using assms(1) digit_not_space by (auto simp: list_all_iff)
  then have trim: "trim s = s"
    by (rule trim_no_space)
  have "\<not> hex_literal s"
    using assms(1) s digit_not_sign by (cases cs) (auto simp: hex_literal_def)
  moreover have "split_sign s = (False, s)"
    using s digit_not_sign [of c] split_sign_other by simp
  moreover have "s \<noteq> ''Infinity''"
    using s digit_not_sign [of c] by auto
  moreover have "decimal_val s = Some (of_nat (digits_val 0 s))"
    unfolding decimal_val_def Let_def conjunct1 [OF takeWhile_all [OF assms(1)]] conjunct2 [OF takeWhile_all [OF assms(1)]]
    using assms(2) by (simp add: exponent_val_def pow10_def)
  ultimately show ?thesis
    using assms(2) by (simp add: js_Number_text_def trim)
qed

end
