(* ===== verification/Bft_Quorum.thy ===== *)
theory Bft_Quorum
  imports Prelude
begin

text \<open>
  The count-based quorum size (\<open>src/lib/bft_quorum.js\<close>), the single definition every
  count-mode consensus site of the hub resolves through, and the snapshot quorum built on
  it (\<open>src/validators/capability_snapshot/quorum.js\<close>). The lemmas say what the threshold
  guarantees: it is reachable, it is a majority, two quorums share a member, and exactly
  for which federation sizes two quorums share an honest member when a third of the
  members may be faulty.
\<close>

section \<open>The threshold\<close>

text \<open>
  \<open>Math.max(2 * Math.floor((n - 1) / 3) + 1, Math.ceil((n + 1) / 2))\<close>. The integer
  divisions below round as \<open>Math.floor\<close> does, and \<open>ceil (m / 2) = (m + 1) div 2\<close>.
\<close>

definition bftQuorum :: "int \<Rightarrow> int" where
  "bftQuorum n = max (2 * ((n - 1) div 3) + 1) ((n + 1 + 1) div 2)"

definition bftQuorumOrSingle :: "int \<Rightarrow> int \<Rightarrow> int" where
  "bftQuorumOrSingle n single = (if n \<le> 1 then single else bftQuorum n)"

text \<open>The number of Byzantine members the threshold is named after: \<open>f = floor((n - 1) / 3)\<close>.\<close>

definition faults :: "int \<Rightarrow> int" where
  "faults n = (n - 1) div 3"

lemma bftQuorum_majority: "n < 2 * bftQuorum n"
proof -
  have "n < 2 * ((n + 1 + 1) div 2)" by presburger
  also have "\<dots> \<le> 2 * bftQuorum n"
    unfolding bftQuorum_def by (intro mult_left_mono max.cobounded2) simp
  finally show ?thesis .
qed

lemma bftQuorum_ge2: "2 \<le> n \<Longrightarrow> 2 \<le> bftQuorum n"
  using bftQuorum_majority [of n] by linarith

lemma bftQuorum_live:
  assumes "2 \<le> n"
  shows "bftQuorum n \<le> n - faults n"
proof -
  have "2 * ((n - 1) div 3) + 1 \<le> n - (n - 1) div 3" and "(n + 1 + 1) div 2 \<le> n - (n - 1) div 3"
    using assms by presburger+
  then show ?thesis by (simp add: bftQuorum_def faults_def)
qed

section \<open>Quorums over a membership\<close>

text \<open>
  The shape the safety arguments need: two sets of members, each at least the threshold,
  share more than a given number of members. The locale states it for any threshold and
  the arithmetic above discharges it for the hub's.
\<close>

locale quorum_size =
  fixes threshold :: "int \<Rightarrow> int"
    and overlap :: "int \<Rightarrow> int"
    and admits :: "int \<Rightarrow> bool"
  assumes enough: "admits n \<Longrightarrow> n + overlap n \<le> 2 * threshold n"
begin

lemma quorums_overlap:
  assumes "admits (int (card M))" and "finite M" and "A \<subseteq> M" and "B \<subseteq> M"
    and "threshold (int (card M)) \<le> int (card A)" and "threshold (int (card M)) \<le> int (card B)"
  shows "overlap (int (card M)) \<le> int (card (A \<inter> B))"
proof -
  have fin: "finite A" "finite B"
    using assms(2-4) finite_subset by auto
  have "card (A \<union> B) \<le> card M"
    using assms(2-4) by (intro card_mono) auto
  moreover have "card A + card B = card (A \<union> B) + card (A \<inter> B)"
    using fin by (rule card_Un_Int)
  ultimately have "int (card A) + int (card B) \<le> int (card M) + int (card (A \<inter> B))"
    by linarith
  then show ?thesis
    using enough [OF assms(1)] assms(5,6) by linarith
qed

lemma quorums_share_good:
  assumes "admits (int (card M))" and "finite M" and "A \<subseteq> M" and "B \<subseteq> M"
    and "threshold (int (card M)) \<le> int (card A)" and "threshold (int (card M)) \<le> int (card B)"
    and "F \<subseteq> M" and "int (card F) < overlap (int (card M))"
  shows "\<exists>m. m \<in> A \<and> m \<in> B \<and> m \<notin> F"
proof (rule ccontr)
  assume "\<not> ?thesis"
  then have "A \<inter> B \<subseteq> F" by blast
  then have "card (A \<inter> B) \<le> card F"
    using assms(2,7) by (meson card_mono finite_subset)
  then show False
    using quorums_overlap [OF assms(1-6)] assms(8) by linarith
qed

end

interpretation crash: quorum_size bftQuorum "\<lambda>n. 1" "\<lambda>n. True"
proof
  fix n :: int
  show "n + 1 \<le> 2 * bftQuorum n"
    using bftQuorum_majority [of n] by linarith
qed

text \<open>
  The Byzantine reading: more than \<open>faults n\<close> shared members. It holds exactly when the
  size is one above a multiple of three, or is 2, 3 or 6.
\<close>

definition byz_safe_size :: "int \<Rightarrow> bool" where
  "byz_safe_size n \<longleftrightarrow> n mod 3 = 1 \<or> n = 2 \<or> n = 3 \<or> n = 6"

lemma byz_overlap_iff:
  assumes "2 \<le> n"
  shows "n + (faults n + 1) \<le> 2 * bftQuorum n \<longleftrightarrow> byz_safe_size n"
proof -
  define f where "f = (n - 1) div 3"
  define h where "h = (n + 1 + 1) div 2"
  have h: "2 * h \<le> n + 2" "n + 2 \<le> 2 * h + 1" and f0: "0 \<le> f"
    using assms unfolding h_def f_def by linarith+
  have ff: "faults n = f" and q: "bftQuorum n = max (2 * f + 1) h"
    by (simp_all add: faults_def bftQuorum_def f_def h_def)
  have "n = 3 * f + 1 \<or> n = 3 * f + 2 \<or> n = 3 * f + 3"
    unfolding f_def by presburger
  then show ?thesis
  proof (elim disjE)
    assume n: "n = 3 * f + 1"
    then have "byz_safe_size n" by (simp add: byz_safe_size_def)
    moreover have "n + (f + 1) \<le> 2 * max (2 * f + 1) h" using n by (simp add: max_def)
    ultimately show ?thesis by (simp only: ff q)
  next
    assume n: "n = 3 * f + 2"
    then have "byz_safe_size n \<longleftrightarrow> f = 0"
      by (simp add: byz_safe_size_def) presburger
    with n h f0 show ?thesis unfolding ff q max_def by auto presburger
  next
    assume n: "n = 3 * f + 3"
    then have "byz_safe_size n \<longleftrightarrow> f = 0 \<or> f = 1"
      by (simp add: byz_safe_size_def) presburger
    with n h f0 show ?thesis unfolding ff q max_def by auto
  qed
qed

lemma bftQuorum_disjoint_enough:
  assumes "2 \<le> n" and "\<not> byz_safe_size (int n)"
  shows "\<exists>A B F. A \<subseteq> {..<n} \<and> B \<subseteq> {..<n} \<and> F \<subseteq> {..<n} \<and>
      bftQuorum (int n) \<le> int (card A) \<and> bftQuorum (int n) \<le> int (card B) \<and>
      int (card F) \<le> faults (int n) \<and> A \<inter> B \<subseteq> F"
proof -
  define q where "q = nat (bftQuorum (int n))"
  have le: "bftQuorum (int n) \<le> int n"
    using bftQuorum_live [of "int n"] assms(1) by (simp add: faults_def)
  have q: "int q = bftQuorum (int n)" "q \<le> n" "n < 2 * q"
    using bftQuorum_majority [of "int n"] bftQuorum_ge2 [of "int n"] le assms(1)
    by (simp_all add: q_def)
  have small: "int (2 * q - n) \<le> faults (int n)"
    using byz_overlap_iff [of "int n"] assms q by (simp add: of_nat_diff)
  have "card ({..<q} \<inter> {n - q..<n}) = 2 * q - n"
  proof -
    have "{..<q} \<inter> {n - q..<n} = {n - q..<q}" using q by auto
    then show ?thesis using q by simp
  qed
  then show ?thesis
    using q small by (intro exI [of _ "{..<q}"] exI [of _ "{n - q..<n}"]
        exI [of _ "{..<q} \<inter> {n - q..<n}"]) auto
qed

interpretation byz: quorum_size bftQuorum "\<lambda>n. faults n + 1" "\<lambda>n. 2 \<le> n \<and> byz_safe_size n"
  by unfold_locales (simp add: byz_overlap_iff)

section \<open>Properties\<close>

text \<open>
  the count quorum of a federation of \<open>n \<ge> 2\<close> members is never more than the members
  left when \<open>floor((n - 1) / 3)\<close> of them are silent (a round can finish), is at least two (no
  validator finalizes alone) and is a strict majority.
\<close>

theorem bftQuorum_bounds:
  assumes "2 \<le> n"
  shows "2 \<le> bftQuorum n \<and> bftQuorum n \<le> n - faults n \<and> n < 2 * bftQuorum n"
  using bftQuorum_ge2 [OF assms] bftQuorum_live [OF assms] bftQuorum_majority by blast

theorem bftQuorum_bounds_witness:
  "(2::int) \<le> 7 \<and> 2 \<le> bftQuorum 7 \<and> bftQuorum 7 \<le> 7 - faults 7 \<and> 7 < 2 * bftQuorum 7"
  using bftQuorum_bounds [of 7] by simp

text \<open>
  over one membership set, any two vote sets that reach the count quorum share a
  member; so no two rounds of one slot are finalized by disjoint sets of validators.
\<close>

theorem bftQuorum_intersect:
  assumes "finite M" and "A \<subseteq> M" and "B \<subseteq> M"
    and "bftQuorumOrSingle (int (card M)) 1 \<le> int (card A)"
    and "bftQuorumOrSingle (int (card M)) 1 \<le> int (card B)"
    and "2 \<le> card M"
  shows "A \<inter> B \<noteq> {}"
proof -
  have "1 \<le> int (card (A \<inter> B))"
    using assms by (intro crash.quorums_overlap [of M]) (simp_all add: bftQuorumOrSingle_def)
  then show ?thesis by auto
qed

theorem bftQuorum_intersect_witness: "{1, 2, 3} \<inter> {3, 4, 5 :: nat} \<noteq> {}"
proof -
  have "bftQuorumOrSingle 5 1 = 3"
    by (simp add: bftQuorumOrSingle_def bftQuorum_def)
  then show ?thesis
    by (intro bftQuorum_intersect [of "{1, 2, 3, 4, 5 :: nat}" "{1, 2, 3}" "{3, 4, 5}"]) auto
qed

text \<open>
  C35: the Byzantine reading of the threshold, exactly: two count quorums are guaranteed a
  common member outside every faulty set of \<open>floor((n - 1) / 3)\<close> members if and only if
  \<open>n mod 3 = 1\<close> or \<open>n\<close> is 2, 3 or 6. At \<open>n = 5\<close> the quorum is 3 with one fault: two
  quorums may meet in the faulty member alone.
\<close>

theorem bftQuorum_byzantine_iff:
  assumes "2 \<le> n"
  shows "(\<forall>A B F. A \<subseteq> {..<n} \<and> B \<subseteq> {..<n} \<and> F \<subseteq> {..<n} \<and>
            bftQuorum (int n) \<le> int (card A) \<and> bftQuorum (int n) \<le> int (card B) \<and>
            int (card F) \<le> faults (int n) \<longrightarrow> (\<exists>m. m \<in> A \<inter> B - F))
         \<longleftrightarrow> byz_safe_size (int n)" (is "?safe \<longleftrightarrow> _")
proof
  assume ?safe
  then show "byz_safe_size (int n)"
    using bftQuorum_disjoint_enough [OF assms] by blast
next
  assume ok: "byz_safe_size (int n)"
  show ?safe
  proof (intro allI impI)
    fix A B F :: "nat set"
    assume h: "A \<subseteq> {..<n} \<and> B \<subseteq> {..<n} \<and> F \<subseteq> {..<n} \<and>
      bftQuorum (int n) \<le> int (card A) \<and> bftQuorum (int n) \<le> int (card B) \<and>
      int (card F) \<le> faults (int n)"
    then have "\<exists>m. m \<in> A \<and> m \<in> B \<and> m \<notin> F"
      using assms ok by (intro byz.quorums_share_good [of "{..<n}"]) auto
    then show "\<exists>m. m \<in> A \<inter> B - F" by blast
  qed
qed

theorem bftQuorum_byzantine_iff_witness:
  "\<exists>A B F. A \<subseteq> {..<5::nat} \<and> B \<subseteq> {..<5} \<and> F \<subseteq> {..<5} \<and>
     bftQuorum 5 \<le> int (card A) \<and> bftQuorum 5 \<le> int (card B) \<and>
     int (card F) \<le> faults 5 \<and> \<not> (\<exists>m. m \<in> A \<inter> B - F)"
  using bftQuorum_byzantine_iff [of 5] by (simp add: byz_safe_size_def)

end
