(* ===== verification/Gate_Registry.thy ===== *)
theory Gate_Registry
  imports Prelude
begin

text \<open>
  The activation registry (\<open>src/consensus/gate_registry/core.js\<close>): rows of thresholds
  keyed by name, validated when they are added, read through one overlay, and one generic
  predicate that says whether a gate is active at a height or time. Then the gates the
  consensus engine reads: stake-weighted quorum, the equivocation header, snapshot burial
  and the federated-hub test, with their committed tables. A refused registration and a
  missing row are errors, as the source throws; an unparseable clock or an unknown network
  is an inactive gate, as the source returns false.
\<close>

section \<open>Clocks and parseInt\<close>

text \<open>
  A height or time as callers hand it over: a number (integral in JavaScript's plain
  decimal range), a text, or null/undefined.
\<close>

datatype clock = CNum int | CText string | CMissing

text \<open>\<open>parseInt(s)\<close> without a radix: leading blanks, a sign, a hexadecimal prefix, then the longest run of digits.\<close>

definition parse_unsigned :: "string \<Rightarrow> nat option" where
  "parse_unsigned s =
     (case s of
        CHR ''0'' # x # cs \<Rightarrow>
          if x = CHR ''x'' \<or> x = CHR ''X''
          then (case cs of [] \<Rightarrow> None | c # _ \<Rightarrow> if hex_val c = None then None else Some (hex_prefix_val 0 cs))
          else Some (digits_val 0 (takeWhile is_digit s))
      | c # cs \<Rightarrow> if is_digit c then Some (digits_val 0 (takeWhile is_digit s)) else None
      | [] \<Rightarrow> None)"

definition parse_int_text :: "string \<Rightarrow> int option" where
  "parse_int_text s =
     (case dropWhile is_space s of
        CHR ''-'' # t \<Rightarrow> map_option (\<lambda>n. - int n) (parse_unsigned t)
      | CHR ''+'' # t \<Rightarrow> map_option int (parse_unsigned t)
      | t \<Rightarrow> map_option int (parse_unsigned t))"

fun parse_int :: "clock \<Rightarrow> int option" where
  "parse_int (CNum k) = Some k"
| "parse_int (CText s) = parse_int_text s"
| "parse_int CMissing = None"

section \<open>The registry\<close>

datatype gate_err =
    RegistryMiss string
  | BadKey string
  | DuplicateKey string
  | BadUnit string
  | BadTable string
  | BadEntry string
  | UnsupportedUnit string

record gate_row =
  row_unit :: string
  row_table :: jsval

record registry =
  entries :: "(string \<times> gate_row) list"
  overlay :: "(string \<Rightarrow> jsval \<Rightarrow> jsval) option"

definition UNITS :: "string list" where
  "UNITS = [''height'', ''time'', ''epoch'', ''ruleset'', ''constant'']"

definition UNARMED :: int where
  "UNARMED = 9999999999"

definition is_alnum_us :: "char \<Rightarrow> bool" where
  "is_alnum_us c \<longleftrightarrow> (let n = (of_char c :: nat) in
     48 \<le> n \<and> n \<le> 57 \<or> 65 \<le> n \<and> n \<le> 90 \<or> 97 \<le> n \<and> n \<le> 122 \<or> n = 95)"

definition is_stem_char :: "char \<Rightarrow> bool" where
  "is_stem_char c \<longleftrightarrow> is_alnum_us c \<or> c = CHR ''/'' \<or> c = CHR ''-''"

fun split_on :: "char \<Rightarrow> string \<Rightarrow> string \<Rightarrow> string list" where
  "split_on d acc [] = [rev acc]"
| "split_on d acc (c # cs) = (if c = d then rev acc # split_on d [] cs else split_on d (c # acc) cs)"

text \<open>\<open>KEY_RE\<close>: a stem, then one or more dotted names. A dot is in neither character class, so the dots split the key.\<close>

definition checkKey :: "string \<Rightarrow> bool" where
  "checkKey key =
     (case split_on (CHR ''.'') [] key of
        stem # names \<Rightarrow> stem \<noteq> [] \<and> list_all is_stem_char stem \<and> names \<noteq> [] \<and>
          list_all (\<lambda>n. n \<noteq> [] \<and> list_all is_alnum_us n) names
      | [] \<Rightarrow> False)"

fun finite_or_null :: "jsval \<Rightarrow> bool" where
  "finite_or_null JNull = True"
| "finite_or_null (JNum (Fin q)) = True"
| "finite_or_null _ = False"

fun leaf_ok :: "jsval \<Rightarrow> bool" where
  "leaf_ok (JObj kvs) = list_all (\<lambda>kv. finite_or_null (snd kv)) kvs"
| "leaf_ok _ = False"

fun checkTable :: "string \<Rightarrow> jsval \<Rightarrow> bool" where
  "checkTable u (JObj kvs) =
     (if u = ''ruleset'' then list_all (\<lambda>kv. leaf_ok (snd kv)) kvs else leaf_ok (JObj kvs))"
| "checkTable u _ = False"

text \<open>What the fingerprint can serialise by content: undefined array elements and non-finite numbers are refused, undefined properties are skipped.\<close>

fun checkValue :: "jsval \<Rightarrow> bool" where
  "checkValue JNull = True"
| "checkValue (JBool b) = True"
| "checkValue (JStr s) = True"
| "checkValue (JNum x) = (case x of Fin q \<Rightarrow> True | _ \<Rightarrow> False)"
| "checkValue (JArr xs) = list_all checkValue xs"
| "checkValue (JObj kvs) = list_all (\<lambda>kv. snd kv = JUndef \<or> checkValue (snd kv)) kvs"
| "checkValue JUndef = False"

definition addGate :: "string \<Rightarrow> string \<Rightarrow> jsval \<Rightarrow> registry \<Rightarrow> gate_err + registry" where
  "addGate key u table reg =
     (if \<not> checkKey key then Inl (BadKey key)
      else if key \<in> set (js_keys (entries reg)) then Inl (DuplicateKey key)
      else if u \<notin> set UNITS then Inl (BadUnit u)
      else if u \<noteq> ''constant'' \<and> \<not> checkTable u table then Inl (BadTable key)
      else if \<not> checkValue table then Inl (BadEntry key)
      else Inr (reg\<lparr>entries := js_put key \<lparr>row_unit = u, row_table = table\<rparr> (entries reg)\<rparr>))"

definition setReadOverlay :: "(string \<Rightarrow> jsval \<Rightarrow> jsval) \<Rightarrow> registry \<Rightarrow> registry" where
  "setReadOverlay fn reg = reg\<lparr>overlay := Some fn\<rparr>"

text \<open>The one read path: the committed table through the overlay.\<close>

definition read_row :: "registry \<Rightarrow> string \<Rightarrow> gate_err + jsval" where
  "read_row reg key =
     (case map_of (entries reg) key of
        None \<Rightarrow> Inl (RegistryMiss key)
      | Some row \<Rightarrow> Inr (case overlay reg of None \<Rightarrow> row_table row | Some fn \<Rightarrow> fn key (row_table row)))"

definition unitOf :: "registry \<Rightarrow> string \<Rightarrow> gate_err + string" where
  "unitOf reg key =
     (case map_of (entries reg) key of None \<Rightarrow> Inl (RegistryMiss key) | Some row \<Rightarrow> Inr (row_unit row))"

text \<open>\<open>'<COIN>:<network>'\<close> before the bare network key, own properties only.\<close>

definition resolveThreshold :: "(string \<times> jsval) list \<Rightarrow> string \<Rightarrow> string option \<Rightarrow> jsval" where
  "resolveThreshold table network coin =
     (case (case coin of None \<Rightarrow> None | Some c \<Rightarrow> map_of table (c @ '':'' @ network)) of
        Some v \<Rightarrow> v
      | None \<Rightarrow> (case map_of table network of Some v \<Rightarrow> v | None \<Rightarrow> JUndef))"

definition reached :: "jsval \<Rightarrow> clock \<Rightarrow> bool" where
  "reached threshold clk =
     (case parse_int clk of
        None \<Rightarrow> False
      | Some c \<Rightarrow> (case threshold of JNum (Fin q) \<Rightarrow> q \<le> of_int c | _ \<Rightarrow> False))"

text \<open>\<open>Object.keys\<close> of a threshold table read as an object; a row that is no object has no entries.\<close>

fun table_entries :: "jsval \<Rightarrow> (string \<times> jsval) list" where
  "table_entries (JObj kvs) = kvs"
| "table_entries _ = []"

definition activeAt ::
  "registry \<Rightarrow> string \<Rightarrow> jsval \<Rightarrow> string option \<Rightarrow> clock \<Rightarrow> clock \<Rightarrow> gate_err + bool" where
  "activeAt reg key network coin height time =
     (case map_of (entries reg) key of
        None \<Rightarrow> Inl (RegistryMiss key)
      | Some row \<Rightarrow>
          if row_unit row \<notin> {''height'', ''epoch'', ''time''} then Inl (UnsupportedUnit (row_unit row))
          else (case network of
              JStr net \<Rightarrow>
                (case read_row reg key of
                   Inl e \<Rightarrow> Inl e
                 | Inr table \<Rightarrow>
                     Inr (reached (resolveThreshold (table_entries table) net coin)
                          (if row_unit row = ''time'' then time else height)))
            | _ \<Rightarrow> Inr False))"

section \<open>Registry lemmas\<close>

lemma addGate_Inr:
  assumes "addGate key u table reg = Inr reg'"
  shows "map_of (entries reg') k =
      (if k = key then Some \<lparr>row_unit = u, row_table = table\<rparr> else map_of (entries reg) k)"
    and "overlay reg' = overlay reg"
    and "map_of (entries reg) key = None"
  using assms by (auto simp: addGate_def js_map_simps js.get_dom split: if_splits)

lemma reached_mono: "reached t (CNum h) \<Longrightarrow> h \<le> h' \<Longrightarrow> reached t (CNum h')"
  by (auto simp: reached_def split: jsval.splits jsnum.splits)

lemma activeAt_True:
  "activeAt reg key network coin height time = Inr True \<longleftrightarrow>
     (\<exists>row net table. map_of (entries reg) key = Some row \<and> row_unit row \<in> {''height'', ''epoch'', ''time''} \<and>
        network = JStr net \<and> read_row reg key = Inr table \<and>
        reached (resolveThreshold (table_entries table) net coin)
          (if row_unit row = ''time'' then time else height))"
  by (cases network; cases "map_of (entries reg) key"; cases "read_row reg key")
     (simp_all add: activeAt_def)

lemma reached_None [simp]: "parse_int clk = None \<Longrightarrow> \<not> reached t clk"
  by (simp add: reached_def)

text \<open>What a gate promises its callers: once active, active at every later height.\<close>

locale flag_day =
  fixes active :: "'n \<Rightarrow> int \<Rightarrow> bool"
  assumes stays: "active n h \<Longrightarrow> h \<le> h' \<Longrightarrow> active n h'"
begin

lemma inactive_below: "\<not> active n h' \<Longrightarrow> h \<le> h' \<Longrightarrow> \<not> active n h"
  using stays by blast

text \<open>Two hubs can disagree only about heights between the ones they evaluated.\<close>

lemma disagreement_between:
  assumes "active n h \<noteq> active n h'"
  shows "\<exists>k. min h h' < k \<and> k \<le> max h h' \<and> active n k \<and> \<not> active n (k - 1)"
proof -
  define lo where "lo = min h h'"
  define hi where "hi = max h h'"
  have lohi: "\<not> active n lo" "active n hi" "lo \<le> hi"
    using assms stays [of n h h'] stays [of n h' h] by (auto simp: lo_def hi_def min_def max_def)
  have "\<exists>k. lo < k \<and> k \<le> hi \<and> active n k \<and> \<not> active n (k - 1)"
    using lohi
  proof (induction "nat (hi - lo)" arbitrary: hi)
    case 0
    then have "hi = lo" by simp
    then show ?case using 0 by blast
  next
    case (Suc d)
    show ?case
    proof (cases "active n (hi - 1)")
      case True
      have "lo \<noteq> hi" using Suc.prems(1,2) by blast
      with Suc.prems(3) Suc.hyps(2) have "lo \<le> hi - 1" and "d = nat (hi - 1 - lo)" by linarith+
      then obtain k where "lo < k" "k \<le> hi - 1" "active n k" "\<not> active n (k - 1)"
        using Suc.hyps(1) [of "hi - 1"] Suc.prems(1) True by blast
      then show ?thesis by (intro exI [of _ k]) auto
    next
      case False
      then show ?thesis
        using Suc.prems Suc.hyps(2) by (intro exI [of _ hi]) auto
    qed
  qed
  then show ?thesis by (simp add: lo_def hi_def)
qed

end

section \<open>The gates of the consensus engine\<close>

text \<open>The committed rows (\<open>shared_rows_2.js\<close>, \<open>shared_rows_3.js\<close>, \<open>hub_rows.js\<close>).\<close>

definition STAKE_WEIGHTED_QUORUM_ACTIVATION :: "(string \<times> int) list" where
  "STAKE_WEIGHTED_QUORUM_ACTIVATION = [(''mainnet'', 961000), (''testnet'', 0), (''regtest'', 0)]"

definition EQUIV_HEADER_ACTIVATION :: "(string \<times> int) list" where
  "EQUIV_HEADER_ACTIVATION = [(''mainnet'', 961000), (''testnet'', 0), (''regtest'', 0)]"

definition SNAPSHOT_BURIAL_ACTIVATION :: "(string \<times> int) list" where
  "SNAPSHOT_BURIAL_ACTIVATION = [(''mainnet'', 0), (''testnet'', 0), (''regtest'', 0)]"

definition CANONICAL_REORG_BUFFER :: int where
  "CANONICAL_REORG_BUFFER = 6"

definition FEDERATED_HUB_ACTIVATION :: jsval where
  "FEDERATED_HUB_ACTIVATION = JObj
     [(''mainnet'', JNum (Fin 9999999999)), (''BTC:testnet'', JNum (Fin 156230)),
      (''LTC:testnet'', JNum (Fin 4912984)), (''DOGE:testnet'', JNum (Fin 67989993)),
      (''testnet'', JNum (Fin 156230)), (''regtest'', JNum (Fin 0))]"

definition isStakeWeightedQuorumActive :: "clock \<Rightarrow> string \<Rightarrow> bool" where
  "isStakeWeightedQuorumActive snapshotBlock network =
     (case parse_int snapshotBlock of
        None \<Rightarrow> False
      | Some sb \<Rightarrow> (case map_of STAKE_WEIGHTED_QUORUM_ACTIVATION network of
            None \<Rightarrow> False | Some threshold \<Rightarrow> threshold \<le> sb))"

definition isEquivHeaderActive :: "clock \<Rightarrow> string \<Rightarrow> bool" where
  "isEquivHeaderActive snapshotBlock network =
     (case parse_int snapshotBlock of
        None \<Rightarrow> False
      | Some sb \<Rightarrow> (case map_of EQUIV_HEADER_ACTIVATION network of
            None \<Rightarrow> False | Some threshold \<Rightarrow> threshold \<le> sb))"

definition FEDERATED_HUB_KEY :: string where
  "FEDERATED_HUB_KEY = ''consensus/federation.FEDERATED_HUB_ACTIVATION''"

definition isFederatedHubActive :: "registry \<Rightarrow> string \<Rightarrow> clock \<Rightarrow> gate_err + bool" where
  "isFederatedHubActive reg network height =
     activeAt reg FEDERATED_HUB_KEY (JStr (to_lower network)) None height CMissing"

definition isFederatedHubArmed :: "registry \<Rightarrow> string \<Rightarrow> gate_err + bool" where
  "isFederatedHubArmed reg network = isFederatedHubActive reg network (CNum (UNARMED - 1))"

text \<open>
  Snapshot burial reads the raw height with \<open>Number()\<close> and refuses the empty values before
  it, which would read as 0.
\<close>

definition isSnapshotBurialActive :: "jsval \<Rightarrow> string \<Rightarrow> bool" where
  "isSnapshotBurialActive snapshotBlock network =
     (if snapshotBlock \<in> {JNull, JUndef, JStr [], JBool True, JBool False} then False
      else (case js_Number snapshotBlock of
        Fin sb \<Rightarrow> (case map_of SNAPSHOT_BURIAL_ACTIVATION network of
            None \<Rightarrow> False | Some threshold \<Rightarrow> of_int threshold \<le> sb)
      | _ \<Rightarrow> False))"

definition buriedSnapshotBlock :: "jsval \<Rightarrow> string \<Rightarrow> jsval" where
  "buriedSnapshotBlock snapshotBlock network =
     (if \<not> isSnapshotBurialActive snapshotBlock network then snapshotBlock
      else (case js_Number snapshotBlock of
              Fin sb \<Rightarrow> JNum (Fin (of_int (max 0 (\<lfloor>sb\<rfloor> - CANONICAL_REORG_BUFFER))))
            | x \<Rightarrow> JNum x))"

text \<open>The equivocation header: \<open>EQUIV|<tag>|<round>|<view>||<content>\<close>.\<close>

definition equivKey :: "string \<Rightarrow> string \<Rightarrow> string \<Rightarrow> string" where
  "equivKey engineTag roundId view = engineTag @ ''|'' @ roundId @ ''|'' @ view"

definition equivPrefix :: "string \<Rightarrow> string" where
  "equivPrefix key = ''EQUIV|'' @ key @ ''||''"

definition buildEquivCanonical :: "string \<Rightarrow> string \<Rightarrow> string \<Rightarrow> string \<Rightarrow> string" where
  "buildEquivCanonical engineTag roundId view content =
     equivPrefix (equivKey engineTag roundId view) @ content"

interpretation swq_gate: flag_day "\<lambda>net h. isStakeWeightedQuorumActive (CNum h) net"
  by unfold_locales (auto simp: isStakeWeightedQuorumActive_def split: option.splits)

interpretation equiv_gate: flag_day "\<lambda>net h. isEquivHeaderActive (CNum h) net"
  by unfold_locales (auto simp: isEquivHeaderActive_def split: option.splits)

interpretation burial_gate: flag_day "\<lambda>net h. isSnapshotBurialActive (JNum (Fin (of_int h))) net"
  by unfold_locales (auto simp: isSnapshotBurialActive_def split: option.splits)

interpretation registry_gate:
  flag_day "\<lambda>(reg, key, net, coin) h. activeAt reg key net coin (CNum h) (CNum h) = Inr True"
  by unfold_locales (fastforce simp: activeAt_True intro: reached_mono)

end
