(* ===== verification/Stake_Quorum.thy ===== *)
theory Stake_Quorum
  imports Prelude Bft_Quorum
begin

text \<open>
  The stake-weighted quorum predicate (\<open>src/consensus/stake_weighted_quorum.js\<close>) and the
  quorum-margin report (\<open>src/oracle/quorum_margin.js\<close>). Stake is decimal text; the
  predicate parses it, deduplicates by staking source and tests \<open>3 * tally > 2 * S\<close>.
  The arithmetic is the mathjs BigNumber library's: its rounding to 64 significant digits
  is the parameter \<open>rnd\<close>, and what the predicate relies on is that a result which fits in
  64 digits is not changed (\<open>bn64\<close>). The specification side is a mass on sets of sources.
\<close>

section \<open>Snapshot rows\<close>

text \<open>
  A cell of an indexer row: absent, null, or a content whose \<open>String()\<close> spelling is kept
  (every use in the source applies \<open>String()\<close> first). A missing row reads as a row of
  absent cells, which the blank-source guard refuses alike.
\<close>

datatype cell = CUndef | CNull | CStr string

fun cell_string :: "cell \<Rightarrow> string" where
  "cell_string CUndef = ''undefined''"
| "cell_string CNull = ''null''"
| "cell_string (CStr s) = s"

record stake_row =
  s_pubkey :: cell
  s_source :: cell
  s_weight :: cell

text \<open>The rows of a snapshot and the \<open>truncated\<close> property its builder may set on the array.\<close>

record stake_set =
  stake_rows :: "stake_row list"
  stake_truncated :: bool

definition blank_source :: "stake_row \<Rightarrow> bool" where
  "blank_source v \<longleftrightarrow> s_source v = CNull \<or> s_source v = CUndef \<or> trim (cell_string (s_source v)) = []"

text \<open>\<open>/^[+-]?(\d+\.?\d*|\.\d+)$/\<close>\<close>

definition is_plain_decimal :: "string \<Rightarrow> bool" where
  "is_plain_decimal s =
     (let u = snd (split_sign s); ip = takeWhile is_digit u; r = dropWhile is_digit u in
      if ip \<noteq> [] then (case r of [] \<Rightarrow> True | c # t \<Rightarrow> c = CHR ''.'' \<and> list_all is_digit t)
      else (case r of [] \<Rightarrow> False | c # t \<Rightarrow> c = CHR ''.'' \<and> t \<noteq> [] \<and> list_all is_digit t))"

definition dec :: "string \<Rightarrow> rat" where
  "dec s = (let (neg, u) = split_sign s in
     case decimal_val u of None \<Rightarrow> 0 | Some q \<Rightarrow> if neg then - q else q)"

text \<open>\<open>bcnum\<close>: blank or non-numeric text is 0, otherwise the exact decimal.\<close>

definition bcnum_stake :: "cell \<Rightarrow> rat" where
  "bcnum_stake v =
     (let s = (case v of CStr x \<Rightarrow> trim x | _ \<Rightarrow> ''0'') in
      if s = [] \<or> \<not> is_plain_decimal s then 0 else dec s)"

section \<open>The predicate\<close>

datatype stake_err = Truncated | BlankSource | MissingWeight | NonnumericWeight | NegativeWeight

fun totalStake_loop :: "stake_row list \<Rightarrow> (string \<times> string) list \<Rightarrow> stake_err + (string \<times> string) list" where
  "totalStake_loop [] w = Inr w"
| "totalStake_loop (v # vs) w =
     (if blank_source v then Inl BlankSource
      else let src = cell_string (s_source v) in
        if map_of w src \<noteq> None then totalStake_loop vs w
        else (case s_weight v of
            CStr x \<Rightarrow>
              if trim x = [] \<or> \<not> is_plain_decimal (trim x) then Inl NonnumericWeight
              else totalStake_loop vs (js_put src (trim x) w)
          | _ \<Rightarrow> Inl MissingWeight))"

fun totalStake_sum :: "(rat \<Rightarrow> rat) \<Rightarrow> rat \<Rightarrow> string list \<Rightarrow> stake_err + rat" where
  "totalStake_sum rnd S [] = Inr S"
| "totalStake_sum rnd S (x # xs) =
     (let bw = bcnum_stake (CStr x) in
      if bw < 0 then Inl NegativeWeight else totalStake_sum rnd (rnd (S + bw)) xs)"

definition totalStake :: "(rat \<Rightarrow> rat) \<Rightarrow> stake_set \<Rightarrow> stake_err + rat" where
  "totalStake rnd vs =
     (if stake_truncated vs then Inl Truncated
      else (case totalStake_loop (stake_rows vs) [] of
          Inl e \<Rightarrow> Inl e
        | Inr w \<Rightarrow> totalStake_sum rnd 0 (map snd w)))"

fun indexStakeSources ::
  "stake_row list \<Rightarrow> (string \<times> string) list \<Rightarrow> (string \<times> string) list
    \<Rightarrow> ((string \<times> string) list \<times> (string \<times> string) list) option" where
  "indexStakeSources [] w p = Some (w, p)"
| "indexStakeSources (v # vs) w p =
     (if blank_source v then None
      else let src = cell_string (s_source v);
               p' = js_put (to_lower (cell_string (s_pubkey v))) src p in
        if map_of w src \<noteq> None then indexStakeSources vs w p'
        else (case s_weight v of
            CStr x \<Rightarrow>
              if trim x = [] \<or> \<not> is_plain_decimal (trim x) then None
              else indexStakeSources vs (js_put src (trim x) w) p'
          | _ \<Rightarrow> None))"

fun sumStakeWeights_loop :: "(rat \<Rightarrow> rat) \<Rightarrow> rat \<Rightarrow> string list \<Rightarrow> rat option" where
  "sumStakeWeights_loop rnd S [] = Some S"
| "sumStakeWeights_loop rnd S (x # xs) =
     (let bw = bcnum_stake (CStr x) in
      if bw < 0 then None else sumStakeWeights_loop rnd (rnd (S + bw)) xs)"

definition sumStakeWeights :: "(rat \<Rightarrow> rat) \<Rightarrow> (string \<times> string) list \<Rightarrow> rat option" where
  "sumStakeWeights rnd w =
     (case sumStakeWeights_loop rnd 0 (map snd w) of
        None \<Rightarrow> None
      | Some S \<Rightarrow> if S \<le> 0 then None else Some S)"

fun sumSignerStake_loop ::
  "(rat \<Rightarrow> rat) \<Rightarrow> (string \<times> string) list \<Rightarrow> (string \<times> string) list
    \<Rightarrow> string list \<Rightarrow> string list \<Rightarrow> rat \<Rightarrow> string list \<Rightarrow> rat" where
  "sumSignerStake_loop rnd w p counted seen tally [] = tally"
| "sumSignerStake_loop rnd w p counted seen tally (pk # pks) =
     (let lpk = to_lower pk in
      if lpk \<in> set seen then sumSignerStake_loop rnd w p counted seen tally pks
      else let seen' = js_add lpk seen in
        (case map_of p lpk of
           None \<Rightarrow> sumSignerStake_loop rnd w p counted seen' tally pks
         | Some src \<Rightarrow>
             if src \<in> set counted then sumSignerStake_loop rnd w p counted seen' tally pks
             else sumSignerStake_loop rnd w p (js_add src counted) seen'
               (rnd (tally + bcnum_stake (case map_of w src of None \<Rightarrow> CUndef | Some x \<Rightarrow> CStr x))) pks))"

definition sumSignerStake ::
  "(rat \<Rightarrow> rat) \<Rightarrow> (string \<times> string) list \<Rightarrow> (string \<times> string) list \<Rightarrow> string list \<Rightarrow> rat" where
  "sumSignerStake rnd w p signers = sumSignerStake_loop rnd w p [] [] 0 signers"

definition meetsStakeThreshold :: "(rat \<Rightarrow> rat) \<Rightarrow> stake_set \<Rightarrow> string list \<Rightarrow> bool" where
  "meetsStakeThreshold rnd validators signers =
     (if stake_truncated validators then False
      else (case indexStakeSources (stake_rows validators) [] [] of
          None \<Rightarrow> False
        | Some (w, p) \<Rightarrow>
            (case sumStakeWeights rnd w of
               None \<Rightarrow> False
             | Some S \<Rightarrow> rnd (2 * S) < rnd (3 * sumSignerStake rnd w p signers))))"

text \<open>\<open>computeQuorumMargin\<close>: whether the quorum that finalized a round survives the loss of any one signer (count) or signing source (stake).\<close>

record margin_result =
  m_stake_mode :: bool
  m_met :: bool
  m_oneFaultTolerant :: bool
  m_signers :: nat
  m_quorum :: "int option"

definition signer_source :: "stake_row list \<Rightarrow> string \<Rightarrow> cell option" where
  "signer_source rows pk =
     map_of (rev (map (\<lambda>v. (to_lower (cell_string (s_pubkey v)), s_source v)) rows)) (to_lower pk)"

definition computeQuorumMargin ::
  "(rat \<Rightarrow> rat) \<Rightarrow> bool \<Rightarrow> stake_set \<Rightarrow> string list \<Rightarrow> margin_result" where
  "computeQuorumMargin rnd weighted validators signers0 =
     (let signers = js_set_of signers0 in
      if weighted then
        (let met = meetsStakeThreshold rnd validators signers;
             sources = js_set_of (map (signer_source (stake_rows validators)) signers);
             tolerant = list_all (\<lambda>src. meetsStakeThreshold rnd validators
                (filter (\<lambda>pk. signer_source (stake_rows validators) pk \<noteq> src) signers)) sources
         in \<lparr>m_stake_mode = True, m_met = met, m_oneFaultTolerant = met \<and> tolerant,
             m_signers = length signers, m_quorum = None\<rparr>)
      else
        (let quorum = bftQuorumOrSingle (int (length (stake_rows validators))) 1;
             met = quorum \<le> int (length signers)
         in \<lparr>m_stake_mode = False, m_met = met,
             m_oneFaultTolerant = met \<and> quorum \<le> int (length signers) - 1,
             m_signers = length signers, m_quorum = Some quorum\<rparr>))"

section \<open>What the arithmetic library promises\<close>

text \<open>A result that fits in 64 significant decimal digits is returned as it is.\<close>

definition bn64 :: "(rat \<Rightarrow> rat) \<Rightarrow> bool" where
  "bn64 rnd \<longleftrightarrow> (\<forall>m e. \<bar>m\<bar> < 10 ^ 64 \<longrightarrow> rnd (of_int m * pow10 e) = of_int m * pow10 e)"

text \<open>Stake amounts carry at most 18 decimals and stay below \<open>10 ^ 46\<close> in sum.\<close>

definition on_grid :: "rat \<Rightarrow> bool" where
  "on_grid x \<longleftrightarrow> int_valued (x * 10 ^ 18)"

lemma on_gridE:
  assumes "on_grid x"
  obtains k where "x = of_int k / 10 ^ 18"
proof -
  obtain k where "x * 10 ^ 18 = of_int k"
    using assms unfolding on_grid_def by (rule int_valuedE)
  then show ?thesis by (intro that [of k]) (simp add: field_simps)
qed

lemma on_grid_add [intro]: "on_grid x \<Longrightarrow> on_grid y \<Longrightarrow> on_grid (x + y)"
  by (elim on_gridE) (simp add: on_grid_def int_valued_def flip: of_int_add add_divide_distrib)

lemma on_grid_0 [simp]: "on_grid 0"
  by (simp add: on_grid_def)

lemma on_grid_mult_nat [intro]: "on_grid x \<Longrightarrow> on_grid (of_nat n * x)"
  by (induction n) (auto simp: algebra_simps)

lemma bn64_exact:
  assumes "bn64 rnd" and "on_grid x" and "0 \<le> x" and "x < 10 ^ 46"
  shows "rnd x = x"
proof -
  obtain k where k: "x = of_int k / 10 ^ 18" using assms(2) by (rule on_gridE)
  have eq: "x = of_int k * pow10 (- 18)"
    by (simp add: k pow10_def)
  have "of_int k < (10 ^ 64 :: rat)" "0 \<le> (of_int k :: rat)"
    using assms(3,4) by (simp_all add: k field_simps)
  then have "\<bar>k\<bar> < 10 ^ 64"
    by (metis abs_of_nonneg of_int_0_le_iff of_int_less_iff of_int_numeral of_int_power)
  then show ?thesis
    using assms(1) unfolding bn64_def by (metis eq)
qed

section \<open>The specification: a mass on sources\<close>

definition stake_val :: "(string \<times> string) list \<Rightarrow> string \<Rightarrow> rat" where
  "stake_val w s = (case map_of w s of None \<Rightarrow> 0 | Some x \<Rightarrow> bcnum_stake (CStr x))"

definition stake_mass :: "(string \<times> string) list \<Rightarrow> string set \<Rightarrow> rat" where
  "stake_mass w A = (\<Sum>s \<in> A. stake_val w s)"

definition sources :: "(string \<times> string) list \<Rightarrow> string set" where
  "sources w = set (js_keys w)"

definition signed_sources :: "(string \<times> string) list \<Rightarrow> string list \<Rightarrow> string set" where
  "signed_sources p pks = {s. \<exists>pk \<in> set pks. map_of p (to_lower pk) = Some s}"

definition stake_nonneg :: "(string \<times> string) list \<Rightarrow> bool" where
  "stake_nonneg w \<longleftrightarrow> (\<forall>x \<in> set (map snd w). 0 \<le> bcnum_stake (CStr x))"

definition weights_in_range :: "(string \<times> string) list \<Rightarrow> bool" where
  "weights_in_range w \<longleftrightarrow> (\<forall>x \<in> set (map snd w). on_grid (bcnum_stake (CStr x))) \<and>
     3 * sum_list (map (\<lambda>x. \<bar>bcnum_stake (CStr x)\<bar>) (map snd w)) < 10 ^ 46"

definition stake_range :: "stake_set \<Rightarrow> bool" where
  "stake_range V = (case indexStakeSources (stake_rows V) [] [] of
      None \<Rightarrow> True | Some (w, p) \<Rightarrow> weights_in_range w)"

lemma finite_sources [simp]: "finite (sources w)"
  by (simp add: sources_def)

lemma sources_map_of: "s \<in> sources w \<longleftrightarrow> map_of w s \<noteq> None"
  by (simp add: sources_def js.get_dom)

lemma stake_val_mem:
  "s \<in> sources w \<Longrightarrow> \<exists>x \<in> set (map snd w). stake_val w s = bcnum_stake (CStr x)"
  by (force simp: sources_map_of stake_val_def dest: map_of_SomeD)

lemma stake_val_nonneg: "stake_nonneg w \<Longrightarrow> 0 \<le> stake_val w s"
  by (cases "s \<in> sources w")
     (auto simp: stake_nonneg_def stake_val_def sources_map_of dest!: map_of_SomeD split: option.splits)

lemma stake_mass_mono: "stake_nonneg w \<Longrightarrow> A \<subseteq> B \<Longrightarrow> finite B \<Longrightarrow> stake_mass w A \<le> stake_mass w B"
  unfolding stake_mass_def by (intro sum_mono2) (auto simp: stake_val_nonneg)

lemma stake_mass_nonneg: "stake_nonneg w \<Longrightarrow> 0 \<le> stake_mass w A"
  unfolding stake_mass_def by (intro sum_nonneg) (simp add: stake_val_nonneg)

lemma stake_mass_insert:
  "finite A \<Longrightarrow> s \<notin> A \<Longrightarrow> stake_mass w (insert s A) = stake_val w s + stake_mass w A"
  by (simp add: stake_mass_def)

lemma stake_mass_alist:
  assumes "distinct (map fst w)"
  shows "sum_list (map (\<lambda>x. bcnum_stake (CStr x)) (map snd w)) = stake_mass w (sources w)"
proof -
  have "sum_list (map (\<lambda>x. bcnum_stake (CStr x)) (map snd w)) = sum_list (map (stake_val w) (map fst w))"
    unfolding map_map by (intro arg_cong [of _ _ sum_list] map_cong)
      (use assms in \<open>auto simp: stake_val_def\<close>)
  also have "\<dots> = stake_mass w (sources w)"
    using sum_list_distinct_conv_sum_set [OF assms, of "stake_val w"]
    by (simp add: stake_mass_def sources_def js_keys_def)
  finally show ?thesis .
qed

text \<open>The loops of the source, in terms of the specification.\<close>

lemma ran_js_put: "ran (map_of (js_put k v m)) \<subseteq> insert v (ran (map_of m))"
  by (auto simp: ran_def js_map_simps split: if_splits)

lemma indexStakeSources_inv:
  assumes "indexStakeSources rows w p = Some (w', p')"
    and "distinct (map fst w)" and "ran (map_of p) \<subseteq> sources w"
  shows "distinct (map fst w') \<and> ran (map_of p') \<subseteq> sources w'"
  using assms
proof (induction rows arbitrary: w p)
  case (Cons v vs)
  let ?src = "cell_string (s_source v)"
  let ?p = "js_put (to_lower (cell_string (s_pubkey v))) ?src p"
  show ?case
  proof (cases "map_of w ?src")
    case None
    with Cons.prems(1) obtain x where
      rec: "indexStakeSources vs (js_put ?src (trim x) w) ?p = Some (w', p')"
      by (auto simp: Let_def split: if_splits cell.splits)
    have "ran (map_of ?p) \<subseteq> sources (js_put ?src (trim x) w)"
      using ran_js_put [of "to_lower (cell_string (s_pubkey v))" ?src p] Cons.prems(3)
      by (auto simp: sources_def js.put_keys)
    then show ?thesis
      using Cons.IH [OF rec] Cons.prems(2) by (simp add: js_put_ok)
  next
    case (Some y)
    with Cons.prems(1) have rec: "indexStakeSources vs w ?p = Some (w', p')"
      by (auto simp: Let_def split: if_splits)
    have "ran (map_of ?p) \<subseteq> sources w"
      using ran_js_put [of "to_lower (cell_string (s_pubkey v))" ?src p] Cons.prems(3) Some
      by (auto simp: sources_map_of)
    then show ?thesis
      using Cons.IH [OF rec] Cons.prems(2) by simp
  qed
qed simp

lemma sumStakeWeights_loop_eq:
  assumes "bn64 rnd" and "0 \<le> S" and "on_grid S" and "\<forall>x \<in> set xs. on_grid (bcnum_stake (CStr x))"
    and "S + sum_list (map (\<lambda>x. \<bar>bcnum_stake (CStr x)\<bar>) xs) < 10 ^ 46"
  shows "sumStakeWeights_loop rnd S xs =
    (if \<forall>x \<in> set xs. 0 \<le> bcnum_stake (CStr x)
     then Some (S + sum_list (map (\<lambda>x. bcnum_stake (CStr x)) xs)) else None)"
  using assms
proof (induction xs arbitrary: S)
  case (Cons x xs)
  let ?b = "bcnum_stake (CStr x)"
  have nn: "0 \<le> sum_list (map (\<lambda>x. \<bar>bcnum_stake (CStr x)\<bar>) xs)"
    by (induction xs) auto
  show ?case
  proof (cases "?b < 0")
    case True
    then show ?thesis by (auto simp: not_le)
  next
    case False
    have r: "rnd (S + ?b) = S + ?b"
      using Cons.prems nn False by (intro bn64_exact) (auto simp: add.assoc)
    have "sumStakeWeights_loop rnd (S + ?b) xs =
        (if \<forall>x \<in> set xs. 0 \<le> bcnum_stake (CStr x)
         then Some (S + ?b + sum_list (map (\<lambda>x. bcnum_stake (CStr x)) xs)) else None)"
      using Cons.prems False by (intro Cons.IH) (auto simp: add.assoc)
    then show ?thesis using False r by (auto simp: Let_def add.assoc)
  qed
qed simp

lemma signed_sources_Cons:
  "signed_sources p [] = {}"
  "signed_sources p (pk # pks) =
     (case map_of p (to_lower pk) of None \<Rightarrow> {} | Some s \<Rightarrow> {s}) \<union> signed_sources p pks"
  by (auto simp: signed_sources_def split: option.splits)

lemma sumSignerStake_loop_eq:
  assumes "bn64 rnd" and "stake_nonneg w" and "distinct (map fst w)" and "\<forall>s \<in> ran (map_of p). s \<in> sources w"
    and "\<forall>s \<in> sources w. on_grid (stake_val w s)" and "stake_mass w (sources w) < 10 ^ 46"
    and "set counted \<subseteq> sources w" and "on_grid tally" and "tally = stake_mass w (set counted)"
    and "\<forall>pk \<in> set seen. \<forall>s. map_of p pk = Some s \<longrightarrow> s \<in> set counted"
  shows "sumSignerStake_loop rnd w p counted seen tally pks =
     stake_mass w (set counted \<union> signed_sources p pks)"
  using assms
proof (induction pks arbitrary: counted seen tally)
  case Nil
  then show ?case by (simp add: signed_sources_def)
next
  case (Cons pk pks)
  let ?l = "to_lower pk"
  note split = signed_sources_Cons(2) [of p pk pks]
  show ?case
  proof (cases "map_of p ?l")
    case None
    then show ?thesis
      using Cons by (auto simp: Let_def split)
  next
    case (Some src)
    have src: "src \<in> sources w"
      using Some Cons.prems(4) by (auto simp: ran_def)
    show ?thesis
    proof (cases "src \<in> set counted")
      case True
      then show ?thesis
        using Some Cons by (auto simp: Let_def split insert_absorb)
    next
      case False
      then have fresh: "?l \<notin> set seen"
        using Some Cons.prems(10) by blast
      let ?t = "tally + stake_val w src"
      have val: "bcnum_stake (case map_of w src of None \<Rightarrow> CUndef | Some x \<Rightarrow> CStr x) = stake_val w src"
        using src by (auto simp: stake_val_def sources_map_of split: option.splits)
      have mass: "?t = stake_mass w (set (js_add src counted))"
        using False Cons.prems(9) by (simp add: stake_mass_insert)
      have "stake_mass w (set (js_add src counted)) \<le> stake_mass w (sources w)"
        using Cons.prems(2,7) src by (intro stake_mass_mono) auto
      moreover have "0 \<le> stake_mass w (set (js_add src counted))"
        by (rule stake_mass_nonneg [OF Cons.prems(2)])
      moreover have grid: "on_grid ?t"
        using Cons.prems(5,8) src by auto
      ultimately have r: "rnd ?t = ?t"
        using Cons.prems(6) mass by (intro bn64_exact [OF Cons.prems(1)]) auto
      have "sumSignerStake_loop rnd w p (js_add src counted) (js_add ?l seen) ?t pks =
          stake_mass w (set (js_add src counted) \<union> signed_sources p pks)"
        using Cons.prems src grid mass Some by (intro Cons.IH) auto
      then show ?thesis
        using Some False fresh r val by (simp add: Let_def split)
    qed
  qed
qed

lemma on_grid_stake_val: "weights_in_range w \<Longrightarrow> s \<in> sources w \<Longrightarrow> on_grid (stake_val w s)"
  using stake_val_mem [of s w] by (auto simp: weights_in_range_def)

lemma sum_list_abs_nonneg:
  "stake_nonneg w \<Longrightarrow> sum_list (map (\<lambda>x. \<bar>bcnum_stake (CStr x)\<bar>) (map snd w)) =
     sum_list (map (\<lambda>x. bcnum_stake (CStr x)) (map snd w))"
  by (intro arg_cong [of _ _ sum_list] map_cong) (auto simp: stake_nonneg_def)

lemma sumStakeWeights_eq:
  assumes "bn64 rnd" and "weights_in_range w" and "distinct (map fst w)"
  shows "sumStakeWeights rnd w =
    (if stake_nonneg w \<and> 0 < stake_mass w (sources w) then Some (stake_mass w (sources w)) else None)"
proof -
  have "0 \<le> sum_list (map (\<lambda>x. \<bar>bcnum_stake (CStr x)\<bar>) (map snd w))"
    by (intro sum_list_nonneg) auto
  then have "sumStakeWeights_loop rnd 0 (map snd w) =
      (if \<forall>x \<in> set (map snd w). 0 \<le> bcnum_stake (CStr x)
       then Some (0 + sum_list (map (\<lambda>x. bcnum_stake (CStr x)) (map snd w))) else None)"
    using assms(1,2) by (intro sumStakeWeights_loop_eq) (auto simp: weights_in_range_def)
  then show ?thesis
    by (auto simp: sumStakeWeights_def stake_nonneg_def not_le simp flip: stake_mass_alist [OF assms(3)])
qed

lemma signed_sources_subset:
  "\<forall>s \<in> ran (map_of p). s \<in> sources w \<Longrightarrow> signed_sources p pks \<subseteq> sources w"
  by (auto simp: signed_sources_def ran_def)

lemma sumSignerStake_eq:
  assumes "bn64 rnd" and "weights_in_range w" and "stake_nonneg w" and "distinct (map fst w)"
    and "\<forall>s \<in> ran (map_of p). s \<in> sources w"
  shows "sumSignerStake rnd w p pks = stake_mass w (signed_sources p pks)"
proof -
  have "3 * stake_mass w (sources w) < 10 ^ 46"
    using assms(2-4) by (simp add: weights_in_range_def sum_list_abs_nonneg stake_mass_alist del: map_map)
  moreover have "0 \<le> stake_mass w (sources w)"
    by (rule stake_mass_nonneg [OF assms(3)])
  ultimately have "stake_mass w (sources w) < 10 ^ 46" by linarith
  then show ?thesis
    unfolding sumSignerStake_def using assms
    by (subst sumSignerStake_loop_eq) (auto simp: on_grid_stake_val stake_mass_def)
qed

lemma on_grid_mass: "weights_in_range w \<Longrightarrow> A \<subseteq> sources w \<Longrightarrow> on_grid (stake_mass w A)"
proof -
  assume r: "weights_in_range w" and A: "A \<subseteq> sources w"
  then have "finite A" using finite_subset finite_sources by blast
  then show ?thesis
    using A by (induction A rule: finite_induct)
      (auto simp: stake_mass_insert on_grid_stake_val [OF r] stake_mass_def [of w "{}"])
qed

section \<open>The predicate meets its specification\<close>

text \<open>The staking sources of a snapshot, the stake behind a set of them, and the sources a set of signing keys stands for.\<close>

definition stake_sources :: "stake_set \<Rightarrow> string set" where
  "stake_sources V = (case indexStakeSources (stake_rows V) [] [] of
     None \<Rightarrow> {} | Some (w, p) \<Rightarrow> sources w)"

definition stake_behind :: "stake_set \<Rightarrow> string set \<Rightarrow> rat" where
  "stake_behind V A = (case indexStakeSources (stake_rows V) [] [] of
     None \<Rightarrow> 0 | Some (w, p) \<Rightarrow> stake_mass w A)"

definition stake_backing :: "stake_set \<Rightarrow> string list \<Rightarrow> string set" where
  "stake_backing V signers = (case indexStakeSources (stake_rows V) [] [] of
     None \<Rightarrow> {} | Some (w, p) \<Rightarrow> signed_sources p signers)"

definition stake_wellformed :: "stake_set \<Rightarrow> bool" where
  "stake_wellformed V \<longleftrightarrow> \<not> stake_truncated V \<and>
     (case indexStakeSources (stake_rows V) [] [] of None \<Rightarrow> False | Some (w, p) \<Rightarrow> stake_nonneg w)"

lemma stake_index_inv:
  assumes "indexStakeSources (stake_rows V) [] [] = Some (w, p)"
  shows "distinct (map fst w)" and "\<forall>s \<in> ran (map_of p). s \<in> sources w"
  using indexStakeSources_inv [OF assms] by auto

lemma meetsStakeThreshold_iff:
  assumes "bn64 rnd" and "stake_range V"
  shows "meetsStakeThreshold rnd V signers \<longleftrightarrow>
    stake_wellformed V \<and> 0 < stake_behind V (stake_sources V) \<and>
    2 * stake_behind V (stake_sources V) < 3 * stake_behind V (stake_backing V signers)"
proof (cases "stake_truncated V \<or> indexStakeSources (stake_rows V) [] [] = None")
  case True
  then show ?thesis by (auto simp: meetsStakeThreshold_def stake_wellformed_def)
next
  case False
  then obtain w p where idx: "indexStakeSources (stake_rows V) [] [] = Some (w, p)" by auto
  have inv: "distinct (map fst w)" "\<forall>s \<in> ran (map_of p). s \<in> sources w"
    using stake_index_inv [OF idx] by auto
  have range: "weights_in_range w" using assms(2) idx by (simp add: stake_range_def)
  let ?S = "stake_mass w (sources w)" and ?T = "stake_mass w (signed_sources p signers)"
  have exact: "rnd (2 * ?S) = 2 * ?S \<and> rnd (3 * ?T) = 3 * ?T" if nn: "stake_nonneg w"
  proof -
    have S: "3 * ?S < 10 ^ 46"
      using range nn inv(1) by (simp add: weights_in_range_def sum_list_abs_nonneg stake_mass_alist del: map_map)
    have T: "0 \<le> ?T" "?T \<le> ?S"
      using nn signed_sources_subset [OF inv(2), of signers]
      by (auto intro!: stake_mass_mono stake_mass_nonneg)
    have "on_grid ?S" "on_grid ?T"
      using range signed_sources_subset [OF inv(2)] by (auto intro: on_grid_mass)
    then have "on_grid (2 * ?S)" "on_grid (3 * ?T)"
      using on_grid_mult_nat [of ?S 2] on_grid_mult_nat [of ?T 3] by simp_all
    then show ?thesis
      using S T by (intro conjI bn64_exact [OF assms(1)]) auto
  qed
  show ?thesis
    using False exact
    by (auto simp: meetsStakeThreshold_def idx sumStakeWeights_eq [OF assms(1) range inv(1)]
        sumSignerStake_eq [OF assms(1) range _ inv] stake_wellformed_def stake_sources_def
        stake_behind_def stake_backing_def)
qed

text \<open>A predicate that promises more than two thirds of a mass: what its clients may conclude from two of them.\<close>

locale supermajority =
  fixes meets :: "'v \<Rightarrow> 'k \<Rightarrow> bool"
    and mass :: "'v \<Rightarrow> 's set \<Rightarrow> rat"
    and universe :: "'v \<Rightarrow> 's set"
    and backing :: "'v \<Rightarrow> 'k \<Rightarrow> 's set"
  assumes two_thirds: "meets v k \<Longrightarrow> 2 * mass v (universe v) < 3 * mass v (backing v k)"
    and inside: "backing v k \<subseteq> universe v"
    and mass_mono: "meets v k \<Longrightarrow> A \<subseteq> B \<Longrightarrow> B \<subseteq> universe v \<Longrightarrow> mass v A \<le> mass v B"
    and mass_split: "A \<subseteq> universe v \<Longrightarrow> B \<subseteq> universe v \<Longrightarrow>
        mass v A + mass v B = mass v (A \<union> B) + mass v (A \<inter> B)"
begin

lemma overlap:
  assumes "meets v k" and "meets v l"
  shows "mass v (universe v) < 3 * mass v (backing v k \<inter> backing v l)"
proof -
  have "mass v (backing v k) + mass v (backing v l) =
      mass v (backing v k \<union> backing v l) + mass v (backing v k \<inter> backing v l)"
    by (intro mass_split inside)
  moreover have "mass v (backing v k \<union> backing v l) \<le> mass v (universe v)"
    using inside by (intro mass_mono [OF assms(1)]) auto
  ultimately show ?thesis
    using two_thirds [OF assms(1)] two_thirds [OF assms(2)] by linarith
qed

lemma common_outside:
  assumes "meets v k" and "meets v l" and "F \<subseteq> universe v" and "3 * mass v F \<le> mass v (universe v)"
  shows "\<exists>s. s \<in> backing v k \<and> s \<in> backing v l \<and> s \<notin> F"
proof (rule ccontr)
  assume "\<not> ?thesis"
  then have "mass v (backing v k \<inter> backing v l) \<le> mass v F"
    using assms(3) by (intro mass_mono [OF assms(1)]) auto
  then show False using overlap [OF assms(1,2)] assms(4) by linarith
qed

lemma more_backing:
  assumes "meets v k" and "backing v k \<subseteq> backing v l"
  shows "2 * mass v (universe v) < 3 * mass v (backing v l)"
  using two_thirds [OF assms(1)] mass_mono [OF assms(1,2) inside] by linarith

end

lemma stake_behind_mono:
  assumes "stake_wellformed V" and "A \<subseteq> B" and "B \<subseteq> stake_sources V"
  shows "stake_behind V A \<le> stake_behind V B"
proof -
  obtain w p where idx: "indexStakeSources (stake_rows V) [] [] = Some (w, p)" "stake_nonneg w"
    using assms(1) by (auto simp: stake_wellformed_def split: option.splits)
  moreover have "finite B"
    using assms(3) idx(1) finite_subset [OF _ finite_sources] by (auto simp: stake_sources_def)
  ultimately show ?thesis
    using assms(2) by (auto simp: stake_behind_def intro: stake_mass_mono)
qed

interpretation stake: supermajority
  "\<lambda>(rnd, V) signers. bn64 rnd \<and> stake_range V \<and> meetsStakeThreshold rnd V signers"
  "\<lambda>(rnd, V). stake_behind V" "\<lambda>(rnd, V). stake_sources V" "\<lambda>(rnd, V). stake_backing V"
proof (unfold_locales, goal_cases)
  case (1 v k)
  then show ?case by (auto simp: meetsStakeThreshold_iff)
next
  case (2 v k)
  show ?case
    by (cases v) (auto simp: stake_backing_def stake_sources_def split: option.splits
        dest!: stake_index_inv(2) dest: signed_sources_subset)
next
  case (3 v k A B)
  then show ?case by (auto simp: meetsStakeThreshold_iff intro: stake_behind_mono)
next
  case (4 A v B)
  have "finite A" "finite B"
    using 4 by (auto simp: stake_sources_def split: option.splits prod.splits
        intro: finite_subset [OF _ finite_sources])
  then show ?case
    by (cases v) (auto simp: stake_behind_def stake_mass_def sum.union_inter split: option.splits)
qed

lemma stake_backing_mono: "set A \<subseteq> set B \<Longrightarrow> stake_backing V A \<subseteq> stake_backing V B"
  by (auto simp: stake_backing_def signed_sources_def split: option.splits)










text \<open>A small federation: one source with two keys and two thirds of the stake less one unit, two others.\<close>

definition sample_stakes :: stake_set where
  "sample_stakes = \<lparr>stake_rows =
     [\<lparr>s_pubkey = CStr ''AA'', s_source = CStr ''s1'', s_weight = CStr ''500.5''\<rparr>,
      \<lparr>s_pubkey = CStr ''a2'', s_source = CStr ''s1'', s_weight = CStr ''500.5''\<rparr>,
      \<lparr>s_pubkey = CStr ''bb'', s_source = CStr ''s2'', s_weight = CStr ''250''\<rparr>,
      \<lparr>s_pubkey = CStr ''cc'', s_source = CStr ''s3'', s_weight = CStr ''249.5''\<rparr>],
     stake_truncated = False\<rparr>"

lemma bn64_id: "bn64 (\<lambda>x. x)"
  by (simp add: bn64_def)

lemma sample_weights:
  "bcnum_stake (CStr ''500.5'') = 1001 / 2" "bcnum_stake (CStr ''250'') = 250"
  "bcnum_stake (CStr ''249.5'') = 499 / 2"
  by (simp_all add: bcnum_stake_def is_plain_decimal_def dec_def text_eval)

lemma sample_index:
  "indexStakeSources (stake_rows sample_stakes) [] [] =
     Some ([(''s1'', ''500.5''), (''s2'', ''250''), (''s3'', ''249.5'')],
       [(''aa'', ''s1''), (''a2'', ''s1''), (''bb'', ''s2''), (''cc'', ''s3'')])"
  by (simp add: sample_stakes_def blank_source_def is_plain_decimal_def text_eval)

lemma sample_stake_range: "stake_range sample_stakes"
  by (simp add: stake_range_def sample_index weights_in_range_def sample_weights on_grid_def int_valued_def)

lemma sample_not_truncated: "\<not> stake_truncated sample_stakes"
  by (simp add: sample_stakes_def)

lemmas sample_eval = sample_index sample_not_truncated sample_weights stake_wellformed_def stake_behind_def
  stake_sources_def stake_backing_def sources_def js_keys_def stake_mass_def stake_val_def stake_nonneg_def
  signed_sources_Cons text_eval

lemma sample_meets:
  "meetsStakeThreshold (\<lambda>x. x) sample_stakes signers \<longleftrightarrow>
     2000 < 3 * stake_behind sample_stakes (stake_backing sample_stakes signers)"
  by (simp add: meetsStakeThreshold_iff [OF bn64_id sample_stake_range] sample_eval)


section \<open>Properties\<close>

text \<open>
  C4: for stake amounts of at most 18 decimals in the library's exact range, the predicate
  accepts exactly when the snapshot is well formed (not truncated, every source named, every
  source's weight a decimal and not negative), the total stake is positive, and the distinct sources
  of the signers hold strictly more than two thirds of it.
\<close>

theorem meetsStakeThreshold_spec:
  assumes "bn64 rnd" and "stake_range V"
  shows "meetsStakeThreshold rnd V signers \<longleftrightarrow>
    stake_wellformed V \<and> 0 < stake_behind V (stake_sources V) \<and>
    2 * stake_behind V (stake_sources V) < 3 * stake_behind V (stake_backing V signers)"
  using assms by (rule meetsStakeThreshold_iff)

theorem meetsStakeThreshold_spec_witness:
  "meetsStakeThreshold (\<lambda>x. x) sample_stakes [''AA'', ''bb'', ''aa''] \<longleftrightarrow>
    stake_wellformed sample_stakes \<and> 0 < stake_behind sample_stakes (stake_sources sample_stakes) \<and>
    2 * stake_behind sample_stakes (stake_sources sample_stakes)
      < 3 * stake_behind sample_stakes (stake_backing sample_stakes [''AA'', ''bb'', ''aa''])"
  by (rule meetsStakeThreshold_spec [OF bn64_id sample_stake_range])

text \<open>
  C3: two signer sets that both pass the predicate share staking sources holding more than a
  third of the stake; so whenever faulty sources hold at most a third, the two sets have a
  common source that is not faulty.
\<close>

theorem stake_quorums_share_honest:
  assumes "bn64 rnd" and "stake_range V"
    and "meetsStakeThreshold rnd V A" and "meetsStakeThreshold rnd V B"
    and "F \<subseteq> stake_sources V" and "3 * stake_behind V F \<le> stake_behind V (stake_sources V)"
  shows "\<exists>s. s \<in> stake_backing V A \<and> s \<in> stake_backing V B \<and> s \<notin> F"
  using stake.common_outside [of "(rnd, V)" A B F] assms by simp

theorem stake_quorums_share_honest_witness:
  "\<exists>s. s \<in> stake_backing sample_stakes [''aa'', ''bb''] \<and>
       s \<in> stake_backing sample_stakes [''aa'', ''cc''] \<and> s \<notin> {}"
proof (rule stake_quorums_share_honest [OF bn64_id sample_stake_range])
  show "meetsStakeThreshold (\<lambda>x. x) sample_stakes [''aa'', ''bb'']"
    by (simp add: sample_meets) (simp add: sample_eval)
  show "meetsStakeThreshold (\<lambda>x. x) sample_stakes [''aa'', ''cc'']"
    by (simp add: sample_meets) (simp add: sample_eval)
  show "3 * stake_behind sample_stakes {} \<le> stake_behind sample_stakes (stake_sources sample_stakes)"
    by (simp add: sample_eval)
qed simp



text \<open>
  more signatures never lose a stake quorum.
\<close>

theorem meetsStakeThreshold_mono:
  assumes "bn64 rnd" and "stake_range V" and "meetsStakeThreshold rnd V A" and "set A \<subseteq> set B"
  shows "meetsStakeThreshold rnd V B"
  using stake.more_backing [of "(rnd, V)" A B] stake_backing_mono [OF assms(4), of V] assms
  by (simp add: meetsStakeThreshold_iff)

theorem meetsStakeThreshold_mono_witness:
  "meetsStakeThreshold (\<lambda>x. x) sample_stakes [''bb'', ''zz'', ''aa'']"
proof (rule meetsStakeThreshold_mono [OF bn64_id sample_stake_range, of "[''aa'', ''bb'']"])
  show "meetsStakeThreshold (\<lambda>x. x) sample_stakes [''aa'', ''bb'']"
    by (simp add: sample_meets) (simp add: sample_eval)
qed simp

end
