(* ===== verification/Membership.thy ===== *)
theory Membership
  imports Gate_Registry Stake_Quorum
begin

text \<open>
  Who counts: the vote-admission rule keyed on the proven signing key
  (\<open>src/lib/chain_signer_admission.js\<close>), the canonical order of a validator set
  (\<open>src/rollcall/validator_order.js\<close>), the quorum and membership of a locked snapshot
  (\<open>src/validators/capability_snapshot/quorum.js\<close>) and the test whether a hub is part of a
  federation (\<open>src/consensus/federation.js\<close>).
\<close>

section \<open>Vote admission\<close>

text \<open>
  What the peer manager holds: the validator registry (address to public key, or null when
  it never loaded) and the chain-effective signer set (or null).
\<close>

record peer_auth =
  registry_map :: "(string \<times> string) list option"
  chain_set :: "string list option"

definition provenPubkey :: "jsval \<Rightarrow> string option" where
  "provenPubkey sig_pubkey = (case sig_pubkey of
     JStr s \<Rightarrow> if s = [] then None else Some (to_lower s)
   | _ \<Rightarrow> None)"

definition registryHasPubkey :: "(string \<times> string) list \<Rightarrow> string \<Rightarrow> bool" where
  "registryHasPubkey registry pk = list_ex (\<lambda>(addr, v). v \<noteq> [] \<and> to_lower v = pk) registry"

definition isAdmissibleSigner :: "peer_auth \<Rightarrow> jsval \<Rightarrow> bool" where
  "isAdmissibleSigner pm sig_pubkey =
     (case registry_map pm of
        None \<Rightarrow> False
      | Some registry \<Rightarrow>
          (case provenPubkey sig_pubkey of
             None \<Rightarrow> False
           | Some pk \<Rightarrow>
               if (case chain_set pm of None \<Rightarrow> False | Some cs \<Rightarrow> pk \<in> set cs) then True
               else if registryHasPubkey registry pk then True
               else if registry = [] then \<not> (case chain_set pm of None \<Rightarrow> False | Some cs \<Rightarrow> cs \<noteq> [])
               else False))"

section \<open>Validator order\<close>

record validator =
  v_addr :: cell
  v_pubkey :: cell

text \<open>A missing or null field sorts as the empty text.\<close>

fun order_text :: "cell \<Rightarrow> string" where
  "order_text (CStr s) = s"
| "order_text _ = []"

definition order_key :: "validator \<Rightarrow> string \<times> string" where
  "order_key v = (to_lower (order_text (v_pubkey v)), order_text (v_addr v))"

definition canonicalValidatorOrder :: "validator list \<Rightarrow> validator list" where
  "canonicalValidatorOrder vs = sort_key order_key vs"

section \<open>Locked snapshots\<close>

record snapshot =
  sn_validators :: "stake_row list option"
  sn_count :: jsval
  sn_truncated :: bool

text \<open>\<open>Number(snapshot.count)\<close> when it is a sane integer, else the size of the set itself.\<close>

definition snapshot_N :: "snapshot \<Rightarrow> int" where
  "snapshot_N s =
     (let fallback = (case sn_validators s of Some vs \<Rightarrow> int (length vs) | None \<Rightarrow> 0) in
      case js_Number (sn_count s) of
        Fin q \<Rightarrow> if int_valued q \<and> 0 \<le> q then \<lfloor>q\<rfloor> else fallback
      | _ \<Rightarrow> fallback)"

definition snapshot_getQuorum :: "snapshot option \<Rightarrow> int" where
  "snapshot_getQuorum so =
     (case so of None \<Rightarrow> 0 | Some s \<Rightarrow> bftQuorumOrSingle (snapshot_N s) 0)"

definition isInSnapshot :: "snapshot option \<Rightarrow> string \<Rightarrow> bool" where
  "isInSnapshot so pubkey =
     (case so of
        None \<Rightarrow> False
      | Some s \<Rightarrow> pubkey \<noteq> [] \<and>
          (case sn_validators s of
             None \<Rightarrow> False
           | Some vs \<Rightarrow> list_ex (\<lambda>v. to_lower (cell_string (s_pubkey v)) = to_lower pubkey) vs))"

section \<open>Federation\<close>

record signals =
  sig_minValidators :: int
  sig_validators :: nat
  sig_peers :: nat
  sig_seedNodes :: string

definition seedCount :: "string \<Rightarrow> nat" where
  "seedCount seedNodes = length (filter (\<lambda>s. trim s \<noteq> []) (split_on (CHR '','') [] seedNodes))"

definition isFederatedHub :: "signals \<Rightarrow> bool" where
  "isFederatedHub s =
     (if 1 < sig_minValidators s then True
      else if 1 < sig_validators s then True
      else if 0 < sig_peers s then True
      else 0 < seedCount (sig_seedNodes s))"

text \<open>The gate may throw on a missing row; the engines call it with the loaded registry, where the row exists.\<close>

definition gate_true :: "gate_err + bool \<Rightarrow> bool" where
  "gate_true r = (case r of Inl e \<Rightarrow> False | Inr b \<Rightarrow> b)"

definition roundIsFederated :: "registry \<Rightarrow> string \<Rightarrow> int \<Rightarrow> signals \<Rightarrow> clock \<Rightarrow> bool" where
  "roundIsFederated reg network quorum s height =
     (if 0 < quorum then True
      else gate_true (isFederatedHubActive reg network height) \<and> isFederatedHub s)"

record tip_anchor =
  ta_federated :: bool
  ta_tipResolved :: bool
  ta_tipKnown :: bool
  ta_myTip :: jsval

text \<open>
  \<open>tipAnchoredFederation\<close>, the awaited tip being the argument \<open>tip\<close> (null when the hub has
  no resolver or it failed).
\<close>

definition tip_clock :: "jsnum \<Rightarrow> clock" where
  "tip_clock x = (case x of Fin q \<Rightarrow> CNum (if 0 \<le> q then \<lfloor>q\<rfloor> else \<lceil>q\<rceil>) | _ \<Rightarrow> CMissing)"

definition tipAnchoredFederation ::
  "registry \<Rightarrow> string \<Rightarrow> int \<Rightarrow> signals \<Rightarrow> jsval \<Rightarrow> tip_anchor" where
  "tipAnchoredFederation reg network quorum s tip =
     (if 0 < quorum then \<lparr>ta_federated = True, ta_tipResolved = False, ta_tipKnown = False, ta_myTip = JNull\<rparr>
      else if \<not> gate_true (isFederatedHubArmed reg network) \<or> \<not> isFederatedHub s
      then \<lparr>ta_federated = False, ta_tipResolved = False, ta_tipKnown = False, ta_myTip = JNull\<rparr>
      else let known = (tip \<noteq> JNull \<and> tip \<noteq> JUndef \<and> tip \<noteq> JStr [] \<and>
                (case js_Number tip of Fin q \<Rightarrow> True | _ \<Rightarrow> False))
        in \<lparr>ta_federated = (if known
              then gate_true (isFederatedHubActive reg network (tip_clock (js_Number tip))) else True),
            ta_tipResolved = True, ta_tipKnown = known, ta_myTip = tip\<rparr>)"

section \<open>Lemmas\<close>

lemma isAdmissibleSigner_proven:
  "isAdmissibleSigner pm sp \<Longrightarrow> \<exists>pk. provenPubkey sp = Some pk"
  by (auto simp: isAdmissibleSigner_def split: option.splits)

lemma provenPubkey_lower: "provenPubkey sp = Some pk \<Longrightarrow> to_lower pk = pk"
  by (auto simp: provenPubkey_def split: jsval.splits if_splits)

lemma mset_canonicalValidatorOrder: "mset (canonicalValidatorOrder vs) = mset vs"
  by (simp add: canonicalValidatorOrder_def)

lemma set_canonicalValidatorOrder [simp]: "set (canonicalValidatorOrder vs) = set vs"
  by (simp add: canonicalValidatorOrder_def)

lemma length_canonicalValidatorOrder [simp]: "length (canonicalValidatorOrder vs) = length vs"
  by (simp add: canonicalValidatorOrder_def)

lemma canonicalValidatorOrder_keys:
  "map order_key (canonicalValidatorOrder vs) = sort (map order_key vs)"
proof (rule properties_for_sort [symmetric])
  show "mset (map order_key (canonicalValidatorOrder vs)) = mset (map order_key vs)"
    by (simp only: mset_map mset_canonicalValidatorOrder)
  show "sorted (map order_key (canonicalValidatorOrder vs))"
    by (simp add: canonicalValidatorOrder_def)
qed

section \<open>Properties\<close>

text \<open>
  a vote is admitted only on a proven signing key that the chain-effective set or the
  registry attributes; the only other case is the bootstrap window, where both are empty. In particular an
  envelope without a signing key is never admitted, and neither is any envelope while the
  registry has not loaded.
\<close>

theorem isAdmissibleSigner_sound:
  assumes "isAdmissibleSigner pm sp"
  shows "\<exists>registry pk. registry_map pm = Some registry \<and> provenPubkey sp = Some pk \<and>
    ((\<exists>cs. chain_set pm = Some cs \<and> pk \<in> set cs) \<or>
     (\<exists>addr v. (addr, v) \<in> set registry \<and> v \<noteq> [] \<and> to_lower v = pk) \<or>
     (registry = [] \<and> (chain_set pm = None \<or> chain_set pm = Some [])))"
  using assms by (auto simp: isAdmissibleSigner_def registryHasPubkey_def list_ex_iff
      split: option.splits if_splits)

theorem isAdmissibleSigner_sound_witness:
  "\<exists>registry pk. registry_map \<lparr>registry_map = Some [(''hub-a'', ''0A'')], chain_set = Some [''0b'']\<rparr> = Some registry \<and>
    provenPubkey (JStr ''0B'') = Some pk \<and>
    ((\<exists>cs. chain_set \<lparr>registry_map = Some [(''hub-a'', ''0A'')], chain_set = Some [''0b'']\<rparr> = Some cs \<and> pk \<in> set cs) \<or>
     (\<exists>addr v. (addr, v) \<in> set registry \<and> v \<noteq> [] \<and> to_lower v = pk) \<or>
     (registry = [] \<and> (chain_set \<lparr>registry_map = Some [(''hub-a'', ''0A'')], chain_set = Some [''0b'']\<rparr> = None \<or>
       chain_set \<lparr>registry_map = Some [(''hub-a'', ''0A'')], chain_set = Some [''0b'']\<rparr> = Some [])))"
  by (rule isAdmissibleSigner_sound)
     (simp add: isAdmissibleSigner_def provenPubkey_def text_eval)

text \<open>
  the order of a validator set depends on its members only: two hubs that hold the same
  validators in any two orders read the same (lowercased key, address) at every
  index of the canonical order, and the same validator where those pairs are distinct.
\<close>

theorem canonicalValidatorOrder_canonical:
  assumes "mset vs = mset vs'"
  shows "map order_key (canonicalValidatorOrder vs) = map order_key (canonicalValidatorOrder vs') \<and>
    (inj_on order_key (set vs) \<longrightarrow> canonicalValidatorOrder vs = canonicalValidatorOrder vs')"
proof
  have "mset (map order_key vs) = mset (map order_key vs')"
    using assms by (simp only: mset_map)
  then show keys: "map order_key (canonicalValidatorOrder vs) = map order_key (canonicalValidatorOrder vs')"
    unfolding canonicalValidatorOrder_keys by (metis properties_for_sort sorted_sort mset_sort)
  show "inj_on order_key (set vs) \<longrightarrow> canonicalValidatorOrder vs = canonicalValidatorOrder vs'"
    using keys mset_eq_setD [OF assms] by (auto dest: map_inj_on)
qed

theorem canonicalValidatorOrder_canonical_witness:
  "map order_key (canonicalValidatorOrder [\<lparr>v_addr = CStr ''h2'', v_pubkey = CStr ''bb''\<rparr>, \<lparr>v_addr = CStr ''h1'', v_pubkey = CStr ''AA''\<rparr>]) =
   map order_key (canonicalValidatorOrder [\<lparr>v_addr = CStr ''h1'', v_pubkey = CStr ''AA''\<rparr>, \<lparr>v_addr = CStr ''h2'', v_pubkey = CStr ''bb''\<rparr>])"
  using canonicalValidatorOrder_canonical
    [of "[\<lparr>v_addr = CStr ''h2'', v_pubkey = CStr ''bb''\<rparr>, \<lparr>v_addr = CStr ''h1'', v_pubkey = CStr ''AA''\<rparr>]"
        "[\<lparr>v_addr = CStr ''h1'', v_pubkey = CStr ''AA''\<rparr>, \<lparr>v_addr = CStr ''h2'', v_pubkey = CStr ''bb''\<rparr>]"]
  by simp

text \<open>
  whatever the snapshot's \<open>count\<close> field holds (a text, a fraction, nothing), the quorum of a
  snapshot is the count quorum of a size \<open>N\<close> that is the count when it is a sane integer and the size of the set otherwise; it is
  0 exactly when \<open>N \<le> 1\<close>, so a malformed count never opens the single-node bypass for a set of two or more.
\<close>

theorem snapshot_quorum_sane:
  "snapshot_getQuorum (Some s) = bftQuorumOrSingle (snapshot_N s) 0 \<and> 0 \<le> snapshot_N s \<and>
   (snapshot_getQuorum (Some s) = 0 \<longleftrightarrow> snapshot_N s \<le> 1) \<and>
   (\<forall>q. js_Number (sn_count s) = Fin q \<longrightarrow> int_valued q \<longrightarrow> 0 \<le> q \<longrightarrow> of_int (snapshot_N s) = q) \<and>
   ((\<nexists>q. js_Number (sn_count s) = Fin q \<and> int_valued q \<and> 0 \<le> q) \<longrightarrow>
      snapshot_N s = (case sn_validators s of Some vs \<Rightarrow> int (length vs) | None \<Rightarrow> 0))"
proof -
  have N: "0 \<le> snapshot_N s"
    by (auto simp: snapshot_N_def Let_def split: jsnum.splits option.splits)
  have "bftQuorumOrSingle (snapshot_N s) 0 = 0 \<longleftrightarrow> snapshot_N s \<le> 1"
    using bftQuorum_ge2 [of "snapshot_N s"] by (auto simp: bftQuorumOrSingle_def)
  with N show ?thesis
    by (auto simp: snapshot_getQuorum_def snapshot_N_def Let_def int_valued_def split: jsnum.splits)
qed

theorem snapshot_quorum_sane_witness:
  "snapshot_getQuorum (Some \<lparr>sn_validators = Some [], sn_count = JStr ''5'', sn_truncated = False\<rparr>) = 3"
  using snapshot_quorum_sane [of "\<lparr>sn_validators = Some [], sn_count = JStr ''5'', sn_truncated = False\<rparr>"]
  by (simp add: snapshot_N_def text_eval bftQuorumOrSingle_def bftQuorum_def int_valued_def)

text \<open>
  the widened federation test only adds to the legacy one: every hub with a declared
  floor above one or two or more validators is federated, and a round with a live quorum is
  federated whatever the gate says.
\<close>

theorem isFederatedHub_widens:
  "(1 < sig_minValidators s \<or> 1 < sig_validators s \<longrightarrow> isFederatedHub s) \<and>
   (0 < quorum \<longrightarrow> roundIsFederated reg network quorum s height) \<and>
   (roundIsFederated reg network quorum s height \<longrightarrow> 0 < quorum \<or> isFederatedHub s)"
  by (auto simp: isFederatedHub_def roundIsFederated_def)

theorem isFederatedHub_widens_witness:
  "isFederatedHub \<lparr>sig_minValidators = 1, sig_validators = 2, sig_peers = 0, sig_seedNodes = []\<rparr>"
  using isFederatedHub_widens [of "\<lparr>sig_minValidators = 1, sig_validators = 2, sig_peers = 0, sig_seedNodes = []\<rparr>"]
  by simp

end
