(* ===== verification/Pbft_Model.thy ===== *)
theory Pbft_Model
  imports Membership
begin

text \<open>
  The config-change consensus engine (\<open>src/consensus/pbft.js\<close> and \<open>src/consensus/pbft/\<close>):
  its state, its messages, and every handler as a function of the hub it runs on and the
  state. An asynchronous handler is split at its awaits: the part before an await leaves a
  task in the state, and the part after it is a function of the awaited result, so that
  other handlers may run in between. Proposals are objects with identity (timers and
  pending applies keep a reference to one while the map may hold another), so they live in
  a store indexed by number and \<open>pendingProposals\<close> maps a sequence number to an index.
  Broadcasts, applies and promise settlements are recorded in order in an output log.
\<close>

section \<open>Data\<close>

record envelope =
  e_type :: string
  e_sender :: string
  e_sig :: jsval
  d_seq :: jsval
  d_view :: jsval
  d_digest :: jsval
  d_config :: jsval
  d_height :: jsval

text \<open>
  What a handler reads of the hub. The hash over the serialised config, the signature, the
  text of a number and the decimal library's rounding are the runtime's and stand as
  parameters.
\<close>

record hub =
  hub_network :: string
  hub_identity :: "string option"
  hub_addr :: string
  hub_auth :: peer_auth
  hub_openPeers :: nat
  hub_hasSnapshots :: bool
  hub_minValidators :: int
  hub_seeds :: string
  hub_tolerance :: rat
  hub_timeout :: rat
  hub_gates :: registry
  hub_rnd :: "rat \<Rightarrow> rat"
  hub_digest :: "jsval \<Rightarrow> string"
  hub_sign :: "string \<Rightarrow> string"
  hub_show :: "rat \<Rightarrow> string"

record leader =
  ld_addr :: cell
  ld_pubkey :: cell

record proposal =
  p_config :: jsval
  p_digest :: string
  p_view :: rat
  p_prepares :: "string list"
  p_commits :: "string list"
  p_resolved :: bool
  p_applied :: bool
  p_initiator :: bool
  p_quorum :: int
  p_height :: jsval
  p_weighted :: bool
  p_validators :: stake_set
  p_members :: "string list option"
  p_preparePks :: "string list"
  p_commitPks :: "string list"
  p_commitSent :: bool
  p_applying :: bool

record vc_ctx =
  vc_quorum :: int
  vc_weighted :: bool
  vc_validators :: stake_set
  vc_members :: "string list option"

type_synonym equiv_sig = "(string \<times> string) option"

datatype effect =
    BPrePrepare rat rat string jsval jsval bool equiv_sig
  | BPrepare rat string equiv_sig
  | BCommit rat string equiv_sig
  | BViewChange rat rat
  | BNewView rat jsnum
  | ApplyConfig nat jsval
  | ConfigApplied nat jsval
  | ApplyDirect jsval
  | SaveSeq nat rat
  | Resolve nat
  | Reject nat

text \<open>Work a handler left behind an await or a timer.\<close>

datatype task =
    AwaitTip envelope
  | AwaitLock envelope
  | AwaitApply nat rat
  | AwaitSave nat rat
  | Timer nat rat
  | AwaitPropose jsval

record consensus =
  c_seq :: rat
  c_view :: rat
  c_validatorSet :: "validator list"
  c_pending :: "(rat \<times> nat) list"
  c_objs :: "proposal list"
  c_vc :: "(rat \<times> string list) list"
  c_vcPks :: "(rat \<times> string list) list"
  c_vcQuorums :: "(rat \<times> vc_ctx) list"
  c_early :: "(rat \<times> envelope list) list"
  c_earlyTtl :: "(rat \<times> rat) list"
  c_replaying :: "rat option"
  c_lastApplied :: rat
  c_tasks :: "task list"
  c_out :: "effect list"

record locked =
  lk_snapshot :: "snapshot option"
  lk_weighted :: bool
  lk_requested :: jsval
  lk_height :: jsval

definition init_consensus :: consensus where
  "init_consensus = \<lparr>c_seq = 0, c_view = 0, c_validatorSet = [], c_pending = [], c_objs = [],
     c_vc = [], c_vcPks = [], c_vcQuorums = [], c_early = [], c_earlyTtl = [], c_replaying = None,
     c_lastApplied = 0, c_tasks = [], c_out = []\<rparr>"

abbreviation emit :: "effect \<Rightarrow> consensus \<Rightarrow> consensus" where
  "emit x st \<equiv> st\<lparr>c_out := c_out st @ [x]\<rparr>"

abbreviation push_task :: "task \<Rightarrow> consensus \<Rightarrow> consensus" where
  "push_task t st \<equiv> st\<lparr>c_tasks := c_tasks st @ [t]\<rparr>"

definition upd_obj :: "nat \<Rightarrow> (proposal \<Rightarrow> proposal) \<Rightarrow> consensus \<Rightarrow> consensus" where
  "upd_obj pid f st = st\<lparr>c_objs := (c_objs st)[pid := f (c_objs st ! pid)]\<rparr>"

definition get_pending :: "consensus \<Rightarrow> rat \<Rightarrow> nat option" where
  "get_pending st seq = map_of (c_pending st) seq"

text \<open>A wire height as the activation gates parse it.\<close>

definition clock_of :: "jsval \<Rightarrow> clock" where
  "clock_of v = (case v of
      JNum x \<Rightarrow> tip_clock x
    | JStr s \<Rightarrow> CText s
    | _ \<Rightarrow> CMissing)"

definition js_String :: "hub \<Rightarrow> jsval \<Rightarrow> string" where
  "js_String h v = (case v of
      JNum (Fin q) \<Rightarrow> hub_show h q
    | JStr s \<Rightarrow> s
    | JNull \<Rightarrow> ''null''
    | _ \<Rightarrow> ''undefined'')"

section \<open>Federation of a round (federation\_round.js, pbft.js)\<close>

definition liveFederationSignals :: "hub \<Rightarrow> consensus \<Rightarrow> signals" where
  "liveFederationSignals h st = \<lparr>sig_minValidators = hub_minValidators h,
     sig_validators = length (c_validatorSet st), sig_peers = hub_openPeers h,
     sig_seedNodes = hub_seeds h\<rparr>"

text \<open>\<open>ctx\<close> is the round's anchor height, or None outside a round.\<close>

definition isFederated :: "hub \<Rightarrow> consensus \<Rightarrow> jsval option \<Rightarrow> bool" where
  "isFederated h st ctx =
     (if 1 < hub_minValidators h \<or> 1 < length (c_validatorSet st) then True
      else (case ctx of
          None \<Rightarrow> False
        | Some height \<Rightarrow>
            gate_true (isFederatedHubActive (hub_gates h) (hub_network h) (clock_of height)) \<and>
            isFederatedHub (liveFederationSignals h st)))"

definition hasDeterministicSnapshot :: "snapshot option \<Rightarrow> bool" where
  "hasDeterministicSnapshot so = (case so of None \<Rightarrow> False | Some s \<Rightarrow> sn_validators s \<noteq> None)"

definition isEmptyFederationSnapshot :: "hub \<Rightarrow> consensus \<Rightarrow> jsval option \<Rightarrow> snapshot option \<Rightarrow> bool" where
  "isEmptyFederationSnapshot h st ctx so =
     (isFederated h st ctx \<and> (case so of None \<Rightarrow> False | Some s \<Rightarrow> sn_validators s = Some []))"

definition getQuorum :: "hub \<Rightarrow> consensus \<Rightarrow> int" where
  "getQuorum h st =
     (let N = (if c_validatorSet st \<noteq> [] then int (length (c_validatorSet st))
               else int (hub_openPeers h) + 1)
      in bftQuorumOrSingle N 0)"

definition setValidatorSet :: "validator list \<Rightarrow> consensus \<Rightarrow> consensus" where
  "setValidatorSet vs st = st\<lparr>c_validatorSet := canonicalValidatorOrder vs\<rparr>"

text \<open>
  \<open>lockSnapshot\<close>: the height asked for (the override, or the awaited own tip), whether the
  round is weighted there, and the fetched snapshot. \<open>fetchW\<close> and \<open>fetchC\<close> are the
  indexer reads (null when it is unavailable). \<open>lk_height\<close> is the anchor height the round's
  context holds afterwards: the noted height, or the one it was opened with (\<open>ctx\<close>) when
  the hub has no snapshot provider and notes none.
\<close>

definition lockSnapshot ::
  "hub \<Rightarrow> jsval \<Rightarrow> jsval \<Rightarrow> jsval \<Rightarrow> (jsval \<Rightarrow> snapshot option) \<Rightarrow> (jsval \<Rightarrow> snapshot option) \<Rightarrow> locked" where
  "lockSnapshot h ctx override tip fetchW fetchC =
     (if \<not> hub_hasSnapshots h
      then \<lparr>lk_snapshot = None, lk_weighted = False, lk_requested = JNull, lk_height = ctx\<rparr>
      else let height = (if override = JUndef \<or> override = JNull then tip else override) in
        if \<not> truthy height
        then \<lparr>lk_snapshot = None, lk_weighted = False, lk_requested = JNull, lk_height = height\<rparr>
        else let w = isStakeWeightedQuorumActive (clock_of height) (hub_network h) in
          \<lparr>lk_snapshot = (if w then fetchW height else fetchC height), lk_weighted = w,
           lk_requested = height, lk_height = height\<rparr>)"

section \<open>Leader election and vote identity (leader.js)\<close>

definition cell_or :: "string \<Rightarrow> cell \<Rightarrow> string" where
  "cell_or d c = (case c of CStr s \<Rightarrow> s | _ \<Rightarrow> d)"

definition normalize_row :: "stake_row \<Rightarrow> stake_row" where
  "normalize_row v = \<lparr>s_pubkey = CStr (to_lower (cell_string (s_pubkey v))),
     s_source = CStr (cell_or [] (s_source v)), s_weight = CStr (cell_or ''0'' (s_weight v))\<rparr>"

definition normalizeValidators :: "snapshot option \<Rightarrow> bool \<Rightarrow> stake_set" where
  "normalizeValidators so weighted =
     (case so of
        None \<Rightarrow> \<lparr>stake_rows = [], stake_truncated = False\<rparr>
      | Some s \<Rightarrow>
          (case sn_validators s of
             None \<Rightarrow> \<lparr>stake_rows = [], stake_truncated = False\<rparr>
           | Some vs \<Rightarrow>
               if \<not> weighted then \<lparr>stake_rows = [], stake_truncated = False\<rparr>
               else \<lparr>stake_rows = map normalize_row vs, stake_truncated = sn_truncated s\<rparr>))"

text \<open>The weight-snapshot admission of \<open>capability_snapshot/fetch_guards.js\<close>.\<close>

definition coerceValidators :: "stake_row list option \<Rightarrow> bool \<Rightarrow> stake_row list option" where
  "coerceValidators field requireWeight =
     (case field of
        None \<Rightarrow> None
      | Some vs \<Rightarrow>
          if requireWeight \<and> list_ex (\<lambda>v. case s_weight v of
                CStr x \<Rightarrow> trim x = [] \<or> \<not> is_plain_decimal (trim x) | _ \<Rightarrow> True) vs
          then None else Some vs)"

definition truthy_cell :: "cell \<Rightarrow> bool" where
  "truthy_cell c = (case c of CStr s \<Rightarrow> s \<noteq> [] | _ \<Rightarrow> False)"

definition memberPubkeySet :: "snapshot option \<Rightarrow> string list option" where
  "memberPubkeySet so =
     (case so of
        None \<Rightarrow> None
      | Some s \<Rightarrow>
          (case sn_validators s of
             None \<Rightarrow> None
           | Some vs \<Rightarrow>
               (let ks = js_set_of (map (\<lambda>v. to_lower (cell_string (s_pubkey v)))
                     (filter (\<lambda>v. truthy_cell (s_pubkey v)) vs))
                in if ks = [] then None else Some ks)))"

definition selfPubkey :: "hub \<Rightarrow> string option" where
  "selfPubkey h = (case hub_identity h of
     None \<Rightarrow> None | Some pk \<Rightarrow> if pk = [] then None else Some (to_lower pk))"

definition addrForPubkey :: "hub \<Rightarrow> consensus \<Rightarrow> string \<Rightarrow> cell" where
  "addrForPubkey h st pubkey =
     (case find (\<lambda>v. truthy_cell (v_pubkey v) \<and> to_lower (cell_string (v_pubkey v)) = pubkey) (c_validatorSet st) of
        Some v \<Rightarrow> v_addr v
      | None \<Rightarrow>
          (let matches = (case registry_map (hub_auth h) of
                None \<Rightarrow> []
              | Some reg \<Rightarrow> map fst (filter (\<lambda>(a, pk). pk \<noteq> [] \<and> to_lower pk = pubkey) reg))
           in case sort matches of
                a # _ \<Rightarrow> CStr a
              | [] \<Rightarrow> (case hub_identity h of
                    Some me \<Rightarrow> if to_lower me = pubkey then CStr (hub_addr h) else CNull
                  | None \<Rightarrow> CNull)))"

definition isLeaderIdentity :: "leader option \<Rightarrow> string \<Rightarrow> string option \<Rightarrow> bool" where
  "isLeaderIdentity lo addr pubkey =
     (case lo of
        None \<Rightarrow> False
      | Some l \<Rightarrow>
          if truthy_cell (ld_addr l) \<and> ld_addr l = CStr addr then True
          else truthy_cell (ld_pubkey l) \<and>
            (case pubkey of
               None \<Rightarrow> False
             | Some pk \<Rightarrow> pk \<noteq> [] \<and> to_lower (cell_string (ld_pubkey l)) = pk))"

fun js_sum :: "jsnum \<Rightarrow> jsnum \<Rightarrow> rat option" where
  "js_sum (Fin a) (Fin b) = Some (a + b)"
| "js_sum _ _ = None"

text \<open>The element of an array of length \<open>n\<close> at \<open>(seq + view) % n\<close>.\<close>

definition rotation_index :: "jsnum \<Rightarrow> jsnum \<Rightarrow> nat \<Rightarrow> nat option" where
  "rotation_index seq view n = Option.bind (js_sum seq view) (\<lambda>x. js_index x n)"

definition leaderAt :: "hub \<Rightarrow> consensus \<Rightarrow> jsnum \<Rightarrow> jsnum \<Rightarrow> string list option \<Rightarrow> leader option" where
  "leaderAt h st seq view members =
     (case members of
        Some (m # ms) \<Rightarrow>
          (let keys = sort (m # ms) in
           case rotation_index seq view (length keys) of
             Some i \<Rightarrow> Some \<lparr>ld_addr = addrForPubkey h st (keys ! i), ld_pubkey = CStr (keys ! i)\<rparr>
           | None \<Rightarrow> Some \<lparr>ld_addr = CNull, ld_pubkey = CUndef\<rparr>)
      | _ \<Rightarrow>
          (if c_validatorSet st = [] then None
           else (case rotation_index seq view (length (c_validatorSet st)) of
               Some i \<Rightarrow> Some \<lparr>ld_addr = v_addr (c_validatorSet st ! i), ld_pubkey = v_pubkey (c_validatorSet st ! i)\<rparr>
             | None \<Rightarrow> None)))"

definition resolveSenderPubkey :: "hub \<Rightarrow> envelope \<Rightarrow> string option" where
  "resolveSenderPubkey h env =
     (case provenPubkey (e_sig env) of
        Some pk \<Rightarrow> Some pk
      | None \<Rightarrow>
          (case registry_map (hub_auth h) of
             None \<Rightarrow> None
           | Some reg \<Rightarrow>
               (case map_of reg (e_sender env) of
                  Some pk \<Rightarrow> if pk = [] then None else Some (to_lower pk)
                | None \<Rightarrow> None)))"

definition leaderIdentityOk :: "hub \<Rightarrow> consensus \<Rightarrow> jsnum \<Rightarrow> jsnum \<Rightarrow> envelope \<Rightarrow> string list option \<Rightarrow> bool" where
  "leaderIdentityOk h st seq view env members =
     (case leaderAt h st seq view members of
        None \<Rightarrow> False
      | Some l \<Rightarrow> isLeaderIdentity (Some l) (e_sender env) (resolveSenderPubkey h env))"

definition memberPubkeysForSeq :: "consensus \<Rightarrow> jsnum \<Rightarrow> string list option" where
  "memberPubkeysForSeq st seq =
     (case seq of
        Fin s \<Rightarrow>
          (case Option.bind (get_pending st s) (\<lambda>pid. p_members (c_objs st ! pid)) of
             Some ms \<Rightarrow> Some ms
           | None \<Rightarrow> Option.bind (map_of (c_vcQuorums st) s) vc_members)
      | _ \<Rightarrow> None)"

definition addSelfPubkey :: "hub \<Rightarrow> string list \<Rightarrow> string list" where
  "addSelfPubkey h ks = (case hub_identity h of None \<Rightarrow> ks | Some pk \<Rightarrow> js_add (to_lower pk) ks)"

definition equivVote :: "hub \<Rightarrow> rat \<Rightarrow> rat \<Rightarrow> string \<Rightarrow> jsval \<Rightarrow> equiv_sig" where
  "equivVote h seq view digest height =
     (if \<not> isEquivHeaderActive (clock_of height) (hub_network h) then None
      else (case hub_identity h of
          None \<Rightarrow> None
        | Some pk \<Rightarrow> Some (hub_sign h (buildEquivCanonical ''XCONFIG'' (hub_show h seq) (hub_show h view)
              (js_String h height @ ''|'' @ digest)), to_lower pk)))"

definition quorumMet :: "hub \<Rightarrow> bool \<Rightarrow> stake_set \<Rightarrow> int \<Rightarrow> string list \<Rightarrow> string list \<Rightarrow> bool" where
  "quorumMet h weighted validators quorum addrs pks =
     (if weighted then meetsStakeThreshold (hub_rnd h) validators pks
      else quorum \<le> int (if pks \<noteq> [] then length pks else length addrs))"

definition isKnownSender :: "hub \<Rightarrow> envelope \<Rightarrow> bool" where
  "isKnownSender h env = isAdmissibleSigner (hub_auth h) (e_sig env)"

definition isNonMemberSnapshot :: "hub \<Rightarrow> consensus \<Rightarrow> jsval option \<Rightarrow> snapshot option \<Rightarrow> bool" where
  "isNonMemberSnapshot h st ctx so =
     (isFederated h st ctx \<and>
      (case so of
         None \<Rightarrow> False
       | Some s \<Rightarrow>
           (case sn_validators s of
              Some (v # vs) \<Rightarrow>
                (case selfPubkey h of
                   None \<Rightarrow> True
                 | Some me \<Rightarrow> \<not> list_ex (\<lambda>u. to_lower (cell_string (s_pubkey u)) = me) (v # vs))
            | _ \<Rightarrow> False)))"

end
