(* ===== verification/Pbft_Rounds.thy ===== *)
theory Pbft_Rounds
  imports Pbft_Model
begin

text \<open>
  The handlers of the config-change engine, phase by phase: votes and the early-arrival
  buffer (\<open>pbft/votes.js\<close>), view changes (\<open>pbft/view_change.js\<close>), the leader's proposal
  (\<open>pbft/propose.js\<close>), the follower's PRE\_PREPARE (\<open>pbft/pre_prepare.js\<close>), the dispatch and
  the lifecycle (\<open>pbft.js\<close>), and the step relation that interleaves them. \<open>now\<close> is the
  wall clock a handler reads.
\<close>

section \<open>Message types\<close>

definition PBFT_PRE_PREPARE :: string where "PBFT_PRE_PREPARE = ''PBFT_PRE_PREPARE''"
definition PBFT_PREPARE :: string where "PBFT_PREPARE = ''PBFT_PREPARE''"
definition PBFT_COMMIT :: string where "PBFT_COMMIT = ''PBFT_COMMIT''"
definition PBFT_VIEW_CHANGE :: string where "PBFT_VIEW_CHANGE = ''PBFT_VIEW_CHANGE''"
definition PBFT_NEW_VIEW :: string where "PBFT_NEW_VIEW = ''PBFT_NEW_VIEW''"

lemmas message_types = PBFT_PRE_PREPARE_def PBFT_PREPARE_def PBFT_COMMIT_def PBFT_VIEW_CHANGE_def
  PBFT_NEW_VIEW_def

section \<open>Early votes (votes.js)\<close>

definition EARLY_VOTE_MAX_SEQS :: nat where "EARLY_VOTE_MAX_SEQS = 64"
definition EARLY_VOTE_MAX_PER_SEQ :: nat where "EARLY_VOTE_MAX_PER_SEQ = 64"

text \<open>The Map key a wire field names: the maps are keyed by finite numbers.\<close>

definition num_key :: "jsval \<Rightarrow> rat option" where
  "num_key v = (case v of JNum (Fin q) \<Rightarrow> Some q | _ \<Rightarrow> None)"

lemma num_key_Some [simp]: "num_key v = Some q \<longleftrightarrow> v = JNum (Fin q)"
  by (auto simp: num_key_def split: jsval.splits jsnum.splits)

lemma num_key_Fin [simp]: "num_key (JNum (Fin q)) = Some q"
  by (simp add: num_key_def)

definition pruneEarlyVotes :: "rat \<Rightarrow> consensus \<Rightarrow> consensus" where
  "pruneEarlyVotes now st =
     (let dead = map fst (filter (\<lambda>(seq, expiresAt). expiresAt \<le> now \<or> seq \<le> c_lastApplied st) (c_earlyTtl st))
      in st\<lparr>c_early := fold js_del dead (c_early st), c_earlyTtl := fold js_del dead (c_earlyTtl st)\<rparr>)"

text \<open>The eviction loop: drop the oldest key while the buffer holds the maximum.\<close>

function evictEarly :: "consensus \<Rightarrow> consensus" where
  "evictEarly st =
     (case c_early st of
        [] \<Rightarrow> st
      | (oldest, b) # rest \<Rightarrow>
          if EARLY_VOTE_MAX_SEQS \<le> length (c_early st)
          then evictEarly (st\<lparr>c_early := js_del oldest (c_early st), c_earlyTtl := js_del oldest (c_earlyTtl st)\<rparr>)
          else st)"
  by pat_completeness auto

termination
  by (relation "measure (\<lambda>st. length (c_early st))") (auto simp: js_del_def le_imp_less_Suc)

declare evictEarly.simps [simp del]

definition bufferEarlyVote :: "hub \<Rightarrow> rat \<Rightarrow> envelope \<Rightarrow> consensus \<Rightarrow> bool \<times> consensus" where
  "bufferEarlyVote h now env st =
     (case num_key (d_seq env) of
        None \<Rightarrow> (False, st)
      | Some seq \<Rightarrow>
          if \<not> int_valued seq \<or> seq \<le> 0 then (False, st)
          else if seq \<le> c_lastApplied st then (False, st)
          else if c_replaying st = Some seq then (False, st)
          else
            let st1 = pruneEarlyVotes now st;
                st2 = (case map_of (c_early st1) seq of
                    Some b \<Rightarrow> st1
                  | None \<Rightarrow> (let st' = evictEarly st1 in st'\<lparr>c_early := js_put seq [] (c_early st')\<rparr>));
                bucket = (case map_of (c_early st2) seq of Some b \<Rightarrow> b | None \<Rightarrow> [])
            in if EARLY_VOTE_MAX_PER_SEQ \<le> length bucket then (False, st2)
               else (True, st2\<lparr>c_early := js_put seq (bucket @ [env]) (c_early st2),
                               c_earlyTtl := js_put seq (now + hub_timeout h) (c_earlyTtl st2)\<rparr>))"

section \<open>Votes and quorum (votes.js)\<close>

definition checkCommitQuorum :: "hub \<Rightarrow> rat \<Rightarrow> consensus \<Rightarrow> consensus" where
  "checkCommitQuorum h seq st =
     (case get_pending st seq of
        None \<Rightarrow> st
      | Some pid \<Rightarrow>
          (let p = c_objs st ! pid in
           if p_applied p \<or> p_applying p then st
           else if quorumMet h (p_weighted p) (p_validators p) (p_quorum p) (p_commits p) (p_commitPks p)
           then push_task (AwaitApply pid seq)
                  (emit (ApplyConfig pid (p_config p)) (upd_obj pid (\<lambda>p. p\<lparr>p_applying := True\<rparr>) st))
           else st))"

definition checkPrepareQuorum :: "hub \<Rightarrow> rat \<Rightarrow> consensus \<Rightarrow> consensus" where
  "checkPrepareQuorum h seq st =
     (case get_pending st seq of
        None \<Rightarrow> st
      | Some pid \<Rightarrow>
          (let p = c_objs st ! pid in
           if p_resolved p then st
           else if quorumMet h (p_weighted p) (p_validators p) (p_quorum p) (p_prepares p) (p_preparePks p) \<and>
                   \<not> p_commitSent p
           then checkCommitQuorum h seq
                  (emit (BCommit seq (p_digest p) (equivVote h seq (p_view p) (p_digest p) (p_height p)))
                    (upd_obj pid (\<lambda>p. p\<lparr>p_commitSent := True, p_commits := js_add (hub_addr h) (p_commits p),
                                       p_commitPks := addSelfPubkey h (p_commitPks p)\<rparr>) st))
           else st))"

definition add_key :: "string option \<Rightarrow> string list \<Rightarrow> string list" where
  "add_key ko ks = (case ko of None \<Rightarrow> ks | Some k \<Rightarrow> if k = [] then ks else js_add k ks)"

definition handlePrepare :: "hub \<Rightarrow> rat \<Rightarrow> envelope \<Rightarrow> consensus \<Rightarrow> consensus" where
  "handlePrepare h now env st =
     (if \<not> truthy (d_seq env) \<or> \<not> truthy (d_digest env) then st
      else if \<not> isKnownSender h env then st
      else (case Option.bind (num_key (d_seq env)) (\<lambda>s. map_option (Pair s) (get_pending st s)) of
          None \<Rightarrow> snd (bufferEarlyVote h now env st)
        | Some (seq, pid) \<Rightarrow>
            if d_digest env \<noteq> JStr (p_digest (c_objs st ! pid)) then st
            else checkPrepareQuorum h seq
              (upd_obj pid (\<lambda>p. p\<lparr>p_prepares := js_add (e_sender env) (p_prepares p),
                                 p_preparePks := add_key (resolveSenderPubkey h env) (p_preparePks p)\<rparr>) st)))"

definition handleCommit :: "hub \<Rightarrow> rat \<Rightarrow> envelope \<Rightarrow> consensus \<Rightarrow> consensus" where
  "handleCommit h now env st =
     (if \<not> truthy (d_seq env) \<or> \<not> truthy (d_digest env) then st
      else if \<not> isKnownSender h env then st
      else (case Option.bind (num_key (d_seq env)) (\<lambda>s. map_option (Pair s) (get_pending st s)) of
          None \<Rightarrow> snd (bufferEarlyVote h now env st)
        | Some (seq, pid) \<Rightarrow>
            if d_digest env \<noteq> JStr (p_digest (c_objs st ! pid)) then st
            else checkCommitQuorum h seq
              (upd_obj pid (\<lambda>p. p\<lparr>p_commits := js_add (e_sender env) (p_commits p),
                                 p_commitPks := add_key (resolveSenderPubkey h env) (p_commitPks p)\<rparr>) st)))"

text \<open>
  The dispatch restricted to the two vote types. Only those are ever buffered, and the
  replay of a buffer goes through it (\<open>replay_dispatch\<close> below shows the full dispatch does
  the same on them).
\<close>

definition handleVote :: "hub \<Rightarrow> rat \<Rightarrow> envelope \<Rightarrow> consensus \<Rightarrow> consensus" where
  "handleVote h now env st =
     (if e_type env = PBFT_PREPARE then handlePrepare h now env st
      else if e_type env = PBFT_COMMIT then handleCommit h now env st
      else st)"

definition replayEarlyVotes :: "hub \<Rightarrow> rat \<Rightarrow> rat \<Rightarrow> consensus \<Rightarrow> consensus" where
  "replayEarlyVotes h now seq st =
     (case map_of (c_early st) seq of
        None \<Rightarrow> st
      | Some bucket \<Rightarrow>
          if bucket = [] then st
          else (fold (handleVote h now) bucket
                 (st\<lparr>c_early := js_del seq (c_early st), c_earlyTtl := js_del seq (c_earlyTtl st),
                     c_replaying := Some seq\<rparr>))\<lparr>c_replaying := None\<rparr>)"

text \<open>\<open>clearTimeout\<close> on a round's timer.\<close>

definition clear_timer :: "nat \<Rightarrow> consensus \<Rightarrow> consensus" where
  "clear_timer pid st = st\<lparr>c_tasks := filter (\<lambda>t. case t of Timer i s \<Rightarrow> i \<noteq> pid | _ \<Rightarrow> True) (c_tasks st)\<rparr>"

definition del_pending :: "rat \<Rightarrow> consensus \<Rightarrow> consensus" where
  "del_pending seq st = st\<lparr>c_pending := js_del seq (c_pending st)\<rparr>"

text \<open>The awaited \<open>applyConfig\<close> succeeded: what follows waits for the sequence write. Its success is an event of the step relation.\<close>

definition persistAppliedRound :: "nat \<Rightarrow> rat \<Rightarrow> consensus \<Rightarrow> consensus" where
  "persistAppliedRound pid seq st = push_task (AwaitSave pid seq) st"

text \<open>The awaited \<open>saveSeq\<close> succeeded: mark the round applied and answer the proposer.\<close>

definition finishAppliedRound :: "nat \<Rightarrow> rat \<Rightarrow> consensus \<Rightarrow> consensus" where
  "finishAppliedRound pid seq st =
     (let st1 = upd_obj pid (\<lambda>p. p\<lparr>p_applied := True\<rparr>) st;
          st2 = st1\<lparr>c_lastApplied := (if c_lastApplied st1 < seq then seq else c_lastApplied st1)\<rparr>;
          p = c_objs st2 ! pid;
          st3 = (if \<not> p_resolved p \<and> p_initiator p
                 then emit (Resolve pid) (clear_timer pid (upd_obj pid (\<lambda>p. p\<lparr>p_resolved := True\<rparr>) st2))
                 else st2)
      in del_pending seq st3)"

definition unlockFailedApply :: "nat \<Rightarrow> rat \<Rightarrow> consensus \<Rightarrow> consensus" where
  "unlockFailedApply pid seq st =
     (let st1 = upd_obj pid (\<lambda>p. p\<lparr>p_applying := False\<rparr>) st;
          p = c_objs st1 ! pid
      in if \<not> p_resolved p \<and> p_initiator p
         then del_pending seq (emit (Reject pid) (clear_timer pid (upd_obj pid (\<lambda>p. p\<lparr>p_resolved := True\<rparr>) st1)))
         else st1)"

section \<open>View change (view\_change.js)\<close>

definition MAX_VIEW_SKEW :: rat where "MAX_VIEW_SKEW = 100"

definition no_stakes :: stake_set where
  "no_stakes = \<lparr>stake_rows = [], stake_truncated = False\<rparr>"

definition viewChangeContext :: "hub \<Rightarrow> consensus \<Rightarrow> jsnum \<Rightarrow> vc_ctx" where
  "viewChangeContext h st seq =
     (let pend = (case seq of Fin s \<Rightarrow> get_pending st s | _ \<Rightarrow> None);
          stash = (case seq of Fin s \<Rightarrow> map_of (c_vcQuorums st) s | _ \<Rightarrow> None)
      in case pend of
           Some pid \<Rightarrow>
             (let p = c_objs st ! pid
              in \<lparr>vc_quorum = p_quorum p, vc_weighted = p_weighted p, vc_validators = p_validators p,
                  vc_members = p_members p\<rparr>)
         | None \<Rightarrow>
             (case stash of
                Some c \<Rightarrow> c
              | None \<Rightarrow>
                  if isFederated h st None
                  then \<lparr>vc_quorum = 0, vc_weighted = False, vc_validators = no_stakes, vc_members = None\<rparr>
                  else \<lparr>vc_quorum = getQuorum h st, vc_weighted = False, vc_validators = no_stakes,
                        vc_members = None\<rparr>))"

definition acceptViewChange :: "hub \<Rightarrow> rat \<Rightarrow> jsnum \<Rightarrow> vc_ctx \<Rightarrow> consensus \<Rightarrow> consensus" where
  "acceptViewChange h view seq ctx st =
     (let st1 = st\<lparr>c_view := view\<rparr>;
          newLeader = leaderAt h st1 seq (Fin (c_view st1)) (vc_members ctx);
          st2 = (if isLeaderIdentity newLeader (hub_addr h) (selfPubkey h)
                 then emit (BNewView view seq) st1 else st1)
      in st2\<lparr>c_vc := filter (\<lambda>e. \<not> fst e < c_view st2) (js_del view (c_vc st2)),
             c_vcPks := filter (\<lambda>e. \<not> fst e < c_view st2) (js_del view (c_vcPks st2)),
             c_vcQuorums := (case seq of Fin s \<Rightarrow> js_del s (c_vcQuorums st2) | _ \<Rightarrow> c_vcQuorums st2)\<rparr>)"

definition get_votes :: "(rat \<times> string list) list \<Rightarrow> rat \<Rightarrow> string list" where
  "get_votes m k = (case map_of m k of Some xs \<Rightarrow> xs | None \<Rightarrow> [])"

text \<open>Envelopes are JSON, so a wire number is never NaN.\<close>

definition handleViewChange :: "hub \<Rightarrow> envelope \<Rightarrow> consensus \<Rightarrow> consensus" where
  "handleViewChange h env st =
     (case (d_view env, d_seq env) of
        (JNum (Fin view), JNum seq) \<Rightarrow>
          if view < c_view st \<or> c_view st + MAX_VIEW_SKEW < view then st
          else if \<not> isKnownSender h env then st
          else
            let st1 = st\<lparr>c_vc := js_put view (js_add (e_sender env) (get_votes (c_vc st) view)) (c_vc st)\<rparr>;
                ctx = viewChangeContext h st1 seq
            in if vc_quorum ctx = 0 then st1
               else
                 let st2 = st1\<lparr>c_vcPks := js_put view
                       (add_key (resolveSenderPubkey h env) (get_votes (c_vcPks st1) view)) (c_vcPks st1)\<rparr>
                 in if quorumMet h (vc_weighted ctx) (vc_validators ctx) (vc_quorum ctx)
                        (get_votes (c_vc st2) view) (get_votes (c_vcPks st2) view)
                    then acceptViewChange h view seq ctx st2
                    else st2
      | _ \<Rightarrow> st)"

definition handleNewView :: "hub \<Rightarrow> envelope \<Rightarrow> consensus \<Rightarrow> consensus" where
  "handleNewView h env st =
     (case (d_view env, d_seq env) of
        (JNum (Fin view), JNum seq) \<Rightarrow>
          if view \<le> c_view st then st
          else
            let expectedLeader = leaderAt h st seq (Fin view) (memberPubkeysForSeq st seq) in
            if expectedLeader = None \<or>
               \<not> isLeaderIdentity expectedLeader (e_sender env) (resolveSenderPubkey h env)
            then st
            else st\<lparr>c_view := view\<rparr>
      | _ \<Rightarrow> st)"

definition initiateViewChange ::
  "hub \<Rightarrow> rat \<Rightarrow> int \<Rightarrow> bool \<Rightarrow> stake_set \<Rightarrow> string list option \<Rightarrow> consensus \<Rightarrow> consensus" where
  "initiateViewChange h seq lockedQuorum lockedWeighted lockedValidators lockedMembers st =
     (let st1 = st\<lparr>c_view := c_view st + 1\<rparr>;
          st2 = st1\<lparr>c_vcQuorums := js_put seq
             \<lparr>vc_quorum = lockedQuorum, vc_weighted = lockedWeighted, vc_validators = lockedValidators,
              vc_members = lockedMembers\<rparr>
             (filter (\<lambda>e. \<not> fst e \<le> c_lastApplied st1) (c_vcQuorums st1))\<rparr>;
          st3 = emit (BViewChange (c_view st2) seq) st2;
          st4 = st3\<lparr>c_vc := js_put (c_view st3) (js_add (hub_addr h) (get_votes (c_vc st3) (c_view st3))) (c_vc st3)\<rparr>
      in if lockedWeighted
         then st4\<lparr>c_vcPks := js_put (c_view st4) (addSelfPubkey h (get_votes (c_vcPks st4) (c_view st4))) (c_vcPks st4)\<rparr>
         else st4)"

text \<open>
  A round's timer fires: the leader's turns the silent round into a view change and
  rejects the caller, a follower's only drops the round.
\<close>

definition roundTimeout :: "hub \<Rightarrow> nat \<Rightarrow> rat \<Rightarrow> consensus \<Rightarrow> consensus" where
  "roundTimeout h pid seq st =
     (let p = c_objs st ! pid in
      if p_resolved p then st
      else
        let st1 = del_pending seq (upd_obj pid (\<lambda>p. p\<lparr>p_resolved := True\<rparr>) st) in
        if p_initiator p
        then emit (Reject pid)
               (initiateViewChange h seq (p_quorum p) (p_weighted p) (p_validators p) (p_members p) st1)
        else st1)"

end
