(* ===== verification/Pbft_Engine.thy ===== *)
theory Pbft_Engine
  imports Pbft_Rounds
begin

text \<open>
  The two ways a round opens, the leader's \<open>propose\<close> (\<open>pbft/propose.js\<close>) and the follower's
  \<open>handlePrePrepare\<close> (\<open>pbft/pre_prepare.js\<close>), the dispatch and lifecycle of \<open>pbft.js\<close>, and the
  step relation of one hub: any message, proposal, awaited result or timer may come next,
  and what the hub reads of its surroundings (peers, registry, identity) may differ from
  step to step.
\<close>

section \<open>Opening a round as the leader (propose.js)\<close>

datatype propose_err = NoDeterministicSnapshot | EmptySnapshot | NonMember | NotLeader rat "leader option"

datatype round_plan = ApplyDirectly | RunRound bool int

definition empty_or_missing :: "snapshot option \<Rightarrow> bool" where
  "empty_or_missing so =
     (case so of None \<Rightarrow> True | Some s \<Rightarrow> (case sn_validators s of None \<Rightarrow> True | Some vs \<Rightarrow> vs = []))"

definition round_quorum :: "hub \<Rightarrow> consensus \<Rightarrow> snapshot option \<Rightarrow> int" where
  "round_quorum h st so = (case so of None \<Rightarrow> getQuorum h st | Some s \<Rightarrow> snapshot_getQuorum so)"

definition proposeRoundQuorum ::
  "hub \<Rightarrow> consensus \<Rightarrow> jsval option \<Rightarrow> snapshot option \<Rightarrow> bool \<Rightarrow> propose_err + round_plan" where
  "proposeRoundQuorum h st ctx snapshot weighted =
     (if isFederated h st ctx \<and> \<not> hasDeterministicSnapshot snapshot then Inl NoDeterministicSnapshot
      else
        let weighted = (weighted \<and> \<not> empty_or_missing snapshot);
            quorum = round_quorum h st snapshot
        in if quorum = 0 then
             (if isEmptyFederationSnapshot h st ctx snapshot then Inl EmptySnapshot
              else if isNonMemberSnapshot h st ctx snapshot then Inl NonMember
              else Inr ApplyDirectly)
           else Inr (RunRound weighted quorum))"

definition buildLeaderProposal ::
  "consensus \<Rightarrow> jsval \<Rightarrow> string \<Rightarrow> locked \<Rightarrow> int \<Rightarrow> bool \<Rightarrow> string list option \<Rightarrow> proposal" where
  "buildLeaderProposal st config digest lk quorum weighted members =
     \<lparr>p_config = config, p_digest = digest, p_view = c_view st, p_prepares = [], p_commits = [],
      p_resolved = False, p_applied = False, p_initiator = True, p_quorum = quorum,
      p_height = (if lk_snapshot lk = None then JNull else lk_requested lk),
      p_weighted = weighted, p_validators = normalizeValidators (lk_snapshot lk) weighted,
      p_members = members, p_preparePks = [], p_commitPks = [],
      p_commitSent = False, p_applying = False\<rparr>"

definition openLeaderRound ::
  "hub \<Rightarrow> jsval \<Rightarrow> rat \<Rightarrow> string \<Rightarrow> locked \<Rightarrow> int \<Rightarrow> bool \<Rightarrow> string list option \<Rightarrow> consensus \<Rightarrow> consensus" where
  "openLeaderRound h config seq digest lk quorum weighted members st =
     (let p0 = buildLeaderProposal st config digest lk quorum weighted members;
          p = p0\<lparr>p_prepares := js_add (hub_addr h) (p_prepares p0),
                 p_preparePks := addSelfPubkey h (p_preparePks p0)\<rparr>;
          pid = length (c_objs st);
          st1 = st\<lparr>c_objs := c_objs st @ [p], c_pending := js_put seq pid (c_pending st)\<rparr>;
          st2 = push_task (Timer pid seq) st1;
          st3 = emit (BPrePrepare seq (c_view st2) digest config (p_height p) (p_weighted p)
                  (equivVote h seq (c_view st2) digest (p_height p))) st2
      in checkPrepareQuorum h seq st3)"

text \<open>
  \<open>propose\<close> awaits the snapshot lock first; the rest runs on its result. The outcome is
  the thrown error, or whether the config was applied without a round.
\<close>

definition propose :: "jsval \<Rightarrow> consensus \<Rightarrow> consensus" where
  "propose config st = push_task (AwaitPropose config) st"

definition proposeLocked :: "hub \<Rightarrow> jsval \<Rightarrow> locked \<Rightarrow> consensus \<Rightarrow> (propose_err + bool) \<times> consensus" where
  "proposeLocked h config lk st =
     (case proposeRoundQuorum h st (Some (lk_height lk)) (lk_snapshot lk) (lk_weighted lk) of
        Inl e \<Rightarrow> (Inl e, st)
      | Inr ApplyDirectly \<Rightarrow> (Inr True, emit (ApplyDirect config) st)
      | Inr (RunRound weighted quorum) \<Rightarrow>
          (let members = memberPubkeySet (lk_snapshot lk);
               nextSeq = max (c_seq st) (c_lastApplied st) + 1;
               leader = leaderAt h st (Fin nextSeq) (Fin (c_view st)) members
           in if leader \<noteq> None \<and> \<not> isLeaderIdentity leader (hub_addr h) (selfPubkey h)
              then (Inl (NotLeader nextSeq leader), st\<lparr>c_seq := nextSeq\<rparr>)
              else (Inr False,
                openLeaderRound h config nextSeq (hub_digest h config) lk quorum weighted members
                  (st\<lparr>c_seq := nextSeq, c_view := 0\<rparr>))))"

section \<open>Opening a round as a follower (pre\_prepare.js)\<close>

text \<open>\<open>a <= b\<close> on a number off the wire and a finite one.\<close>

fun num_le :: "jsnum \<Rightarrow> rat \<Rightarrow> bool" where
  "num_le (Fin a) b = (a \<le> b)"
| "num_le NInf b = True"
| "num_le _ b = False"

definition prePrepareAdmissible :: "hub \<Rightarrow> envelope \<Rightarrow> consensus \<Rightarrow> bool" where
  "prePrepareAdmissible h env st =
     (if \<not> truthy (d_seq env) \<or> \<not> truthy (d_digest env) \<or> \<not> truthy (d_config env) then False
      else (case d_seq env of
          JNum seq \<Rightarrow>
            if num_le seq 0 then False
            else if \<not> isKnownSender h env then False
            else (case d_view env of
                JNum view \<Rightarrow>
                  if num_le seq (c_lastApplied st) then False
                  else JStr (hub_digest h (d_config env)) = d_digest env
              | _ \<Rightarrow> False)
        | _ \<Rightarrow> False))"

definition stampedHeightUsable :: "hub \<Rightarrow> envelope \<Rightarrow> consensus \<Rightarrow> bool" where
  "stampedHeightUsable h env st =
     (if isFederated h st (Some (d_height env)) \<and>
         \<not> (case d_height env of JNum (Fin q) \<Rightarrow> int_valued q \<and> 0 < q | _ \<Rightarrow> False)
      then False else True)"

definition tipBoundOk :: "hub \<Rightarrow> envelope \<Rightarrow> jsval \<Rightarrow> bool" where
  "tipBoundOk h env myTip =
     (case js_Number myTip of
        Fin t \<Rightarrow>
          (case js_Number (d_height env) of
             Fin b \<Rightarrow> \<not> hub_tolerance h < \<bar>t - b\<bar>
           | NaN \<Rightarrow> True
           | _ \<Rightarrow> False)
      | _ \<Rightarrow> False)"

text \<open>None: this hub opens no round for the sequence number.\<close>

definition followerRoundQuorum :: "hub \<Rightarrow> envelope \<Rightarrow> locked \<Rightarrow> consensus \<Rightarrow> (int \<times> bool) option" where
  "followerRoundQuorum h env lk st =
     (let snapshot = lk_snapshot lk; ctx = Some (lk_height lk) in
      if isFederated h st ctx \<and> \<not> hasDeterministicSnapshot snapshot then None
      else
        let weighted = (lk_weighted lk \<and> \<not> empty_or_missing snapshot);
            quorum = round_quorum h st snapshot
        in if isEmptyFederationSnapshot h st ctx snapshot then None
           else if quorum = 0 \<and> isNonMemberSnapshot h st ctx snapshot then None
           else (case (d_seq env, d_view env) of
               (JNum seq, JNum view) \<Rightarrow>
                 if \<not> leaderIdentityOk h st seq view env (memberPubkeySet snapshot) then None
                 else Some (quorum, weighted)
             | _ \<Rightarrow> None))"

definition openFollowerRound ::
  "rat \<Rightarrow> rat \<Rightarrow> envelope \<Rightarrow> string \<Rightarrow> locked \<Rightarrow> int \<Rightarrow> bool \<Rightarrow> consensus \<Rightarrow> consensus" where
  "openFollowerRound seq view env digest lk quorum weighted st =
     (let p = \<lparr>p_config = d_config env, p_digest = digest, p_view = view, p_prepares = [], p_commits = [],
               p_resolved = False, p_applied = False, p_initiator = False, p_quorum = quorum,
               p_height = (if truthy (d_height env) then d_height env else JNull),
               p_weighted = weighted, p_validators = normalizeValidators (lk_snapshot lk) weighted,
               p_members = memberPubkeySet (lk_snapshot lk), p_preparePks = [], p_commitPks = [],
               p_commitSent = False, p_applying = False\<rparr>;
          pid = length (c_objs st)
      in (push_task (Timer pid seq) st)\<lparr>c_objs := c_objs st @ [p], c_pending := js_put seq pid (c_pending st)\<rparr>)"

definition castPrepare :: "hub \<Rightarrow> rat \<Rightarrow> envelope \<Rightarrow> rat \<Rightarrow> string \<Rightarrow> consensus \<Rightarrow> consensus" where
  "castPrepare h now env seq digest st =
     (case get_pending st seq of
        None \<Rightarrow> st
      | Some pid \<Rightarrow>
          if p_digest (c_objs st ! pid) \<noteq> digest then st
          else
            let st1 = upd_obj pid (\<lambda>p. p\<lparr>
                  p_prepares := js_add (hub_addr h) (js_add (e_sender env) (p_prepares p)),
                  p_preparePks := addSelfPubkey h (add_key (resolveSenderPubkey h env) (p_preparePks p))\<rparr>) st;
                p = c_objs st1 ! pid;
                st2 = emit (BPrepare seq digest (equivVote h seq (p_view p) (p_digest p) (p_height p))) st1
            in replayEarlyVotes h now seq (checkPrepareQuorum h seq st2))"

text \<open>
  \<open>handlePrePrepare\<close> in its three synchronous parts: up to the first await, from the own
  tip to the snapshot lock, and from the locked snapshot on. A round that gets past
  \<open>followerRoundQuorum\<close> has a finite sequence and view number: any other elects no leader
  (\<open>followerRoundQuorum_finite\<close>).
\<close>

definition handlePrePrepare :: "hub \<Rightarrow> rat \<Rightarrow> envelope \<Rightarrow> consensus \<Rightarrow> consensus" where
  "handlePrePrepare h now env st =
     (if \<not> prePrepareAdmissible h env st then st
      else (case (d_seq env, d_view env, d_digest env) of
          (JNum x, JNum view, JStr digest) \<Rightarrow>
            (case Option.bind (num_key (JNum x)) (\<lambda>s. map_option (Pair s) (get_pending st s)) of
               None \<Rightarrow>
                 if \<not> stampedHeightUsable h env st then st
                 else if isFederated h st (Some (d_height env)) then push_task (AwaitTip env) st
                 else push_task (AwaitLock env) st
             | Some (seq, pid) \<Rightarrow>
                 if leaderIdentityOk h st (Fin seq) view env (p_members (c_objs st ! pid))
                 then castPrepare h now env seq digest st else st)
        | _ \<Rightarrow> st))"

definition prePrepareTip :: "hub \<Rightarrow> envelope \<Rightarrow> jsval \<Rightarrow> consensus \<Rightarrow> consensus" where
  "prePrepareTip h env myTip st =
     (if tipBoundOk h env myTip then push_task (AwaitLock env) st else st)"

definition prePrepareLocked :: "hub \<Rightarrow> rat \<Rightarrow> envelope \<Rightarrow> locked \<Rightarrow> consensus \<Rightarrow> consensus" where
  "prePrepareLocked h now env lk st =
     (case followerRoundQuorum h env lk st of
        None \<Rightarrow> st
      | Some (quorum, weighted) \<Rightarrow>
          (case (num_key (d_seq env), num_key (d_view env), d_digest env) of
             (Some seq, Some view, JStr digest) \<Rightarrow>
               castPrepare h now env seq digest (openFollowerRound seq view env digest lk quorum weighted st)
           | _ \<Rightarrow> st))"

section \<open>Dispatch and lifecycle (pbft.js)\<close>

definition handleMessage :: "hub \<Rightarrow> rat \<Rightarrow> envelope \<Rightarrow> consensus \<Rightarrow> consensus" where
  "handleMessage h now env st =
     (if e_type env = PBFT_PRE_PREPARE then handlePrePrepare h now env st
      else if e_type env = PBFT_PREPARE then handlePrepare h now env st
      else if e_type env = PBFT_COMMIT then handleCommit h now env st
      else if e_type env = PBFT_VIEW_CHANGE then handleViewChange h env st
      else if e_type env = PBFT_NEW_VIEW then handleNewView h env st
      else st)"

text \<open>The two facts the definitions above rely on.\<close>

lemma replay_dispatch: "e_type env \<in> {PBFT_PREPARE, PBFT_COMMIT} \<Longrightarrow> handleMessage h now env st = handleVote h now env st"
  by (auto simp: handleMessage_def handleVote_def PBFT_PRE_PREPARE_def PBFT_PREPARE_def PBFT_COMMIT_def
      PBFT_VIEW_CHANGE_def PBFT_NEW_VIEW_def)

lemma leaderIdentityOk_finite: "leaderIdentityOk h st seq view env members \<Longrightarrow> \<exists>s v. seq = Fin s \<and> view = Fin v"
  by (cases seq; cases view)
    (auto simp: leaderIdentityOk_def leaderAt_def rotation_index_def isLeaderIdentity_def truthy_cell_def Let_def
      split: option.splits list.splits if_splits)

lemma followerRoundQuorum_finite:
  "followerRoundQuorum h env lk st = Some r \<Longrightarrow> \<exists>s v. d_seq env = JNum (Fin s) \<and> d_view env = JNum (Fin v)"
  using leaderIdentityOk_finite
  by (fastforce simp: followerRoundQuorum_def Let_def split: if_splits jsval.splits)

text \<open>The persisted \<open>last_seq\<close> row; a read fault aborts the start (None).\<close>

definition loadSeq :: "string list option \<Rightarrow> consensus \<Rightarrow> consensus option" where
  "loadSeq rows st =
     (case rows of
        None \<Rightarrow> None
      | Some [] \<Rightarrow> Some st
      | Some (v # vs) \<Rightarrow>
          (let k = (case parse_int_text v of Some k \<Rightarrow> of_int k | None \<Rightarrow> 0)
           in Some (st\<lparr>c_seq := k, c_lastApplied := k\<rparr>)))"

definition stop_round :: "nat \<Rightarrow> consensus \<Rightarrow> consensus" where
  "stop_round pid st =
     (let p = c_objs st ! pid in
      if p_resolved p then st
      else
        let st1 = clear_timer pid (upd_obj pid (\<lambda>p. p\<lparr>p_resolved := True\<rparr>) st)
        in if p_initiator p then emit (Reject pid) st1 else st1)"

definition stop :: "consensus \<Rightarrow> consensus" where
  "stop st = (fold stop_round (map snd (c_pending st)) st)\<lparr>c_pending := [], c_vcQuorums := [], c_vc := [],
     c_vcPks := [], c_early := [], c_earlyTtl := [], c_replaying := None\<rparr>"

section \<open>Step relation\<close>

text \<open>A step's label: the hub it ran on and the envelope it delivered, if it delivered one.\<close>

type_synonym label = "hub \<times> envelope option"

abbreviation drop_task :: "task \<Rightarrow> consensus \<Rightarrow> consensus" where
  "drop_task t st \<equiv> st\<lparr>c_tasks := remove1 t (c_tasks st)\<rparr>"

text \<open>
  The store's two successes, recorded when they happen and not when the call is made: \<open>ConfigApplied\<close> once the
  config rows are written, \<open>SaveSeq\<close> once the sequence row is. The continuation that waited for it then runs.
\<close>

definition config_applied :: "nat \<Rightarrow> rat \<Rightarrow> consensus \<Rightarrow> consensus" where
  "config_applied pid seq st = emit (ConfigApplied pid (p_config (c_objs st ! pid))) (drop_task (AwaitApply pid seq) st)"

definition seq_saved :: "nat \<Rightarrow> rat \<Rightarrow> consensus \<Rightarrow> consensus" where
  "seq_saved pid seq st = emit (SaveSeq pid seq) (drop_task (AwaitSave pid seq) st)"

inductive step :: "label \<Rightarrow> consensus \<Rightarrow> consensus \<Rightarrow> bool" where
  deliver: "step (h, Some env) st (handleMessage h now env st)"
| members: "step (h, None) st (setValidatorSet vs st)"
| proposed: "step (h, None) st (propose config st)"
| proposing: "AwaitPropose config \<in> set (c_tasks st) \<Longrightarrow>
    step (h, None) st (snd (proposeLocked h config (lockSnapshot h JNull JUndef tip fetchW fetchC)
      (drop_task (AwaitPropose config) st)))"
| tip: "AwaitTip env \<in> set (c_tasks st) \<Longrightarrow>
    step (h, None) st (prePrepareTip h env myTip (drop_task (AwaitTip env) st))"
| snapshot_lock: "AwaitLock env \<in> set (c_tasks st) \<Longrightarrow>
    step (h, None) st (prePrepareLocked h now env (lockSnapshot h (d_height env) (d_height env) tip fetchW fetchC)
      (drop_task (AwaitLock env) st))"
| apply_ok: "AwaitApply pid seq \<in> set (c_tasks st) \<Longrightarrow>
    step (h, None) st (persistAppliedRound pid seq (config_applied pid seq st))"
| apply_failed: "AwaitApply pid seq \<in> set (c_tasks st) \<Longrightarrow>
    step (h, None) st (unlockFailedApply pid seq (drop_task (AwaitApply pid seq) st))"
| save_ok: "AwaitSave pid seq \<in> set (c_tasks st) \<Longrightarrow>
    step (h, None) st (finishAppliedRound pid seq (seq_saved pid seq st))"
| save_failed: "AwaitSave pid seq \<in> set (c_tasks st) \<Longrightarrow>
    step (h, None) st (unlockFailedApply pid seq (drop_task (AwaitSave pid seq) st))"
| timeout: "Timer pid seq \<in> set (c_tasks st) \<Longrightarrow>
    step (h, None) st (roundTimeout h pid seq (drop_task (Timer pid seq) st))"
| stopped: "step (h, None) st (stop st)"

inductive_cases step_cases: "step l st st'"

text \<open>A run from a start over some persisted row, with its trace of labels.\<close>

inductive run :: "label list \<Rightarrow> consensus \<Rightarrow> bool" where
  start: "loadSeq rows init_consensus = Some st \<Longrightarrow> run [] st"
| step: "run tr st \<Longrightarrow> step l st st' \<Longrightarrow> run (tr @ [l]) st'"

end
