(* ===== verification/Pbft_Micro.thy ===== *)
theory Pbft_Micro
  imports Pbft_Engine
begin

text \<open>
  What a run of the engine can do. The micro-step relation below is the abstract
  specification: guarded atomic updates of rounds, votes, applies and buffers. Every
  handler is a sequence of micro-steps (\<open>step_micros\<close>), so an invariant is proved once per
  micro-step and holds of every run.
\<close>

section \<open>Traces\<close>

text \<open>An envelope this hub received and admitted; a key that cast a vote; this hub's own key.\<close>

definition heard :: "label list \<Rightarrow> envelope \<Rightarrow> bool" where
  "heard tr env \<longleftrightarrow> (\<exists>h. (h, Some env) \<in> set tr \<and> isKnownSender h env)"

definition voted :: "label list \<Rightarrow> string \<Rightarrow> rat \<Rightarrow> string \<Rightarrow> string \<Rightarrow> bool" where
  "voted tr ty seq digest pk \<longleftrightarrow>
     (\<exists>env. heard tr env \<and> e_type env = ty \<and> d_seq env = JNum (Fin seq) \<and> d_digest env = JStr digest \<and>
        provenPubkey (e_sig env) = Some pk)"

definition hubs_of :: "label list \<Rightarrow> hub set" where
  "hubs_of tr = fst ` set tr"

definition own_key :: "label list \<Rightarrow> string \<Rightarrow> bool" where
  "own_key tr pk \<longleftrightarrow> (\<exists>h \<in> hubs_of tr. \<exists>k. hub_identity h = Some k \<and> to_lower k = pk)"

fun inflight :: "task \<Rightarrow> bool" where
  "inflight (AwaitApply pid seq) = True"
| "inflight (AwaitSave pid seq) = True"
| "inflight _ = False"

fun inflight_pid :: "task \<Rightarrow> nat" where
  "inflight_pid (AwaitApply pid seq) = pid"
| "inflight_pid (AwaitSave pid seq) = pid"
| "inflight_pid _ = 0"

fun guarded :: "effect \<Rightarrow> bool" where
  "guarded (ApplyConfig pid config) = True"
| "guarded (BCommit seq digest sig) = True"
| "guarded (SaveSeq pid seq) = True"
| "guarded (Resolve pid) = True"
| "guarded (ConfigApplied pid config) = True"
| "guarded _ = False"

definition waiting :: "consensus \<Rightarrow> envelope set" where
  "waiting st = {env. AwaitTip env \<in> set (c_tasks st) \<or> AwaitLock env \<in> set (c_tasks st)}"

definition early_envs :: "consensus \<Rightarrow> envelope set" where
  "early_envs st = (\<Union>b \<in> snd ` set (c_early st). set b)"

definition fresh_round :: "label list \<Rightarrow> proposal \<Rightarrow> bool" where
  "fresh_round tr p \<longleftrightarrow> \<not> p_resolved p \<and> \<not> p_applied p \<and> \<not> p_applying p \<and> \<not> p_commitSent p \<and>
     p_commits p = [] \<and> p_commitPks p = [] \<and> length (p_prepares p) \<le> 1 \<and> distinct (p_preparePks p) \<and>
     (\<forall>pk \<in> set (p_preparePks p). own_key tr pk)"

section \<open>Micro-steps\<close>

definition add_prepare :: "string \<Rightarrow> string option \<Rightarrow> proposal \<Rightarrow> proposal" where
  "add_prepare a ko p = p\<lparr>p_prepares := js_add a (p_prepares p), p_preparePks := add_key ko (p_preparePks p)\<rparr>"

definition add_commit :: "string \<Rightarrow> string option \<Rightarrow> proposal \<Rightarrow> proposal" where
  "add_commit a ko p = p\<lparr>p_commits := js_add a (p_commits p), p_commitPks := add_key ko (p_commitPks p)\<rparr>"

inductive micro :: "label list \<Rightarrow> consensus \<Rightarrow> consensus \<Rightarrow> bool" for tr where
  frame: "\<lbrakk>c_objs st' = c_objs st; c_pending st' = c_pending st; c_early st' = c_early st;
      c_earlyTtl st' = c_earlyTtl st; c_lastApplied st' = c_lastApplied st;
      filter inflight (c_tasks st') = filter inflight (c_tasks st);
      filter guarded (c_out st') = filter guarded (c_out st);
      waiting st' \<subseteq> waiting st \<union> {env. heard tr env \<and> e_type env = PBFT_PRE_PREPARE}\<rbrakk> \<Longrightarrow> micro tr st st'"
| prepare: "\<lbrakk>get_pending st seq = Some pid; heard tr env; e_type env = PBFT_PREPARE;
      d_seq env = JNum (Fin seq); d_digest env = JStr (p_digest (c_objs st ! pid));
      provenPubkey (e_sig env) = Some pk\<rbrakk> \<Longrightarrow>
    micro tr st (upd_obj pid (add_prepare (e_sender env) (Some pk)) st)"
| prepare_own: "\<lbrakk>get_pending st seq = Some pid; h \<in> hubs_of tr; heard tr env; e_type env = PBFT_PRE_PREPARE;
      d_seq env = JNum (Fin seq); d_digest env = JStr (p_digest (c_objs st ! pid));
      provenPubkey (e_sig env) = Some pk\<rbrakk> \<Longrightarrow>
    micro tr st (upd_obj pid (\<lambda>p. p\<lparr>p_prepares := js_add (hub_addr h) (js_add (e_sender env) (p_prepares p)),
      p_preparePks := addSelfPubkey h (add_key (Some pk) (p_preparePks p))\<rparr>) st)"
| commit: "\<lbrakk>get_pending st seq = Some pid; heard tr env; e_type env = PBFT_COMMIT;
      d_seq env = JNum (Fin seq); d_digest env = JStr (p_digest (c_objs st ! pid));
      provenPubkey (e_sig env) = Some pk\<rbrakk> \<Longrightarrow>
    micro tr st (upd_obj pid (add_commit (e_sender env) (Some pk)) st)"
| commit_own: "\<lbrakk>get_pending st seq = Some pid; h \<in> hubs_of tr; p = c_objs st ! pid; \<not> p_commitSent p;
      quorumMet h (p_weighted p) (p_validators p) (p_quorum p) (p_prepares p) (p_preparePks p)\<rbrakk> \<Longrightarrow>
    micro tr st (emit (BCommit seq (p_digest p) sg)
      (upd_obj pid (\<lambda>p. p\<lparr>p_commitSent := True, p_commits := js_add (hub_addr h) (p_commits p),
                         p_commitPks := addSelfPubkey h (p_commitPks p)\<rparr>) st))"
| applying: "\<lbrakk>get_pending st seq = Some pid; h \<in> hubs_of tr; p = c_objs st ! pid; \<not> p_applied p; \<not> p_applying p;
      quorumMet h (p_weighted p) (p_validators p) (p_quorum p) (p_commits p) (p_commitPks p)\<rbrakk> \<Longrightarrow>
    micro tr st (push_task (AwaitApply pid seq)
      (emit (ApplyConfig pid (p_config p)) (upd_obj pid (\<lambda>p. p\<lparr>p_applying := True\<rparr>) st)))"
| open_round: "fresh_round tr p \<Longrightarrow>
    micro tr st (st\<lparr>c_objs := c_objs st @ [p], c_pending := js_put seq (length (c_objs st)) (c_pending st)\<rparr>)"
| close_round: "micro tr st (del_pending seq st)"
| resolve_round: "micro tr st (upd_obj pid (\<lambda>p. p\<lparr>p_resolved := True\<rparr>) st)"
| buffer: "\<lbrakk>heard tr env; e_type env = PBFT_PREPARE \<or> e_type env = PBFT_COMMIT\<rbrakk> \<Longrightarrow>
    micro tr st (snd (bufferEarlyVote h now env st))"
| unbuffer: "micro tr st (st\<lparr>c_early := js_del seq (c_early st), c_earlyTtl := js_del seq (c_earlyTtl st)\<rparr>)"
| persist: "AwaitApply pid seq \<in> set (c_tasks st) \<Longrightarrow>
    micro tr st (persistAppliedRound pid seq (config_applied pid seq st))"
| applied: "\<lbrakk>AwaitSave pid seq \<in> set (c_tasks st); es = [] \<or> es = [Resolve pid]\<rbrakk> \<Longrightarrow>
    micro tr st ((upd_obj pid (\<lambda>p. p\<lparr>p_applied := True\<rparr>) (drop_task (AwaitSave pid seq) st))
      \<lparr>c_lastApplied := max (c_lastApplied st) seq, c_out := c_out st @ SaveSeq pid seq # es\<rparr>)"
| unlock: "\<lbrakk>t \<in> set (c_tasks st); t = AwaitApply pid seq \<or> t = AwaitSave pid seq\<rbrakk> \<Longrightarrow>
    micro tr st (upd_obj pid (\<lambda>p. p\<lparr>p_applying := False\<rparr>) (drop_task t st))"
| clear_all: "micro tr st (st\<lparr>c_pending := [], c_early := [], c_earlyTtl := []\<rparr>)"

abbreviation micros :: "label list \<Rightarrow> consensus \<Rightarrow> consensus \<Rightarrow> bool" where
  "micros tr \<equiv> (micro tr)\<^sup>*\<^sup>*"

section \<open>Every handler is a sequence of micro-steps\<close>

lemma heard_mono: "heard tr env \<Longrightarrow> set tr \<subseteq> set tr' \<Longrightarrow> heard tr' env"
  by (auto simp: heard_def)

lemma known_proven:
  assumes "isKnownSender h env"
  obtains pk where "provenPubkey (e_sig env) = Some pk" and "resolveSenderPubkey h' env = Some pk" and "pk \<noteq> []"
proof -
  obtain pk where pk: "provenPubkey (e_sig env) = Some pk"
    using assms isAdmissibleSigner_proven by (auto simp: isKnownSender_def)
  then have "pk \<noteq> []"
    by (auto simp: provenPubkey_def to_lower_def split: jsval.splits if_splits)
  with pk that show ?thesis
    by (simp add: resolveSenderPubkey_def)
qed

lemma micro_then: "micro tr a b \<Longrightarrow> micros tr b c \<Longrightarrow> micros tr a c"
  by (rule converse_rtranclp_into_rtranclp)

lemma micros_then: "micros tr a b \<Longrightarrow> micros tr b c \<Longrightarrow> micros tr a c"
  by (rule rtranclp_trans)

lemma checkCommitQuorum_micros:
  assumes h: "h \<in> hubs_of tr"
  shows "micros tr st (checkCommitQuorum h seq st)"
proof (cases "checkCommitQuorum h seq st = st")
  case False
  then obtain pid where pend: "get_pending st seq = Some pid"
    by (auto simp: checkCommitQuorum_def split: option.splits)
  let ?p = "c_objs st ! pid"
  from False pend have guards: "\<not> p_applied ?p" "\<not> p_applying ?p"
      "quorumMet h (p_weighted ?p) (p_validators ?p) (p_quorum ?p) (p_commits ?p) (p_commitPks ?p)"
    by (auto simp: checkCommitQuorum_def Let_def split: if_splits)
  show ?thesis
    using micro.applying [OF pend h refl guards] guards pend
    by (simp add: checkCommitQuorum_def Let_def r_into_rtranclp)
qed simp

lemma checkPrepareQuorum_micros:
  assumes "h \<in> hubs_of tr"
  shows "micros tr st (checkPrepareQuorum h seq st)"
proof (cases "checkPrepareQuorum h seq st = st")
  case False
  then obtain pid where pend: "get_pending st seq = Some pid"
    by (auto simp: checkPrepareQuorum_def split: option.splits)
  let ?p = "c_objs st ! pid"
  from False pend have guards: "\<not> p_commitSent ?p"
      "quorumMet h (p_weighted ?p) (p_validators ?p) (p_quorum ?p) (p_prepares ?p) (p_preparePks ?p)"
    and eq: "checkPrepareQuorum h seq st = checkCommitQuorum h seq
       (emit (BCommit seq (p_digest ?p) (equivVote h seq (p_view ?p) (p_digest ?p) (p_height ?p)))
         (upd_obj pid (\<lambda>p. p\<lparr>p_commitSent := True, p_commits := js_add (hub_addr h) (p_commits p),
            p_commitPks := addSelfPubkey h (p_commitPks p)\<rparr>) st))"
    by (auto simp: checkPrepareQuorum_def Let_def split: if_splits)
  show ?thesis
    unfolding eq
    by (rule micro_then, rule micro.commit_own [OF pend assms refl guards],
        rule checkCommitQuorum_micros [OF assms])
qed simp

lemma prepare_raw:
  assumes "get_pending st seq = Some pid" and "heard tr env"
    and "e_type env = PBFT_PREPARE"
    and "d_seq env = JNum (Fin seq)" and "d_digest env = JStr (p_digest (c_objs st ! pid))"
    and "provenPubkey (e_sig env) = Some pk"
  shows "micro tr st (upd_obj pid (\<lambda>p. p\<lparr>p_prepares := js_add (e_sender env) (p_prepares p),
    p_preparePks := add_key (Some pk) (p_preparePks p)\<rparr>) st)"
  using micro.prepare [OF assms] by (simp add: add_prepare_def [abs_def])

lemma commit_raw:
  assumes "get_pending st seq = Some pid" and "heard tr env" and "e_type env = PBFT_COMMIT"
    and "d_seq env = JNum (Fin seq)" and "d_digest env = JStr (p_digest (c_objs st ! pid))"
    and "provenPubkey (e_sig env) = Some pk"
  shows "micro tr st (upd_obj pid (\<lambda>p. p\<lparr>p_commits := js_add (e_sender env) (p_commits p),
    p_commitPks := add_key (Some pk) (p_commitPks p)\<rparr>) st)"
  using micro.commit [OF assms] by (simp add: add_commit_def [abs_def])

lemma handlePrepare_micros:
  assumes h: "h \<in> hubs_of tr" and env: "heard tr env \<or> (h, Some env) \<in> set tr" and ty: "e_type env = PBFT_PREPARE"
  shows "micros tr st (handlePrepare h now env st)"
proof (cases "truthy (d_seq env) \<and> truthy (d_digest env) \<and> isKnownSender h env")
  case True
  then have heard: "heard tr env"
    using env by (auto simp: heard_def)
  obtain pk where pk: "provenPubkey (e_sig env) = Some pk" "resolveSenderPubkey h env = Some pk" "pk \<noteq> []"
    using True known_proven by blast
  show ?thesis
  proof (cases "Option.bind (num_key (d_seq env)) (\<lambda>s. map_option (Pair s) (get_pending st s))")
    case None
    then show ?thesis
      using True heard ty by (auto simp: handlePrepare_def intro!: r_into_rtranclp micro.buffer)
  next
    case (Some sp)
    obtain seq pid where sp: "sp = (seq, pid)" by (cases sp)
    from Some have pend: "d_seq env = JNum (Fin seq)" "get_pending st seq = Some pid"
      by (auto simp: sp num_key_def bind_eq_Some_conv split: jsval.splits jsnum.splits)
    show ?thesis
      using True heard ty Some pend pk
      by (auto simp: handlePrepare_def sp
          intro!: micro_then [OF _ checkPrepareQuorum_micros [OF h]] prepare_raw)
  qed
qed (auto simp: handlePrepare_def)

lemma handleCommit_micros:
  assumes h: "h \<in> hubs_of tr" and env: "heard tr env \<or> (h, Some env) \<in> set tr" and ty: "e_type env = PBFT_COMMIT"
  shows "micros tr st (handleCommit h now env st)"
proof (cases "truthy (d_seq env) \<and> truthy (d_digest env) \<and> isKnownSender h env")
  case True
  then have heard: "heard tr env"
    using env by (auto simp: heard_def)
  obtain pk where pk: "provenPubkey (e_sig env) = Some pk" "resolveSenderPubkey h env = Some pk" "pk \<noteq> []"
    using True known_proven by blast
  show ?thesis
  proof (cases "Option.bind (num_key (d_seq env)) (\<lambda>s. map_option (Pair s) (get_pending st s))")
    case None
    then show ?thesis
      using True heard ty by (auto simp: handleCommit_def intro!: r_into_rtranclp micro.buffer)
  next
    case (Some sp)
    obtain seq pid where sp: "sp = (seq, pid)" by (cases sp)
    from Some have pend: "d_seq env = JNum (Fin seq)" "get_pending st seq = Some pid"
      by (auto simp: sp num_key_def bind_eq_Some_conv split: jsval.splits jsnum.splits)
    show ?thesis
      using True heard ty Some pend pk
      by (auto simp: handleCommit_def sp
          intro!: micro_then [OF _ checkCommitQuorum_micros [OF h]] commit_raw)
  qed
qed (auto simp: handleCommit_def)

lemma handleVote_micros:
  assumes "h \<in> hubs_of tr" and "heard tr env"
  shows "micros tr st (handleVote h now env st)"
  using handlePrepare_micros [OF assms(1)] handleCommit_micros [OF assms(1)] assms(2)
  by (auto simp: handleVote_def)

lemma fold_handleVote_micros:
  assumes "h \<in> hubs_of tr" and "\<forall>env \<in> set b. heard tr env"
  shows "micros tr st (fold (handleVote h now) b st)"
  using assms(2)
proof (induction b arbitrary: st)
  case (Cons env b)
  then show ?case
    by (auto intro: micros_then [OF handleVote_micros [OF assms(1)]])
qed simp

text \<open>Updates of the fields no micro-step guards.\<close>

lemma micros_frame:
  assumes "c_objs st' = c_objs st" and "c_pending st' = c_pending st" and "c_early st' = c_early st"
    and "c_earlyTtl st' = c_earlyTtl st" and "c_lastApplied st' = c_lastApplied st"
    and "filter inflight (c_tasks st') = filter inflight (c_tasks st)"
    and "filter guarded (c_out st') = filter guarded (c_out st)"
    and "waiting st' \<subseteq> waiting st \<union> {env. heard tr env \<and> e_type env = PBFT_PRE_PREPARE}"
  shows "micros tr st st'"
  by (rule r_into_rtranclp, rule micro.frame) (use assms in auto)

lemma filter_inflight_remove1 [simp]: "\<not> inflight t \<Longrightarrow> filter inflight (remove1 t ts) = filter inflight ts"
  by (induction ts) auto

lemma waiting_drop: "waiting (drop_task t st) \<subseteq> waiting st"
  using set_remove1_subset [of t "c_tasks st"] by (auto simp: waiting_def)

lemma micros_drop: "\<not> inflight t \<Longrightarrow> micros tr st (drop_task t st)"
  using waiting_drop by (intro micros_frame) auto

lemma replayEarlyVotes_micros:
  assumes "h \<in> hubs_of tr" and "\<forall>env \<in> early_envs st. heard tr env"
  shows "micros tr st (replayEarlyVotes h now seq st)"
proof (cases "map_of (c_early st) seq")
  case (Some b)
  let ?st1 = "st\<lparr>c_early := js_del seq (c_early st), c_earlyTtl := js_del seq (c_earlyTtl st)\<rparr>"
  let ?st2 = "fold (handleVote h now) b (?st1\<lparr>c_replaying := Some seq\<rparr>)"
  have "\<forall>env \<in> set b. heard tr env"
    using assms(2) map_of_SomeD [OF Some] by (force simp: early_envs_def)
  then have "micros tr (?st1\<lparr>c_replaying := Some seq\<rparr>) ?st2"
    by (rule fold_handleVote_micros [OF assms(1)])
  moreover have "micros tr ?st1 (?st1\<lparr>c_replaying := Some seq\<rparr>)"
    by (rule micros_frame) (auto simp: waiting_def)
  moreover have "micros tr ?st2 (?st2\<lparr>c_replaying := None\<rparr>)"
    by (rule micros_frame) (auto simp: waiting_def)
  moreover have "micro tr st ?st1"
    by (rule micro.unbuffer)
  ultimately have "micros tr st (?st2\<lparr>c_replaying := None\<rparr>)"
    by (meson micro_then micros_then)
  then show ?thesis
    by (auto simp: replayEarlyVotes_def Some)
qed (simp add: replayEarlyVotes_def)

lemma early_envs_upd_obj [simp]: "early_envs (upd_obj pid f st) = early_envs st"
  by (simp add: early_envs_def upd_obj_def)

lemma checkCommitQuorum_early [simp]: "c_early (checkCommitQuorum h seq st) = c_early st"
  by (simp add: checkCommitQuorum_def upd_obj_def Let_def split: option.split)

lemma checkPrepareQuorum_early [simp]: "c_early (checkPrepareQuorum h seq st) = c_early st"
  by (simp add: checkPrepareQuorum_def upd_obj_def Let_def split: option.split)

lemma castPrepare_micros:
  assumes h: "h \<in> hubs_of tr" and early: "\<forall>env \<in> early_envs st. heard tr env"
    and env: "heard tr env" "e_type env = PBFT_PRE_PREPARE" "d_seq env = JNum (Fin seq)" "d_digest env = JStr digest"
  shows "micros tr st (castPrepare h now env seq digest st)"
proof (cases "get_pending st seq")
  case (Some pid)
  obtain pk where pk: "provenPubkey (e_sig env) = Some pk" "resolveSenderPubkey h env = Some pk"
    using env(1) known_proven by (metis heard_def)
  show ?thesis
  proof (cases "p_digest (c_objs st ! pid) = digest")
    case True
    let ?st1 = "upd_obj pid (\<lambda>p. p\<lparr>p_prepares := js_add (hub_addr h) (js_add (e_sender env) (p_prepares p)),
      p_preparePks := addSelfPubkey h (add_key (Some pk) (p_preparePks p))\<rparr>) st"
    let ?p = "c_objs ?st1 ! pid"
    let ?st2 = "emit (BPrepare seq digest (equivVote h seq (p_view ?p) (p_digest ?p) (p_height ?p))) ?st1"
    have "micro tr st ?st1"
      using True by (intro micro.prepare_own [OF Some h env(1-3) _ pk(1)]) (simp add: env)
    moreover have "micros tr ?st1 ?st2"
      by (rule micros_frame) (auto simp: waiting_def)
    moreover have "micros tr ?st2 (checkPrepareQuorum h seq ?st2)"
      by (rule checkPrepareQuorum_micros [OF h])
    moreover have "micros tr (checkPrepareQuorum h seq ?st2)
        (replayEarlyVotes h now seq (checkPrepareQuorum h seq ?st2))"
      using early by (intro replayEarlyVotes_micros [OF h]) (simp add: early_envs_def upd_obj_def)
    ultimately have "micros tr st (replayEarlyVotes h now seq (checkPrepareQuorum h seq ?st2))"
      by (meson micro_then micros_then)
    then show ?thesis
      by (simp add: castPrepare_def Some True pk Let_def)
  qed (simp add: castPrepare_def Some)
qed (simp add: castPrepare_def)

lemma waiting_simps [simp]:
  "waiting (upd_obj pid f st) = waiting st" "waiting (st\<lparr>c_objs := os\<rparr>) = waiting st"
  "waiting (st\<lparr>c_pending := ps\<rparr>) = waiting st" "waiting (st\<lparr>c_out := es\<rparr>) = waiting st"
  "waiting (st\<lparr>c_view := v\<rparr>) = waiting st" "waiting (st\<lparr>c_seq := s\<rparr>) = waiting st"
  "waiting (st\<lparr>c_vc := m\<rparr>) = waiting st" "waiting (st\<lparr>c_vcPks := m\<rparr>) = waiting st"
  "waiting (st\<lparr>c_vcQuorums := q\<rparr>) = waiting st" "waiting (st\<lparr>c_validatorSet := vs\<rparr>) = waiting st"
  by (auto simp: waiting_def upd_obj_def)

lemma clear_timer_frame [simp]:
  "c_objs (clear_timer pid st) = c_objs st" "c_pending (clear_timer pid st) = c_pending st"
  "c_early (clear_timer pid st) = c_early st" "c_earlyTtl (clear_timer pid st) = c_earlyTtl st"
  "c_lastApplied (clear_timer pid st) = c_lastApplied st" "c_out (clear_timer pid st) = c_out st"
  "filter inflight (c_tasks (clear_timer pid st)) = filter inflight (c_tasks st)"
  "waiting (clear_timer pid st) = waiting st"
proof -
  have "inflight t \<Longrightarrow> (case t of Timer i s \<Rightarrow> i \<noteq> pid | _ \<Rightarrow> True)" for t
    by (cases t) auto
  then show "filter inflight (c_tasks (clear_timer pid st)) = filter inflight (c_tasks st)"
    by (simp add: clear_timer_def conj_absorb cong: filter_cong) (metis (no_types, lifting))
qed (auto simp: clear_timer_def waiting_def)

lemma upd_obj_frame [simp]:
  "c_pending (upd_obj pid f st) = c_pending st" "c_early (upd_obj pid f st) = c_early st"
  "c_earlyTtl (upd_obj pid f st) = c_earlyTtl st" "c_lastApplied (upd_obj pid f st) = c_lastApplied st"
  "c_tasks (upd_obj pid f st) = c_tasks st" "c_out (upd_obj pid f st) = c_out st"
  "length (c_objs (upd_obj pid f st)) = length (c_objs st)"
  by (simp_all add: upd_obj_def)

lemma settle_micros:
  assumes "\<not> guarded x"
  shows "micros tr st (emit x (clear_timer pid (upd_obj pid (\<lambda>p. p\<lparr>p_resolved := True\<rparr>) st)))"
  by (rule micro_then, rule micro.resolve_round [of tr st pid], rule micros_frame) (use assms in auto)

lemma finishAppliedRound_micros:
  assumes "AwaitSave pid seq \<in> set (c_tasks st)"
  shows "micros tr st (finishAppliedRound pid seq (seq_saved pid seq st))"
proof -
  let ?st1 = "upd_obj pid (\<lambda>p. p\<lparr>p_applied := True\<rparr>) (drop_task (AwaitSave pid seq) st)"
  let ?st2 = "\<lambda>es. ?st1\<lparr>c_lastApplied := max (c_lastApplied st) seq, c_out := c_out st @ SaveSeq pid seq # es\<rparr>"
  let ?res = "\<lambda>st'. clear_timer pid (upd_obj pid (\<lambda>p. p\<lparr>p_resolved := True\<rparr>) st')"
  have eq: "(if c_lastApplied st < seq then seq else c_lastApplied st) = max (c_lastApplied st) seq"
    by auto
  have applied: "micro tr st (?st2 es)" if "es = [] \<or> es = [Resolve pid]" for es
    by (rule micro.applied [OF assms that])
  have close: "micros tr st' (del_pending seq st')" for st'
    by (rule r_into_rtranclp, rule micro.close_round)
  have res: "micros tr st' (?res st')" for st'
    by (rule micro_then, rule micro.resolve_round [of tr st' pid], rule micros_frame) auto
  have "micros tr st (del_pending seq (?st2 []))"
    by (rule micro_then, rule applied [of "[]"], simp, rule close)
  moreover have "micros tr st (del_pending seq (?res (?st2 [Resolve pid])))"
    by (rule micro_then, rule applied [of "[Resolve pid]"], simp, rule micros_then, rule res, rule close)
  moreover have "finishAppliedRound pid seq (seq_saved pid seq st) =
      (if \<not> p_resolved (c_objs ?st1 ! pid) \<and> p_initiator (c_objs ?st1 ! pid)
       then del_pending seq (?res (?st2 [Resolve pid])) else del_pending seq (?st2 []))"
    by (simp add: finishAppliedRound_def seq_saved_def Let_def eq if_distrib [of "del_pending seq"] split del: if_split cong: if_cong)
       (cases st, simp add: upd_obj_def clear_timer_def)
  ultimately show ?thesis
    by (simp split del: if_split) (simp split: if_split)
qed

lemma unlockFailedApply_micros:
  assumes "t \<in> set (c_tasks st)" and "t = AwaitApply pid seq \<or> t = AwaitSave pid seq"
  shows "micros tr st (unlockFailedApply pid seq (drop_task t st))"
proof -
  let ?st1 = "upd_obj pid (\<lambda>p. p\<lparr>p_applying := False\<rparr>) (drop_task t st)"
  have "micro tr st ?st1"
    by (rule micro.unlock [OF assms])
  moreover have "micros tr ?st1 (del_pending seq (emit (Reject pid) (clear_timer pid
      (upd_obj pid (\<lambda>p. p\<lparr>p_resolved := True\<rparr>) ?st1))))"
    by (rule micros_then, rule settle_micros [of "Reject pid"], simp, rule r_into_rtranclp, rule micro.close_round)
  ultimately have "micros tr st ?st1" "micros tr st (del_pending seq (emit (Reject pid) (clear_timer pid
      (upd_obj pid (\<lambda>p. p\<lparr>p_resolved := True\<rparr>) ?st1))))"
    by (meson micro_then rtranclp.rtrancl_refl)+
  then show ?thesis
    by (simp add: unlockFailedApply_def Let_def)
qed

lemma initiateViewChange_micros: "micros tr st (initiateViewChange h seq q w v m st)"
  by (rule micros_frame) (simp_all add: initiateViewChange_def Let_def waiting_def)

lemma roundTimeout_micros: "micros tr st (roundTimeout h pid seq st)"
proof -
  let ?p = "c_objs st ! pid"
  let ?st0 = "upd_obj pid (\<lambda>p. p\<lparr>p_resolved := True\<rparr>) st"
  let ?st1 = "del_pending seq ?st0"
  let ?st2 = "initiateViewChange h seq (p_quorum ?p) (p_weighted ?p) (p_validators ?p) (p_members ?p) ?st1"
  have "micro tr st ?st0" "micro tr ?st0 ?st1"
    by (rule micro.resolve_round micro.close_round)+
  moreover have "micros tr ?st1 (emit (Reject pid) ?st2)"
    by (rule micros_then, rule initiateViewChange_micros, rule micros_frame) auto
  ultimately have "micros tr st ?st1" "micros tr st (emit (Reject pid) ?st2)"
    by (meson micro_then rtranclp.rtrancl_refl)+
  then show ?thesis
    by (simp add: roundTimeout_def Let_def)
qed

lemma acceptViewChange_micros: "micros tr st (acceptViewChange h view seq ctx st)"
  by (rule micros_frame) (simp_all add: acceptViewChange_def Let_def waiting_def)

lemma handleViewChange_micros: "micros tr st (handleViewChange h env st)"
proof -
  have vc: "micros tr st (st\<lparr>c_vc := m\<rparr>)" "micros tr st (st\<lparr>c_vc := m, c_vcPks := m'\<rparr>)" for m m'
    by (rule micros_frame; simp)+
  then show ?thesis
    by (auto simp: handleViewChange_def Let_def split: jsval.split jsnum.split
        intro: micros_then [OF _ acceptViewChange_micros])
qed

lemma handleNewView_micros: "micros tr st (handleNewView h env st)"
  by (rule micros_frame) (auto simp: handleNewView_def Let_def split: jsval.split jsnum.split)

lemma stop_round_micros: "micros tr st (stop_round pid st)"
proof -
  have "micros tr st (clear_timer pid (upd_obj pid (\<lambda>p. p\<lparr>p_resolved := True\<rparr>) st))"
    by (rule micro_then, rule micro.resolve_round [of tr st pid], rule micros_frame) auto
  then show ?thesis
    using settle_micros [of "Reject pid" tr st pid] by (simp add: stop_round_def Let_def)
qed

lemma stop_micros: "micros tr st (stop st)"
proof -
  have fold: "micros tr st (fold stop_round pids st)" for pids
    by (induction pids arbitrary: st) (auto intro: micros_then [OF stop_round_micros])
  let ?f = "fold stop_round (map snd (c_pending st)) st"
  have "micros tr ?f (?f\<lparr>c_vcQuorums := [], c_vc := [], c_vcPks := [], c_replaying := None\<rparr>)" (is "micros tr ?f ?g")
    by (rule micros_frame) (auto simp: waiting_def)
  moreover have "micro tr ?g (?g\<lparr>c_pending := [], c_early := [], c_earlyTtl := []\<rparr>)"
    by (rule micro.clear_all)
  moreover have "stop st = ?g\<lparr>c_pending := [], c_early := [], c_earlyTtl := []\<rparr>"
    by (simp add: stop_def)
  ultimately show ?thesis
    using fold [of "map snd (c_pending st)"] by (metis micros_then rtranclp.rtrancl_into_rtrancl)
qed

lemma openLeaderRound_micros:
  assumes h: "h \<in> hubs_of tr"
  shows "micros tr st (openLeaderRound h config seq digest lk q w ms st)"
proof -
  let ?p0 = "buildLeaderProposal st config digest lk q w ms"
  let ?p = "?p0\<lparr>p_prepares := js_add (hub_addr h) (p_prepares ?p0), p_preparePks := addSelfPubkey h (p_preparePks ?p0)\<rparr>"
  let ?st1 = "st\<lparr>c_objs := c_objs st @ [?p], c_pending := js_put seq (length (c_objs st)) (c_pending st)\<rparr>"
  let ?st2 = "push_task (Timer (length (c_objs st)) seq) ?st1"
  let ?st3 = "emit (BPrePrepare seq (c_view ?st2) digest config (p_height ?p) (p_weighted ?p)
                  (equivVote h seq (c_view ?st2) digest (p_height ?p))) ?st2"
  have "fresh_round tr ?p"
    using h by (auto simp: fresh_round_def buildLeaderProposal_def js_add_def addSelfPubkey_def own_key_def
        split: option.splits)
  then have "micro tr st ?st1"
    by (rule micro.open_round)
  moreover have "micros tr ?st1 ?st3"
    by (rule micros_frame) (auto simp: waiting_def)
  moreover have "micros tr ?st3 (checkPrepareQuorum h seq ?st3)"
    by (rule checkPrepareQuorum_micros [OF h])
  ultimately have "micros tr st (checkPrepareQuorum h seq ?st3)"
    by (meson micro_then micros_then)
  then show ?thesis
    by (simp only: openLeaderRound_def Let_def)
qed

lemma proposeLocked_micros:
  assumes "h \<in> hubs_of tr"
  shows "micros tr st (snd (proposeLocked h config lk st))"
proof -
  have "micros tr st (st\<lparr>c_seq := s\<rparr>)" "micros tr st (st\<lparr>c_seq := s, c_view := 0\<rparr>)"
      "micros tr st (emit (ApplyDirect config) st)" for s
    by (rule micros_frame; simp)+
  then show ?thesis
    by (auto simp: proposeLocked_def Let_def split: sum.split round_plan.split
        intro: micros_then [OF _ openLeaderRound_micros [OF assms]])
qed

lemma openFollowerRound_micros: "micros tr st (openFollowerRound seq view env digest lk q w st)"
proof -
  have "micros tr st (push_task (Timer (length (c_objs st)) seq) st)"
    by (rule micros_frame) (auto simp: waiting_def)
  then show ?thesis
    unfolding openFollowerRound_def Let_def
    by (rule rtranclp.rtrancl_into_rtrancl)
       (use micro.open_round [of tr _ "push_task (Timer (length (c_objs st)) seq) st" seq] in
         \<open>simp add: fresh_round_def\<close>)
qed

lemma openFollowerRound_early [simp]: "c_early (openFollowerRound seq view env digest lk q w st) = c_early st"
  by (simp add: openFollowerRound_def Let_def)

lemma push_waiting_micros:
  assumes "heard tr env" and "e_type env = PBFT_PRE_PREPARE"
  shows "micros tr st (push_task (AwaitTip env) st)" and "micros tr st (push_task (AwaitLock env) st)"
  by (rule micros_frame; use assms in \<open>auto simp: waiting_def\<close>)+

lemma prePrepareAdmissible_known: "prePrepareAdmissible h env st \<Longrightarrow> isKnownSender h env"
  by (auto simp: prePrepareAdmissible_def split: if_splits jsval.splits)

lemma handlePrePrepare_micros:
  assumes h: "h \<in> hubs_of tr" and env: "(h, Some env) \<in> set tr" and ty: "e_type env = PBFT_PRE_PREPARE"
    and early: "\<forall>env \<in> early_envs st. heard tr env"
  shows "micros tr st (handlePrePrepare h now env st)"
proof (cases "prePrepareAdmissible h env st")
  case True
  then have heard: "heard tr env"
    using env prePrepareAdmissible_known by (auto simp: heard_def)
  have "micros tr st (castPrepare h now env seq digest st)"
    if "d_seq env = JNum (Fin seq)" "d_digest env = JStr digest" for seq digest
    by (rule castPrepare_micros [OF h early heard ty that])
  then show ?thesis
    using True push_waiting_micros [OF heard ty]
    by (auto simp: handlePrePrepare_def num_key_def split: jsval.split option.split jsnum.split)
qed (simp add: handlePrePrepare_def)

lemma prePrepareLocked_micros:
  assumes h: "h \<in> hubs_of tr" and env: "heard tr env" and ty: "e_type env = PBFT_PRE_PREPARE"
    and early: "\<forall>env \<in> early_envs st. heard tr env"
  shows "micros tr st (prePrepareLocked h now env lk st)"
proof -
  have "micros tr st (castPrepare h now env seq digest (openFollowerRound seq view env digest lk q w st))"
    if "d_seq env = JNum (Fin seq)" "d_digest env = JStr digest" for seq view digest q w
    by (rule micros_then, rule openFollowerRound_micros, rule castPrepare_micros [OF h _ env ty that])
       (use early in \<open>simp add: early_envs_def\<close>)
  then show ?thesis
    by (auto simp: prePrepareLocked_def split: option.split jsval.split)
qed

definition traced :: "label list \<Rightarrow> consensus \<Rightarrow> bool" where
  "traced tr st \<longleftrightarrow>
     (\<forall>env \<in> early_envs st. heard tr env \<and> (e_type env = PBFT_PREPARE \<or> e_type env = PBFT_COMMIT)) \<and>
     (\<forall>env \<in> waiting st. heard tr env \<and> e_type env = PBFT_PRE_PREPARE)"

lemma handleMessage_micros:
  assumes "(h, Some env) \<in> set tr" and "traced tr st"
  shows "micros tr st (handleMessage h now env st)"
proof -
  have "h \<in> hubs_of tr"
    using assms(1) by (force simp: hubs_of_def)
  then show ?thesis
    using assms handlePrePrepare_micros handlePrepare_micros handleCommit_micros
      handleViewChange_micros handleNewView_micros
    by (simp add: handleMessage_def traced_def)
qed

lemma early_envs_drop [simp]: "early_envs (drop_task t st) = early_envs st"
  by (simp add: early_envs_def)

theorem step_micros:
  assumes "step l st st'" and l: "l \<in> set tr" and inv: "traced tr st"
  shows "micros tr st st'"
  using assms(1)
proof cases
  case (deliver h env now)
  then show ?thesis using l inv handleMessage_micros by auto
next
  case (members h vs)
  then show ?thesis by (auto simp: setValidatorSet_def intro!: micros_frame)
next
  case (proposed h config)
  then show ?thesis by (auto simp: propose_def waiting_def intro!: micros_frame)
next
  case (proposing config h tip fetchW fetchC)
  moreover have "h \<in> hubs_of tr" using proposing(1) l by (force simp: hubs_of_def)
  ultimately show ?thesis
    by (auto intro!: micros_then [OF micros_drop proposeLocked_micros])
next
  case (tip env h myTip)
  then have "heard tr env" "e_type env = PBFT_PRE_PREPARE" using inv by (auto simp: traced_def waiting_def)
  then have "micros tr (drop_task (AwaitTip env) st) st'"
    using tip push_waiting_micros(2) [of tr env "drop_task (AwaitTip env) st"] by (simp add: prePrepareTip_def)
  moreover have "micros tr st (drop_task (AwaitTip env) st)"
    by (rule micros_drop) simp
  ultimately show ?thesis
    by (meson micros_then)
next
  case (snapshot_lock env h now tip fetchW fetchC)
  then have "heard tr env" "e_type env = PBFT_PRE_PREPARE" using inv by (auto simp: traced_def waiting_def)
  moreover have "h \<in> hubs_of tr" using snapshot_lock(1) l by (force simp: hubs_of_def)
  ultimately show ?thesis
    using snapshot_lock inv by (auto simp: traced_def intro!: micros_then [OF micros_drop prePrepareLocked_micros])
next
  case (apply_ok pid seq h)
  then show ?thesis by (auto intro: micro.persist)
next
  case (apply_failed pid seq h)
  then show ?thesis using unlockFailedApply_micros by blast
next
  case (save_ok pid seq h)
  then show ?thesis using finishAppliedRound_micros by blast
next
  case (save_failed pid seq h)
  then show ?thesis using unlockFailedApply_micros by blast
next
  case (timeout pid seq h)
  then show ?thesis by (auto intro: micros_then [OF micros_drop roundTimeout_micros])
next
  case (stopped h)
  then show ?thesis using stop_micros by blast
qed

end
