(* ===== verification/Pbft_Safety.thy ===== *)
theory Pbft_Safety
  imports Pbft_Micro
begin

text \<open>
  Invariants of every run of the engine, each proved over the micro-steps and lifted by the
  locale \<open>run_invariant\<close>: the bounds of the early-vote buffer, the exclusive in-flight
  apply of a round, the certificates behind every COMMIT and every applied config, and the
  durability of an acknowledged round.
\<close>

section \<open>The early-vote buffer\<close>

lemma keys_fold_js_del: "fst ` set (fold js_del ks m) = fst ` set m - set ks"
  by (induction ks arbitrary: m) (auto simp: js_del_def)

lemma set_fold_js_del: "set (fold js_del ks m) \<subseteq> set m"
  by (induction ks arbitrary: m) (force simp: js_del_def)+

lemma fold_js_del_ok: "js_map_ok m \<Longrightarrow> js_map_ok (fold js_del ks m)"
  by (induction ks arbitrary: m) (auto simp: js.del_ok)

lemma set_js_put: "set (js_put k v m) \<subseteq> insert (k, v) (set m)"
  by (induction m rule: js_put.induct) auto

definition trimmed :: "consensus \<Rightarrow> consensus \<Rightarrow> bool" where
  "trimmed st st' \<longleftrightarrow> st' = st\<lparr>c_early := c_early st', c_earlyTtl := c_earlyTtl st'\<rparr> \<and>
     set (c_early st') \<subseteq> set (c_early st) \<and> length (c_early st') \<le> length (c_early st) \<and>
     (js_map_ok (c_early st) \<longrightarrow> js_map_ok (c_early st')) \<and> (js_map_ok (c_earlyTtl st) \<longrightarrow> js_map_ok (c_earlyTtl st')) \<and>
     (fst ` set (c_early st) = fst ` set (c_earlyTtl st) \<longrightarrow> fst ` set (c_early st') = fst ` set (c_earlyTtl st'))"

lemma trimmed_refl: "trimmed st st"
  by (simp add: trimmed_def)

lemma keys_js_del: "fst ` set (js_del k m) = fst ` set m - {k}"
  by (auto simp: js_del_def)

lemma trimmed_del:
  "trimmed st (st\<lparr>c_early := js_del k (c_early st), c_earlyTtl := js_del k (c_earlyTtl st)\<rparr>)"
proof -
  have "set (js_del k m) \<subseteq> set m" "length (js_del k m) \<le> length m" for m :: "(rat \<times> envelope list) list"
    by (auto simp: js_del_def)
  then show ?thesis
    by (simp add: trimmed_def js.del_ok keys_js_del)
qed

lemma trimmed_trans: "trimmed a b \<Longrightarrow> trimmed b c \<Longrightarrow> trimmed a c"
  unfolding trimmed_def by (cases a; cases b; cases c) (simp; blast intro: subset_trans order_trans)

lemma trimmed_fold_del:
  "trimmed st (st\<lparr>c_early := fold js_del ks (c_early st), c_earlyTtl := fold js_del ks (c_earlyTtl st)\<rparr>)"
proof (induction ks arbitrary: st)
  case (Cons k ks)
  show ?case
    using trimmed_trans [OF trimmed_del [of st k] Cons.IH] by simp
qed (simp add: trimmed_refl)

lemma evictEarly_trimmed: "trimmed st (evictEarly st) \<and> length (c_early (evictEarly st)) < EARLY_VOTE_MAX_SEQS"
proof (induction st rule: evictEarly.induct)
  case (1 st)
  show ?case
  proof (cases "EARLY_VOTE_MAX_SEQS \<le> length (c_early st)")
    case True
    then obtain k b rest where e: "c_early st = (k, b) # rest"
      by (cases "c_early st") (auto simp: EARLY_VOTE_MAX_SEQS_def)
    let ?st' = "st\<lparr>c_early := js_del k (c_early st), c_earlyTtl := js_del k (c_earlyTtl st)\<rparr>"
    have "evictEarly st = evictEarly ?st'"
      using True e by (subst evictEarly.simps) simp
    with "1.IH" [OF e refl True] trimmed_trans [OF trimmed_del [of st k]] show ?thesis
      by simp
  next
    case False
    then have "evictEarly st = st"
      by (subst evictEarly.simps) (auto split: list.split)
    with False show ?thesis
      by (simp add: trimmed_refl)
  qed
qed

lemma pruneEarlyVotes_trimmed: "trimmed st (pruneEarlyVotes now st)"
  unfolding pruneEarlyVotes_def Let_def by (rule trimmed_fold_del)

definition bucket_ok :: "rat \<times> envelope list \<Rightarrow> bool" where
  "bucket_ok e \<longleftrightarrow> int_valued (fst e) \<and> 0 < fst e \<and> snd e \<noteq> [] \<and> length (snd e) \<le> EARLY_VOTE_MAX_PER_SEQ \<and>
     (\<forall>env \<in> set (snd e). d_seq env = JNum (Fin (fst e)))"

definition early_ok :: "consensus \<Rightarrow> bool" where
  "early_ok st \<longleftrightarrow> js_map_ok (c_early st) \<and> js_map_ok (c_earlyTtl st) \<and>
     fst ` set (c_early st) = fst ` set (c_earlyTtl st) \<and>
     length (c_early st) \<le> EARLY_VOTE_MAX_SEQS \<and> (\<forall>e \<in> set (c_early st). bucket_ok e)"

lemma early_ok_trimmed: "early_ok st \<Longrightarrow> trimmed st st' \<Longrightarrow> early_ok st'"
  by (auto simp: early_ok_def trimmed_def)

text \<open>The state a new bucket is created in, and the buffer after one vote.\<close>

definition room_for :: "rat \<Rightarrow> consensus \<Rightarrow> consensus" where
  "room_for seq st = (case map_of (c_early st) seq of Some b \<Rightarrow> st | None \<Rightarrow> evictEarly st)"

lemma room_for_trimmed: "trimmed st (room_for seq st)"
  using evictEarly_trimmed by (simp add: room_for_def trimmed_refl split: option.split)

definition bucket_of :: "consensus \<Rightarrow> rat \<Rightarrow> envelope list" where
  "bucket_of st seq = (case map_of (c_early st) seq of Some b \<Rightarrow> b | None \<Rightarrow> [])"

definition buffered :: "rat \<Rightarrow> rat \<Rightarrow> envelope \<Rightarrow> consensus \<Rightarrow> consensus" where
  "buffered expiry seq env st =
     st\<lparr>c_early := js_put seq (bucket_of st seq @ [env]) (c_early st), c_earlyTtl := js_put seq expiry (c_earlyTtl st)\<rparr>"

lemma map_of_None_subset:
  "map_of m k = None \<Longrightarrow> set m' \<subseteq> set m \<Longrightarrow> map_of m' k = None"
  by (auto simp: map_of_eq_None_iff)

lemma bufferEarlyVote_cases:
  obtains (same) "snd (bufferEarlyVote h now env st) = st"
  | (full) "snd (bufferEarlyVote h now env st) = pruneEarlyVotes now st"
  | (put) seq where "d_seq env = JNum (Fin seq)" "int_valued seq" "0 < seq"
      "length (bucket_of (room_for seq (pruneEarlyVotes now st)) seq) < EARLY_VOTE_MAX_PER_SEQ"
      "snd (bufferEarlyVote h now env st) =
         buffered (now + hub_timeout h) seq env (room_for seq (pruneEarlyVotes now st))"
proof (cases "num_key (d_seq env)")
  case (Some seq)
  let ?st1 = "pruneEarlyVotes now st"
  show ?thesis
  proof (cases "\<not> int_valued seq \<or> seq \<le> 0 \<or> seq \<le> c_lastApplied st \<or> c_replaying st = Some seq")
    case True
    then show ?thesis using Some same by (auto simp: bufferEarlyVote_def split: if_splits)
  next
    case False
    show ?thesis
    proof (cases "map_of (c_early ?st1) seq")
      case None
      have "map_of (c_early (evictEarly ?st1)) seq = None"
        using evictEarly_trimmed [of ?st1] map_of_None_subset [OF None] by (simp add: trimmed_def)
      then show ?thesis
        using False Some None put [of seq]
        by (simp add: bufferEarlyVote_def room_for_def bucket_of_def buffered_def js.get_put_same js_put_put
            EARLY_VOTE_MAX_PER_SEQ_def Let_def)
    next
      case (Some b)
      then have eq: "snd (bufferEarlyVote h now env st) = (if EARLY_VOTE_MAX_PER_SEQ \<le> length b then ?st1
          else buffered (now + hub_timeout h) seq env ?st1)"
        and room: "room_for seq ?st1 = ?st1" and bucket: "bucket_of ?st1 seq = b"
        using False \<open>num_key (d_seq env) = Some seq\<close>
        by (simp_all add: bufferEarlyVote_def room_for_def bucket_of_def buffered_def Let_def)
      show ?thesis
      proof (cases "EARLY_VOTE_MAX_PER_SEQ \<le> length b")
        case True
        then show ?thesis using eq by (intro full) simp
      next
        case False
        then show ?thesis
          using eq room bucket \<open>num_key (d_seq env) = Some seq\<close>
            \<open>\<not> (\<not> int_valued seq \<or> seq \<le> 0 \<or> seq \<le> c_lastApplied st \<or> c_replaying st = Some seq)\<close>
          by (intro put [of seq]) simp_all
      qed
    qed
  qed
qed (use same in \<open>simp add: bufferEarlyVote_def\<close>)

lemma bucket_of_mem: "x \<in> set (bucket_of st seq) \<Longrightarrow> \<exists>b. (seq, b) \<in> set (c_early st) \<and> x \<in> set b"
  by (cases "map_of (c_early st) seq") (auto simp: bucket_of_def dest: map_of_SomeD)

lemma trimmed_shape: "trimmed st st' \<Longrightarrow> \<exists>e t. st' = st\<lparr>c_early := e, c_earlyTtl := t\<rparr>"
  unfolding trimmed_def by blast

lemma buffered_shape: "\<exists>e t. snd (bufferEarlyVote h now env st) = st\<lparr>c_early := e, c_earlyTtl := t\<rparr>"
proof (cases rule: bufferEarlyVote_cases [of h now env st])
  case same
  then show ?thesis
    using trimmed_shape [OF trimmed_refl, of st] by simp
next
  case full
  then show ?thesis
    using trimmed_shape [OF pruneEarlyVotes_trimmed [of st now]] by simp
next
  case (put seq)
  obtain e t where eq: "room_for seq (pruneEarlyVotes now st) = st\<lparr>c_early := e, c_earlyTtl := t\<rparr>"
    using trimmed_shape [OF trimmed_trans [OF pruneEarlyVotes_trimmed room_for_trimmed]] by blast
  show ?thesis
    unfolding put(5) buffered_def eq by (simp, blast)
qed

lemma early_envs_trimmed: "trimmed st st' \<Longrightarrow> early_envs st' \<subseteq> early_envs st"
  by (auto simp: trimmed_def early_envs_def)

lemma early_envs_buffered: "early_envs (snd (bufferEarlyVote h now env st)) \<subseteq> insert env (early_envs st)"
proof (cases rule: bufferEarlyVote_cases [of h now env st])
  case full
  then show ?thesis
    using early_envs_trimmed [OF pruneEarlyVotes_trimmed [of st now]] by auto
next
  case (put seq)
  let ?st1 = "room_for seq (pruneEarlyVotes now st)"
  have sub: "early_envs ?st1 \<subseteq> early_envs st"
    by (rule early_envs_trimmed [OF trimmed_trans [OF pruneEarlyVotes_trimmed room_for_trimmed]])
  have "set (bucket_of ?st1 seq) \<subseteq> early_envs ?st1"
    using bucket_of_mem by (force simp: early_envs_def)
  moreover have "early_envs (buffered x seq env ?st1) \<subseteq> insert env (set (bucket_of ?st1 seq) \<union> early_envs ?st1)" for x
    using set_js_put [of seq "bucket_of ?st1 seq @ [env]" "c_early ?st1"]
    by (fastforce simp: early_envs_def buffered_def)
  ultimately show ?thesis
    unfolding put(5) using sub by blast
qed auto

lemma early_ok_buffered:
  assumes "early_ok st"
  shows "early_ok (snd (bufferEarlyVote h now env st))"
proof (cases rule: bufferEarlyVote_cases [of h now env st])
  case full
  then show ?thesis
    using early_ok_trimmed [OF assms pruneEarlyVotes_trimmed] by simp
next
  case (put seq)
  let ?st1 = "room_for seq (pruneEarlyVotes now st)"
  have ok: "early_ok ?st1"
    by (rule early_ok_trimmed [OF early_ok_trimmed [OF assms pruneEarlyVotes_trimmed] room_for_trimmed])
  let ?b = "bucket_of ?st1 seq @ [env]"
  have old: "\<forall>x \<in> set (bucket_of ?st1 seq). d_seq x = JNum (Fin seq)"
    using ok by (fastforce simp: early_ok_def bucket_ok_def dest: bucket_of_mem)
  have "bucket_ok (seq, ?b)"
    using put old by (auto simp: bucket_ok_def)
  then have "\<forall>e \<in> set (js_put seq ?b (c_early ?st1)). bucket_ok e"
    using ok set_js_put [of seq ?b "c_early ?st1"] by (auto simp: early_ok_def)
  moreover have "length (js_put seq ?b (c_early ?st1)) \<le> EARLY_VOTE_MAX_SEQS"
  proof (cases "map_of (c_early (pruneEarlyVotes now st)) seq")
    case None
    then have "length (c_early ?st1) < EARLY_VOTE_MAX_SEQS"
      using evictEarly_trimmed by (simp add: room_for_def)
    then show ?thesis
      by (simp add: length_js_put)
  next
    case (Some b)
    then have "seq \<in> fst ` set (c_early ?st1)"
      by (force simp: room_for_def dest: map_of_SomeD)
    then show ?thesis
      using ok by (simp add: length_js_put early_ok_def)
  qed
  ultimately show ?thesis
    using ok unfolding put(5) by (simp add: early_ok_def buffered_def js.put_ok set_keys_js_put)
qed (use assms in auto)

section \<open>Invariants of runs\<close>

lemma traced_mono: "traced tr st \<Longrightarrow> set tr \<subseteq> set tr' \<Longrightarrow> traced tr' st"
  by (auto simp: traced_def intro: heard_mono)

lemma early_envs_del: "early_envs (st\<lparr>c_early := js_del k (c_early st), c_earlyTtl := t\<rparr>) \<subseteq> early_envs st"
  by (auto simp: early_envs_def js_del_def)

lemma waiting_early [simp]: "waiting (st\<lparr>c_early := e, c_earlyTtl := t\<rparr>) = waiting st"
  by (simp add: waiting_def)

lemma traced_cong:
  "traced tr st \<Longrightarrow> early_envs st' \<subseteq> early_envs st \<Longrightarrow> waiting st' \<subseteq> waiting st \<Longrightarrow> traced tr st'"
  by (auto simp: traced_def)

lemma micro_traced:
  assumes "micro tr st st'" and "traced tr st"
  shows "traced tr st'"
  using assms(1)
proof cases
  case frame
  then have "early_envs st' = early_envs st"
    by (simp add: early_envs_def)
  with frame assms(2) show ?thesis
    by (auto simp: traced_def)
next
  case (buffer env h now)
  obtain e t where "st' = st\<lparr>c_early := e, c_earlyTtl := t\<rparr>"
    using buffered_shape buffer(1) by metis
  then have "waiting st' = waiting st"
    by simp
  with assms(2) buffer early_envs_buffered [of h now env st] show ?thesis
    by (auto simp: traced_def)
next
  case (unbuffer seq)
  with early_envs_del traced_cong [OF assms(2)] show ?thesis
    by (metis order_refl waiting_early)
next
  case (persist pid seq)
  then show ?thesis
    using set_remove1_subset [of "AwaitApply pid seq" "c_tasks st"]
    by (intro traced_cong [OF assms(2)]) (auto simp: persistAppliedRound_def config_applied_def early_envs_def waiting_def)
next
  case (applied pid seq es)
  then show ?thesis
    using set_remove1_subset [of "AwaitSave pid seq" "c_tasks st"]
    by (intro traced_cong [OF assms(2)]) (auto simp: upd_obj_def early_envs_def waiting_def)
next
  case (unlock t pid seq)
  then show ?thesis
    using set_remove1_subset [of t "c_tasks st"]
    by (intro traced_cong [OF assms(2)]) (auto simp: upd_obj_def early_envs_def waiting_def)
qed (auto intro!: traced_cong [OF assms(2)] simp: early_envs_def waiting_def upd_obj_def del_pending_def)

lemma traced_start: "loadSeq rows init_consensus = Some st \<Longrightarrow> traced [] st"
  by (auto simp: traced_def early_envs_def waiting_def loadSeq_def init_consensus_def Let_def
      split: option.splits list.splits)

text \<open>A property of states that the start establishes and every micro-step keeps holds in every run.\<close>

locale run_invariant =
  fixes I :: "label list \<Rightarrow> consensus \<Rightarrow> bool"
  assumes at_start: "loadSeq rows init_consensus = Some st \<Longrightarrow> I [] st"
    and longer: "I tr st \<Longrightarrow> set tr \<subseteq> set tr' \<Longrightarrow> I tr' st"
    and kept: "micro tr st st' \<Longrightarrow> traced tr st \<Longrightarrow> I tr st \<Longrightarrow> I tr st'"
begin

lemma micros_kept: "micros tr st st' \<Longrightarrow> traced tr st \<Longrightarrow> I tr st \<Longrightarrow> traced tr st' \<and> I tr st'"
  by (induction rule: rtranclp_induct) (auto intro: micro_traced kept)

lemma in_run: "run tr st \<Longrightarrow> traced tr st \<and> I tr st"
proof (induction rule: run.induct)
  case (start rows st)
  then show ?case
    by (simp add: traced_start at_start)
next
  case (step tr st l st')
  then have "traced (tr @ [l]) st" "I (tr @ [l]) st"
    using traced_mono longer by (metis set_append sup_ge1)+
  moreover have "micros (tr @ [l]) st st'"
    using step.hyps(2) calculation(1) by (intro step_micros) auto
  ultimately show ?case
    using micros_kept by blast
qed

end

lemma early_ok_micro: "micro tr st st' \<Longrightarrow> early_ok st \<Longrightarrow> early_ok st'"
proof (induction rule: micro.induct)
  case (buffer env st h now)
  then show ?case by (simp add: early_ok_buffered)
next
  case (unbuffer st seq)
  then show ?case using early_ok_trimmed [OF _ trimmed_del] by blast
qed (auto simp: early_ok_def persistAppliedRound_def config_applied_def del_pending_def js_map_ok_def)

interpretation early: run_invariant "\<lambda>tr. early_ok"
proof (unfold_locales, goal_cases)
  case (1 rows st)
  then show ?case
    by (auto simp: early_ok_def loadSeq_def init_consensus_def js_map_ok_def Let_def
        split: option.splits list.splits)
next
  case 2
  then show ?case by simp
next
  case 3
  then show ?case by (blast intro: early_ok_micro)
qed

section \<open>Certificates\<close>

text \<open>
  A quorum of distinct keys for a round: by stake in a weighted round, by number otherwise.
  Only a single-node round (quorum 0) is met without keys.
\<close>

definition key_quorum :: "label list \<Rightarrow> proposal \<Rightarrow> string list \<Rightarrow> bool" where
  "key_quorum tr p ks \<longleftrightarrow> (\<exists>h \<in> hubs_of tr. \<exists>pks. distinct pks \<and> set pks \<subseteq> set ks \<and>
     (if p_weighted p then meetsStakeThreshold (hub_rnd h) (p_validators p) pks
      else p_quorum p \<le> 1 \<or> p_quorum p \<le> int (length pks)))"

definition round_ok :: "label list \<Rightarrow> rat \<Rightarrow> proposal \<Rightarrow> bool" where
  "round_ok tr seq p \<longleftrightarrow> distinct (p_preparePks p) \<and> distinct (p_commitPks p) \<and>
     (\<forall>pk \<in> set (p_preparePks p). own_key tr pk \<or> voted tr PBFT_PREPARE seq (p_digest p) pk \<or>
        voted tr PBFT_PRE_PREPARE seq (p_digest p) pk) \<and>
     (\<forall>pk \<in> set (p_commitPks p). own_key tr pk \<or> voted tr PBFT_COMMIT seq (p_digest p) pk) \<and>
     (p_preparePks p = [] \<longrightarrow> length (p_prepares p) \<le> 1) \<and>
     (p_commitPks p = [] \<longrightarrow> length (p_commits p) \<le> (if p_commitSent p then 1 else 0)) \<and>
     (p_commitSent p \<longrightarrow> key_quorum tr p (p_preparePks p))"

definition rounds_with :: "(nat \<Rightarrow> rat) \<Rightarrow> label list \<Rightarrow> consensus \<Rightarrow> bool" where
  "rounds_with seq_of tr st \<longleftrightarrow>
     (\<forall>(s, pid) \<in> set (c_pending st). pid < length (c_objs st) \<and> seq_of pid = s) \<and>
     (\<forall>pid < length (c_objs st). round_ok tr (seq_of pid) (c_objs st ! pid)) \<and>
     (\<forall>pid config. ApplyConfig pid config \<in> set (c_out st) \<longrightarrow> pid < length (c_objs st) \<and>
        config = p_config (c_objs st ! pid) \<and> key_quorum tr (c_objs st ! pid) (p_commitPks (c_objs st ! pid)))"

definition rounds_ok :: "label list \<Rightarrow> consensus \<Rightarrow> bool" where
  "rounds_ok tr st \<longleftrightarrow> (\<exists>seq_of. rounds_with seq_of tr st)"

lemma quorumMet_keys:
  assumes "quorumMet h (p_weighted p) (p_validators p) (p_quorum p) addrs pks" and "h \<in> hubs_of tr"
    and "distinct pks" and "pks = [] \<longrightarrow> length addrs \<le> 1"
  shows "key_quorum tr p pks"
  unfolding key_quorum_def
  by (rule bexI [OF _ assms(2)], rule exI [of _ pks])
     (use assms in \<open>auto simp: quorumMet_def split: if_splits\<close>)

text \<open>How a round's object may change: votes are only added.\<close>

definition grows :: "proposal \<Rightarrow> proposal \<Rightarrow> bool" where
  "grows p p' \<longleftrightarrow> p_config p' = p_config p \<and> p_digest p' = p_digest p \<and> p_weighted p' = p_weighted p \<and>
     p_validators p' = p_validators p \<and> p_quorum p' = p_quorum p \<and>
     set (p_preparePks p) \<subseteq> set (p_preparePks p') \<and> set (p_commitPks p) \<subseteq> set (p_commitPks p')"

lemma key_quorum_grows:
  "key_quorum tr p ks \<Longrightarrow> grows p p' \<Longrightarrow> set ks \<subseteq> set ks' \<Longrightarrow> key_quorum tr p' ks'"
  unfolding key_quorum_def grows_def by (metis subset_trans)

lemma key_quorum_prepares:
  "key_quorum tr p (p_preparePks p) \<Longrightarrow> grows p p' \<Longrightarrow> key_quorum tr p' (p_preparePks p')"
  by (rule key_quorum_grows) (auto simp: grows_def)

lemma key_quorum_flags [simp]:
  "key_quorum tr (p\<lparr>p_resolved := b\<rparr>) ks = key_quorum tr p ks" "key_quorum tr (p\<lparr>p_applied := b\<rparr>) ks = key_quorum tr p ks"
  "key_quorum tr (p\<lparr>p_applying := b\<rparr>) ks = key_quorum tr p ks"
  "key_quorum tr (p\<lparr>p_commits := xs, p_commitPks := ys\<rparr>) ks = key_quorum tr p ks"
  by (simp_all add: key_quorum_def)

lemma own_key_mono: "own_key tr pk \<Longrightarrow> set tr \<subseteq> set tr' \<Longrightarrow> own_key tr' pk"
  by (auto simp: own_key_def hubs_of_def)

lemma voted_mono: "voted tr ty s d pk \<Longrightarrow> set tr \<subseteq> set tr' \<Longrightarrow> voted tr' ty s d pk"
  using heard_mono unfolding voted_def by blast

lemma key_quorum_mono: "key_quorum tr p ks \<Longrightarrow> set tr \<subseteq> set tr' \<Longrightarrow> key_quorum tr' p ks"
  unfolding key_quorum_def hubs_of_def by blast

lemma nth_upd_obj:
  "c_objs (upd_obj pid f st) ! i = (if i = pid \<and> pid < length (c_objs st) then f (c_objs st ! pid) else c_objs st ! i)"
  by (cases "pid < length (c_objs st)") (auto simp: upd_obj_def nth_list_update list_update_beyond)

lemma rounds_upd:
  assumes r: "rounds_with f tr st"
    and ok: "pid < length (c_objs st) \<Longrightarrow> round_ok tr (f pid) (c_objs st ! pid) \<Longrightarrow> round_ok tr (f pid) (g (c_objs st ! pid))"
    and gr: "\<And>p. grows p (g p)"
  shows "rounds_with f tr (upd_obj pid g st)"
proof -
  have "key_quorum tr p (p_commitPks p) \<Longrightarrow> key_quorum tr (g p) (p_commitPks (g p))" "p_config (g p) = p_config p" for p
    using gr [of p] key_quorum_grows [OF _ gr] by (auto simp: grows_def)
  with assms show ?thesis
    unfolding rounds_with_def by (simp add: nth_upd_obj)
qed

lemma rounds_frame:
  assumes "rounds_with f tr st" and "c_objs st' = c_objs st" and "set (c_pending st') \<subseteq> set (c_pending st)"
    and "\<And>pid config. ApplyConfig pid config \<in> set (c_out st') \<Longrightarrow> ApplyConfig pid config \<in> set (c_out st)"
  shows "rounds_with f tr st'"
  using assms unfolding rounds_with_def by (simp, blast)

lemma pending_mem: "get_pending st seq = Some pid \<Longrightarrow> (seq, pid) \<in> set (c_pending st)"
  by (simp add: get_pending_def map_of_SomeD)

lemma rounds_pending:
  assumes "rounds_with f tr st" and "get_pending st seq = Some pid"
  shows "pid < length (c_objs st) \<and> f pid = seq \<and> round_ok tr seq (c_objs st ! pid)"
proof -
  have "pid < length (c_objs st) \<and> f pid = seq"
    using assms(1) pending_mem [OF assms(2)] by (auto simp: rounds_with_def)
  moreover from this have "round_ok tr (f pid) (c_objs st ! pid)"
    using assms(1) by (auto simp: rounds_with_def)
  ultimately show ?thesis
    by simp
qed

lemma grows_self [simp]:
  "grows p (p\<lparr>p_resolved := b\<rparr>)" "grows p (p\<lparr>p_applied := b\<rparr>)" "grows p (p\<lparr>p_applying := b\<rparr>)"
  "grows p (add_prepare a ko p)" "grows p (add_commit a ko p)"
  "grows p (p\<lparr>p_prepares := xs, p_preparePks := addSelfPubkey h (add_key ko (p_preparePks p))\<rparr>)"
  "grows p (p\<lparr>p_commitSent := b, p_commits := xs, p_commitPks := addSelfPubkey h (p_commitPks p)\<rparr>)"
  by (auto simp: grows_def add_prepare_def add_commit_def add_key_def addSelfPubkey_def split: option.split)

lemma round_ok_flags [simp]:
  "round_ok tr s (p\<lparr>p_resolved := b\<rparr>) = round_ok tr s p" "round_ok tr s (p\<lparr>p_applied := b\<rparr>) = round_ok tr s p"
  "round_ok tr s (p\<lparr>p_applying := b\<rparr>) = round_ok tr s p"
  by (simp_all add: round_ok_def key_quorum_def)

lemma set_add_key: "set (add_key (Some k) ks) \<subseteq> insert k (set ks)"
  by (auto simp: add_key_def)

lemma distinct_add_key [simp]: "distinct (add_key ko ks) = distinct ks"
  by (simp add: add_key_def split: option.split)

lemma add_key_nonempty: "k \<noteq> [] \<Longrightarrow> add_key (Some k) ks \<noteq> []"
  by (auto simp: add_key_def js_add_def)

lemma addSelfPubkey_nonempty: "ks \<noteq> [] \<Longrightarrow> addSelfPubkey h ks \<noteq> []"
  by (auto simp: addSelfPubkey_def js_add_def split: option.split)

lemma distinct_addSelfPubkey [simp]: "distinct (addSelfPubkey h ks) = distinct ks"
  by (simp add: addSelfPubkey_def split: option.split)

lemma set_addSelfPubkey: "h \<in> hubs_of tr \<Longrightarrow> pk \<in> set (addSelfPubkey h ks) \<Longrightarrow> pk \<in> set ks \<or> own_key tr pk"
  by (auto simp: addSelfPubkey_def own_key_def split: option.splits)

lemma provenPubkey_nonempty: "provenPubkey sg = Some pk \<Longrightarrow> pk \<noteq> []"
  by (auto simp: provenPubkey_def to_lower_def split: jsval.splits if_splits)

lemma round_ok_prepare:
  assumes "round_ok tr s p" and "voted tr PBFT_PREPARE s (p_digest p) pk" and "pk \<noteq> []"
  shows "round_ok tr s (add_prepare a (Some pk) p)"
proof -
  have "p_commitSent p \<Longrightarrow> key_quorum tr (add_prepare a (Some pk) p) (p_preparePks (add_prepare a (Some pk) p))"
    using assms(1) key_quorum_prepares [OF _ grows_self(4)] by (simp add: round_ok_def)
  then show ?thesis
    using assms set_add_key [of pk "p_preparePks p"] add_key_nonempty [OF assms(3), of "p_preparePks p"]
    by (auto simp: round_ok_def add_prepare_def)
qed

lemma round_ok_cast:
  assumes "round_ok tr s p" and "voted tr PBFT_PRE_PREPARE s (p_digest p) pk" and "pk \<noteq> []" and "h \<in> hubs_of tr"
  shows "round_ok tr s (p\<lparr>p_prepares := xs, p_preparePks := addSelfPubkey h (add_key (Some pk) (p_preparePks p))\<rparr>)"
    (is "round_ok tr s ?p'")
proof -
  have "p_commitSent p \<Longrightarrow> key_quorum tr ?p' (p_preparePks ?p')"
    using assms(1) key_quorum_prepares [OF _ grows_self(6)] by (simp add: round_ok_def)
  moreover have "\<forall>k \<in> set (addSelfPubkey h (add_key (Some pk) (p_preparePks p))).
      own_key tr k \<or> k = pk \<or> k \<in> set (p_preparePks p)"
    using set_add_key [of pk "p_preparePks p"] set_addSelfPubkey [OF assms(4)] by blast
  ultimately show ?thesis
    using assms addSelfPubkey_nonempty [OF add_key_nonempty [OF assms(3), of "p_preparePks p"]]
    by (auto simp: round_ok_def)
qed

lemma round_ok_commit:
  assumes "round_ok tr s p" and "voted tr PBFT_COMMIT s (p_digest p) pk" and "pk \<noteq> []"
  shows "round_ok tr s (add_commit a (Some pk) p)"
  using assms set_add_key [of pk "p_commitPks p"] add_key_nonempty [OF assms(3), of "p_commitPks p"]
  by (auto simp: round_ok_def add_commit_def)

lemma round_ok_commit_own:
  assumes "round_ok tr s p" and "\<not> p_commitSent p" and h: "h \<in> hubs_of tr"
    and "quorumMet h (p_weighted p) (p_validators p) (p_quorum p) (p_prepares p) (p_preparePks p)"
  shows "round_ok tr s (p\<lparr>p_commitSent := True, p_commits := js_add a (p_commits p),
    p_commitPks := addSelfPubkey h (p_commitPks p)\<rparr>)"
proof -
  let ?p' = "p\<lparr>p_commitSent := True, p_commits := js_add a (p_commits p),
    p_commitPks := addSelfPubkey h (p_commitPks p)\<rparr>"
  have "key_quorum tr p (p_preparePks p)"
    using assms by (intro quorumMet_keys [OF assms(4) h]) (auto simp: round_ok_def)
  then have "key_quorum tr ?p' (p_preparePks ?p')"
    by (rule key_quorum_prepares) simp
  moreover have "addSelfPubkey h (p_commitPks p) = [] \<Longrightarrow> p_commitPks p = []"
    using addSelfPubkey_nonempty by blast
  moreover have "\<forall>k \<in> set (addSelfPubkey h (p_commitPks p)). own_key tr k \<or> k \<in> set (p_commitPks p)"
    using set_addSelfPubkey [OF h] by blast
  ultimately show ?thesis
    using assms(1,2) by (auto simp: round_ok_def length_js_add)
qed

lemma voted_heard:
  "heard tr env \<Longrightarrow> e_type env = ty \<Longrightarrow> d_seq env = JNum (Fin s) \<Longrightarrow> d_digest env = JStr d \<Longrightarrow>
     provenPubkey (e_sig env) = Some pk \<Longrightarrow> voted tr ty s d pk"
  by (auto simp: voted_def)

lemma round_ok_fresh: "fresh_round tr p \<Longrightarrow> round_ok tr s p"
  by (auto simp: fresh_round_def round_ok_def)

lemma rounds_open:
  assumes r: "rounds_with f tr st" and p: "fresh_round tr p"
  shows "rounds_with (f(length (c_objs st) := seq)) tr
    (st\<lparr>c_objs := c_objs st @ [p], c_pending := js_put seq (length (c_objs st)) (c_pending st)\<rparr>)"
proof -
  let ?n = "length (c_objs st)"
  have A: "pid < Suc ?n \<and> (f(?n := seq)) pid = s" if "(s, pid) \<in> set (js_put seq ?n (c_pending st))" for s pid
  proof (cases "(s, pid) = (seq, ?n)")
    case False
    then have "(s, pid) \<in> set (c_pending st)"
      using that set_js_put [of seq ?n "c_pending st"] by auto
    then show ?thesis
      using r by (auto simp: rounds_with_def)
  qed simp
  have B: "round_ok tr ((f(?n := seq)) pid) ((c_objs st @ [p]) ! pid)" if "pid < Suc ?n" for pid
    using that r round_ok_fresh [OF p] by (auto simp: rounds_with_def nth_append less_Suc_eq)
  have C: "pid < ?n \<and> config = p_config (c_objs st ! pid) \<and>
      key_quorum tr (c_objs st ! pid) (p_commitPks (c_objs st ! pid))" if "ApplyConfig pid config \<in> set (c_out st)" for pid config
    using that r by (auto simp: rounds_with_def)
  show ?thesis
    unfolding rounds_with_def
  proof (intro conjI allI impI, goal_cases)
    case 1
    then show ?case using A by fastforce
  next
    case (2 pid)
    then show ?case using B by simp
  next
    case (3 pid config)
    then show ?case using C [of pid config] by simp
  next
    case (4 pid config)
    then show ?case using C [of pid config] by (simp add: nth_append)
  next
    case (5 pid config)
    then show ?case using C [of pid config] by (simp add: nth_append)
  qed
qed

lemma rounds_apply:
  assumes r: "rounds_with f tr st" and pend: "get_pending st seq = Some pid" and h: "h \<in> hubs_of tr"
    and q: "quorumMet h (p_weighted (c_objs st ! pid)) (p_validators (c_objs st ! pid)) (p_quorum (c_objs st ! pid))
        (p_commits (c_objs st ! pid)) (p_commitPks (c_objs st ! pid))"
  shows "rounds_with f tr (push_task (AwaitApply pid seq)
      (emit (ApplyConfig pid (p_config (c_objs st ! pid))) (upd_obj pid (\<lambda>p. p\<lparr>p_applying := True\<rparr>) st)))"
proof -
  let ?p = "c_objs st ! pid"
  let ?st1 = "upd_obj pid (\<lambda>p. p\<lparr>p_applying := True\<rparr>) st"
  have ok: "pid < length (c_objs st)" "round_ok tr seq ?p"
    using rounds_pending [OF r pend] by auto
  have "key_quorum tr ?p (p_commitPks ?p)"
    using ok by (intro quorumMet_keys [OF q h]) (auto simp: round_ok_def split: if_splits)
  then have "key_quorum tr (c_objs ?st1 ! pid) (p_commitPks (c_objs ?st1 ! pid))"
      "p_config ?p = p_config (c_objs ?st1 ! pid)" "pid < length (c_objs ?st1)"
    using ok by (simp_all add: nth_upd_obj)
  moreover have "rounds_with f tr ?st1"
    by (rule rounds_upd [OF r]) simp_all
  ultimately show ?thesis
    by (auto simp: rounds_with_def)
qed

lemma filter_eq_mem:
  "filter P xs = filter P ys \<Longrightarrow> P x \<Longrightarrow> x \<in> set xs \<longleftrightarrow> x \<in> set ys"
  by (metis mem_Collect_eq set_filter)

lemma rounds_micro:
  assumes "micro tr st st'" and r: "rounds_with f tr st"
  shows "rounds_ok tr st'"
  using assms(1)
proof cases
  case frame
  then have "rounds_with f tr st'"
    using filter_eq_mem [OF frame(7)] by (intro rounds_frame [OF r]) auto
  then show ?thesis by (auto simp: rounds_ok_def)
next
  case (prepare seq pid env pk)
  then have "rounds_with f tr st'"
    using rounds_pending [OF r prepare(2)] voted_heard provenPubkey_nonempty [OF prepare(7)]
    by (auto intro!: rounds_upd [OF r] round_ok_prepare)
  then show ?thesis by (auto simp: rounds_ok_def)
next
  case (prepare_own seq pid h env pk)
  then have "rounds_with f tr st'"
    using rounds_pending [OF r prepare_own(2)] voted_heard provenPubkey_nonempty [OF prepare_own(8)]
    by (auto intro!: rounds_upd [OF r] round_ok_cast)
  then show ?thesis by (auto simp: rounds_ok_def)
next
  case (commit seq pid env pk)
  then have "rounds_with f tr st'"
    using rounds_pending [OF r commit(2)] voted_heard provenPubkey_nonempty [OF commit(7)]
    by (auto intro!: rounds_upd [OF r] round_ok_commit)
  then show ?thesis by (auto simp: rounds_ok_def)
next
  case (commit_own seq pid h p sg)
  let ?g = "\<lambda>p. p\<lparr>p_commitSent := True, p_commits := js_add (hub_addr h) (p_commits p),
      p_commitPks := addSelfPubkey h (p_commitPks p)\<rparr>"
  have "rounds_with f tr (upd_obj pid ?g st)"
    using commit_own rounds_pending [OF r commit_own(2)]
    by (intro rounds_upd [OF r]) (auto intro: round_ok_commit_own)
  then have "rounds_with f tr st'"
    by (rule rounds_frame) (auto simp: commit_own(1))
  then show ?thesis by (auto simp: rounds_ok_def)
next
  case (applying seq pid h p)
  then show ?thesis
    using rounds_apply [OF r] by (auto simp: rounds_ok_def)
next
  case (open_round p seq)
  then show ?thesis
    using rounds_open [OF r] by (auto simp: rounds_ok_def)
next
  case (close_round seq)
  then show ?thesis
    using rounds_frame [OF r, of st'] by (auto simp: rounds_ok_def del_pending_def js_del_def)
next
  case (resolve_round pid)
  have "rounds_with f tr st'"
    unfolding resolve_round by (rule rounds_upd [OF r]) simp_all
  then show ?thesis by (auto simp: rounds_ok_def)
next
  case (buffer env h now)
  obtain e t where "st' = st\<lparr>c_early := e, c_earlyTtl := t\<rparr>"
    using buffered_shape buffer(1) by metis
  then show ?thesis
    using rounds_frame [OF r, of st'] by (auto simp: rounds_ok_def)
next
  case (unbuffer seq)
  then show ?thesis
    using rounds_frame [OF r, of st'] by (auto simp: rounds_ok_def)
next
  case (persist pid seq)
  then show ?thesis
    using rounds_frame [OF r, of st'] by (auto simp: rounds_ok_def persistAppliedRound_def config_applied_def)
next
  case (applied pid seq es)
  have "rounds_with f tr (upd_obj pid (\<lambda>p. p\<lparr>p_applied := True\<rparr>) st)"
    by (rule rounds_upd [OF r]) simp_all
  then have "rounds_with f tr st'"
    by (rule rounds_frame) (use applied in \<open>auto simp: upd_obj_def\<close>)
  then show ?thesis by (auto simp: rounds_ok_def)
next
  case (unlock t pid seq)
  have "rounds_with f tr (upd_obj pid (\<lambda>p. p\<lparr>p_applying := False\<rparr>) st)"
    by (rule rounds_upd [OF r]) simp_all
  then have "rounds_with f tr st'"
    by (rule rounds_frame) (use unlock in \<open>auto simp: upd_obj_def\<close>)
  then show ?thesis by (auto simp: rounds_ok_def)
next
  case clear_all
  then show ?thesis
    using rounds_frame [OF r, of st'] by (auto simp: rounds_ok_def)
qed

lemma round_ok_mono: "round_ok tr s p \<Longrightarrow> set tr \<subseteq> set tr' \<Longrightarrow> round_ok tr' s p"
  unfolding round_ok_def using own_key_mono voted_mono key_quorum_mono by meson

lemma rounds_mono: "rounds_with f tr st \<Longrightarrow> set tr \<subseteq> set tr' \<Longrightarrow> rounds_with f tr' st"
  unfolding rounds_with_def using round_ok_mono key_quorum_mono by meson

interpretation rounds: run_invariant rounds_ok
proof (unfold_locales, goal_cases)
  case (1 rows st)
  then show ?case
    by (auto simp: rounds_ok_def rounds_with_def loadSeq_def init_consensus_def Let_def
        split: option.splits list.splits)
next
  case 2
  then show ?case using rounds_mono unfolding rounds_ok_def by blast
next
  case 3
  then show ?case using rounds_micro by (auto simp: rounds_ok_def)
qed

section \<open>In-flight applies\<close>

definition inflight_count :: "consensus \<Rightarrow> nat \<Rightarrow> nat" where
  "inflight_count st pid = length (filter (\<lambda>t. inflight_pid t = pid) (filter inflight (c_tasks st)))"

definition round_tasks :: "proposal \<Rightarrow> nat" where
  "round_tasks p = (if p_applying p \<and> \<not> p_applied p then 1 else 0)"

definition tasks_ok :: "consensus \<Rightarrow> bool" where
  "tasks_ok st \<longleftrightarrow>
     (\<forall>e \<in> set (c_pending st). snd e < length (c_objs st)) \<and>
     (\<forall>t \<in> set (c_tasks st). inflight t \<longrightarrow> inflight_pid t < length (c_objs st)) \<and>
     (\<forall>pid < length (c_objs st). inflight_count st pid = round_tasks (c_objs st ! pid) \<and>
        (p_applied (c_objs st ! pid) \<longrightarrow> p_applying (c_objs st ! pid)))"

lemma inflight_count_upd_obj [simp]: "inflight_count (upd_obj pid g st) = inflight_count st"
  by (simp add: inflight_count_def fun_eq_iff)

lemma tasks_upd:
  assumes "tasks_ok st" and "\<And>p. p_applied (g p) = p_applied p \<and> p_applying (g p) = p_applying p"
  shows "tasks_ok (upd_obj pid g st)"
proof -
  have "round_tasks (g p) = round_tasks p" "p_applied (g p) = p_applied p" "p_applying (g p) = p_applying p" for p
    using assms(2) by (simp_all add: round_tasks_def)
  with assms(1) show ?thesis
    by (simp add: tasks_ok_def nth_upd_obj)
qed

lemma tasks_frame:
  assumes "tasks_ok st" and "c_objs st' = c_objs st" and "set (c_pending st') \<subseteq> set (c_pending st)"
    and "filter inflight (c_tasks st') = filter inflight (c_tasks st)"
  shows "tasks_ok st'"
proof -
  have "t \<in> set (c_tasks st') \<Longrightarrow> inflight t \<Longrightarrow> t \<in> set (c_tasks st)" for t
    using arg_cong [OF assms(4), of set] by auto
  moreover have "inflight_count st' = inflight_count st"
    by (simp add: inflight_count_def assms(4) fun_eq_iff)
  ultimately show ?thesis
    using assms(1-3) unfolding tasks_ok_def by (simp, blast)
qed

lemma inflight_count_remove1:
  assumes "t \<in> set (c_tasks st)" and "inflight t"
  shows "inflight_count st pid = inflight_count (drop_task t st) pid + (if inflight_pid t = pid then 1 else 0)"
proof -
  have "length (filter (\<lambda>u. inflight_pid u = pid) (filter inflight ts)) =
     length (filter (\<lambda>u. inflight_pid u = pid) (filter inflight (remove1 t ts))) + (if inflight_pid t = pid then 1 else 0)"
    if "t \<in> set ts" for ts
    using that assms(2) by (induction ts) auto
  with assms(1) show ?thesis
    by (simp add: inflight_count_def)
qed

lemma tasks_settle:
  assumes ok: "tasks_ok st" and t: "t \<in> set (c_tasks st)" "inflight t" "inflight_pid t = pid"
    and g: "\<And>p. p_applying p \<Longrightarrow> \<not> p_applied p \<Longrightarrow> round_tasks (g p) = 0 \<and> (p_applied (g p) \<longrightarrow> p_applying (g p))"
  shows "tasks_ok (upd_obj pid g (drop_task t st))"
proof -
  have pid: "pid < length (c_objs st)"
    using ok t by (auto simp: tasks_ok_def)
  have count: "inflight_count st i = inflight_count (drop_task t st) i + (if pid = i then 1 else 0)" for i
    using inflight_count_remove1 [OF t(1,2), of i] t(3) by simp
  then have "round_tasks (c_objs st ! pid) \<noteq> 0" "inflight_count (drop_task t st) pid = round_tasks (c_objs st ! pid) - 1"
    using ok pid by (auto simp: tasks_ok_def)
  then have zero: "inflight_count (drop_task t st) pid = 0" and now: "p_applying (c_objs st ! pid)" "\<not> p_applied (c_objs st ! pid)"
    by (auto simp: round_tasks_def split: if_splits)
  show ?thesis
    using ok zero g [OF now] count set_remove1_subset [of t "c_tasks st"]
    by (auto simp: tasks_ok_def nth_upd_obj)
qed

lemma tasks_micro:
  assumes "micro tr st st'" and ok: "tasks_ok st"
  shows "tasks_ok st'"
  using assms(1)
proof cases
  case (commit_own seq pid h p sg)
  have "tasks_ok (upd_obj pid (\<lambda>p. p\<lparr>p_commitSent := True, p_commits := js_add (hub_addr h) (p_commits p),
      p_commitPks := addSelfPubkey h (p_commitPks p)\<rparr>) st)"
    by (rule tasks_upd [OF ok]) simp
  then show ?thesis
    by (rule tasks_frame) (auto simp: commit_own(1))
next
  case (applying seq pid h p)
  then have pid: "pid < length (c_objs st)"
    using ok pending_mem by (fastforce simp: tasks_ok_def)
  moreover have "inflight_count st' i = inflight_count st i + (if i = pid then 1 else 0)" for i
    using applying(1) by (simp add: inflight_count_def)
  ultimately show ?thesis
    using ok applying by (auto simp: tasks_ok_def nth_upd_obj round_tasks_def)
next
  case (open_round p seq)
  have "inflight_count st (length (c_objs st)) = 0"
    using ok by (auto simp: tasks_ok_def inflight_count_def filter_empty_conv)
  moreover have "inflight_count st' i = inflight_count st i" for i
    using open_round by (simp add: inflight_count_def)
  moreover have "snd e < Suc (length (c_objs st))" if "e \<in> set (c_pending st')" for e
  proof (cases "e = (seq, length (c_objs st))")
    case False
    then have "e \<in> set (c_pending st)"
      using that open_round(1) set_js_put [of seq "length (c_objs st)" "c_pending st"] by auto
    then show ?thesis
      using ok by (auto simp: tasks_ok_def)
  qed simp
  ultimately show ?thesis
    using ok open_round by (auto simp: tasks_ok_def nth_append less_Suc_eq round_tasks_def fresh_round_def)
next
  case (buffer env h now)
  obtain e t where "st' = st\<lparr>c_early := e, c_earlyTtl := t\<rparr>"
    using buffered_shape buffer(1) by metis
  then show ?thesis
    by (intro tasks_frame [OF ok]) auto
next
  case (persist pid seq)
  have "inflight_count st' i = inflight_count st i" for i
    using inflight_count_remove1 [OF persist(2), of i]
    by (simp add: persist(1) persistAppliedRound_def config_applied_def inflight_count_def)
  moreover have "pid < length (c_objs st)"
    using ok persist(2) by (auto simp: tasks_ok_def)
  moreover have "t \<in> set (c_tasks st) \<or> t = AwaitSave pid seq" if "t \<in> set (c_tasks st')" for t
    using that set_remove1_subset [of "AwaitApply pid seq" "c_tasks st"]
    by (auto simp: persist(1) persistAppliedRound_def config_applied_def)
  moreover have "c_objs st' = c_objs st" "c_pending st' = c_pending st"
    by (simp_all add: persist(1) persistAppliedRound_def config_applied_def)
  ultimately show ?thesis
    using ok unfolding tasks_ok_def by (metis inflight_pid.simps(2))
next
  case (applied pid seq es)
  have "tasks_ok (upd_obj pid (\<lambda>p. p\<lparr>p_applied := True\<rparr>) (drop_task (AwaitSave pid seq) st))"
    by (rule tasks_settle [OF ok applied(2)]) (auto simp: round_tasks_def)
  then show ?thesis
    by (rule tasks_frame) (auto simp: applied(1))
next
  case (unlock t pid seq)
  then have "inflight t" "inflight_pid t = pid"
    by auto
  then show ?thesis
    unfolding unlock(1) by (intro tasks_settle [OF ok unlock(2)]) (auto simp: round_tasks_def)
qed (auto intro: tasks_upd [OF ok] tasks_frame [OF ok] tasks_frame [OF tasks_upd [OF ok]]
      simp: add_prepare_def add_commit_def del_pending_def js_del_def)

interpretation tasks: run_invariant "\<lambda>tr. tasks_ok"
proof (unfold_locales, goal_cases)
  case (1 rows st)
  then show ?case
    by (auto simp: tasks_ok_def loadSeq_def init_consensus_def Let_def split: option.splits list.splits)
next
  case 2
  then show ?case by simp
next
  case 3
  then show ?case by (blast intro: tasks_micro)
qed

text \<open>What the output log shows: nothing is acknowledged or marked applied before it was applied and saved.\<close>

definition log_ok :: "consensus \<Rightarrow> bool" where
  "log_ok st \<longleftrightarrow> tasks_ok st \<and>
     (\<forall>t \<in> set (c_tasks st). inflight t \<longrightarrow> (\<exists>config. ApplyConfig (inflight_pid t) config \<in> set (c_out st))) \<and>
     (\<forall>pid seq. AwaitSave pid seq \<in> set (c_tasks st) \<longrightarrow> (\<exists>config. ConfigApplied pid config \<in> set (c_out st))) \<and>
     (\<forall>pid config. ConfigApplied pid config \<in> set (c_out st) \<longrightarrow> pid < length (c_objs st) \<and> config = p_config (c_objs st ! pid)) \<and>
     (\<forall>pid < length (c_objs st). p_applied (c_objs st ! pid) \<longrightarrow>
        (\<exists>config seq. ConfigApplied pid config \<in> set (c_out st) \<and> SaveSeq pid seq \<in> set (c_out st) \<and>
          seq \<le> c_lastApplied st)) \<and>
     (\<forall>pid. Resolve pid \<in> set (c_out st) \<longrightarrow> pid < length (c_objs st) \<and> p_applied (c_objs st ! pid))"

lemma log_frame:
  assumes "log_ok st" and "tasks_ok st'" and len: "length (c_objs st') = length (c_objs st)"
    and app: "\<And>pid. pid < length (c_objs st) \<Longrightarrow> p_applied (c_objs st' ! pid) = p_applied (c_objs st ! pid) \<and> p_config (c_objs st' ! pid) = p_config (c_objs st ! pid)"
    and tasks: "\<And>t. t \<in> set (c_tasks st') \<Longrightarrow> inflight t \<Longrightarrow> t \<in> set (c_tasks st)"
    and out: "\<And>x. x \<in> set (c_out st) \<Longrightarrow> guarded x \<Longrightarrow> x \<in> set (c_out st')"
    and res: "\<And>pid. Resolve pid \<in> set (c_out st') \<Longrightarrow> Resolve pid \<in> set (c_out st)"
    and stored: "\<And>pid config. ConfigApplied pid config \<in> set (c_out st') \<Longrightarrow> ConfigApplied pid config \<in> set (c_out st)"
    and last: "c_lastApplied st \<le> c_lastApplied st'"
  shows "log_ok st'"
proof -
  have "\<exists>config. ApplyConfig (inflight_pid t) config \<in> set (c_out st')" if "t \<in> set (c_tasks st')" "inflight t" for t
    using that tasks out assms(1) unfolding log_ok_def by (metis guarded.simps(1))
  moreover have "\<exists>config. ConfigApplied pid config \<in> set (c_out st')" if "AwaitSave pid seq \<in> set (c_tasks st')" for pid seq
    using that tasks out assms(1) unfolding log_ok_def by (metis guarded.simps(5) inflight.simps(2))
  moreover have "pid < length (c_objs st') \<and> config = p_config (c_objs st' ! pid)" if "ConfigApplied pid config \<in> set (c_out st')" for pid config
    using stored [OF that] assms(1) app len unfolding log_ok_def by metis
  moreover have "\<exists>config seq. ConfigApplied pid config \<in> set (c_out st') \<and> SaveSeq pid seq \<in> set (c_out st') \<and>
      seq \<le> c_lastApplied st'" if pid: "pid < length (c_objs st')" "p_applied (c_objs st' ! pid)" for pid
  proof -
    obtain config seq where "ConfigApplied pid config \<in> set (c_out st)" "SaveSeq pid seq \<in> set (c_out st)" "seq \<le> c_lastApplied st"
      using pid app len assms(1) unfolding log_ok_def by metis
    then show ?thesis
      using out last by (meson guarded.simps(3,5) order_trans)
  qed
  moreover have "pid < length (c_objs st') \<and> p_applied (c_objs st' ! pid)" if "Resolve pid \<in> set (c_out st')" for pid
    using res [OF that] assms(1) app len unfolding log_ok_def by metis
  ultimately show ?thesis
    using assms(2) unfolding log_ok_def by blast
qed

lemma log_micro:
  assumes m: "micro tr st st'" and ok: "log_ok st"
  shows "log_ok st'"
proof -
  have t: "tasks_ok st" and t': "tasks_ok st'"
    using ok tasks_micro [OF m] by (auto simp: log_ok_def)
  note keep = log_frame [OF ok t']
  show ?thesis
    using m
  proof cases
    case frame
    then have "\<And>x. guarded x \<Longrightarrow> x \<in> set (c_out st') \<longleftrightarrow> x \<in> set (c_out st)" "\<And>t. inflight t \<Longrightarrow> t \<in> set (c_tasks st') \<longleftrightarrow> t \<in> set (c_tasks st)"
      using filter_eq_mem [OF frame(6)] filter_eq_mem [OF frame(7)] by blast+
    with frame show ?thesis by (intro keep) auto
  next
    case (applying seq pid h p)
    then show ?thesis
      using ok t' unfolding log_ok_def by (auto simp: nth_upd_obj)
  next
    case (open_round p seq)
    then show ?thesis
      using ok t' unfolding log_ok_def by (auto simp: nth_append less_Suc_eq fresh_round_def)
  next
    case (buffer env h now)
    obtain e tt where "st' = st\<lparr>c_early := e, c_earlyTtl := tt\<rparr>"
      using buffered_shape buffer(1) by metis
    then show ?thesis by (intro keep) auto
  next
    case (persist pid seq)
    then have "\<exists>config. ApplyConfig pid config \<in> set (c_out st)" and "pid < length (c_objs st)"
      using ok unfolding log_ok_def tasks_ok_def by (metis inflight.simps(1) inflight_pid.simps(1))+
    with persist show ?thesis
      using ok t' set_remove1_subset [of "AwaitApply pid seq" "c_tasks st"] unfolding log_ok_def
      by (auto simp: persistAppliedRound_def config_applied_def subset_iff)
  next
    case (applied pid seq es)
    have pid: "pid < length (c_objs st)"
      using t applied(2) by (auto simp: tasks_ok_def)
    obtain config where config: "ConfigApplied pid config \<in> set (c_out st)"
      using ok applied(2) unfolding log_ok_def by blast
    have out: "set (c_out st') = insert (SaveSeq pid seq) (set (c_out st) \<union> set es)" and len: "length (c_objs st') = length (c_objs st)"
      and last: "c_lastApplied st' = max (c_lastApplied st) seq"
      and app: "p_applied (c_objs st' ! i) \<longleftrightarrow> i = pid \<or> p_applied (c_objs st ! i)" and cfg: "p_config (c_objs st' ! i) = p_config (c_objs st ! i)" for i
      using pid by (auto simp: applied(1) nth_upd_obj)
    have tasks: "u \<in> set (c_tasks st)" if "u \<in> set (c_tasks st')" for u
      using that set_remove1_subset [of "AwaitSave pid seq" "c_tasks st"] by (auto simp: applied(1))
    have "\<exists>config s. ConfigApplied i config \<in> set (c_out st') \<and> SaveSeq i s \<in> set (c_out st') \<and> s \<le> c_lastApplied st'"
      if "i < length (c_objs st')" "p_applied (c_objs st' ! i)" for i
    proof (cases "i = pid")
      case True
      then show ?thesis using config by (auto simp: out last)
    next
      case False
      then obtain config s where "ConfigApplied i config \<in> set (c_out st)" "SaveSeq i s \<in> set (c_out st)" "s \<le> c_lastApplied st"
        using ok \<open>i < _\<close> \<open>p_applied (c_objs st' ! i)\<close> unfolding log_ok_def len app by blast
      then show ?thesis by (force simp: out last)
    qed
    moreover have "i < length (c_objs st') \<and> p_applied (c_objs st' ! i)" if "Resolve i \<in> set (c_out st')" for i
      using that ok applied(3) pid unfolding out len app log_ok_def by auto
    moreover have "\<forall>u \<in> set (c_tasks st'). inflight u \<longrightarrow> (\<exists>config. ApplyConfig (inflight_pid u) config \<in> set (c_out st'))"
      using ok tasks unfolding out log_ok_def by blast
    moreover have "\<forall>i s. AwaitSave i s \<in> set (c_tasks st') \<longrightarrow> (\<exists>config. ConfigApplied i config \<in> set (c_out st'))"
      using ok tasks unfolding out log_ok_def by blast
    moreover have "\<forall>i config. ConfigApplied i config \<in> set (c_out st') \<longrightarrow> i < length (c_objs st') \<and> config = p_config (c_objs st' ! i)"
      using ok applied(3) unfolding out len cfg log_ok_def by auto
    ultimately show ?thesis
      using t' unfolding log_ok_def by blast
  next
    case (unlock tt pid seq)
    then show ?thesis
      using set_remove1_subset [of tt "c_tasks st"] by (intro keep) (auto simp: nth_upd_obj)
  qed (intro keep; auto simp: nth_upd_obj add_prepare_def add_commit_def del_pending_def)+
qed

interpretation log: run_invariant "\<lambda>tr. log_ok"
proof (unfold_locales, goal_cases)
  case (1 rows st)
  then show ?case
    by (auto simp: log_ok_def tasks_ok_def loadSeq_def init_consensus_def Let_def split: option.splits list.splits)
next
  case 2
  then show ?case by simp
next
  case 3
  then show ?case by (blast intro: log_micro)
qed

end
