(* ===== verification/Pbft_Demo.thy ===== *)
theory Pbft_Demo
  imports Pbft_Safety
begin

text \<open>
  A two-validator federation, one of whose hubs leads a config round to its apply and
  acknowledgement. The theorems about runs are instantiated on it.
\<close>

definition demo_row :: "string \<Rightarrow> stake_row" where
  "demo_row pk = \<lparr>s_pubkey = CStr pk, s_source = CStr pk, s_weight = CStr ''10''\<rparr>"

definition demo_snapshot :: snapshot where
  "demo_snapshot = \<lparr>sn_validators = Some [demo_row ''aa'', demo_row ''bb''], sn_count = JNum (Fin 2), sn_truncated = False\<rparr>"

definition demo_hub :: hub where
  "demo_hub = \<lparr>hub_network = ''mainnet'', hub_identity = Some ''bb'', hub_addr = ''B'',
     hub_auth = \<lparr>registry_map = Some [(''A'', ''aa''), (''B'', ''bb'')], chain_set = None\<rparr>,
     hub_openPeers = 1, hub_hasSnapshots = True, hub_minValidators = 2, hub_seeds = [], hub_tolerance = 144,
     hub_timeout = 30000, hub_gates = \<lparr>entries = [], overlay = None\<rparr>, hub_rnd = (\<lambda>x. x), hub_digest = (\<lambda>c. case c of JStr s \<Rightarrow> s | _ \<Rightarrow> ''none''),
     hub_sign = (\<lambda>s. s), hub_show = (\<lambda>q. [])\<rparr>"

definition demo_vote :: "string \<Rightarrow> envelope" where
  "demo_vote ty = \<lparr>e_type = ty, e_sender = ''A'', e_sig = JStr ''aa'', d_seq = JNum (Fin 1), d_view = JUndef,
     d_digest = JStr ''cfg'', d_config = JUndef, d_height = JUndef\<rparr>"

definition demo_lock :: locked where
  "demo_lock = lockSnapshot demo_hub JNull JUndef (JNum (Fin 800000)) (\<lambda>_. Some demo_snapshot) (\<lambda>_. Some demo_snapshot)"

definition demo1 :: consensus where "demo1 = propose (JStr ''cfg'') init_consensus"
definition demo2 :: consensus where
  "demo2 = snd (proposeLocked demo_hub (JStr ''cfg'') demo_lock (drop_task (AwaitPropose (JStr ''cfg'')) demo1))"
definition demo3 :: consensus where "demo3 = handleMessage demo_hub 0 (demo_vote PBFT_PREPARE) demo2"
definition demo4 :: consensus where "demo4 = handleMessage demo_hub 0 (demo_vote PBFT_COMMIT) demo3"
definition demo5 :: consensus where "demo5 = persistAppliedRound 0 1 (config_applied 0 1 demo4)"
definition demo6 :: consensus where "demo6 = finishAppliedRound 0 1 (seq_saved 0 1 demo5)"

definition demo_trace :: "label list" where
  "demo_trace = [(demo_hub, None), (demo_hub, None), (demo_hub, Some (demo_vote PBFT_PREPARE)),
     (demo_hub, Some (demo_vote PBFT_COMMIT)), (demo_hub, None), (demo_hub, None)]"

lemma demo_hub_sel [simp]:
  "hub_network demo_hub = ''mainnet''" "hub_identity demo_hub = Some ''bb''" "hub_addr demo_hub = ''B''"
  "hub_auth demo_hub = \<lparr>registry_map = Some [(''A'', ''aa''), (''B'', ''bb'')], chain_set = None\<rparr>"
  "hub_hasSnapshots demo_hub" "hub_minValidators demo_hub = 2" "hub_digest demo_hub (JStr s) = s"
  by (simp_all add: demo_hub_def)

lemma demo_lower [simp]: "to_lower ''aa'' = ''aa''" "to_lower ''bb'' = ''bb''"
  by (simp_all add: text_eval)

lemma demo_gates:
  "isStakeWeightedQuorumActive (clock_of (JNum (Fin 800000))) ''mainnet'' = False"
  "isEquivHeaderActive (clock_of (JNum (Fin 800000))) ''mainnet'' = False"
  by (simp_all add: isStakeWeightedQuorumActive_def isEquivHeaderActive_def STAKE_WEIGHTED_QUORUM_ACTIVATION_def
      EQUIV_HEADER_ACTIVATION_def clock_of_def tip_clock_def)

lemma demo_lock_eq:
  "demo_lock = \<lparr>lk_snapshot = Some demo_snapshot, lk_weighted = False, lk_requested = JNum (Fin 800000), lk_height = JNum (Fin 800000)\<rparr>"
  by (simp add: demo_lock_def lockSnapshot_def demo_gates Let_def)

lemmas round_eval = isFederated_def hasDeterministicSnapshot_def demo_snapshot_def round_quorum_def
  snapshot_getQuorum_def snapshot_N_def bftQuorumOrSingle_def bftQuorum_def empty_or_missing_def
  memberPubkeySet_def js_set_of_def truthy_cell_def demo_row_def js_add_def
  leaderAt_def rotation_index_def js_index_def int_valued_def isLeaderIdentity_def selfPubkey_def
  addSelfPubkey_def normalizeValidators_def equivVote_def get_pending_def quorumMet_def
  upd_obj_def checkPrepareQuorum_def checkCommitQuorum_def

definition demo_round :: proposal where
  "demo_round = \<lparr>p_config = JStr ''cfg'', p_digest = ''cfg'', p_view = 0, p_prepares = [''B''], p_commits = [],
     p_resolved = False, p_applied = False, p_initiator = True, p_quorum = 2, p_height = JNum (Fin 800000),
     p_weighted = False, p_validators = \<lparr>stake_rows = [], stake_truncated = False\<rparr>,
     p_members = Some [''aa'', ''bb''], p_preparePks = [''bb''], p_commitPks = [], p_commitSent = False, p_applying = False\<rparr>"

lemma demo2_eq: "demo2 = init_consensus\<lparr>c_seq := 1, c_pending := [(1, 0)], c_objs := [demo_round],
    c_tasks := [Timer 0 1],
    c_out := [BPrePrepare 1 0 ''cfg'' (JStr ''cfg'') (JNum (Fin 800000)) False None]\<rparr>"
  by (simp add: demo2_def demo1_def propose_def init_consensus_def proposeLocked_def demo_lock_eq demo_round_def
     proposeRoundQuorum_def openLeaderRound_def buildLeaderProposal_def round_eval addrForPubkey_def demo_gates Let_def)

lemma demo_known [simp]: "isKnownSender demo_hub (demo_vote ty)" "resolveSenderPubkey demo_hub (demo_vote ty) = Some ''aa''"
  by (simp_all add: isKnownSender_def isAdmissibleSigner_def provenPubkey_def registryHasPubkey_def
      resolveSenderPubkey_def demo_vote_def)

lemma demo_vote_sel [simp]:
  "e_type (demo_vote ty) = ty" "d_seq (demo_vote ty) = JNum (Fin 1)" "d_digest (demo_vote ty) = JStr ''cfg''"
  "e_sender (demo_vote ty) = ''A''"
  by (simp_all add: demo_vote_def)

lemma demo3_eq: "demo3 = init_consensus\<lparr>c_seq := 1, c_pending := [(1, 0)],
    c_objs := [demo_round\<lparr>p_prepares := [''B'', ''A''], p_preparePks := [''bb'', ''aa''], p_commits := [''B''],
      p_commitPks := [''bb''], p_commitSent := True\<rparr>],
    c_tasks := [Timer 0 1],
    c_out := [BPrePrepare 1 0 ''cfg'' (JStr ''cfg'') (JNum (Fin 800000)) False None, BCommit 1 ''cfg'' None]\<rparr>"
  by (simp add: demo3_def demo2_eq handleMessage_def message_types handlePrepare_def add_key_def round_eval
      init_consensus_def demo_round_def demo_gates Let_def)

lemma demo4_eq: "demo4 = init_consensus\<lparr>c_seq := 1, c_pending := [(1, 0)],
    c_objs := [demo_round\<lparr>p_prepares := [''B'', ''A''], p_preparePks := [''bb'', ''aa''], p_commits := [''B'', ''A''],
      p_commitPks := [''bb'', ''aa''], p_commitSent := True, p_applying := True\<rparr>],
    c_tasks := [Timer 0 1, AwaitApply 0 1],
    c_out := [BPrePrepare 1 0 ''cfg'' (JStr ''cfg'') (JNum (Fin 800000)) False None, BCommit 1 ''cfg'' None,
      ApplyConfig 0 (JStr ''cfg'')]\<rparr>"
  by (simp add: demo4_def demo3_eq handleMessage_def message_types handleCommit_def add_key_def round_eval
      init_consensus_def demo_round_def demo_gates Let_def)

lemma demo6_eq: "demo6 = init_consensus\<lparr>c_seq := 1,
    c_objs := [demo_round\<lparr>p_prepares := [''B'', ''A''], p_preparePks := [''bb'', ''aa''], p_commits := [''B'', ''A''],
      p_commitPks := [''bb'', ''aa''], p_commitSent := True, p_applying := True, p_applied := True, p_resolved := True\<rparr>],
    c_lastApplied := 1,
    c_out := [BPrePrepare 1 0 ''cfg'' (JStr ''cfg'') (JNum (Fin 800000)) False None, BCommit 1 ''cfg'' None,
      ApplyConfig 0 (JStr ''cfg''), ConfigApplied 0 (JStr ''cfg''), SaveSeq 0 1, Resolve 0]\<rparr>"
  by (simp add: demo6_def demo5_def demo4_eq persistAppliedRound_def config_applied_def finishAppliedRound_def seq_saved_def clear_timer_def
      del_pending_def js_del_def upd_obj_def init_consensus_def demo_round_def Let_def)

lemma demo_run: "run demo_trace demo6"
proof -
  have "run [] init_consensus"
    by (rule run.start [of "Some []"]) (simp add: loadSeq_def)
  then have "run ([] @ [(demo_hub, None)]) demo1"
    by (rule run.step) (simp add: demo1_def step.proposed)
  then have "run (([] @ [(demo_hub, None)]) @ [(demo_hub, None)]) demo2"
    by (rule run.step) (unfold demo2_def demo_lock_def, rule step.proposing, simp add: demo1_def propose_def)
  then have "run ((([] @ [(demo_hub, None)]) @ [(demo_hub, None)]) @ [(demo_hub, Some (demo_vote PBFT_PREPARE))]) demo3"
    by (rule run.step) (unfold demo3_def, rule step.deliver)
  then have "run (((([] @ [(demo_hub, None)]) @ [(demo_hub, None)]) @ [(demo_hub, Some (demo_vote PBFT_PREPARE))])
      @ [(demo_hub, Some (demo_vote PBFT_COMMIT))]) demo4"
    by (rule run.step) (unfold demo4_def, rule step.deliver)
  then have "run ((((([] @ [(demo_hub, None)]) @ [(demo_hub, None)]) @ [(demo_hub, Some (demo_vote PBFT_PREPARE))])
      @ [(demo_hub, Some (demo_vote PBFT_COMMIT))]) @ [(demo_hub, None)]) demo5"
    by (rule run.step) (unfold demo5_def, rule step.apply_ok, simp add: demo4_eq)
  then have "run (((((([] @ [(demo_hub, None)]) @ [(demo_hub, None)]) @ [(demo_hub, Some (demo_vote PBFT_PREPARE))])
      @ [(demo_hub, Some (demo_vote PBFT_COMMIT))]) @ [(demo_hub, None)]) @ [(demo_hub, None)]) demo6"
    by (rule run.step) (unfold demo6_def, rule step.save_ok, simp add: demo5_def persistAppliedRound_def)
  then show ?thesis
    by (simp add: demo_trace_def)
qed

end
