(* ===== verification/Pbft_Guards.thy ===== *)
theory Pbft_Guards
  imports Pbft_Election
begin

text \<open>
  The fail-closed guards of the config-change engine on a federated hub, and an execution
  that gets past two of them: the follower checks the sequence number and the pending round
  before it awaits the tip and the snapshot, and not again after.
\<close>

section \<open>Refusals\<close>

text \<open>
  C10: a federated hub applies a config without a round only over a fetched snapshot of at
  most one member that holds the hub's own key. A missing snapshot, an empty one, or a
  one-member snapshot of somebody else refuses the proposal and changes nothing.
\<close>

theorem unilateral_apply_only_as_sole_member:
  assumes "isFederated h st (Some (lk_height lk))" and "fst (proposeLocked h config lk st) = Inr True"
  shows "\<exists>s vs me. lk_snapshot lk = Some s \<and> sn_validators s = Some vs \<and> vs \<noteq> [] \<and> snapshot_N s \<le> 1 \<and>
    selfPubkey h = Some me \<and> (\<exists>v \<in> set vs. to_lower (cell_string (s_pubkey v)) = me)"
proof -
  have plan: "proposeRoundQuorum h st (Some (lk_height lk)) (lk_snapshot lk) (lk_weighted lk) = Inr ApplyDirectly"
    using assms(2) by (auto simp: proposeLocked_def Let_def split: sum.splits round_plan.splits if_splits)
  then have det: "hasDeterministicSnapshot (lk_snapshot lk)" and q: "round_quorum h st (lk_snapshot lk) = 0"
    and empty: "\<not> isEmptyFederationSnapshot h st (Some (lk_height lk)) (lk_snapshot lk)"
    and mem: "\<not> isNonMemberSnapshot h st (Some (lk_height lk)) (lk_snapshot lk)"
    using assms(1) by (auto simp: proposeRoundQuorum_def Let_def split: if_splits)
  obtain s vs where s: "lk_snapshot lk = Some s" "sn_validators s = Some vs"
    using det by (auto simp: hasDeterministicSnapshot_def split: option.splits)
  have "vs \<noteq> []"
    using empty assms(1) s by (auto simp: isEmptyFederationSnapshot_def)
  then obtain v vs' where vs: "vs = v # vs'"
    by (cases vs) auto
  obtain me where me: "selfPubkey h = Some me" "list_ex (\<lambda>u. to_lower (cell_string (s_pubkey u)) = me) vs"
    using mem assms(1) s vs by (auto simp: isNonMemberSnapshot_def split: option.splits)
  have "snapshot_N s \<le> 1"
    using q s bftQuorum_ge2 [of "snapshot_N s"]
    by (auto simp: round_quorum_def snapshot_getQuorum_def bftQuorumOrSingle_def split: if_splits)
  then show ?thesis
    using s me \<open>vs \<noteq> []\<close> by (auto simp: list_ex_iff)
qed

definition sole_snapshot :: snapshot where
  "sole_snapshot = \<lparr>sn_validators = Some [demo_row ''bb''], sn_count = JNum (Fin 1), sn_truncated = False\<rparr>"

theorem unilateral_apply_only_as_sole_member_witness:
  "\<exists>s vs me. lk_snapshot (demo_lock\<lparr>lk_snapshot := Some sole_snapshot\<rparr>) = Some s \<and> sn_validators s = Some vs \<and> vs \<noteq> [] \<and>
    snapshot_N s \<le> 1 \<and> selfPubkey demo_hub = Some me \<and> (\<exists>v \<in> set vs. to_lower (cell_string (s_pubkey v)) = me)"
  by (rule unilateral_apply_only_as_sole_member [of _ init_consensus _ "JStr ''x''"])
     (simp_all add: sole_snapshot_def demo_lock_eq proposeLocked_def proposeRoundQuorum_def isEmptyFederationSnapshot_def
        isNonMemberSnapshot_def round_eval Let_def init_consensus_def)

text \<open>
  C11: a follower opens a round only for the leader. When the locked part of the PRE\_PREPARE
  handler does anything, the sender is the validator the rotation designates for the
  claimed sequence and view number over the locked snapshot's members, and on a federated
  hub that snapshot was fetched and is not empty.
\<close>

theorem follower_opens_for_leader_only:
  assumes "prePrepareLocked h now env lk st \<noteq> st"
  shows "\<exists>seq view l. d_seq env = JNum (Fin seq) \<and> d_view env = JNum (Fin view) \<and>
     leaderAt h st (Fin seq) (Fin view) (memberPubkeySet (lk_snapshot lk)) = Some l \<and>
     isLeaderIdentity (Some l) (e_sender env) (resolveSenderPubkey h env) \<and>
     (isFederated h st (Some (lk_height lk)) \<longrightarrow>
        (\<exists>s v vs. lk_snapshot lk = Some s \<and> sn_validators s = Some (v # vs)))"
proof -
  obtain q w where f: "followerRoundQuorum h env lk st = Some (q, w)"
    using assms by (auto simp: prePrepareLocked_def split: option.splits)
  obtain seq view where sv: "d_seq env = JNum (Fin seq)" "d_view env = JNum (Fin view)"
    using assms f by (cases "num_key (d_seq env)"; cases "num_key (d_view env)") (auto simp: prePrepareLocked_def)
  have "leaderIdentityOk h st (Fin seq) (Fin view) env (memberPubkeySet (lk_snapshot lk))"
      "isFederated h st (Some (lk_height lk)) \<Longrightarrow> hasDeterministicSnapshot (lk_snapshot lk)"
      "\<not> isEmptyFederationSnapshot h st (Some (lk_height lk)) (lk_snapshot lk)"
    using f sv by (auto simp: followerRoundQuorum_def Let_def split: if_splits)
  then show ?thesis
    using sv by (auto simp: leaderIdentityOk_def hasDeterministicSnapshot_def isEmptyFederationSnapshot_def
        neq_Nil_conv split: option.splits)
qed

text \<open>
  what the freshness bound compares. A numeric own tip bounds the stamped height to the
  tolerance on either side; a tip that is not a number refuses. But an unresolved tip
  arrives as null, which \<open>Number\<close> reads as 0: every stamped height up to the tolerance is accepted.
\<close>

theorem tip_bound_cases:
  assumes "d_height env = JNum (Fin b)" and "0 \<le> b"
  shows "(tipBoundOk h env (JNum (Fin t)) \<longleftrightarrow> \<bar>t - b\<bar> \<le> hub_tolerance h) \<and>
    \<not> tipBoundOk h env JUndef \<and> (tipBoundOk h env JNull \<longleftrightarrow> b \<le> hub_tolerance h)"
  using assms by (auto simp: tipBoundOk_def)

section \<open>Normalised weights\<close>

lemma index_normalized:
  "\<forall>v \<in> set vs. \<exists>x. s_weight v = CStr x \<Longrightarrow>
     indexStakeSources (map normalize_row vs) w p = indexStakeSources vs w p"
proof (induction vs arbitrary: w p)
  case (Cons v vs)
  obtain x where x: "s_weight v = CStr x"
    using Cons.prems by auto
  have "trim [] = []"
    by (simp add: trim_def)
  then have blank: "blank_source (normalize_row v) = blank_source v"
    by (cases "s_source v") (auto simp: blank_source_def normalize_row_def cell_or_def)
  have "\<not> blank_source v \<Longrightarrow> cell_string (s_source (normalize_row v)) = cell_string (s_source v)"
    by (cases "s_source v") (auto simp: blank_source_def normalize_row_def cell_or_def)
  then show ?case
    using Cons x blank by (simp add: Let_def) (simp add: normalize_row_def cell_or_def)
qed simp

text \<open>
  the engine's normalisation of a weight snapshot does not change a verdict. On rows
  the fetch guard lets through (every weight present and a plain decimal), the tally over the
  normalised rows accepts the same signers as the tally over the rows as fetched, and a
  truncated snapshot stays refused.
\<close>

theorem normalizeValidators_same_verdict:
  assumes "coerceValidators (sn_validators s) True = Some vs"
  shows "meetsStakeThreshold rnd (normalizeValidators (Some s) True) signers =
    meetsStakeThreshold rnd \<lparr>stake_rows = vs, stake_truncated = sn_truncated s\<rparr> signers"
proof -
  have vs: "sn_validators s = Some vs" and "\<forall>v \<in> set vs. s_weight v \<noteq> CUndef \<and> s_weight v \<noteq> CNull"
    using assms by (auto simp: coerceValidators_def list_ex_iff split: option.splits if_splits cell.splits)
  then have "\<forall>v \<in> set vs. \<exists>x. s_weight v = CStr x"
    using cell.exhaust by metis
  with vs show ?thesis
    by (simp add: meetsStakeThreshold_def normalizeValidators_def index_normalized)
qed

theorem normalizeValidators_same_verdict_witness:
  "meetsStakeThreshold (\<lambda>x. x) (normalizeValidators (Some demo_snapshot) True) [''aa''] =
   meetsStakeThreshold (\<lambda>x. x) \<lparr>stake_rows = [demo_row ''aa'', demo_row ''bb''], stake_truncated = sn_truncated demo_snapshot\<rparr> [''aa'']"
  by (rule normalizeValidators_same_verdict)
     (simp add: coerceValidators_def demo_snapshot_def demo_row_def is_plain_decimal_def text_eval)

section \<open>The race behind the awaits\<close>

text \<open>The other hub of the demo federation, following the leader's two PRE\_PREPAREs.\<close>

definition follower_hub :: hub where
  "follower_hub = demo_hub\<lparr>hub_identity := Some ''aa'', hub_addr := ''A''\<rparr>"

definition leader_env :: "string \<Rightarrow> string \<Rightarrow> envelope" where
  "leader_env ty cfg = \<lparr>e_type = ty, e_sender = ''B'', e_sig = JStr ''bb'', d_seq = JNum (Fin 1), d_view = JNum (Fin 0),
     d_digest = JStr cfg, d_config = JStr cfg, d_height = JNum (Fin 800000)\<rparr>"

definition follower_lock :: locked where
  "follower_lock = lockSnapshot follower_hub (JNum (Fin 800000)) (JNum (Fin 800000)) JNull (\<lambda>_. Some demo_snapshot) (\<lambda>_. Some demo_snapshot)"

definition race1 :: consensus where
  "race1 = handleMessage follower_hub 0 (leader_env PBFT_PRE_PREPARE ''y'')
     (handleMessage follower_hub 0 (leader_env PBFT_PRE_PREPARE ''x'') init_consensus)"
definition race2 :: consensus where
  "race2 = prePrepareTip follower_hub (leader_env PBFT_PRE_PREPARE ''x'') (JNum (Fin 800000))
     (drop_task (AwaitTip (leader_env PBFT_PRE_PREPARE ''x'')) race1)"
definition race3 :: consensus where
  "race3 = prePrepareTip follower_hub (leader_env PBFT_PRE_PREPARE ''y'') (JNum (Fin 800000))
     (drop_task (AwaitTip (leader_env PBFT_PRE_PREPARE ''y'')) race2)"
definition race4 :: consensus where
  "race4 = prePrepareLocked follower_hub 0 (leader_env PBFT_PRE_PREPARE ''x'') follower_lock
     (drop_task (AwaitLock (leader_env PBFT_PRE_PREPARE ''x'')) race3)"
definition race5 :: consensus where "race5 = handleMessage follower_hub 0 (leader_env PBFT_COMMIT ''x'') race4"
definition race6 :: consensus where "race6 = persistAppliedRound 0 1 (config_applied 0 1 race5)"
definition race7 :: consensus where "race7 = finishAppliedRound 0 1 (seq_saved 0 1 race6)"
definition race8 :: consensus where
  "race8 = prePrepareLocked follower_hub 0 (leader_env PBFT_PRE_PREPARE ''y'') follower_lock
     (drop_task (AwaitLock (leader_env PBFT_PRE_PREPARE ''y'')) race7)"
definition race9 :: consensus where "race9 = handleMessage follower_hub 0 (leader_env PBFT_COMMIT ''y'') race8"
definition race10 :: consensus where "race10 = persistAppliedRound 1 1 (config_applied 1 1 race9)"
definition race11 :: consensus where "race11 = finishAppliedRound 1 1 (seq_saved 1 1 race10)"

lemma follower_hub_sel [simp]:
  "hub_network follower_hub = ''mainnet''" "hub_identity follower_hub = Some ''aa''" "hub_addr follower_hub = ''A''"
  "hub_auth follower_hub = \<lparr>registry_map = Some [(''A'', ''aa''), (''B'', ''bb'')], chain_set = None\<rparr>"
  "hub_hasSnapshots follower_hub" "hub_minValidators follower_hub = 2" "hub_digest follower_hub (JStr s) = s"
  "hub_tolerance follower_hub = 144"
  by (simp_all add: follower_hub_def demo_hub_def)

lemma leader_env_sel [simp]:
  "e_type (leader_env ty c) = ty" "e_sender (leader_env ty c) = ''B''" "d_seq (leader_env ty c) = JNum (Fin 1)"
  "d_view (leader_env ty c) = JNum (Fin 0)" "d_digest (leader_env ty c) = JStr c" "d_config (leader_env ty c) = JStr c"
  "d_height (leader_env ty c) = JNum (Fin 800000)"
  "isKnownSender follower_hub (leader_env ty c)" "resolveSenderPubkey follower_hub (leader_env ty c) = Some ''bb''"
  by (simp_all add: leader_env_def isKnownSender_def isAdmissibleSigner_def provenPubkey_def registryHasPubkey_def
      resolveSenderPubkey_def)

lemma leader_env_inj [simp]: "leader_env ty c = leader_env ty' c' \<longleftrightarrow> ty = ty' \<and> c = c'"
  by (auto simp: leader_env_def)

lemma follower_lock_eq:
  "follower_lock = \<lparr>lk_snapshot = Some demo_snapshot, lk_weighted = False, lk_requested = JNum (Fin 800000), lk_height = JNum (Fin 800000)\<rparr>"
  by (simp add: follower_lock_def lockSnapshot_def demo_gates Let_def)

lemma race3_eq: "race3 = init_consensus\<lparr>c_tasks := [AwaitLock (leader_env PBFT_PRE_PREPARE ''x''), AwaitLock (leader_env PBFT_PRE_PREPARE ''y'')]\<rparr>"
  by (simp add: race3_def race2_def race1_def handleMessage_def handlePrePrepare_def prePrepareAdmissible_def
      stampedHeightUsable_def isFederated_def get_pending_def prePrepareTip_def tipBoundOk_def init_consensus_def)

definition raced :: "string \<Rightarrow> string list \<Rightarrow> string list \<Rightarrow> bool \<Rightarrow> bool \<Rightarrow> proposal" where
  "raced cfg commits pks ing ed = \<lparr>p_config = JStr cfg, p_digest = cfg, p_view = 0, p_prepares = [''B'', ''A''], p_commits = commits,
     p_resolved = False, p_applied = ed, p_initiator = False, p_quorum = 2, p_height = JNum (Fin 800000),
     p_weighted = False, p_validators = \<lparr>stake_rows = [], stake_truncated = False\<rparr>,
     p_members = Some [''aa'', ''bb''], p_preparePks = [''bb'', ''aa''], p_commitPks = pks, p_commitSent = True, p_applying = ing\<rparr>"

lemmas race_eval = round_eval demo_gates Let_def followerRoundQuorum_def isEmptyFederationSnapshot_def
  leaderIdentityOk_def openFollowerRound_def castPrepare_def add_key_def replayEarlyVotes_def addrForPubkey_def

lemma race4_eq: "race4 = init_consensus\<lparr>c_pending := [(1, 0)], c_objs := [raced ''x'' [''A''] [''aa''] False False],
    c_tasks := [AwaitLock (leader_env PBFT_PRE_PREPARE ''y''), Timer 0 1],
    c_out := [BPrepare 1 ''x'' None, BCommit 1 ''x'' None]\<rparr>"
  by (simp add: race4_def race3_eq prePrepareLocked_def follower_lock_eq race_eval init_consensus_def raced_def)

lemma race7_eq: "race7 = init_consensus\<lparr>c_objs := [raced ''x'' [''A'', ''B''] [''aa'', ''bb''] True True], c_lastApplied := 1,
    c_tasks := [AwaitLock (leader_env PBFT_PRE_PREPARE ''y''), Timer 0 1],
    c_out := [BPrepare 1 ''x'' None, BCommit 1 ''x'' None, ApplyConfig 0 (JStr ''x''), ConfigApplied 0 (JStr ''x''), SaveSeq 0 1]\<rparr>"
  by (simp add: race7_def race6_def race5_def race4_eq handleMessage_def message_types handleCommit_def race_eval
      persistAppliedRound_def config_applied_def finishAppliedRound_def seq_saved_def del_pending_def js_del_def init_consensus_def raced_def)

lemma race8_eq: "race8 = init_consensus\<lparr>c_pending := [(1, 1)],
    c_objs := [raced ''x'' [''A'', ''B''] [''aa'', ''bb''] True True, raced ''y'' [''A''] [''aa''] False False], c_lastApplied := 1,
    c_tasks := [Timer 0 1, Timer 1 1],
    c_out := [BPrepare 1 ''x'' None, BCommit 1 ''x'' None, ApplyConfig 0 (JStr ''x''), ConfigApplied 0 (JStr ''x''), SaveSeq 0 1,
      BPrepare 1 ''y'' None, BCommit 1 ''y'' None]\<rparr>"
  by (simp add: race8_def race7_eq prePrepareLocked_def follower_lock_eq race_eval init_consensus_def raced_def)

lemma race11_eq: "c_out race11 = [BPrepare 1 ''x'' None, BCommit 1 ''x'' None, ApplyConfig 0 (JStr ''x''), ConfigApplied 0 (JStr ''x''), SaveSeq 0 1,
      BPrepare 1 ''y'' None, BCommit 1 ''y'' None, ApplyConfig 1 (JStr ''y''), ConfigApplied 1 (JStr ''y''), SaveSeq 1 1]"
    "AwaitApply 1 1 \<in> set (c_tasks race9)" "AwaitSave 1 1 \<in> set (c_tasks race10)" "c_lastApplied race11 = 1"
  by (simp_all add: race11_def race10_def race9_def race8_eq handleMessage_def message_types handleCommit_def race_eval
      persistAppliedRound_def config_applied_def finishAppliedRound_def seq_saved_def del_pending_def js_del_def init_consensus_def raced_def)

lemma runs_on: "\<exists>tr. run tr st \<Longrightarrow> step l st st' \<Longrightarrow> \<exists>tr. run tr st'"
  using run.step by blast

lemma race_run: "\<exists>tr. run tr race11"
proof -
  have "\<exists>tr. run tr init_consensus"
    using run.start [of "Some []"] by (auto simp: loadSeq_def)
  then have "\<exists>tr. run tr (handleMessage follower_hub 0 (leader_env PBFT_PRE_PREPARE ''x'') init_consensus)"
    by (rule runs_on) (rule step.deliver)
  then have "\<exists>tr. run tr race1"
    unfolding race1_def by (rule runs_on) (rule step.deliver)
  then have "\<exists>tr. run tr race2"
    unfolding race2_def
    by (rule runs_on) (rule step.tip, simp add: race1_def handleMessage_def handlePrePrepare_def prePrepareAdmissible_def
          stampedHeightUsable_def isFederated_def get_pending_def init_consensus_def)
  then have "\<exists>tr. run tr race3"
    unfolding race3_def
    by (rule runs_on) (rule step.tip, simp add: race2_def race1_def handleMessage_def handlePrePrepare_def prePrepareAdmissible_def
          stampedHeightUsable_def isFederated_def get_pending_def prePrepareTip_def tipBoundOk_def init_consensus_def)
  then have "\<exists>tr. run tr race4"
    by (rule runs_on)
       (use step.snapshot_lock [of "leader_env PBFT_PRE_PREPARE ''x''" race3 follower_hub 0 JNull] in
         \<open>simp add: race4_def follower_lock_def race3_eq\<close>)
  then have "\<exists>tr. run tr race5"
    unfolding race5_def by (rule runs_on) (rule step.deliver)
  then have "\<exists>tr. run tr race6"
    unfolding race6_def
    by (rule runs_on) (rule step.apply_ok, simp add: race5_def race4_eq handleMessage_def message_types handleCommit_def race_eval init_consensus_def raced_def)
  then have "\<exists>tr. run tr race7"
    unfolding race7_def by (rule runs_on) (rule step.save_ok, simp add: race6_def persistAppliedRound_def)
  then have "\<exists>tr. run tr race8"
    by (rule runs_on)
       (use step.snapshot_lock [of "leader_env PBFT_PRE_PREPARE ''y''" race7 follower_hub 0 JNull] in
         \<open>simp add: race8_def follower_lock_def race7_eq\<close>)
  then have "\<exists>tr. run tr race9"
    unfolding race9_def by (rule runs_on) (rule step.deliver)
  then have "\<exists>tr. run tr race10"
    unfolding race10_def by (rule runs_on) (rule step.apply_ok, rule race11_eq(2))
  then show ?thesis
    unfolding race11_def by (rule runs_on) (rule step.save_ok, rule race11_eq(3))
qed

text \<open>
  C36: the follower's guards do not survive its awaits. There is a run in which a leader's two
  PRE\_PREPAREs for one sequence number are both past the stale-sequence and pending-round
  checks before either snapshot is locked: the hub casts PREPARE and COMMIT for both
  configs, and applies and persists the second one under the same sequence number after the
  first one was applied and marked.
\<close>

theorem follower_applies_two_configs_for_one_seq:
  "\<exists>tr st. run tr st \<and> c_lastApplied st = 1 \<and>
     BPrepare 1 ''x'' None \<in> set (c_out st) \<and> BPrepare 1 ''y'' None \<in> set (c_out st) \<and>
     ApplyConfig 0 (JStr ''x'') \<in> set (c_out st) \<and> SaveSeq 0 1 \<in> set (c_out st) \<and>
     ApplyConfig 1 (JStr ''y'') \<in> set (c_out st) \<and> SaveSeq 1 1 \<in> set (c_out st)"
proof -
  obtain tr where "run tr race11"
    using race_run by blast
  then show ?thesis
    by (intro exI [of _ tr] exI [of _ race11]) (simp add: race11_eq(1, 4))
qed

theorem follower_opens_for_leader_only_witness:
  "\<exists>seq view l. d_seq (leader_env PBFT_PRE_PREPARE ''x'') = JNum (Fin seq) \<and> d_view (leader_env PBFT_PRE_PREPARE ''x'') = JNum (Fin view) \<and>
     leaderAt follower_hub (drop_task (AwaitLock (leader_env PBFT_PRE_PREPARE ''x'')) race3) (Fin seq) (Fin view)
       (memberPubkeySet (lk_snapshot follower_lock)) = Some l \<and>
     isLeaderIdentity (Some l) (e_sender (leader_env PBFT_PRE_PREPARE ''x'')) (resolveSenderPubkey follower_hub (leader_env PBFT_PRE_PREPARE ''x'')) \<and>
     (isFederated follower_hub (drop_task (AwaitLock (leader_env PBFT_PRE_PREPARE ''x'')) race3) (Some (lk_height follower_lock)) \<longrightarrow>
        (\<exists>s v vs. lk_snapshot follower_lock = Some s \<and> sn_validators s = Some (v # vs)))"
  by (rule follower_opens_for_leader_only [of _ 0])
     (unfold race4_def [symmetric], simp add: race4_eq race3_eq init_consensus_def)

theorem tip_bound_cases_witness:
  "tipBoundOk follower_hub (leader_env PBFT_PRE_PREPARE ''x'') (JNum (Fin 800100)) \<and>
   tipBoundOk follower_hub ((leader_env PBFT_PRE_PREPARE ''x'')\<lparr>d_height := JNum (Fin 100)\<rparr>) JNull"
  using tip_bound_cases [of "leader_env PBFT_PRE_PREPARE ''x''" 800000 follower_hub 800100]
    tip_bound_cases [of "(leader_env PBFT_PRE_PREPARE ''x'')\<lparr>d_height := JNum (Fin 100)\<rparr>" 100 follower_hub 0]
  by simp

end
