(* ===== verification/Js_Float.thy ===== *)
theory Js_Float
  imports Prelude "HOL-Library.Log_Nat"
begin

text \<open>
  The doubles behind \<open>parseFloat\<close>: a decimal is read as the nearest IEEE double, ties going to the even significand, and
  the bounds of that rounding the price gates rest on. Prices are compared as doubles at the gates and as exact
  decimals by the bignumber library, so this is where the two readings part.
\<close>

section \<open>Rounding to the nearest double\<close>

definition round_even :: "rat \<Rightarrow> int" where
  "round_even x =
     (let f = \<lfloor>x\<rfloor>; d = x - of_int f
      in if d < 1 / 2 then f else if 1 / 2 < d then f + 1 else if even f then f else f + 1)"

text \<open>The exponent of a number: the largest \<open>e\<close> with \<open>2 powi e\<close> at most its absolute value.\<close>

definition binade :: "rat \<Rightarrow> int" where
  "binade q =
     (let (a, b) = quotient_of \<bar>q\<bar>; e = int (floorlog 2 (nat a)) - int (floorlog 2 (nat b))
      in if 2 powi e \<le> \<bar>q\<bar> then e else e - 1)"

text \<open>The spacing of the doubles around a number: 52 bits below its exponent, and \<open>2 powi -1074\<close> at the bottom.\<close>

definition double_ulp :: "rat \<Rightarrow> rat" where
  "double_ulp q = 2 powi (max (binade q) (- 1022) - 52)"

definition nearest_double :: "rat \<Rightarrow> rat" where
  "nearest_double q = (if q = 0 then 0 else of_int (round_even (q / double_ulp q)) * double_ulp q)"

definition to_double :: "rat \<Rightarrow> jsnum" where
  "to_double q = clip_double (nearest_double q)"

lemma round_even_error: "\<bar>of_int (round_even x) - x\<bar> \<le> 1 / 2"
proof -
  have "of_int \<lfloor>x\<rfloor> \<le> x" "x < of_int \<lfloor>x\<rfloor> + 1"
    by linarith+
  then show ?thesis
    by (auto simp: round_even_def Let_def)
qed

lemma round_even_ge: "of_int k - 1 / 2 < x \<Longrightarrow> k \<le> round_even x"
  using round_even_error [of x] by linarith

lemma round_even_le: "x < of_int k + 1 / 2 \<Longrightarrow> round_even x \<le> k"
  using round_even_error [of x] by linarith

lemma round_even_tie: "even k \<Longrightarrow> round_even (of_int k - 1 / 2) = k"
proof -
  assume "even k"
  have f: "\<lfloor>of_int k - 1 / 2 :: rat\<rfloor> = k - 1"
    by linarith
  then show ?thesis
    using \<open>even k\<close> by (simp add: round_even_def Let_def)
qed

lemma round_even_half: "0 \<le> x \<Longrightarrow> x \<le> 1 / 2 \<Longrightarrow> round_even x = 0"
proof -
  assume x: "0 \<le> x" "x \<le> 1 / 2"
  then have "\<lfloor>x\<rfloor> = 0"
    by linarith
  then show ?thesis
    using x by (simp add: round_even_def Let_def)
qed

lemma powi_less_iff [simp]: "(2 :: rat) powi i < 2 powi j \<longleftrightarrow> i < j"
  using power_int_strict_increasing [of i j "2 :: rat"] power_int_increasing [of j i "2 :: rat"] by (cases "i < j") (simp_all add: not_less)

lemma powi_add: "i + j = k \<Longrightarrow> (2 :: rat) powi i * 2 powi j = 2 powi k"
  using power_int_add [of "2 :: rat" i j] by simp

lemma inverse_power: "(1 :: rat) / 2 ^ n = 2 powi (- int n)"
  by (simp add: power_int_minus divide_inverse)

lemma binade_bounds:
  assumes "q \<noteq> 0"
  shows "2 powi binade q \<le> \<bar>q\<bar>" and "\<bar>q\<bar> < 2 powi (binade q + 1)"
proof -
  obtain a b where ab: "quotient_of \<bar>q\<bar> = (a, b)"
    by fastforce
  then have b: "0 < b" and q: "\<bar>q\<bar> = of_int a / of_int b"
    by (auto simp: quotient_of_denom_pos quotient_of_div)
  have "0 < of_int a / (of_int b :: rat)"
    using assms q by (metis zero_less_abs_iff)
  then have a: "0 < a"
    using b by (simp add: zero_less_divide_iff)
  let ?A = "floorlog 2 (nat a)" and ?B = "floorlog 2 (nat b)"
  have bounds: "2 powi (int (floorlog 2 (nat n)) - 1) \<le> (of_int n :: rat)" "(of_int n :: rat) < 2 powi int (floorlog 2 (nat n))"
    if n: "0 < n" for n
  proof -
    have l: "0 < floorlog 2 (nat n)"
      using n by (simp add: floorlog_def)
    have nb: "2 ^ (floorlog 2 (nat n) - 1) \<le> nat n" "nat n < 2 ^ floorlog 2 (nat n)"
      using floorlog_bounds [of "nat n" 2] n by auto
    have r: "(of_int n :: rat) = of_nat (nat n)"
      using n by simp
    have "(2 :: rat) ^ (floorlog 2 (nat n) - 1) \<le> of_nat (nat n)" "(of_nat (nat n) :: rat) < 2 ^ floorlog 2 (nat n)"
      using of_nat_mono [OF nb(1), where 'a = rat] less_imp_of_nat_less [OF nb(2), where 'a = rat] by simp_all
    moreover have "2 powi (int (floorlog 2 (nat n)) - 1) = (2 :: rat) ^ (floorlog 2 (nat n) - 1)"
      using l by (simp flip: power_int_of_nat add: of_nat_diff)
    ultimately show "2 powi (int (floorlog 2 (nat n)) - 1) \<le> (of_int n :: rat)" "(of_int n :: rat) < 2 powi int (floorlog 2 (nat n))"
      by (simp_all only: r power_int_of_nat)
  qed
  note A = bounds [OF a] and B = bounds [OF b]
  have B0: "(0 :: rat) < of_int b" and pw: "(0 :: rat) < 2 powi i" for i
    using b by simp_all
  let ?e = "int ?A - int ?B"
  have hi: "\<bar>q\<bar> < 2 powi (?e + 1)"
  proof -
    have "(2 :: rat) powi int ?A = 2 powi (?e + 1) * 2 powi (int ?B - 1)"
      by (rule powi_add [symmetric]) simp
    also have "\<dots> \<le> 2 powi (?e + 1) * of_int b"
      using B(1) pw [of "?e + 1"] by (intro mult_left_mono) simp_all
    finally have "of_int a < 2 powi (?e + 1) * (of_int b :: rat)"
      using A(2) by linarith
    then show ?thesis
      unfolding q pos_divide_less_eq [OF B0] .
  qed
  have lo: "2 powi (?e - 1) \<le> \<bar>q\<bar>"
  proof -
    have "2 powi (?e - 1) * of_int b \<le> 2 powi (?e - 1) * (2 powi int ?B :: rat)"
      using B(2) pw [of "?e - 1"] by (intro mult_left_mono) simp_all
    also have "\<dots> = 2 powi (int ?A - 1)"
      by (rule powi_add) simp
    also have "\<dots> \<le> of_int a"
      by (rule A(1))
    finally show ?thesis
      unfolding q pos_le_divide_eq [OF B0] .
  qed
  have e: "binade q = (if 2 powi ?e \<le> \<bar>q\<bar> then ?e else ?e - 1)"
    by (simp add: binade_def ab)
  show "2 powi binade q \<le> \<bar>q\<bar>" "\<bar>q\<bar> < 2 powi (binade q + 1)"
    using hi lo by (simp_all add: e not_le)
qed

lemma binade_less: "0 < q \<Longrightarrow> q < 2 powi k \<Longrightarrow> binade q < k"
proof -
  assume "0 < q" "q < 2 powi k"
  then have "2 powi binade q < (2 :: rat) powi k"
    using le_less_trans [OF binade_bounds(1) [of q]] by (simp only: abs_of_pos less_irrefl not_False_eq_True)
  then show "binade q < k"
    by (simp only: powi_less_iff)
qed

lemma binade_ge: "0 < q \<Longrightarrow> 2 powi k \<le> q \<Longrightarrow> k \<le> binade q"
proof -
  assume "0 < q" "2 powi k \<le> q"
  then have "(2 :: rat) powi k < 2 powi (binade q + 1)"
    using le_less_trans [OF _ binade_bounds(2) [of q]] by (simp only: abs_of_pos less_irrefl not_False_eq_True)
  then show "k \<le> binade q"
    by (simp only: powi_less_iff)
qed

lemma double_ulp_pos [simp]: "0 < double_ulp q" "double_ulp q \<noteq> 0"
  by (simp_all add: double_ulp_def)

lemma nearest_double_error: "\<bar>nearest_double q - q\<bar> \<le> double_ulp q / 2"
proof (cases "q = 0")
  case False
  have "\<bar>nearest_double q - q\<bar> = \<bar>of_int (round_even (q / double_ulp q)) - q / double_ulp q\<bar> * double_ulp q"
    using False abs_mult [of "of_int (round_even (q / double_ulp q)) - q / double_ulp q" "double_ulp q"]
    by (simp add: nearest_double_def left_diff_distrib abs_of_pos)
  also have "\<dots> \<le> 1 / 2 * double_ulp q"
    by (intro mult_right_mono round_even_error) (simp add: less_imp_le)
  finally show ?thesis
    by simp
qed (simp add: nearest_double_def double_ulp_def)

text \<open>A number in the normal range is off by at most one part in \<open>2 ^ 53\<close>.\<close>

lemma nearest_double_close:
  assumes "2 powi (- 1022) \<le> q"
  shows "\<bar>nearest_double q - q\<bar> * 2 ^ 53 \<le> q"
proof -
  have q: "0 < q" "q \<noteq> 0"
    using assms less_le_trans [of 0 "2 powi (- 1022) :: rat" q] by auto
  have "- 1022 \<le> binade q"
    using q(1) assms by (rule binade_ge)
  then have "double_ulp q = 2 powi (binade q - 52)"
    by (simp add: double_ulp_def)
  then have "double_ulp q / 2 * 2 ^ 53 = 2 powi (binade q - 52) * 2 powi 52"
    by simp
  also have "\<dots> = 2 powi binade q"
    by (rule powi_add) simp
  also have "\<dots> \<le> q"
    using binade_bounds(1) [OF q(2)] q(1) by (simp only: abs_of_pos)
  finally show ?thesis
    using mult_right_mono [OF nearest_double_error [of q], of "2 ^ 53"] by simp
qed

section \<open>parseFloat\<close>

text \<open>The exact value of the longest decimal literal that starts the text, after blanks and a sign.\<close>

definition exponent_prefix :: "string \<Rightarrow> int" where
  "exponent_prefix s =
     (case s of
        [] \<Rightarrow> 0
      | c # cs \<Rightarrow>
          if c \<noteq> CHR ''e'' \<and> c \<noteq> CHR ''E'' then 0
          else (let (neg, r) = split_sign cs; ds = takeWhile is_digit r in
            if ds = [] then 0 else (if neg then - 1 else 1) * int (digits_val 0 ds)))"

definition literal_prefix :: "string \<Rightarrow> rat option" where
  "literal_prefix s =
     (let (neg, u) = split_sign (dropWhile is_space s);
          ip = takeWhile is_digit u; r = dropWhile is_digit u;
          (fp, e) = (case r of CHR ''.'' # t \<Rightarrow> (takeWhile is_digit t, dropWhile is_digit t) | _ \<Rightarrow> ([], r))
      in if ip @ fp = [] then None
         else Some ((if neg then - 1 else 1) * of_nat (digits_val 0 (ip @ fp)) * pow10 (exponent_prefix e - int (length fp))))"

definition parseFloat :: "string \<Rightarrow> jsnum" where
  "parseFloat s =
     (let (neg, u) = split_sign (dropWhile is_space s) in
      if take 8 u = ''Infinity'' then (if neg then NInf else PInf)
      else (case literal_prefix s of None \<Rightarrow> NaN | Some q \<Rightarrow> to_double q))"

lemma literal_not_infinity:
  assumes "literal_prefix s = Some q"
  shows "parseFloat s = to_double q"
proof -
  obtain neg u where u: "split_sign (dropWhile is_space s) = (neg, u)"
    by fastforce
  have "take 8 u \<noteq> ''Infinity''"
  proof
    assume "take 8 u = ''Infinity''"
    then obtain t where "u = CHR ''I'' # t"
      by (cases u) auto
    then show False
      using assms by (simp add: literal_prefix_def u is_digit_def)
  qed
  then show ?thesis
    using assms by (simp add: parseFloat_def u)
qed

lemma no_literal:
  assumes "literal_prefix s = None"
  shows "\<not> (\<exists>r. parseFloat s = Fin r)"
  using assms by (auto simp: parseFloat_def split: prod.splits if_splits)

section \<open>The range of a price\<close>

text \<open>
  \<open>0 < val < PRICE_MAX\<close> on the double nearest to a decimal, said of the decimal: doubles round
  to 0 up to half the smallest one, and the last double below \<open>10 ^ 10\<close> is \<open>2 powi -19\<close> away from it.
\<close>

definition PRICE_MAX :: rat where "PRICE_MAX = 10 ^ 10"

definition price_in_range :: "rat \<Rightarrow> bool" where
  "price_in_range q \<longleftrightarrow> 1 / 2 ^ 1075 < q \<and> q < 10 ^ 10 - 1 / 2 ^ 20"

lemma nearest_double_nonneg: "0 \<le> q \<Longrightarrow> 0 \<le> nearest_double q"
proof -
  assume "0 \<le> q"
  then have "0 \<le> q / double_ulp q"
    by (simp add: less_imp_le)
  then have "0 \<le> round_even (q / double_ulp q)"
    by (intro round_even_ge) linarith
  then show ?thesis
    by (simp add: nearest_double_def less_imp_le)
qed

lemma nearest_double_nonpos: "q \<le> 0 \<Longrightarrow> nearest_double q \<le> 0"
proof -
  assume "q \<le> 0"
  then have "q / double_ulp q \<le> 0"
    by (simp add: divide_nonpos_pos)
  then have "round_even (q / double_ulp q) \<le> 0"
    by (intro round_even_le) linarith
  then show ?thesis
    by (simp add: nearest_double_def mult_nonpos_nonneg less_imp_le)
qed

lemma tiny_ulp: "0 < q \<Longrightarrow> q < 2 powi (- 1022) \<Longrightarrow> double_ulp q = 2 powi (- 1074)"
proof -
  assume q: "0 < q" "q < 2 powi (- 1022)"
  then have "binade q < - 1022"
    by (rule binade_less)
  then show ?thesis
    by (simp add: double_ulp_def)
qed

lemma nearest_double_pos_iff: "0 < nearest_double q \<longleftrightarrow> 1 / 2 ^ 1075 < q"
proof (cases "0 < q")
  case True
  have small: "(1 :: rat) / 2 ^ 1075 = 1 / 2 * 2 powi (- 1074)"
    using inverse_power [of 1075] power_int_add [of "2 :: rat" "- 1" "- 1074"] by (simp only: power_int_minus_divide) simp
  show ?thesis
  proof (cases "q < 2 powi (- 1022)")
    case tiny: True
    note u = tiny_ulp [OF True tiny]
    have "0 < round_even (q / double_ulp q) \<longleftrightarrow> 1 / 2 < q / double_ulp q"
    proof
      show "0 < round_even (q / double_ulp q)" if "1 / 2 < q / double_ulp q"
        using round_even_ge [of 1 "q / double_ulp q"] that by simp
      show "1 / 2 < q / double_ulp q" if r: "0 < round_even (q / double_ulp q)"
      proof (rule ccontr)
        assume "\<not> 1 / 2 < q / double_ulp q"
        then have "round_even (q / double_ulp q) = 0"
          using True by (intro round_even_half) (simp_all add: less_imp_le)
        then show False
          using r by simp
      qed
    qed
    moreover have "1 / 2 < q / double_ulp q \<longleftrightarrow> 1 / 2 ^ 1075 < q"
      unfolding small u [symmetric] pos_less_divide_eq [OF double_ulp_pos(1)] ..
    moreover have "0 < nearest_double q \<longleftrightarrow> 0 < round_even (q / double_ulp q)"
      using True double_ulp_pos(1) [of q] zero_less_mult_iff [of "of_int (round_even (q / double_ulp q))" "double_ulp q"]
      by (auto simp: nearest_double_def zero_less_mult_iff simp del: double_ulp_pos dest: less_asym)
    ultimately show ?thesis
      by blast
  next
    case False
    then have "\<bar>nearest_double q - q\<bar> * 2 ^ 53 \<le> q"
      by (intro nearest_double_close) simp
    then have "(q - nearest_double q) * 2 ^ 53 \<le> q"
      using mult_right_mono [OF abs_ge_minus_self [of "nearest_double q - q"], of "2 ^ 53"] by simp
    then have "0 < nearest_double q"
      using True by (simp add: left_diff_distrib)
    moreover have "(1 :: rat) / 2 ^ 1075 < 2 powi (- 1022)"
    proof -
      show ?thesis
        unfolding inverse_power powi_less_iff by simp
    qed
    ultimately show ?thesis
      using False by simp
  qed
next
  case False
  then have "nearest_double q \<le> 0"
    by (intro nearest_double_nonpos) simp
  moreover have "(0 :: rat) < 1 / 2 ^ 1075"
    by simp
  ultimately show ?thesis
    using False by linarith
qed

text \<open>Between \<open>2 ^ 33\<close> and \<open>2 ^ 34\<close> the doubles are \<open>2 powi -19\<close> apart; below they stay below \<open>2 ^ 33\<close>, above they stay above.\<close>

lemma nearest_double_below:
  assumes "0 < q" and "q < 2 powi k" and "- 1022 \<le> k"
  shows "nearest_double q \<le> 2 powi k"
proof -
  have le: "max (binade q) (- 1022) \<le> k"
    using binade_less [OF assms(1, 2)] assms(3) by simp
  define m where "m = k - (max (binade q) (- 1022) - 52)"
  have m: "0 \<le> m"
    using le unfolding m_def by arith
  have "(2 :: rat) powi k = 2 powi m * double_ulp q"
    unfolding double_ulp_def by (rule powi_add [symmetric]) (simp add: m_def)
  then have k: "(2 :: rat) powi k = 2 ^ nat m * double_ulp q"
    unfolding power_int_nonneg_exp [OF m] .
  have "q / double_ulp q < of_int (2 ^ nat m)"
    using assms(2) by (simp add: k pos_divide_less_eq)
  then have "round_even (q / double_ulp q) \<le> 2 ^ nat m"
    by (intro round_even_le) linarith
  then have "(of_int (round_even (q / double_ulp q)) :: rat) \<le> 2 ^ nat m"
    by (metis of_int_le_iff of_int_numeral of_int_power)
  then show ?thesis
    using assms(1) by (simp add: nearest_double_def k mult_right_mono less_imp_le)
qed

lemma nearest_double_above:
  assumes "2 powi k \<le> q" and "- 1022 \<le> k"
  shows "2 powi k \<le> nearest_double q"
proof -
  have q: "0 < q"
    using assms(1) less_le_trans [of 0 "2 powi k :: rat" q] by auto
  have b: "k \<le> binade q"
    using q assms(1) by (rule binade_ge)
  then have u: "double_ulp q = 2 powi (binade q - 52)"
    using assms(2) by (simp add: double_ulp_def)
  have pow: "(2 :: rat) powi binade q = 2 ^ 52 * double_ulp q"
  proof -
    have "(2 :: rat) powi binade q = 2 powi 52 * 2 powi (binade q - 52)"
      by (rule powi_add [symmetric]) simp
    then show ?thesis
      by (simp add: u)
  qed
  have "of_int (2 ^ 52) \<le> q / double_ulp q"
    using binade_bounds(1) [of q] q by (simp add: pow pos_le_divide_eq)
  then have "2 ^ 52 \<le> round_even (q / double_ulp q)"
    by (intro round_even_ge) linarith
  then have "(2 :: rat) ^ 52 \<le> of_int (round_even (q / double_ulp q))"
    by (metis of_int_le_iff of_int_numeral of_int_power)
  then have "2 powi binade q \<le> nearest_double q"
    using q by (simp add: nearest_double_def pow mult_right_mono less_imp_le)
  moreover have "(2 :: rat) powi k \<le> 2 powi binade q"
    using b by (intro power_int_increasing) simp_all
  ultimately show ?thesis
    by simp
qed

lemma nearest_double_below_max: "nearest_double q < PRICE_MAX \<longleftrightarrow> q < 10 ^ 10 - 1 / 2 ^ 20"
proof -
  consider "q \<le> 0" | "0 < q" "q < 2 powi 33" | "2 powi 33 \<le> q" "q < 2 powi 34" | "2 powi 34 \<le> q"
    by linarith
  then show ?thesis
  proof cases
    case 1
    moreover from this have "nearest_double q \<le> 0"
      by (rule nearest_double_nonpos)
    ultimately show ?thesis
      by (simp add: PRICE_MAX_def)
  next
    case 2
    then have "nearest_double q \<le> 2 powi 33"
      by (intro nearest_double_below) simp_all
    then show ?thesis
      using 2 by (simp add: PRICE_MAX_def)
  next
    case 3
    have q: "0 < q"
      using 3 by simp
    have "binade q < 34" "33 \<le> binade q"
      using binade_less [OF q 3(2)] binade_ge [OF q 3(1)] .
    then have "binade q = 33"
      by simp
    then have u: "double_ulp q = 1 / 2 ^ 19"
    proof -
      have "max 33 (- 1022) - 52 = - int 19"
        by simp
      then show ?thesis
        by (simp only: double_ulp_def \<open>binade q = 33\<close> inverse_power)
    qed
    let ?x = "q / double_ulp q" and ?k = "10 ^ 10 * 2 ^ 19 :: int"
    have x: "?x = q * 2 ^ 19"
      by (simp add: u)
    have "round_even ?x < ?k \<longleftrightarrow> ?x < of_int ?k - 1 / 2"
    proof
      assume "?x < of_int ?k - 1 / 2"
      then show "round_even ?x < ?k"
        using round_even_le [of ?x "?k - 1"] by simp
    next
      assume r: "round_even ?x < ?k"
      show "?x < of_int ?k - 1 / 2"
      proof (rule ccontr)
        assume "\<not> ?x < of_int ?k - 1 / 2"
        then consider "?x = of_int ?k - 1 / 2" | "of_int ?k - 1 / 2 < ?x"
          by linarith
        then show False
        proof cases
          case 1
          then have "round_even ?x = ?k"
            by (simp only:, intro round_even_tie) simp
          then show False
            using r by simp
        next
          case 2
          then have "?k \<le> round_even ?x"
            by (rule round_even_ge)
          then show False
            using r by simp
        qed
      qed
    qed
    moreover have "nearest_double q < PRICE_MAX \<longleftrightarrow> round_even ?x < ?k"
    proof -
      obtain r where r: "round_even ?x = r"
        by blast
      have "nearest_double q = of_int r / 2 ^ 19"
        using q r by (simp add: nearest_double_def u)
      moreover have "of_int r / 2 ^ 19 < PRICE_MAX \<longleftrightarrow> (of_int r :: rat) < of_int ?k"
        by (simp only: PRICE_MAX_def of_int_mult of_int_power of_int_numeral pos_divide_less_eq zero_less_power zero_less_numeral)
      ultimately have "nearest_double q < PRICE_MAX \<longleftrightarrow> (of_int r :: rat) < of_int ?k"
        by (simp only:)
      then show ?thesis
        by (simp only: r of_int_less_iff)
    qed
    moreover have "?x < of_int ?k - 1 / 2 \<longleftrightarrow> q < 10 ^ 10 - 1 / 2 ^ 20"
      by (simp add: x) linarith
    ultimately show ?thesis
      by blast
  next
    case 4
    then have "2 powi 34 \<le> nearest_double q"
      by (intro nearest_double_above) simp_all
    then show ?thesis
      using 4 by (simp add: PRICE_MAX_def)
  qed
qed

lemma price_range_double:
  "(case to_double q of Fin r \<Rightarrow> 0 < r \<and> r < PRICE_MAX | _ \<Rightarrow> False) \<longleftrightarrow> price_in_range q"
proof -
  have big: "PRICE_MAX < 2 ^ 1024"
  proof -
    have "PRICE_MAX < 2 ^ 34"
      by (simp add: PRICE_MAX_def)
    also have "(2 :: rat) ^ 34 \<le> 2 ^ 1024"
      by (rule power_increasing) simp_all
    finally show ?thesis .
  qed
  have neg: "- (2 ^ 1024) < (0 :: rat)"
    by simp
  show ?thesis
    using nearest_double_pos_iff [of q] nearest_double_below_max [of q] big neg
    unfolding to_double_def clip_double_def price_in_range_def by (auto split: if_splits)
qed

end
