(* ===== verification/Oracle_Prices.thy ===== *)
theory Oracle_Prices
  imports Membership Js_Float
begin

text \<open>
  Prices: the decimal arithmetic of \<open>src/bcmath.js\<close>, the canonical spelling guard
  (\<open>src/oracle/canonical_price.js\<close>), the shared deviation band
  (\<open>src/consensus/deviation_band.js\<close>) and the plausibility band of round numbers
  (\<open>src/oracle/oracle_round_band.js\<close>). The decimal library (mathjs, decimal.js) is a
  parameter \<open>mj\<close>: \<open>mj_rnd\<close> rounds a result to its 64 digits and \<open>mj_fix d\<close> is the value of
  its fixed notation with \<open>d\<close> decimals. What the development relies on is collected in
  \<open>decimal_lib\<close>: both are monotone, leave a value of their own precision alone, and fixed
  notation lands on the decimal grid.
\<close>

section \<open>Decimal arithmetic (bcmath.js)\<close>

record mathjs =
  mj_rnd :: "rat \<Rightarrow> rat"
  mj_fix :: "nat \<Rightarrow> rat \<Rightarrow> rat"

definition decimal_lib :: "mathjs \<Rightarrow> bool" where
  "decimal_lib mj \<longleftrightarrow> bn64 (mj_rnd mj) \<and> mono (mj_rnd mj) \<and>
     (\<forall>d. mono (mj_fix mj d)) \<and> (\<forall>d x. int_valued (mj_fix mj d x * 10 ^ d)) \<and>
     (\<forall>d x. int_valued (x * 10 ^ d) \<longrightarrow> mj_fix mj d x = x)"

text \<open>Half-up to \<open>d\<close> decimals, exact otherwise: one library with these properties.\<close>

definition half_up :: "nat \<Rightarrow> rat \<Rightarrow> rat" where
  "half_up d x = of_int \<lfloor>x * 10 ^ d + 1 / 2\<rfloor> / 10 ^ d"

definition exact_lib :: mathjs where
  "exact_lib = \<lparr>mj_rnd = (\<lambda>x. x), mj_fix = half_up\<rparr>"

text \<open>\<open>bcnum\<close> of a text: the exact decimal, and 0 for anything \<open>Number\<close> does not read as finite.\<close>

definition bcnum :: "string \<Rightarrow> rat" where
  "bcnum s = (case js_Number_text s of Fin q \<Rightarrow> q | _ \<Rightarrow> 0)"

definition bcsub :: "mathjs \<Rightarrow> rat \<Rightarrow> rat \<Rightarrow> nat \<Rightarrow> rat" where
  "bcsub mj a b d = mj_fix mj d (mj_rnd mj (a - b))"

definition bcadd :: "mathjs \<Rightarrow> rat \<Rightarrow> rat \<Rightarrow> nat \<Rightarrow> rat" where
  "bcadd mj a b d = mj_fix mj d (mj_rnd mj (a + b))"

definition bcmul :: "mathjs \<Rightarrow> rat \<Rightarrow> rat \<Rightarrow> nat \<Rightarrow> rat" where
  "bcmul mj a b d = mj_fix mj d (mj_rnd mj (a * b))"

definition bcdiv :: "mathjs \<Rightarrow> rat \<Rightarrow> rat \<Rightarrow> nat \<Rightarrow> rat" where
  "bcdiv mj a b d = (if b = 0 then 0 else mj_fix mj d (mj_rnd mj (a / b)))"

definition bcformat :: "mathjs \<Rightarrow> rat \<Rightarrow> nat \<Rightarrow> rat" where
  "bcformat mj x d = mj_fix mj d x"

section \<open>Deviation band (deviation\_band.js)\<close>

definition deviationFrom :: "mathjs \<Rightarrow> rat \<Rightarrow> rat \<Rightarrow> nat \<Rightarrow> rat" where
  "deviationFrom mj value reference scale =
     (let diff = bcsub mj value reference scale;
          absDiff = (if diff < 0 then bcmul mj diff (- 1) scale else diff)
      in bcdiv mj absDiff reference scale)"

definition exceedsBand :: "mathjs \<Rightarrow> rat \<Rightarrow> rat \<Rightarrow> rat \<Rightarrow> nat \<Rightarrow> bool" where
  "exceedsBand mj value reference threshold scale \<longleftrightarrow> threshold < deviationFrom mj value reference scale"

definition twoSourceSpread :: "mathjs \<Rightarrow> rat \<Rightarrow> rat \<Rightarrow> nat \<Rightarrow> rat" where
  "twoSourceSpread mj lo hi scale = bcdiv mj (bcsub mj hi lo scale) (bcadd mj lo hi scale) scale"

definition twoSourceSpreadExceeds :: "mathjs \<Rightarrow> rat \<Rightarrow> rat \<Rightarrow> rat \<Rightarrow> nat \<Rightarrow> bool" where
  "twoSourceSpreadExceeds mj lo hi threshold scale \<longleftrightarrow> threshold < twoSourceSpread mj lo hi scale"

section \<open>Canonical spelling (canonical\_price.js)\<close>

definition PRICE_MAX_CHARS :: nat where "PRICE_MAX_CHARS = 40"

text \<open>\<open>/^[0-9]+(\.[0-9]+)?$/\<close>\<close>

definition canonical_spelling :: "string \<Rightarrow> bool" where
  "canonical_spelling s \<longleftrightarrow>
     takeWhile is_digit s \<noteq> [] \<and>
     (case dropWhile is_digit s of
        [] \<Rightarrow> True
      | c # f \<Rightarrow> c = CHR ''.'' \<and> f \<noteq> [] \<and> list_all is_digit f)"

text \<open>\<open>show\<close> is the runtime's text of a number.\<close>

definition canonicalPrice :: "(rat \<Rightarrow> string) \<Rightarrow> jsval \<Rightarrow> string option" where
  "canonicalPrice show v =
     (case (case v of JNum (Fin q) \<Rightarrow> Some (show q) | JStr s \<Rightarrow> Some s | _ \<Rightarrow> None) of
        None \<Rightarrow> None
      | Some s \<Rightarrow>
          if PRICE_MAX_CHARS < length s then None
          else if \<not> canonical_spelling s then None
          else Some s)"

text \<open>\<open>/^(0|[1-9][0-9]*)(\.[0-9]{1,8})?$/\<close>, the chain's form of a price value.\<close>

definition chain_price_spelling :: "string \<Rightarrow> bool" where
  "chain_price_spelling s \<longleftrightarrow>
     (let ip = takeWhile is_digit s in
      ip \<noteq> [] \<and> (ip = ''0'' \<or> hd ip \<noteq> CHR ''0'') \<and>
      (case dropWhile is_digit s of
         [] \<Rightarrow> True
       | c # f \<Rightarrow> c = CHR ''.'' \<and> f \<noteq> [] \<and> length f \<le> 8 \<and> list_all is_digit f))"

text \<open>The admission test of a submitted price: \<open>parseFloat\<close> reads a finite double with \<open>0 < val < PRICE_MAX\<close>.\<close>

definition price_admitted :: "string \<Rightarrow> bool" where
  "price_admitted s = (case parseFloat s of Fin val \<Rightarrow> 0 < val \<and> val < PRICE_MAX | _ \<Rightarrow> False)"

text \<open>The test decides a range of the decimal itself.\<close>

lemma price_admitted_decimal [code]:
  "price_admitted s = (case literal_prefix s of None \<Rightarrow> False | Some q \<Rightarrow> price_in_range q)"
proof (cases "literal_prefix s")
  case None
  then show ?thesis
    using no_literal [OF None] by (auto simp: price_admitted_def split: jsnum.splits)
next
  case (Some q)
  then show ?thesis
    using price_range_double [of q] by (simp add: price_admitted_def literal_not_infinity)
qed

section \<open>Round numbers (oracle\_round\_band.js)\<close>

definition DEFAULT_FUTURE_ROUND_TOLERANCE :: rat where "DEFAULT_FUTURE_ROUND_TOLERANCE = 2"

definition safe_integer :: "rat \<Rightarrow> bool" where
  "safe_integer q \<longleftrightarrow> int_valued q \<and> \<bar>q\<bar> \<le> 2 ^ 53 - 1"

definition is_bool :: "jsval \<Rightarrow> bool" where
  "is_bool v = (case v of JBool b \<Rightarrow> True | _ \<Rightarrow> False)"

definition currentRoundAt :: "jsval \<Rightarrow> jsval \<Rightarrow> jsval \<Rightarrow> rat option" where
  "currentRoundAt nowMs epochStartMs roundIntervalMs =
     (if is_bool nowMs \<or> is_bool epochStartMs \<or> is_bool roundIntervalMs then None
      else (case (js_Number nowMs, js_Number epochStartMs, js_Number roundIntervalMs) of
          (Fin now, Fin epoch, Fin interval) \<Rightarrow>
            if interval \<le> 0 then None
            else if now < epoch then None
            else (let r = of_int \<lfloor>(now - epoch) / interval\<rfloor> in
                  if safe_integer r then Some r else None)
        | _ \<Rightarrow> None))"

record round_band =
  rb_current :: rat
  rb_max :: rat
  rb_tolerance :: rat

definition roundBand :: "jsval \<Rightarrow> jsval \<Rightarrow> jsval \<Rightarrow> jsval \<Rightarrow> round_band option" where
  "roundBand nowMs epochStartMs roundIntervalMs futureTolerance =
     (case currentRoundAt nowMs epochStartMs roundIntervalMs of
        None \<Rightarrow> None
      | Some current \<Rightarrow>
          (let t0 = (case js_Number futureTolerance of
                  Fin t \<Rightarrow> if t < 0 then DEFAULT_FUTURE_ROUND_TOLERANCE else t
                | _ \<Rightarrow> DEFAULT_FUTURE_ROUND_TOLERANCE);
               tolerance = of_int \<lfloor>t0\<rfloor>
           in Some \<lparr>rb_current = current, rb_max = current + tolerance, rb_tolerance = tolerance\<rparr>))"

definition isRoundImplausible :: "jsval \<Rightarrow> round_band option \<Rightarrow> bool" where
  "isRoundImplausible rnum band =
     (case js_Number rnum of
        Fin n \<Rightarrow>
          if \<not> safe_integer n \<or> n < 0 then True
          else (case band of None \<Rightarrow> False | Some b \<Rightarrow> rb_max b < n)
      | _ \<Rightarrow> True)"

definition partitionRounds :: "jsval list \<Rightarrow> round_band option \<Rightarrow> rat list \<times> jsnum list" where
  "partitionRounds rounds band =
     (let ns = js_set_of (map js_Number rounds);
          inBand = sort (concat (map (\<lambda>n. case n of Fin q \<Rightarrow> if isRoundImplausible (JNum n) band then [] else [q] | _ \<Rightarrow> []) ns));
          out = filter (\<lambda>n. isRoundImplausible (JNum n) band) ns
      in (inBand,
          if list_all (\<lambda>n. case n of Fin q \<Rightarrow> True | _ \<Rightarrow> False) out
          then map Fin (sort (concat (map (\<lambda>n. case n of Fin q \<Rightarrow> [q] | _ \<Rightarrow> []) out)))
          else out))"

section \<open>Lemmas\<close>

lemma half_up_grid: "int_valued (half_up d x * 10 ^ d)"
  by (simp add: half_up_def)

lemma half_up_exact: "int_valued (x * 10 ^ d) \<Longrightarrow> half_up d x = x"
proof -
  assume "int_valued (x * 10 ^ d)"
  then obtain k where k: "x * 10 ^ d = of_int k"
    by (rule int_valuedE)
  have "\<lfloor>of_int k + 1 / 2 :: rat\<rfloor> = k"
    by (simp add: floor_eq_iff)
  then have "half_up d x = of_int k / 10 ^ d"
    by (simp add: half_up_def k)
  also have "\<dots> = x"
    by (simp flip: k)
  finally show ?thesis .
qed

lemma half_up_mono: "mono (half_up d)"
proof (rule monoI)
  fix x y :: rat
  assume "x \<le> y"
  then have "x * 10 ^ d + 1 / 2 \<le> y * 10 ^ d + 1 / 2"
    by (simp add: mult_right_mono)
  then have "\<lfloor>x * 10 ^ d + 1 / 2\<rfloor> \<le> \<lfloor>y * 10 ^ d + 1 / 2\<rfloor>"
    by (rule floor_mono)
  then show "half_up d x \<le> half_up d y"
    by (simp add: half_up_def divide_right_mono)
qed

lemma exact_lib_ok: "decimal_lib exact_lib"
  using half_up_grid half_up_exact half_up_mono bn64_id by (simp add: decimal_lib_def exact_lib_def mono_def)

lemma fix_mono: "decimal_lib mj \<Longrightarrow> x \<le> y \<Longrightarrow> mj_fix mj d x \<le> mj_fix mj d y"
  by (auto simp: decimal_lib_def mono_def)

lemma rnd_mono: "decimal_lib mj \<Longrightarrow> x \<le> y \<Longrightarrow> mj_rnd mj x \<le> mj_rnd mj y"
  by (auto simp: decimal_lib_def mono_def)

lemma fix_grid: "decimal_lib mj \<Longrightarrow> int_valued (mj_fix mj d x * 10 ^ d)"
  by (simp add: decimal_lib_def)

lemma fix_exact: "decimal_lib mj \<Longrightarrow> int_valued (x * 10 ^ d) \<Longrightarrow> mj_fix mj d x = x"
  by (simp add: decimal_lib_def)

lemma fix_idem: "decimal_lib mj \<Longrightarrow> mj_fix mj d (mj_fix mj d x) = mj_fix mj d x"
  by (simp add: fix_exact fix_grid)

lemma rnd_exact:
  assumes "decimal_lib mj" and "int_valued (x * 10 ^ d)" and "\<bar>x * 10 ^ d\<bar> < 10 ^ 64"
  shows "mj_rnd mj x = x"
proof -
  obtain k where k: "x * 10 ^ d = of_int k"
    using assms(2) by (rule int_valuedE)
  have "x = of_int k * pow10 (- int d)"
    by (cases d) (simp_all add: pow10_def nat_add_distrib field_simps flip: k)
  moreover have "\<bar>k\<bar> < 10 ^ 64"
    using assms(3) unfolding k by (metis of_int_abs of_int_less_iff of_int_numeral of_int_power)
  ultimately show ?thesis
    using assms(1) by (metis bn64_def decimal_lib_def)
qed

lemma grid_mono: "int_valued (x * 10 ^ d) \<Longrightarrow> d \<le> e \<Longrightarrow> int_valued (x * 10 ^ e)"
proof -
  assume "int_valued (x * 10 ^ d)" and "d \<le> e"
  then obtain k where "x * 10 ^ d = of_int k" and "e = d + (e - d)"
    by (auto elim: int_valuedE)
  then have "x * 10 ^ e = of_int (k * 10 ^ (e - d))"
    by (metis (no_types, lifting) mult.assoc of_int_mult of_int_numeral of_int_power power_add)
  then show ?thesis
    by (metis int_valued_of_int)
qed

section \<open>One reading of a canonical price\<close>

lemma canonical_chars:
  assumes "canonical_spelling s"
  shows "\<forall>c \<in> set s. is_digit c \<or> c = CHR ''.''" and "s \<noteq> []" and "is_digit (hd s)"
proof -
  show "\<forall>c \<in> set s. is_digit c \<or> c = CHR ''.''"
  proof
    fix c assume "c \<in> set s"
    then consider "c \<in> set (takeWhile is_digit s)" | "c \<in> set (dropWhile is_digit s)"
      by (metis Un_iff set_append takeWhile_dropWhile_id)
    then show "is_digit c \<or> c = CHR ''.''"
      using assms by cases (auto simp: canonical_spelling_def list_all_iff dest: set_takeWhileD split: list.splits)
  qed
  show "s \<noteq> []" and "is_digit (hd s)"
    using assms by (cases s; auto simp: canonical_spelling_def split: if_splits)+
qed

lemma canonical_no_space: "canonical_spelling s \<Longrightarrow> c \<in> set s \<Longrightarrow> \<not> is_space c"
  using canonical_chars(1) [of s] digit_not_space by (auto simp: is_space_def)

lemma canonical_value:
  assumes "canonical_spelling s"
  obtains ip fp where "decimal_val s = Some (of_nat (digits_val 0 (ip @ fp)) * pow10 (- int (length fp)))"
    and "literal_prefix s = decimal_val s" and "length (ip @ fp) \<le> length s" and "list_all is_digit (ip @ fp)"
proof -
  let ?ip = "takeWhile is_digit s" and ?r = "dropWhile is_digit s"
  have len: "length ?ip + length ?r = length s"
    by (metis length_append takeWhile_dropWhile_id)
  have dig: "list_all is_digit ?ip"
    by (auto simp: list_all_iff dest: set_takeWhileD)
  have ip: "?ip \<noteq> []"
    using assms by (auto simp: canonical_spelling_def)
  obtain c cs where s: "s = c # cs" "is_digit c"
    using canonical_chars(2,3) [OF assms] by (cases s) auto
  have lead: "split_sign (dropWhile is_space s) = (False, s)"
    using digit_not_space [OF s(2)] digit_not_sign [OF s(2)] by (simp add: s(1) split_sign_other)
  show ?thesis
  proof (cases ?r)
    case Nil
    have "decimal_val s = Some (of_nat (digits_val 0 (?ip @ [])) * pow10 (- int (length ([] :: string))))"
        "literal_prefix s = decimal_val s" "length (?ip @ []) \<le> length s" "list_all is_digit (?ip @ [])"
      using ip len unfolding decimal_val_def literal_prefix_def lead Let_def prod.case Nil
      by (simp_all add: exponent_val_def exponent_prefix_def dig)
    then show ?thesis
      by (rule that)
  next
    case (Cons d f)
    then have f: "d = CHR ''.''" "f \<noteq> []" "takeWhile is_digit f = f" "dropWhile is_digit f = []" and fd: "list_all is_digit f"
      using assms takeWhile_all [of is_digit f] by (auto simp: canonical_spelling_def)
    have "decimal_val s = Some (of_nat (digits_val 0 (?ip @ f)) * pow10 (- int (length f)))"
        "literal_prefix s = decimal_val s" "length (?ip @ f) \<le> length s" "list_all is_digit (?ip @ f)"
      using ip len fd dig
      by (simp_all add: decimal_val_def literal_prefix_def lead Cons f exponent_val_def exponent_prefix_def Let_def
          del: dropWhile_eq_Nil_conv takeWhile_eq_all_conv)
    then show ?thesis
      by (rule that)
  qed
qed

lemma digits_val_bound: "digits_val acc xs < (acc + 1) * 10 ^ length xs" if "list_all is_digit xs"
  using that
proof (induction xs arbitrary: acc)
  case (Cons c xs)
  have "digit_val c \<le> 9"
    using Cons.prems by (auto simp: is_digit_def digit_val_def)
  have "digits_val acc (c # xs) < (10 * acc + digit_val c + 1) * 10 ^ length xs"
    using Cons by simp
  also have "\<dots> \<le> (10 * acc + 10) * 10 ^ length xs"
    using \<open>digit_val c \<le> 9\<close> by (intro mult_right_mono) auto
  finally show ?case
    by (simp add: algebra_simps)
qed simp

lemma canonical_Number:
  assumes "canonical_spelling s" and "decimal_val s = Some q" and "0 \<le> q" and "q < 2 ^ 1024"
  shows "js_Number_text s = Fin q"
proof -
  have trim: "trim s = s"
    by (rule trim_no_space) (use canonical_no_space [OF assms(1)] in blast)
  obtain c cs where s: "s = c # cs" "is_digit c"
    using canonical_chars(2,3) [OF assms(1)] by (cases s) auto
  have chars: "\<forall>x \<in> set cs. is_digit x \<or> x = CHR ''.''"
    using canonical_chars(1) [OF assms(1)] by (simp add: s(1))
  have clip: "clip_double q = Fin q"
    using assms(3,4) by (simp add: clip_double_def)
  have noInf: "c # cs \<noteq> ''Infinity''" and sign: "split_sign (c # cs) = (False, c # cs)"
    using digit_not_sign [OF s(2)] by (auto simp: split_sign_other)
  have "\<not> hex_literal (c # cs)"
    using chars digit_not_sign by (cases cs) (auto simp: hex_literal_def)
  then show ?thesis
    using assms(2) clip noInf sign trim by (simp add: js_Number_text_def s(1))
qed

lemma canonical_reading:
  assumes "canonical_spelling s" and "length s \<le> 40"
  obtains q where "literal_prefix s = Some q" and "bcnum s = q" and "q = 0 \<or> 1 / 10 ^ 40 \<le> q" and "q < 10 ^ 40"
proof -
  obtain ip fp where v: "decimal_val s = Some (of_nat (digits_val 0 (ip @ fp)) * pow10 (- int (length fp)))"
      "literal_prefix s = decimal_val s" "length (ip @ fp) \<le> length s" "list_all is_digit (ip @ fp)"
    using canonical_value [OF assms(1)] by blast
  let ?n = "digits_val 0 (ip @ fp)" and ?e = "pow10 (- int (length fp))"
  have "?n < 10 ^ length (ip @ fp)"
    using digits_val_bound [OF v(4), of 0] by simp
  also have "(10 :: nat) ^ length (ip @ fp) \<le> 10 ^ 40"
    using v(3) assms(2) by (intro power_increasing) auto
  finally have n: "(of_nat ?n :: rat) < 10 ^ 40"
    by (metis of_nat_less_iff of_nat_numeral of_nat_power)
  have e: "0 \<le> ?e" "?e \<le> 1"
    by (auto simp: pow10_def)
  have "(10 :: rat) ^ length fp \<le> 10 ^ 40"
    using v(3) assms(2) by (intro power_increasing) auto
  then have lo: "1 / 10 ^ 40 \<le> ?e"
    by (auto simp: pow10_def intro!: divide_left_mono)
  have low: "of_nat ?n * ?e = 0 \<or> 1 / 10 ^ 40 \<le> of_nat ?n * ?e"
  proof (cases ?n)
    case (Suc m)
    then have "1 * ?e \<le> of_nat ?n * ?e"
      using e(1) by (intro mult_right_mono) simp_all
    then show ?thesis
      using lo by (intro disjI2) (simp only: mult_1 order_trans)
  qed simp
  have q: "0 \<le> of_nat ?n * ?e" "of_nat ?n * ?e < 10 ^ 40"
    using n e mult_left_le [of ?e "of_nat ?n"] by (auto intro: le_less_trans)
  have "of_nat ?n * ?e < 2 ^ 1024"
    using q(2) by (rule less_trans) simp
  then have "bcnum s = of_nat ?n * ?e"
    using canonical_Number [OF assms(1) v(1) q(1)] by (simp add: bcnum_def)
  with v low q(2) that show ?thesis
    by metis
qed

lemma small_normal: "(2 :: rat) powi (- 1022) \<le> 1 / 10 ^ 40"
proof -
  have "(2 :: rat) powi (- 1022) \<le> 2 powi (- int 160)"
    by (rule power_int_increasing) simp_all
  also have "\<dots> \<le> 1 / 10 ^ 40"
    unfolding inverse_power [symmetric] by simp
  finally show ?thesis .
qed

text \<open>The double a canonical spelling is read as: finite, and within one part in \<open>2 ^ 53\<close> of the decimal.\<close>

lemma canonical_double:
  assumes "q = 0 \<or> 1 / 10 ^ 40 \<le> q" and "q < 10 ^ 40"
  shows "to_double q = Fin (nearest_double q)" and "\<bar>nearest_double q - q\<bar> * 2 ^ 53 \<le> q"
proof -
  show close: "\<bar>nearest_double q - q\<bar> * 2 ^ 53 \<le> q"
  proof (cases "q = 0")
    case False
    then show ?thesis
      using assms(1) small_normal by (intro nearest_double_close) linarith
  qed (simp add: nearest_double_def)
  have "0 \<le> q"
    using assms(1) by (auto intro: order_trans [of 0 "1 / 10 ^ 40"])
  then have "0 \<le> nearest_double q"
    by (rule nearest_double_nonneg)
  moreover have "(nearest_double q - q) * 2 ^ 53 \<le> q"
    using close mult_right_mono [OF abs_ge_self [of "nearest_double q - q"], of "2 ^ 53"] by simp
  then have "nearest_double q < 2 * 10 ^ 40"
    using assms(2) \<open>0 \<le> q\<close> by (simp add: left_diff_distrib)
  then have "nearest_double q < 2 ^ 1024"
    by (rule less_trans) simp
  moreover have "- (2 ^ 1024) < (0 :: rat)"
    by simp
  ultimately show "to_double q = Fin (nearest_double q)"
    unfolding to_double_def clip_double_def by (simp only: not_le [symmetric] if_False if_True) auto
qed

section \<open>Properties\<close>

text \<open>
  C40: an admitted price is one decimal with two known readings. Whatever a peer sends as a price, a spelling the
  guard lets through is unchanged when it was a text; \<open>bcnum\<close> (the median, the band, the evidence) reads a
  non-negative decimal \<open>q\<close> in it exactly, and \<open>parseFloat\<close> (the admission gates) the double nearest to \<open>q\<close>, which is
  finite and within one part in \<open>2 ^ 53\<close> of it. The range test on the double decides a range of the decimal, so a price
  the gates admit is never 0 for the bignumber library. Two such prices may still share a double, which is why the
  aggregation sorts by the decimals.
\<close>

theorem canonical_price_one_reading:
  assumes "canonicalPrice show v = Some s"
  shows "\<exists>q r. bcnum s = q \<and> parseFloat s = Fin r \<and> parseFloat s = to_double q \<and> 0 \<le> q \<and> \<bar>r - q\<bar> * 2 ^ 53 \<le> q \<and>
    (\<forall>t. v = JStr t \<longrightarrow> t = s) \<and> (price_admitted s \<longleftrightarrow> 1 / 2 ^ 1075 < q \<and> q < 10 ^ 10 - 1 / 2 ^ 20)"
proof -
  have s: "canonical_spelling s" "length s \<le> 40" and same: "\<forall>t. v = JStr t \<longrightarrow> t = s"
    using assms by (auto simp: canonicalPrice_def PRICE_MAX_CHARS_def split: option.splits if_splits)
  obtain q where q: "literal_prefix s = Some q" "bcnum s = q" "q = 0 \<or> 1 / 10 ^ 40 \<le> q" "q < 10 ^ 40"
    using canonical_reading [OF s] by blast
  have "0 \<le> q"
    using q(3) by (auto intro: order_trans [of 0 "1 / 10 ^ 40"])
  moreover have "price_admitted s \<longleftrightarrow> 1 / 2 ^ 1075 < q \<and> q < 10 ^ 10 - 1 / 2 ^ 20"
    unfolding price_admitted_decimal q(1) option.case price_in_range_def ..
  ultimately show ?thesis
    using canonical_double [OF q(3, 4)] literal_not_infinity [OF q(1)] q(2) same by metis
qed

text \<open>Two prices one unit of the eighth decimal apart, above \<open>2 ^ 26\<close>, are one double.\<close>

lemma prices_share_a_double:
  "parseFloat ''134217728.00000001'' = parseFloat ''134217728'' \<and> bcnum ''134217728.00000001'' \<noteq> bcnum ''134217728''"
proof -
  have same: "nearest_double q = 134217728" if q: "134217728 \<le> q" "q \<le> 134217728 + 1 / 10 ^ 8" for q
  proof -
    have "0 < q" "2 powi 27 \<le> q" "q < 2 powi 28"
      using q by simp_all
    then have "binade q = 27"
      using binade_less [of q 28] binade_ge [of q 27] by linarith
    moreover have "max 27 (- 1022) - 52 = - int 25"
      by simp
    ultimately have u: "double_ulp q = 1 / 2 ^ 25"
      by (simp only: double_ulp_def inverse_power)
    have "round_even (q / double_ulp q) = 2 ^ 52"
      using q by (intro order_antisym round_even_le round_even_ge) (simp_all add: u)
    then show ?thesis
      using \<open>0 < q\<close> by (simp add: nearest_double_def u)
  qed
  have lit: "literal_prefix ''134217728.00000001'' = Some (134217728 + 1 / 10 ^ 8)" "literal_prefix ''134217728'' = Some 134217728"
    by (simp_all add: literal_prefix_def exponent_prefix_def text_eval)
  have "parseFloat ''134217728.00000001'' = parseFloat ''134217728''"
    unfolding literal_not_infinity [OF lit(1)] literal_not_infinity [OF lit(2)] to_double_def by (simp add: same)
  moreover have "bcnum ''134217728.00000001'' \<noteq> bcnum ''134217728''"
    by (simp add: bcnum_def text_eval)
  ultimately show ?thesis ..
qed

theorem canonical_price_one_reading_witness:
  "\<exists>q r. bcnum ''100.5'' = q \<and> parseFloat ''100.5'' = Fin r \<and> parseFloat ''100.5'' = to_double q \<and> 0 \<le> q \<and> \<bar>r - q\<bar> * 2 ^ 53 \<le> q \<and>
    (\<forall>t. JStr ''100.5'' = JStr t \<longrightarrow> t = ''100.5'') \<and> (price_admitted ''100.5'' \<longleftrightarrow> 1 / 2 ^ 1075 < q \<and> q < 10 ^ 10 - 1 / 2 ^ 20)"
  by (rule canonical_price_one_reading [of "\<lambda>q. []"])
     (simp add: canonicalPrice_def PRICE_MAX_CHARS_def canonical_spelling_def is_digit_def)

text \<open>
  the deviation band has no rounding gap at its edge. For prices of at most 18 decimals, a
  value whose exact deviation from a positive reference is at most the threshold is never
  outside the band, and the deviation reported is the exact one rounded once.
\<close>

theorem deviation_band_edge:
  assumes lib: "decimal_lib mj" and v: "int_valued (v * 10 ^ 18)" and r: "int_valued (r * 10 ^ 18)" and "0 < r"
    and small: "\<bar>v - r\<bar> * 10 ^ 18 < 10 ^ 64"
  shows "deviationFrom mj v r 18 = mj_fix mj 18 (mj_rnd mj (\<bar>v - r\<bar> / r)) \<and>
    (\<forall>t. int_valued (t * 10 ^ 18) \<longrightarrow> t * 10 ^ 18 < 10 ^ 64 \<longrightarrow> \<bar>v - r\<bar> \<le> t * r \<longrightarrow> \<not> exceedsBand mj v r t 18)"
proof -
  obtain a b where ab: "v * 10 ^ 18 = of_int a" "r * 10 ^ 18 = of_int b"
    using v r by (meson int_valuedE)
  have g: "int_valued ((v - r) * 10 ^ 18)" "int_valued ((r - v) * 10 ^ 18)"
    by (simp_all only: left_diff_distrib ab int_valued_of_int flip: of_int_diff)
  have m: "\<bar>(v - r) * 10 ^ 18\<bar> < 10 ^ 64" "\<bar>(r - v) * 10 ^ 18\<bar> < 10 ^ 64"
    using small by (simp_all add: abs_mult abs_minus_commute)
  have "bcsub mj v r 18 = v - r"
    by (simp add: bcsub_def rnd_exact [OF lib g(1) m(1)] fix_exact [OF lib g(1)])
  moreover have "bcmul mj (v - r) (- 1) 18 = r - v"
    by (simp add: bcmul_def rnd_exact [OF lib g(2) m(2)] fix_exact [OF lib g(2)])
  ultimately have dev: "deviationFrom mj v r 18 = mj_fix mj 18 (mj_rnd mj (\<bar>v - r\<bar> / r))"
    using \<open>0 < r\<close> by (simp add: deviationFrom_def bcdiv_def abs_if)
  moreover have "\<not> exceedsBand mj v r t 18"
    if t: "int_valued (t * 10 ^ 18)" "t * 10 ^ 18 < 10 ^ 64" "\<bar>v - r\<bar> \<le> t * r" for t
  proof -
    have "\<bar>v - r\<bar> / r \<le> t"
      using t(3) \<open>0 < r\<close> by (simp add: pos_divide_le_eq)
    moreover from this have "0 \<le> t"
      using \<open>0 < r\<close> by (meson abs_ge_zero divide_nonneg_pos order_trans)
    ultimately have "mj_rnd mj (\<bar>v - r\<bar> / r) \<le> t"
      using rnd_mono [OF lib] rnd_exact [OF lib t(1)] t(2) by fastforce
    then have "mj_fix mj 18 (mj_rnd mj (\<bar>v - r\<bar> / r)) \<le> t"
      using fix_mono [OF lib, of _ t 18] fix_exact [OF lib t(1)] by fastforce
    then show ?thesis
      by (simp add: exceedsBand_def dev)
  qed
  ultimately show ?thesis
    by blast
qed

theorem deviation_band_edge_witness:
  "deviationFrom exact_lib 105 100 18 = mj_fix exact_lib 18 (mj_rnd exact_lib (\<bar>105 - 100\<bar> / 100)) \<and>
   \<not> exceedsBand exact_lib 105 100 (5 / 100) 18"
  using deviation_band_edge [OF exact_lib_ok, of 105 100] by (simp add: int_valued_def)

text \<open>
  the round band accepts every honest peer within the tolerated skew and nothing from the
  far future. With a resolvable schedule, the round number another hub derives from the same
  schedule with a clock at most \<open>tolerance\<close> intervals ahead is plausible; any safe integer beyond the
  current round by more than the tolerance is not.
\<close>

theorem round_band_tolerates_skew:
  assumes band: "roundBand (JNum (Fin now)) (JNum (Fin epoch)) (JNum (Fin interval)) (JNum (Fin tol)) = Some b"
    and peer: "currentRoundAt (JNum (Fin now')) (JNum (Fin epoch)) (JNum (Fin interval)) = Some n"
    and "0 \<le> tol" and "int_valued tol"
  shows "(now' \<le> now + tol * interval \<longrightarrow> \<not> isRoundImplausible (JNum (Fin n)) (Some b)) \<and>
    (rb_current b + tol < n \<longrightarrow> isRoundImplausible (JNum (Fin n)) (Some b))"
proof -
  have pos: "0 < interval" and n: "n = of_int \<lfloor>(now' - epoch) / interval\<rfloor>" "safe_integer n" and ge: "epoch \<le> now'"
    using peer by (auto simp: currentRoundAt_def is_bool_def Let_def split: if_splits)
  have b: "rb_current b = of_int \<lfloor>(now - epoch) / interval\<rfloor>" "rb_max b = rb_current b + tol"
    using band assms(3,4) by (auto simp: roundBand_def currentRoundAt_def is_bool_def int_valued_def Let_def split: if_splits)
  obtain k where k: "tol = of_int k"
    using assms(4) by (rule int_valuedE)
  have "n \<le> rb_max b" if "now' \<le> now + tol * interval"
  proof -
    have "(now' - epoch) / interval \<le> (now - epoch) / interval + of_int k"
      using that pos by (simp add: k divide_simps)
    then have "\<lfloor>(now' - epoch) / interval\<rfloor> \<le> \<lfloor>(now - epoch) / interval\<rfloor> + k"
      using floor_mono by fastforce
    then show ?thesis
      by (simp add: n b k flip: of_int_add)
  qed
  moreover have "0 \<le> n"
    using pos ge by (simp add: n(1))
  ultimately show ?thesis
    using n(2) b(2) by (auto simp: isRoundImplausible_def)
qed

theorem round_band_tolerates_skew_witness:
  "\<not> isRoundImplausible (JNum (Fin 12)) (Some \<lparr>rb_current = 10, rb_max = 12, rb_tolerance = 2\<rparr>)"
  using round_band_tolerates_skew [of 1000 0 100 2 "\<lparr>rb_current = 10, rb_max = 12, rb_tolerance = 2\<rparr>" 1200 12]
  by (simp add: roundBand_def currentRoundAt_def is_bool_def safe_integer_def Let_def)

end
