(* ===== verification/Oracle_Aggregate.thy ===== *)
theory Oracle_Aggregate
  imports Oracle_Prices
begin

text \<open>
  One oracle round's data path: the intake of price submissions
  (\<open>src/oracle/round/messages.js\<close>) and the aggregation every hub must compute identically
  (\<open>src/oracle/consensus/aggregate.js\<close>, \<open>src/oracle/consensus/constants.js\<close>).
\<close>

section \<open>Intake (round/messages.js)\<close>

record raw_price =
  rp_pair :: string
  rp_price :: jsval

record price_entry =
  pe_pair :: string
  pe_price :: string

record submission =
  sb_prices :: "price_entry list"
  sb_pubkey :: "string option"

type_synonym submissions = "(string \<times> submission) list"

record price_env =
  pv_sender :: string
  pv_sig :: jsval
  pv_round :: jsval
  pv_prices :: "raw_price list option"

record oracle_round =
  or_current :: rat
  or_pairs :: "string list"
  or_max :: nat
  or_subs :: "(rat \<times> submissions) list"

definition admissibleSubmission :: "peer_auth \<Rightarrow> price_env \<Rightarrow> oracle_round \<Rightarrow> bool" where
  "admissibleSubmission pm env st =
     (case (pv_round env, pv_prices env) of
        (JNum (Fin r), Some prices) \<Rightarrow>
          if \<not> int_valued r \<or> r < 0 then False
          else if \<not> isAdmissibleSigner pm (pv_sig env) then False
          else \<not> (r < or_current st - 1 \<or> or_current st + 1 < r)
      | _ \<Rightarrow> False)"

definition droppedAsDuplicateOrOverCap :: "oracle_round \<Rightarrow> submissions \<Rightarrow> string option \<Rightarrow> bool" where
  "droppedAsDuplicateOrOverCap st roundSubs senderPubkey =
     (if (case senderPubkey of None \<Rightarrow> False
          | Some pk \<Rightarrow> pk \<noteq> [] \<and> list_ex (\<lambda>(a, sub). sb_pubkey sub = Some pk) roundSubs) then True
      else or_max st \<le> length roundSubs)"

definition admitted_entry :: "(rat \<Rightarrow> string) \<Rightarrow> string list \<Rightarrow> raw_price \<Rightarrow> price_entry option" where
  "admitted_entry show pairs p =
     (if rp_pair p \<notin> set pairs then None
      else (case canonicalPrice show (rp_price p) of
          None \<Rightarrow> None
        | Some canon \<Rightarrow> if price_admitted canon then Some \<lparr>pe_pair = rp_pair p, pe_price = canon\<rparr> else None))"

definition canonicalSubmittedPrices ::
  "(rat \<Rightarrow> string) \<Rightarrow> string list \<Rightarrow> raw_price list \<Rightarrow> price_entry list option" where
  "canonicalSubmittedPrices show pairs prices =
     (let valid = List.map_filter (admitted_entry show pairs) prices
      in if valid = [] then None else Some valid)"

definition receiveSubmission :: "peer_auth \<Rightarrow> (rat \<Rightarrow> string) \<Rightarrow> price_env \<Rightarrow> oracle_round \<Rightarrow> oracle_round" where
  "receiveSubmission pm show env st =
     (if \<not> admissibleSubmission pm env st then st
      else (case (pv_round env, pv_prices env) of
          (JNum (Fin r), Some prices) \<Rightarrow>
            (let st1 = (if map_of (or_subs st) r = None then st\<lparr>or_subs := js_put r [] (or_subs st)\<rparr> else st);
                 roundSubs = (case map_of (or_subs st1) r of Some m \<Rightarrow> m | None \<Rightarrow> []);
                 senderPubkey = provenPubkey (pv_sig env)
             in if map_of roundSubs (pv_sender env) \<noteq> None then st1
                else if droppedAsDuplicateOrOverCap st1 roundSubs senderPubkey then st1
                else (case canonicalSubmittedPrices show (or_pairs st1) prices of
                    None \<Rightarrow> st1
                  | Some valid \<Rightarrow>
                      st1\<lparr>or_subs := js_put r (js_put (pv_sender env)
                        \<lparr>sb_prices = valid, sb_pubkey = senderPubkey\<rparr> roundSubs) (or_subs st1)\<rparr>))
        | _ \<Rightarrow> st))"

section \<open>Aggregation (aggregate.js)\<close>

definition ORACLE_DEVIATION_THRESHOLD :: rat where "ORACLE_DEVIATION_THRESHOLD = 5 / 100"
definition ORACLE_MAX_CHANGE_PER_ROUND :: rat where "ORACLE_MAX_CHANGE_PER_ROUND = 25 / 100"
definition XCHAIN_PRICE_MAX_CHANGE_PER_ROUND :: rat where "XCHAIN_PRICE_MAX_CHANGE_PER_ROUND = 10 / 100"

definition maxChangeForPair :: "string \<Rightarrow> rat" where
  "maxChangeForPair coinPair =
     (if coinPair = ''XCHAIN/USD'' then XCHAIN_PRICE_MAX_CHANGE_PER_ROUND else ORACLE_MAX_CHANGE_PER_ROUND)"

text \<open>A submitted value: its spelling and the decimal it spells.\<close>

record pval =
  v_s :: string
  v_d :: rat

definition pair_value :: "string \<Rightarrow> submission \<Rightarrow> pval option" where
  "pair_value coinPair sub =
     map_option (\<lambda>p. \<lparr>v_s = pe_price p, v_d = bcnum (pe_price p)\<rparr>)
       (find (\<lambda>p. pe_pair p = coinPair \<and> pe_price p \<noteq> [] \<and> price_admitted (pe_price p)) (sb_prices sub))"

definition collectPairValues :: "submissions \<Rightarrow> string \<Rightarrow> pval list" where
  "collectPairValues subs coinPair = List.map_filter (\<lambda>(sender, sub). pair_value coinPair sub) subs"

text \<open>\<open>compareExact\<close>: by value, then by spelling.\<close>

definition exact_key :: "pval \<Rightarrow> rat \<times> string" where
  "exact_key v = (v_d v, v_s v)"

text \<open>
  \<open>Math.ceil(n * 0.15)\<close>: the double product is exact where \<open>3 n / 20\<close> is an integer and stays
  between the same integers elsewhere.
\<close>

definition trim_count :: "nat \<Rightarrow> nat" where
  "trim_count n = (3 * n + 19) div 20"

definition trimPairValues :: "pval list \<Rightarrow> pval list option" where
  "trimPairValues values0 =
     (let values1 = sort_key exact_key values0;
          k = trim_count (length values1);
          values2 = (if 0 < k \<and> 2 * k < length values1
                     then take (length values1 - k - k) (drop k values1) else values1)
      in if values2 = [] then None else Some values2)"

definition medianOf :: "mathjs \<Rightarrow> pval list \<Rightarrow> nat \<Rightarrow> rat" where
  "medianOf mj values0 mid =
     (if length values0 mod 2 = 0
      then bcformat mj (bcdiv mj (bcadd mj (v_d (values0 ! (mid - 1))) (v_d (values0 ! mid)) 18) 2 18) 8
      else bcformat mj (v_d (values0 ! mid)) 8)"

definition evenSplitRejected :: "mathjs \<Rightarrow> pval list \<Rightarrow> nat \<Rightarrow> rat \<Rightarrow> bool" where
  "evenSplitRejected mj values0 mid median =
     (let lo = bcformat mj (v_d (values0 ! (mid - 1))) 8; hi = bcformat mj (v_d (values0 ! mid)) 8
      in exceedsBand mj lo median ORACLE_DEVIATION_THRESHOLD 18 \<or>
         exceedsBand mj hi median ORACLE_DEVIATION_THRESHOLD 18)"

text \<open>\<open>lastFin\<close> is the cache of last finalized prices (\<open>getLastFinalizedPrice\<close>).\<close>

definition clampToLastFinalized :: "mathjs \<Rightarrow> (string \<Rightarrow> rat option) \<Rightarrow> string \<Rightarrow> rat \<Rightarrow> rat" where
  "clampToLastFinalized mj lastFin coinPair price =
     (case lastFin coinPair of
        None \<Rightarrow> price
      | Some l \<Rightarrow>
          if \<not> 0 < l then price
          else (let maxDelta = bcmul mj l (maxChangeForPair coinPair) 8;
                    hi = bcadd mj l maxDelta 8; lo = bcsub mj l maxDelta 8
                in if hi < price then bcformat mj hi 8
                   else if price < lo then bcformat mj lo 8
                   else price))"

definition aggregate :: "mathjs \<Rightarrow> (string \<Rightarrow> rat option) \<Rightarrow> submissions \<Rightarrow> string \<Rightarrow> rat option" where
  "aggregate mj lastFin subs coinPair =
     (let values0 = collectPairValues subs coinPair in
      if values0 = [] then None
      else (case trimPairValues values0 of
          None \<Rightarrow> None
        | Some values1 \<Rightarrow>
            (let mid = length values1 div 2; median = medianOf mj values1 mid
             in if \<not> 0 < median then None
                else if length values1 mod 2 = 0 \<and> evenSplitRejected mj values1 mid median then None
                else Some (clampToLastFinalized mj lastFin coinPair median))))"

definition aggregateAll :: "mathjs \<Rightarrow> (string \<Rightarrow> rat option) \<Rightarrow> submissions \<Rightarrow> (string \<times> rat) list" where
  "aggregateAll mj lastFin subs =
     (let coinPairs = js_set_of (concat (map (\<lambda>(sender, sub). filter (\<lambda>p. p \<noteq> []) (map pe_pair (sb_prices sub))) subs))
      in sort_key fst (List.map_filter (\<lambda>pair. map_option (Pair pair) (aggregate mj lastFin subs pair)) coinPairs))"

definition evenSetMiddles :: "mathjs \<Rightarrow> (string \<Rightarrow> rat option) \<Rightarrow> string \<Rightarrow> pval list \<Rightarrow> rat list option" where
  "evenSetMiddles mj lastFin coinPair values0 =
     (if values0 = [] \<or> length values0 mod 2 \<noteq> 0 then None
      else (let mid = length values0 div 2 in
        Some (map (\<lambda>v. clampToLastFinalized mj lastFin coinPair (bcformat mj (v_d v) 8))
               [values0 ! (mid - 1), values0 ! mid])))"

text \<open>
  The digest preimage: entries projected to two texts, in a total order. \<open>str\<close> is the
  runtime's \<open>String()\<close>; an entry that is no object reads as two missing fields.
\<close>

definition digest_text :: "(jsval \<Rightarrow> string) \<Rightarrow> jsval \<Rightarrow> string" where
  "digest_text str v = (if v = JUndef \<or> v = JNull then [] else str v)"

definition canonicalDigestPrices :: "(jsval \<Rightarrow> string) \<Rightarrow> (jsval \<times> jsval) list \<Rightarrow> (string \<times> string) list" where
  "canonicalDigestPrices str prices = sort (map (\<lambda>(c, p). (digest_text str c, digest_text str p)) prices)"

section \<open>Order and middles\<close>

lemma map_sort_key: "map f (sort_key f xs) = sort (map f xs)"
  by (rule properties_for_sort [symmetric]) simp_all

lemma sort_key_mset_eq:
  assumes "mset xs = mset ys" and "inj_on f (set xs)"
  shows "sort_key f xs = sort_key f ys"
proof (rule map_inj_on)
  have "mset (map f xs) = mset (map f ys)"
    using assms(1) by simp
  then show "map f (sort_key f xs) = map f (sort_key f ys)"
    unfolding map_sort_key by (simp add: properties_for_sort)
  show "inj_on f (set (sort_key f xs) \<union> set (sort_key f ys))"
    using assms mset_eq_setD [OF assms(1)] by simp
qed

lemma sort_eq_iff_mset: "sort xs = sort ys \<longleftrightarrow> mset xs = mset ys"
proof
  show "mset xs = mset ys" if "sort xs = sort ys"
    using arg_cong [OF that, of mset] by simp
  show "sort xs = sort ys" if "mset xs = mset ys"
    using that by (rule sort_key_mset_eq) simp
qed

lemma inj_exact_key: "inj_on exact_key A"
  by (rule inj_onI) (simp add: exact_key_def)

lemma map_filter_mset: "mset xs = mset ys \<Longrightarrow> mset (List.map_filter f xs) = mset (List.map_filter f ys)"
  by (simp add: List.map_filter_def mset_filter)

lemma map_filter_Nil_iff: "List.map_filter f xs = [] \<longleftrightarrow> (\<forall>x \<in> set xs. f x = None)"
  by (auto simp: List.map_filter_def filter_empty_conv)

lemma set_map_filter_iff: "y \<in> set (List.map_filter f xs) \<longleftrightarrow> (\<exists>x \<in> set xs. f x = Some y)"
  by (force simp: List.map_filter_def)

lemma trimPairValues_mset: "mset xs = mset ys \<Longrightarrow> trimPairValues xs = trimPairValues ys"
  using sort_key_mset_eq [OF _ inj_exact_key, of xs ys] by (simp add: trimPairValues_def)

lemma aggregate_values_cong:
  assumes "mset (collectPairValues subs pair) = mset (collectPairValues subs' pair)"
  shows "aggregate mj lastFin subs pair = aggregate mj lastFin subs' pair"
proof -
  have "trimPairValues (collectPairValues subs pair) = trimPairValues (collectPairValues subs' pair)"
    using assms by (rule trimPairValues_mset)
  then show ?thesis
    using assms mset_eq_length by (fastforce simp: aggregate_def Let_def)
qed

lemma aggregate_mset:
  assumes "mset subs = mset subs'"
  shows "aggregate mj lastFin subs = aggregate mj lastFin subs'"
  using map_filter_mset [OF assms] by (intro ext aggregate_values_cong) (simp add: collectPairValues_def)

lemma js_set_of_mset: "set xs = set ys \<Longrightarrow> mset (js_set_of xs) = mset (js_set_of ys)"
  by (metis distinct_js_set_of set_eq_iff_mset_eq_distinct set_js_set_of)

lemma window_middle:
  fixes k n :: nat
  assumes "2 * k < n"
  shows "k + (n - k - k) div 2 = n div 2" and "(n - k - k) mod 2 = n mod 2"
    and "even n \<Longrightarrow> k + ((n - k - k) div 2 - 1) = n div 2 - 1" and "(n - k - k) div 2 < n - k - k"
proof -
  obtain m where "n = k + k + m" and "0 < m"
    using assms by (metis add.commute less_imp_add_positive mult_2)
  moreover have "(k + k + m) mod 2 = m mod 2"
    by presburger
  ultimately show "k + (n - k - k) div 2 = n div 2" and "(n - k - k) mod 2 = n mod 2"
    and "even n \<Longrightarrow> k + ((n - k - k) div 2 - 1) = n div 2 - 1" and "(n - k - k) div 2 < n - k - k"
    by (auto elim!: evenE)
qed

text \<open>The trim is symmetric: the middle elements of the trimmed list are those of the sorted list.\<close>

lemma trim_keeps_middle:
  assumes "vs \<noteq> []"
  obtains w where "trimPairValues vs = Some w" and "length w mod 2 = length vs mod 2" and "w \<noteq> []"
    and "w ! (length w div 2) = sort_key exact_key vs ! (length vs div 2)"
    and "even (length vs) \<Longrightarrow> w ! (length w div 2 - 1) = sort_key exact_key vs ! (length vs div 2 - 1)"
proof (cases "0 < trim_count (length vs) \<and> 2 * trim_count (length vs) < length vs")
  case True
  let ?s = "sort_key exact_key vs" and ?k = "trim_count (length vs)"
  let ?w = "take (length vs - ?k - ?k) (drop ?k ?s)"
  have len: "length ?w = length vs - ?k - ?k"
    by simp
  note mid = window_middle [OF conjunct2 [OF True]]
  have w: "trimPairValues vs = Some ?w"
    using True by (auto simp: trimPairValues_def Let_def)
  have nth: "?w ! i = ?s ! (?k + i)" if "i < length vs - ?k - ?k" for i
    using that True by simp
  have even: "?w ! (length ?w div 2 - 1) = ?s ! (length vs div 2 - 1)" if "even (length vs)"
    using nth [OF le_less_trans [OF diff_le_self mid(4)], of 1] unfolding len mid(3) [OF that] .
  show thesis
  proof (rule that [OF w _ _ _ even])
    show "length ?w mod 2 = length vs mod 2"
      unfolding len by (rule mid(2))
    show "?w \<noteq> []"
      using mid(4) len by (metis length_greater_0_conv gr_zeroI not_less_zero)
    show "?w ! (length ?w div 2) = ?s ! (length vs div 2)"
      using nth [OF mid(4)] unfolding len mid(1) .
  qed
next
  case False
  let ?s = "sort_key exact_key vs"
  have "?s \<noteq> []"
    using assms by (metis length_0_conv length_sort)
  then have "trimPairValues vs = Some ?s"
    using False by (auto simp: trimPairValues_def Let_def)
  then show thesis
    by (rule that) (simp_all only: length_sort \<open>?s \<noteq> []\<close> not_False_eq_True)
qed

lemma sorted_values_nth:
  assumes "i \<le> j" and "j < length vs"
  shows "v_d (sort_key exact_key vs ! i) \<le> v_d (sort_key exact_key vs ! j)"
proof -
  have "exact_key (sort_key exact_key vs ! i) \<le> exact_key (sort_key exact_key vs ! j)"
    using sorted_nth_mono [OF sorted_sort_key [of exact_key vs] assms(1)] assms by simp
  then show ?thesis
    by (auto simp: exact_key_def less_eq_prod_def)
qed

text \<open>Fewer than \<open>i + 1\<close> values below a bound put the element at index \<open>i\<close> at or above it, and dually.\<close>

lemma sorted_nth_at_least:
  assumes "length (filter (\<lambda>v. v_d v < L) vs) \<le> i" and "i < length vs"
  shows "L \<le> v_d (sort_key exact_key vs ! i)"
proof (rule ccontr)
  let ?s = "sort_key exact_key vs"
  assume "\<not> ?thesis"
  have "\<forall>v \<in> set (take (Suc i) ?s). v_d v < L"
  proof
    fix v assume "v \<in> set (take (Suc i) ?s)"
    then obtain j where "j \<le> i" "v = ?s ! j"
      by (auto simp: in_set_conv_nth less_Suc_eq_le)
    then show "v_d v < L"
      using sorted_values_nth [of j i vs] assms(2) \<open>\<not> L \<le> v_d (?s ! i)\<close> by simp
  qed
  then have "length (filter (\<lambda>v. v_d v < L) (take (Suc i) ?s)) = Suc i"
    using assms(2) by (simp add: filter_id_conv)
  moreover have "length (filter (\<lambda>v. v_d v < L) (take (Suc i) ?s)) \<le> length (filter (\<lambda>v. v_d v < L) ?s)"
    by (metis append_take_drop_id filter_append le_add1 length_append)
  moreover have "length (filter (\<lambda>v. v_d v < L) ?s) = length (filter (\<lambda>v. v_d v < L) vs)"
    by (metis mset_filter mset_sort size_mset)
  ultimately show False
    using assms(1) by simp
qed

lemma sorted_nth_at_most:
  assumes "length (filter (\<lambda>v. U < v_d v) vs) < length vs - i" and "i < length vs"
  shows "v_d (sort_key exact_key vs ! i) \<le> U"
proof (rule ccontr)
  let ?s = "sort_key exact_key vs"
  assume "\<not> ?thesis"
  have "\<forall>v \<in> set (drop i ?s). U < v_d v"
  proof
    fix v assume "v \<in> set (drop i ?s)"
    then obtain j where "j < length vs - i" "v = ?s ! (i + j)"
      using assms(2) by (auto simp: in_set_conv_nth)
    then show "U < v_d v"
      using sorted_values_nth [of i "i + j" vs] \<open>\<not> v_d (?s ! i) \<le> U\<close> by fastforce
  qed
  then have "length (filter (\<lambda>v. U < v_d v) (drop i ?s)) = length vs - i"
    by (simp add: filter_id_conv)
  moreover have "length (filter (\<lambda>v. U < v_d v) (drop i ?s)) \<le> length (filter (\<lambda>v. U < v_d v) ?s)"
    by (metis append_take_drop_id filter_append le_add2 length_append)
  moreover have "length (filter (\<lambda>v. U < v_d v) ?s) = length (filter (\<lambda>v. U < v_d v) vs)"
    by (metis mset_filter mset_sort size_mset)
  ultimately show False
    using assms(1) by simp
qed

definition mean_at :: "mathjs \<Rightarrow> rat \<Rightarrow> rat \<Rightarrow> rat" where
  "mean_at mj a b = bcformat mj (bcdiv mj (bcadd mj a b 18) 2 18) 8"

lemma mean_at_mono: "decimal_lib mj \<Longrightarrow> a \<le> a' \<Longrightarrow> b \<le> b' \<Longrightarrow> mean_at mj a b \<le> mean_at mj a' b'"
  by (simp add: mean_at_def bcformat_def bcdiv_def bcadd_def fix_mono rnd_mono)

lemma mean_at_same:
  assumes lib: "decimal_lib mj" and grid: "int_valued (x * 10 ^ 18)" and small: "\<bar>x\<bar> < 10 ^ 40"
  shows "mean_at mj x x = mj_fix mj 8 x"
proof -
  obtain k where k: "x * 10 ^ 18 = of_int k"
    using grid by (rule int_valuedE)
  have "(x + x) * 10 ^ 18 = of_int (2 * k)"
    using k by (simp add: algebra_simps)
  then have grid2: "int_valued ((x + x) * 10 ^ 18)"
    by (metis int_valued_of_int)
  have "\<bar>(x + x) * 10 ^ 18\<bar> = 2 * (\<bar>x\<bar> * 10 ^ 18)"
    by (simp add: abs_mult flip: mult_2)
  moreover have "\<bar>x\<bar> * 10 ^ 18 < 10 ^ 40 * 10 ^ 18"
    using small by (intro mult_strict_right_mono) simp_all
  ultimately have "\<bar>x * 10 ^ 18\<bar> < 10 ^ 64" "\<bar>(x + x) * 10 ^ 18\<bar> < 10 ^ 64"
    by (simp_all add: abs_mult)
  then have "mj_rnd mj x = x" "mj_rnd mj (x + x) = x + x"
    using rnd_exact [OF lib grid] rnd_exact [OF lib grid2] by simp_all
  then show ?thesis
    using fix_exact [OF lib grid] fix_exact [OF lib grid2]
    by (simp add: mean_at_def bcformat_def bcdiv_def bcadd_def)
qed

lemma mean_at_between:
  assumes lib: "decimal_lib mj" and "int_valued (L * 10 ^ 8)" and "int_valued (U * 10 ^ 8)"
    and "\<bar>L\<bar> < 10 ^ 40" and "\<bar>U\<bar> < 10 ^ 40" and "L \<le> a" and "a \<le> U" and "L \<le> b" and "b \<le> U"
  shows "L \<le> mean_at mj a b" and "mean_at mj a b \<le> U"
proof -
  have same: "mean_at mj x x = x" if "int_valued (x * 10 ^ 8)" "\<bar>x\<bar> < 10 ^ 40" for x
    using mean_at_same [OF lib grid_mono [OF that(1)] that(2)] fix_exact [OF lib that(1)] by simp
  show "L \<le> mean_at mj a b"
    using mean_at_mono [OF lib \<open>L \<le> a\<close> \<open>L \<le> b\<close>] same assms(2,4) by simp
  show "mean_at mj a b \<le> U"
    using mean_at_mono [OF lib \<open>a \<le> U\<close> \<open>b \<le> U\<close>] same assms(3,5) by simp
qed

lemma medianOf_mean_at:
  "medianOf mj w mid = (if length w mod 2 = 0 then mean_at mj (v_d (w ! (mid - 1))) (v_d (w ! mid)) else mj_fix mj 8 (v_d (w ! mid)))"
  by (simp add: medianOf_def mean_at_def bcformat_def)

text \<open>A strict majority inside \<open>[L, U]\<close> puts the middle element(s) inside it.\<close>

lemma majority_holds_middle:
  assumes maj: "length vs < 2 * length (filter (\<lambda>v. L \<le> v_d v \<and> v_d v \<le> U) vs)"
  shows "v_d (sort_key exact_key vs ! (length vs div 2)) \<in> {L..U}"
    and "even (length vs) \<Longrightarrow> v_d (sort_key exact_key vs ! (length vs div 2 - 1)) \<in> {L..U}"
proof -
  let ?in = "length (filter (\<lambda>v. L \<le> v_d v \<and> v_d v \<le> U) vs)"
  have "length (filter (\<lambda>v. v_d v < L) vs) + ?in \<le> length vs" "length (filter (\<lambda>v. U < v_d v) vs) + ?in \<le> length vs"
    by (induction vs) auto
  then have few: "2 * length (filter (\<lambda>v. v_d v < L) vs) < length vs" "2 * length (filter (\<lambda>v. U < v_d v) vs) < length vs"
    using maj by linarith+
  have mid: "length vs div 2 < length vs"
    using few(1) by simp
  show "v_d (sort_key exact_key vs ! (length vs div 2)) \<in> {L..U}"
    using sorted_nth_at_least [of L vs "length vs div 2"] sorted_nth_at_most [of U vs "length vs div 2"] few mid by auto
  show "v_d (sort_key exact_key vs ! (length vs div 2 - 1)) \<in> {L..U}" if "even (length vs)"
    using sorted_nth_at_least [of L vs "length vs div 2 - 1"] sorted_nth_at_most [of U vs "length vs div 2 - 1"] few mid that
    by (auto elim!: evenE)
qed

section \<open>Properties of the aggregate\<close>

text \<open>
  C32: the round's price array is a function of the submissions, not of their arrival. Two hubs
  that hold the same submissions in any order aggregate to the same array, entry by entry
  and in the same order.
\<close>

theorem aggregate_order_invariant:
  assumes "mset subs = mset subs'"
  shows "aggregateAll mj lastFin subs = aggregateAll mj lastFin subs'"
proof -
  let ?pairs = "\<lambda>subs. js_set_of (concat (map (\<lambda>(sender, sub). filter (\<lambda>p. p \<noteq> []) (map pe_pair (sb_prices sub))) subs))"
  let ?out = "\<lambda>subs. List.map_filter (\<lambda>pair. map_option (Pair pair) (aggregate mj lastFin subs pair)) (?pairs subs)"
  have "set subs = set subs'"
    using assms by (rule mset_eq_setD)
  then have "mset (?pairs subs) = mset (?pairs subs')"
    by (intro js_set_of_mset) simp
  then have "mset (?out subs) = mset (?out subs')"
    unfolding aggregate_mset [OF assms] by (rule map_filter_mset)
  moreover have "inj_on fst (set (?out subs))"
    by (auto simp: inj_on_def set_map_filter_iff)
  ultimately show ?thesis
    unfolding aggregateAll_def Let_def by (rule sort_key_mset_eq)
qed

definition demo_sub :: "string \<Rightarrow> string \<Rightarrow> submission" where
  "demo_sub key price = \<lparr>sb_prices = [\<lparr>pe_pair = ''BTC/USD'', pe_price = price\<rparr>], sb_pubkey = Some key\<rparr>"

theorem aggregate_order_invariant_witness:
  "aggregateAll exact_lib (\<lambda>p. None) [(''a'', demo_sub ''ka'' ''101''), (''b'', demo_sub ''kb'' ''100'')] =
   aggregateAll exact_lib (\<lambda>p. None) [(''b'', demo_sub ''kb'' ''100''), (''a'', demo_sub ''ka'' ''101'')]"
  by (rule aggregate_order_invariant) simp

text \<open>
  C20: the aggregate is the plain median of every admitted value and a strict majority controls
  it. Trimming changes neither middle element, and when more than half of a pair's values
  lie between two prices of at most 8 decimals, whatever the others submit, the median does
  too; the pair's published price is that median limited to the per-round change, and an odd
  number of values always publishes when the majority's lower bound is positive.
\<close>

theorem majority_bounds_aggregate:
  assumes lib: "decimal_lib mj" and vs: "vs = collectPairValues subs pair"
    and maj: "length vs < 2 * length (filter (\<lambda>v. L \<le> v_d v \<and> v_d v \<le> U) vs)"
    and "int_valued (L * 10 ^ 8)" and "int_valued (U * 10 ^ 8)" and "\<bar>L\<bar> < 10 ^ 40" and "\<bar>U\<bar> < 10 ^ 40"
  shows "\<exists>m. L \<le> m \<and> m \<le> U \<and> m = medianOf mj (sort_key exact_key vs) (length vs div 2) \<and>
    (\<forall>p. aggregate mj lastFin subs pair = Some p \<longrightarrow> p = clampToLastFinalized mj lastFin pair m) \<and>
    (odd (length vs) \<longrightarrow> 0 < L \<longrightarrow> aggregate mj lastFin subs pair = Some (clampToLastFinalized mj lastFin pair m))"
proof -
  have ne: "vs \<noteq> []"
    using maj by auto
  obtain w where w: "trimPairValues vs = Some w" "length w mod 2 = length vs mod 2"
      "w ! (length w div 2) = sort_key exact_key vs ! (length vs div 2)"
      "even (length vs) \<Longrightarrow> w ! (length w div 2 - 1) = sort_key exact_key vs ! (length vs div 2 - 1)"
    using trim_keeps_middle [OF ne] by metis
  let ?m = "medianOf mj (sort_key exact_key vs) (length vs div 2)"
  have same: "medianOf mj w (length w div 2) = ?m"
    using w(2-4) by (simp add: medianOf_mean_at even_iff_mod_2_eq_zero)
  have bounds: "L \<le> ?m \<and> ?m \<le> U"
  proof (cases "even (length vs)")
    case True
    then show ?thesis
      using mean_at_between [OF lib assms(4-7)] majority_holds_middle [OF maj]
      by (simp add: medianOf_mean_at even_iff_mod_2_eq_zero)
  next
    case False
    then show ?thesis
      using majority_holds_middle(1) [OF maj] fix_mono [OF lib, of L _ 8] fix_mono [OF lib, of _ U 8]
        fix_exact [OF lib assms(4)] fix_exact [OF lib assms(5)]
      by (simp add: medianOf_mean_at odd_iff_mod_2_eq_one)
  qed
  moreover have "aggregate mj lastFin subs pair = Some p \<Longrightarrow> p = clampToLastFinalized mj lastFin pair ?m" for p
    using w(1) same ne by (auto simp: aggregate_def Let_def simp flip: vs split: if_splits)
  moreover have "aggregate mj lastFin subs pair = Some (clampToLastFinalized mj lastFin pair ?m)"
    if "odd (length vs)" "0 < L"
  proof -
    have "0 < ?m" "length w mod 2 = 1"
      using bounds that w(2) by (auto simp: odd_iff_mod_2_eq_one)
    then show ?thesis
      using w(1) same ne by (simp add: aggregate_def Let_def flip: vs)
  qed
  ultimately show ?thesis
    using bounds by blast
qed

definition demo_round :: submissions where
  "demo_round = [(''a'', demo_sub ''ka'' ''101''), (''b'', demo_sub ''kb'' ''9999''), (''c'', demo_sub ''kc'' ''100.5'')]"

lemma demo_readings:
  "bcnum ''101'' = 101" "bcnum ''9999'' = 9999" "bcnum ''100.5'' = 201 / 2"
  "price_admitted ''101''" "price_admitted ''9999''" "price_admitted ''100.5''"
  by (simp_all add: bcnum_def price_admitted_decimal price_in_range_def literal_prefix_def exponent_prefix_def text_eval)

lemma demo_values: "collectPairValues demo_round ''BTC/USD'' =
    [\<lparr>v_s = ''101'', v_d = 101\<rparr>, \<lparr>v_s = ''9999'', v_d = 9999\<rparr>, \<lparr>v_s = ''100.5'', v_d = 201 / 2\<rparr>]"
  by (simp add: collectPairValues_def demo_round_def demo_sub_def pair_value_def demo_readings)

theorem majority_bounds_aggregate_witness:
  "\<exists>m. 100 \<le> m \<and> m \<le> 101 \<and> aggregate exact_lib (\<lambda>p. None) demo_round ''BTC/USD'' = Some m"
proof -
  let ?vs = "collectPairValues demo_round ''BTC/USD''"
  have "length ?vs < 2 * length (filter (\<lambda>v. 100 \<le> v_d v \<and> v_d v \<le> 101) ?vs)" and "odd (length ?vs)"
    by (simp_all add: demo_values)
  moreover have "int_valued (100 * 10 ^ 8)" "int_valued (101 * 10 ^ 8)" "\<bar>100 :: rat\<bar> < 10 ^ 40" "\<bar>101 :: rat\<bar> < 10 ^ 40"
    by simp_all
  ultimately obtain m where "100 \<le> m" "m \<le> 101" "aggregate exact_lib (\<lambda>p. None) demo_round ''BTC/USD'' =
      Some (clampToLastFinalized exact_lib (\<lambda>p. None) ''BTC/USD'' m)"
    using majority_bounds_aggregate [OF exact_lib_ok refl, where subs = demo_round and pair = "''BTC/USD''"
        and L = 100 and U = 101 and lastFin = "\<lambda>p. None"] zero_less_numeral by blast
  then show ?thesis
    by (simp add: clampToLastFinalized_def)
qed

text \<open>
  the digest of a round is a function of its price map. Two proposals have the same digest
  preimage exactly when they list the same pair and price texts, in whatever order and with
  whatever extra fields.
\<close>

theorem digest_preimage_canonical:
  "canonicalDigestPrices str ps = canonicalDigestPrices str qs \<longleftrightarrow>
   mset (map (\<lambda>(c, p). (digest_text str c, digest_text str p)) ps) =
   mset (map (\<lambda>(c, p). (digest_text str c, digest_text str p)) qs)"
  unfolding canonicalDigestPrices_def by (rule sort_eq_iff_mset)

section \<open>The intake invariant\<close>

definition submission_ok :: "string list \<Rightarrow> submission \<Rightarrow> bool" where
  "submission_ok pairs sub \<longleftrightarrow> sb_prices sub \<noteq> [] \<and>
     (\<forall>p \<in> set (sb_prices sub). pe_pair p \<in> set pairs \<and> canonical_spelling (pe_price p) \<and> length (pe_price p) \<le> 40 \<and> price_admitted (pe_price p))"

text \<open>One submission per sender and per proven key, no more than the cap, every price canonical, in range and of a listed pair.\<close>

definition round_subs_ok :: "string list \<Rightarrow> nat \<Rightarrow> submissions \<Rightarrow> bool" where
  "round_subs_ok pairs cap subs \<longleftrightarrow> distinct (map fst subs) \<and> distinct (List.map_filter (\<lambda>(a, s). sb_pubkey s) subs) \<and>
     length subs \<le> cap \<and> (\<forall>(a, s) \<in> set subs. submission_ok pairs s)"

definition intake_ok :: "oracle_round \<Rightarrow> bool" where
  "intake_ok st \<longleftrightarrow> distinct (map fst (or_subs st)) \<and> (\<forall>(r, subs) \<in> set (or_subs st). round_subs_ok (or_pairs st) (or_max st) subs)"

lemma in_set_js_put: "x \<in> set (js_put k v m) \<Longrightarrow> x = (k, v) \<or> x \<in> set m"
  by (induction m) (auto split: if_splits)

lemma admitted_entry_ok:
  assumes "admitted_entry show pairs p = Some e"
  shows "pe_pair e \<in> set pairs \<and> canonical_spelling (pe_price e) \<and> length (pe_price e) \<le> 40 \<and> price_admitted (pe_price e)"
  using assms by (auto simp: admitted_entry_def canonicalPrice_def PRICE_MAX_CHARS_def split: option.splits if_splits)

lemma canonicalSubmittedPrices_ok:
  assumes "canonicalSubmittedPrices show pairs prices = Some valid"
  shows "submission_ok pairs \<lparr>sb_prices = valid, sb_pubkey = k\<rparr>"
  using assms by (auto simp: canonicalSubmittedPrices_def submission_ok_def set_map_filter_iff Let_def
      dest: admitted_entry_ok split: if_splits)

lemma round_subs_ok_snoc:
  assumes "round_subs_ok pairs cap subs" and "map_of subs a = None" and "submission_ok pairs s" and "length subs < cap"
    and "sb_pubkey s = Some k" and "\<forall>(b, t) \<in> set subs. sb_pubkey t \<noteq> Some k"
  shows "round_subs_ok pairs cap (subs @ [(a, s)])"
  using assms by (auto simp: round_subs_ok_def List.map_filter_def map_of_eq_None_iff image_iff)

lemma intake_ok_put:
  assumes "intake_ok st" and "round_subs_ok (or_pairs st) (or_max st) m"
  shows "intake_ok (st\<lparr>or_subs := js_put r m (or_subs st)\<rparr>)"
  using assms by (auto simp: intake_ok_def js_put_ok dest!: in_set_js_put)

definition subs_at :: "oracle_round \<Rightarrow> rat \<Rightarrow> submissions" where
  "subs_at st r = (case map_of (or_subs st) r of None \<Rightarrow> [] | Some m \<Rightarrow> m)"

lemma subs_at_ok: "intake_ok st \<Longrightarrow> round_subs_ok (or_pairs st) (or_max st) (subs_at st r)"
  by (auto simp: intake_ok_def subs_at_def round_subs_ok_def List.map_filter_def dest: map_of_SomeD split: option.split)

text \<open>What the handler does: nothing, open an empty round, or append one submission.\<close>

lemma receiveSubmission_cases:
  obtains (same) "receiveSubmission pm show env st = st"
  | (opened) r where "receiveSubmission pm show env st = st\<lparr>or_subs := js_put r [] (or_subs st)\<rparr>" and "map_of (or_subs st) r = None"
  | (added) r prices valid pk where "isAdmissibleSigner pm (pv_sig env)" and "provenPubkey (pv_sig env) = Some pk" and "\<bar>r - or_current st\<bar> \<le> 1"
      and "canonicalSubmittedPrices show (or_pairs st) prices = Some valid"
      and "map_of (subs_at st r) (pv_sender env) = None" and "\<not> droppedAsDuplicateOrOverCap st (subs_at st r) (Some pk)"
      and "receiveSubmission pm show env st = st\<lparr>or_subs := js_put r (subs_at st r @ [(pv_sender env, \<lparr>sb_prices = valid, sb_pubkey = Some pk\<rparr>)]) (or_subs st)\<rparr>"
proof (cases "admissibleSubmission pm env st")
  case False
  then show ?thesis
    using same by (simp add: receiveSubmission_def)
next
  case True
  then obtain r prices pk where r: "pv_round env = JNum (Fin r)" "pv_prices env = Some prices" "provenPubkey (pv_sig env) = Some pk"
      "isAdmissibleSigner pm (pv_sig env)" "\<bar>r - or_current st\<bar> \<le> 1"
    by (auto simp: admissibleSubmission_def abs_le_iff dest: isAdmissibleSigner_proven split: jsval.splits jsnum.splits option.splits if_splits)
  define st1 where "st1 = (if map_of (or_subs st) r = None then st\<lparr>or_subs := js_put r [] (or_subs st)\<rparr> else st)"
  have st1: "(case map_of (or_subs st1) r of Some m \<Rightarrow> m | None \<Rightarrow> []) = subs_at st r" "or_pairs st1 = or_pairs st"
      "droppedAsDuplicateOrOverCap st1 = droppedAsDuplicateOrOverCap st"
      "st1\<lparr>or_subs := js_put r m (or_subs st1)\<rparr> = st\<lparr>or_subs := js_put r m (or_subs st)\<rparr>" for m
    by (auto simp: st1_def subs_at_def map_of_js_put js_put_put droppedAsDuplicateOrOverCap_def fun_eq_iff split: option.splits)
  have kept: thesis if "receiveSubmission pm show env st = st1"
    using that same opened by (auto simp: st1_def split: if_splits)
  have res: "receiveSubmission pm show env st =
     (if map_of (subs_at st r) (pv_sender env) \<noteq> None then st1
      else if droppedAsDuplicateOrOverCap st (subs_at st r) (Some pk) then st1
      else (case canonicalSubmittedPrices show (or_pairs st) prices of
          None \<Rightarrow> st1
        | Some valid \<Rightarrow> st\<lparr>or_subs := js_put r (js_put (pv_sender env) \<lparr>sb_prices = valid, sb_pubkey = Some pk\<rparr> (subs_at st r)) (or_subs st)\<rparr>))"
    using True st1 by (simp add: receiveSubmission_def r Let_def flip: st1_def split: option.split)
  show ?thesis
  proof (cases "map_of (subs_at st r) (pv_sender env) \<noteq> None \<or> droppedAsDuplicateOrOverCap st (subs_at st r) (Some pk) \<or>
      canonicalSubmittedPrices show (or_pairs st) prices = None")
    case True
    then show ?thesis
      using res by (intro kept) auto
  next
    case False
    then show ?thesis
      using res r by (auto simp: js_put_new intro: added)
  qed
qed

text \<open>
  C33: the intake keeps one vote per key. Whatever a peer sends, the handler keeps the invariant:
  in every round one submission per sender and per proven key, at most the cap, and only
  canonical prices in range of listed pairs; and whatever it adds is attributed to the
  proven key of an admitted signer and lies at most one round from the current one.
\<close>

theorem intake_invariant:
  assumes ok: "intake_ok st"
  shows "intake_ok (receiveSubmission pm show env st) \<and>
    (\<forall>r a s. map_of (subs_at (receiveSubmission pm show env st) r) a = Some s \<and> map_of (subs_at st r) a = None \<longrightarrow>
       isAdmissibleSigner pm (pv_sig env) \<and> a = pv_sender env \<and> sb_pubkey s = provenPubkey (pv_sig env) \<and> \<bar>r - or_current st\<bar> \<le> 1)"
proof (rule receiveSubmission_cases [of pm "show" env st])
  assume "receiveSubmission pm show env st = st"
  then show ?thesis
    using ok by auto
next
  fix r
  assume r: "receiveSubmission pm show env st = st\<lparr>or_subs := js_put r [] (or_subs st)\<rparr>" "map_of (or_subs st) r = None"
  have "round_subs_ok (or_pairs st) (or_max st) []"
    by (simp add: round_subs_ok_def List.map_filter_def)
  then show ?thesis
    using intake_ok_put [OF ok] r by (auto simp: subs_at_def map_of_js_put split: if_splits)
next
  fix r prices valid pk
  let ?s = "\<lparr>sb_prices = valid, sb_pubkey = Some pk\<rparr>"
  assume h: "isAdmissibleSigner pm (pv_sig env)" "provenPubkey (pv_sig env) = Some pk" "\<bar>r - or_current st\<bar> \<le> 1"
    "canonicalSubmittedPrices show (or_pairs st) prices = Some valid" "map_of (subs_at st r) (pv_sender env) = None"
    "\<not> droppedAsDuplicateOrOverCap st (subs_at st r) (Some pk)"
    "receiveSubmission pm show env st = st\<lparr>or_subs := js_put r (subs_at st r @ [(pv_sender env, ?s)]) (or_subs st)\<rparr>"
  have "pk \<noteq> []"
    using h(2) by (auto simp: provenPubkey_def to_lower_def split: jsval.splits if_splits)
  then have "round_subs_ok (or_pairs st) (or_max st) (subs_at st r @ [(pv_sender env, ?s)])"
    using h(6) by (intro round_subs_ok_snoc [OF subs_at_ok [OF ok] h(5) canonicalSubmittedPrices_ok [OF h(4)]])
      (auto simp: droppedAsDuplicateOrOverCap_def list_ex_iff split: if_splits)
  then show ?thesis
    using intake_ok_put [OF ok] h(1-3,5,7) by (auto simp: subs_at_def map_of_js_put map_add_def split: if_splits option.splits)
qed

theorem intake_invariant_witness:
  "intake_ok (receiveSubmission \<lparr>registry_map = Some [(''hub-a'', ''0A'')], chain_set = None\<rparr> (\<lambda>q. [])
     \<lparr>pv_sender = ''hub-a'', pv_sig = JStr ''0a'', pv_round = JNum (Fin 3), pv_prices = Some [\<lparr>rp_pair = ''BTC/USD'', rp_price = JStr ''101''\<rparr>]\<rparr>
     \<lparr>or_current = 3, or_pairs = [''BTC/USD''], or_max = 50, or_subs = []\<rparr>)"
  by (rule conjunct1 [OF intake_invariant]) (simp add: intake_ok_def)

end
