(* ===== verification/Oracle_Cosign.thy ===== *)
theory Oracle_Cosign
  imports Oracle_Aggregate
begin

text \<open>
  The co-sign gate of the price oracle (\<open>src/oracle/consensus/cosign_gate.js\<close>): what a follower
  checks before it signs a leader's prices. A rejection carries the pair and the reason the
  source emits with \<open>oracle:propose-rejected\<close>. The gate reads the follower's member-filtered
  submissions, its cache of last finalized prices, the pair whitelist and the validator registry.
\<close>

section \<open>State and identities\<close>

record oracle_hub =
  oh_registry :: "(string \<times> string) list option"
  oh_addr :: string
  oh_identity :: "string option"
  oh_pairs :: "string list"
  oh_allowUnverified :: bool
  oh_lastFin :: "string \<Rightarrow> rat option"

text \<open>\<open>resolveSenderPubkey\<close> (consensus/messages.js): the registry's key of an address, own address by the identity.\<close>

definition oracleSenderPubkey :: "oracle_hub \<Rightarrow> string \<Rightarrow> string option" where
  "oracleSenderPubkey h sender =
     (let pk = (case oh_registry h of None \<Rightarrow> [] | Some m \<Rightarrow> (case map_of m sender of None \<Rightarrow> [] | Some k \<Rightarrow> k));
          pk' = (if pk = [] \<and> sender = oh_addr h then (case oh_identity h of None \<Rightarrow> [] | Some k \<Rightarrow> k) else pk)
      in if pk' = [] then None else Some (to_lower pk'))"

definition submission_key :: "oracle_hub \<Rightarrow> string \<Rightarrow> submission \<Rightarrow> string option" where
  "submission_key h addr sub =
     (case sb_pubkey sub of Some k \<Rightarrow> if k \<noteq> [] then Some k else oracleSenderPubkey h addr | None \<Rightarrow> oracleSenderPubkey h addr)"

section \<open>The gate\<close>

datatype reject_reason =
    NonCanonicalPrice | OutOfRange | NonCanonicalPair | DeviationReject | HistoricalDeviation
  | UnverifiableNewPair | EmptyProposal | MissingPairs

text \<open>Whether the walk over the submissions leaves an entry out of the reference set.\<close>

definition proposer_owned :: "oracle_hub \<Rightarrow> string \<Rightarrow> string \<times> submission \<Rightarrow> bool" where
  "proposer_owned h sender = (\<lambda>(addr, sub).
     addr = sender \<or>
     (case oracleSenderPubkey h sender of
        None \<Rightarrow> False
      | Some proposerPk \<Rightarrow> map_option to_lower (submission_key h addr sub) = Some proposerPk))"

definition notePairs :: "submission \<Rightarrow> string list" where
  "notePairs sub = filter (\<lambda>p. p \<noteq> []) (map pe_pair (sb_prices sub))"

record cosign_refs =
  localByPair :: "(string \<times> rat) list"
  middlesByPair :: "(string \<times> rat list) list"

definition proposerExcludedAggregate :: "mathjs \<Rightarrow> oracle_hub \<Rightarrow> string \<Rightarrow> submissions \<Rightarrow> cosign_refs" where
  "proposerExcludedAggregate mj h sender subs =
     (let refSubs = filter (\<lambda>e. \<not> proposer_owned h sender e) subs;
          proposerPairs = js_set_of (concat (map (\<lambda>(a, s). notePairs s) (filter (proposer_owned h sender) subs)));
          local = aggregateAll mj (oh_lastFin h) refSubs;
          middles = List.map_filter (\<lambda>(pair, price).
            if pair \<notin> set proposerPairs then None
            else (case trimPairValues (collectPairValues refSubs pair) of
                None \<Rightarrow> None
              | Some vs \<Rightarrow> map_option (Pair pair) (evenSetMiddles mj (oh_lastFin h) pair vs))) local
      in \<lparr>localByPair = local, middlesByPair = middles\<rparr>)"

definition localDeviationRejected :: "mathjs \<Rightarrow> rat \<Rightarrow> rat \<Rightarrow> rat list option \<Rightarrow> rat \<Rightarrow> reject_reason option" where
  "localDeviationRejected mj price local middles devThreshold =
     (let refs = (case middles of None \<Rightarrow> [local] | Some ms \<Rightarrow> ms)
      in if list_all (\<lambda>ref. exceedsBand mj ref price devThreshold 18) refs then Some DeviationReject else None)"

definition historicalBandRejected :: "mathjs \<Rightarrow> rat \<Rightarrow> rat \<Rightarrow> reject_reason option" where
  "historicalBandRejected mj price lastPrice =
     (let histDelta = bcmul mj lastPrice ORACLE_MAX_CHANGE_PER_ROUND 8;
          histHi = bcadd mj lastPrice histDelta 8;
          histLo = bcsub mj lastPrice histDelta 8
      in if histHi < price \<or> price < histLo then Some HistoricalDeviation else None)"

definition historicalRejected :: "mathjs \<Rightarrow> oracle_hub \<Rightarrow> string \<Rightarrow> rat \<Rightarrow> reject_reason option" where
  "historicalRejected mj h pair price =
     (case oh_lastFin h pair of
        Some l \<Rightarrow>
          if 0 < l then historicalBandRejected mj price l
          else if \<not> oh_allowUnverified h then Some UnverifiableNewPair else None
      | None \<Rightarrow> if \<not> oh_allowUnverified h then Some UnverifiableNewPair else None)"

definition priceRejected ::
  "mathjs \<Rightarrow> (rat \<Rightarrow> string) \<Rightarrow> oracle_hub \<Rightarrow> cosign_refs \<Rightarrow> rat \<Rightarrow> raw_price \<Rightarrow> reject_reason option" where
  "priceRejected mj show h refs devThreshold p =
     (case canonicalPrice show (rp_price p) of
        None \<Rightarrow> Some NonCanonicalPrice
      | Some canon \<Rightarrow>
          if \<not> chain_price_spelling canon then Some NonCanonicalPrice
          else if \<not> price_admitted canon then Some OutOfRange
          else if oh_pairs h \<noteq> [] \<and> rp_pair p \<notin> set (oh_pairs h) then Some NonCanonicalPair
          else (case map_of (localByPair refs) (rp_pair p) of
              Some local \<Rightarrow>
                if 0 < local
                then localDeviationRejected mj (bcnum canon) local (map_of (middlesByPair refs) (rp_pair p)) devThreshold
                else historicalRejected mj h (rp_pair p) (bcnum canon)
            | None \<Rightarrow> historicalRejected mj h (rp_pair p) (bcnum canon)))"

definition coverageRejects ::
  "mathjs \<Rightarrow> oracle_hub \<Rightarrow> raw_price list \<Rightarrow> submissions \<Rightarrow> (string \<times> rat) list \<Rightarrow> (string \<times> reject_reason) option" where
  "coverageRejects mj h prices subs local =
     (if prices = [] then Some (''(all)'', EmptyProposal)
      else (let proposedPairs = map rp_pair prices;
                leaderByPair = map fst (aggregateAll mj (oh_lastFin h) subs)
            in map_option (\<lambda>pair. (pair, MissingPairs))
                 (find (\<lambda>pair. pair \<in> set leaderByPair \<and> pair \<notin> set proposedPairs) (map fst local))))"

fun first_rejected :: "(raw_price \<Rightarrow> reject_reason option) \<Rightarrow> raw_price list \<Rightarrow> (string \<times> reject_reason) option" where
  "first_rejected f [] = None"
| "first_rejected f (p # ps) = (case f p of Some r \<Rightarrow> Some (rp_pair p, r) | None \<Rightarrow> first_rejected f ps)"

definition coSignGateRejects ::
  "mathjs \<Rightarrow> (rat \<Rightarrow> string) \<Rightarrow> oracle_hub \<Rightarrow> string \<Rightarrow> raw_price list \<Rightarrow> submissions \<Rightarrow> (string \<times> reject_reason) option" where
  "coSignGateRejects mj show h sender prices subs =
     (let refs = proposerExcludedAggregate mj h sender subs
      in case first_rejected (priceRejected mj show h refs ORACLE_DEVIATION_THRESHOLD) prices of
           Some r \<Rightarrow> Some r
         | None \<Rightarrow> coverageRejects mj h prices subs (localByPair refs))"

section \<open>Deviation and clamp\<close>

lemma dev_exact:
  assumes lib: "decimal_lib mj" and "int_valued (v * 10 ^ 8)" and "int_valued (r * 10 ^ 8)" and "0 < r"
    and "\<bar>v\<bar> < 10 ^ 40" and "\<bar>r\<bar> < 10 ^ 40"
  shows "deviationFrom mj v r 18 = mj_fix mj 18 (mj_rnd mj (\<bar>v - r\<bar> / r))"
proof -
  obtain a b where ab: "v * 10 ^ 18 = of_int a" "r * 10 ^ 18 = of_int b"
    using grid_mono [OF assms(2), of 18] grid_mono [OF assms(3), of 18] by (auto elim!: int_valuedE)
  have g: "int_valued ((v - r) * 10 ^ 18)" "int_valued ((r - v) * 10 ^ 18)"
    by (simp_all only: left_diff_distrib ab int_valued_of_int flip: of_int_diff)
  have "\<bar>v - r\<bar> * 10 ^ 18 < (2 * 10 ^ 40) * 10 ^ 18"
    using assms(5,6) by (intro mult_strict_right_mono) simp_all
  then have "\<bar>(v - r) * 10 ^ 18\<bar> < 10 ^ 64" "\<bar>(r - v) * 10 ^ 18\<bar> < 10 ^ 64"
    by (simp_all add: abs_mult abs_minus_commute)
  then have "bcsub mj v r 18 = v - r" "bcmul mj (v - r) (- 1) 18 = r - v"
    using rnd_exact [OF lib g(1)] rnd_exact [OF lib g(2)] fix_exact [OF lib g(1)] fix_exact [OF lib g(2)]
    by (simp_all add: bcsub_def bcmul_def)
  then show ?thesis
    using \<open>0 < r\<close> by (simp add: deviationFrom_def bcdiv_def abs_if)
qed

text \<open>A price the gates compare: on the published grid and of bounded size.\<close>

definition plain_price :: "rat \<Rightarrow> bool" where
  "plain_price q \<longleftrightarrow> int_valued (q * 10 ^ 8) \<and> \<bar>q\<bar> < 10 ^ 40"

lemma exceedsBand_mono:
  assumes lib: "decimal_lib mj" and "plain_price v" "plain_price r" "plain_price v'" "plain_price r'" "0 < r" "0 < r'"
    and le: "\<bar>v - r\<bar> / r \<le> \<bar>v' - r'\<bar> / r'" and ex: "exceedsBand mj v r t 18"
  shows "exceedsBand mj v' r' t 18"
proof -
  have "mj_fix mj 18 (mj_rnd mj (\<bar>v - r\<bar> / r)) \<le> mj_fix mj 18 (mj_rnd mj (\<bar>v' - r'\<bar> / r'))"
    using le by (intro fix_mono [OF lib] rnd_mono [OF lib])
  then show ?thesis
    using ex assms(2-7) by (simp add: exceedsBand_def plain_price_def dev_exact [OF lib])
qed

lemma exceedsBand_self:
  assumes lib: "decimal_lib mj" and "plain_price p" and "0 < p" and "0 \<le> t"
  shows "\<not> exceedsBand mj p p t 18"
  using assms rnd_exact [OF lib, of 0 0] fix_exact [OF lib, of 0 18]
  by (simp add: exceedsBand_def plain_price_def dev_exact [OF lib])

text \<open>Clipping both a value and its reference to one interval never increases the relative deviation.\<close>

definition clip :: "rat \<Rightarrow> rat \<Rightarrow> rat \<Rightarrow> rat" where
  "clip A B x = (if B < x then B else if x < A then A else x)"

lemma clip_deviation:
  assumes "A \<le> B" and "0 < m" and "0 \<le> x" and "0 < clip A B m"
  shows "\<bar>clip A B x - clip A B m\<bar> / clip A B m \<le> \<bar>x - m\<bar> / m"
proof (cases "x \<le> m")
  case True
  have le: "clip A B x \<le> clip A B m"
    using True assms(1) by (auto simp: clip_def)
  have "x * clip A B m \<le> clip A B x * m"
  proof -
    consider "B < m" "B < x" | "B < m" "x \<le> B" | "m < A" | "A \<le> m" "m \<le> B"
      by linarith
    then show ?thesis
    proof cases
      case 2
      then have "x \<le> clip A B x" "clip A B m = B" "0 < B"
        using assms(4) by (auto simp: clip_def)
      then show ?thesis
        using 2(1) assms(2,3) by (metis less_imp_le mult_mono order_trans)
    qed (use True assms in \<open>auto simp: clip_def mult_right_mono mult.commute\<close>)
  qed
  then show ?thesis
    using le True assms(2,4) by (simp add: divide_simps algebra_simps)
next
  case False
  have ge: "clip A B m \<le> clip A B x"
    using False assms(1) by (auto simp: clip_def)
  have "clip A B x * m \<le> x * clip A B m"
  proof -
    consider "m < A" "x < A" | "m < A" "A \<le> x" | "B < m" | "A \<le> m" "m \<le> B"
      by linarith
    then show ?thesis
    proof cases
      case 2
      then have "clip A B x \<le> x" "clip A B m = A" "0 < A"
        using assms(1,4) by (auto simp: clip_def)
      then show ?thesis
        using 2(1) assms(2,3) by (metis less_imp_le mult_mono)
    qed (use False assms in \<open>auto simp: clip_def mult_right_mono mult.commute\<close>)
  qed
  then show ?thesis
    using ge False assms(2,4) by (simp add: divide_simps algebra_simps)
qed

definition q8 :: "mathjs \<Rightarrow> rat \<Rightarrow> rat" where
  "q8 mj x = mj_fix mj 8 (mj_rnd mj x)"

lemma q8_mono: "decimal_lib mj \<Longrightarrow> x \<le> y \<Longrightarrow> q8 mj x \<le> q8 mj y"
  by (simp add: q8_def fix_mono rnd_mono)

lemma q8_plain: "decimal_lib mj \<Longrightarrow> plain_price c \<Longrightarrow> q8 mj c = c"
proof -
  assume lib: "decimal_lib mj" and c: "plain_price c"
  have "\<bar>c\<bar> * 10 ^ 8 < 10 ^ 40 * 10 ^ 8"
    using c by (intro mult_strict_right_mono) (simp_all add: plain_price_def)
  then have "\<bar>c * 10 ^ 8\<bar> < 10 ^ 64"
    by (simp add: abs_mult)
  then show ?thesis
    using rnd_exact [OF lib, of c 8] fix_exact [OF lib, of c 8] c by (simp add: q8_def plain_price_def)
qed

lemma q8_grid: "decimal_lib mj \<Longrightarrow> int_valued (q8 mj x * 10 ^ 8)"
  unfolding q8_def by (rule fix_grid)

lemma q8_between:
  assumes "decimal_lib mj" and "plain_price a" and "plain_price b" and "a \<le> x" and "x \<le> b"
  shows "a \<le> q8 mj x" and "q8 mj x \<le> b" and "plain_price (q8 mj x)"
proof -
  show *: "a \<le> q8 mj x" "q8 mj x \<le> b"
    using q8_mono [OF assms(1)] q8_plain [OF assms(1)] assms(2-5) by metis+
  then show "plain_price (q8 mj x)"
    using q8_grid [OF assms(1)] assms(2,3) by (auto simp: plain_price_def abs_less_iff)
qed

lemma plain_int: "plain_price (of_int k)" if "\<bar>k\<bar> < 10 ^ 40"
proof -
  have "(of_int k * 10 ^ 8 :: rat) = of_int (k * 10 ^ 8)"
    by simp
  then have "int_valued (of_int k * 10 ^ 8 :: rat)"
    by (metis int_valued_of_int)
  moreover have "\<bar>of_int k :: rat\<bar> < 10 ^ 40"
    using that by (metis of_int_abs of_int_less_iff of_int_numeral of_int_power)
  ultimately show ?thesis
    by (simp add: plain_price_def)
qed

text \<open>The cache of last finalized prices: published prices, below the bound of the oracle.\<close>

definition history_ok :: "(string \<Rightarrow> rat option) \<Rightarrow> bool" where
  "history_ok lastFin \<longleftrightarrow> (\<forall>pair l. lastFin pair = Some l \<longrightarrow> 0 < l \<and> l < 10 ^ 10 \<and> int_valued (l * 10 ^ 8))"

definition move_lo :: "mathjs \<Rightarrow> rat \<Rightarrow> rat \<Rightarrow> rat" where
  "move_lo mj l pct = bcsub mj l (bcmul mj l pct 8) 8"

definition move_hi :: "mathjs \<Rightarrow> rat \<Rightarrow> rat \<Rightarrow> rat" where
  "move_hi mj l pct = bcadd mj l (bcmul mj l pct 8) 8"

lemma move_bounds:
  assumes lib: "decimal_lib mj" and l: "0 < l" "l < 10 ^ 10" "int_valued (l * 10 ^ 8)" and pct: "0 \<le> pct" "pct \<le> 1"
  shows "move_lo mj l pct \<le> l" and "l \<le> move_hi mj l pct" and "plain_price (move_lo mj l pct)" and "plain_price (move_hi mj l pct)"
    and "\<And>pct'. pct \<le> pct' \<Longrightarrow> move_lo mj l pct' \<le> move_lo mj l pct \<and> move_hi mj l pct \<le> move_hi mj l pct'"
proof -
  have c: "plain_price 0" "plain_price (- (10 ^ 10))" "plain_price (10 ^ 10)" "plain_price (2 * 10 ^ 10)" "plain_price l"
    using plain_int [of 0] plain_int [of "- (10 ^ 10)"] plain_int [of "10 ^ 10"] plain_int [of "2 * 10 ^ 10"] l
    by (simp_all add: plain_price_def)
  have "l * pct \<le> l"
    using mult_left_le [of pct l] l pct by simp
  then have "0 \<le> l * pct" "l * pct \<le> 10 ^ 10"
    using l(1) pct order_trans [OF \<open>l * pct \<le> l\<close> less_imp_le [OF l(2)]] by simp_all
  then have d: "0 \<le> q8 mj (l * pct)" "q8 mj (l * pct) \<le> 10 ^ 10"
    using q8_between [OF lib c(1,3)] by blast+
  have lo: "move_lo mj l pct = q8 mj (l - q8 mj (l * pct))" and hi: "move_hi mj l pct = q8 mj (l + q8 mj (l * pct))" for pct
    by (simp_all add: move_lo_def move_hi_def bcsub_def bcadd_def bcmul_def q8_def)
  show "move_lo mj l pct \<le> l" "plain_price (move_lo mj l pct)"
    using q8_between [OF lib c(2,5), of "l - q8 mj (l * pct)"] d l by (simp_all add: lo)
  show "l \<le> move_hi mj l pct" "plain_price (move_hi mj l pct)"
    using q8_between [OF lib c(5,4), of "l + q8 mj (l * pct)"] d l by (simp_all add: hi)
  show "move_lo mj l pct' \<le> move_lo mj l pct \<and> move_hi mj l pct \<le> move_hi mj l pct'" if "pct \<le> pct'" for pct'
  proof -
    have "q8 mj (l * pct) \<le> q8 mj (l * pct')"
      using that l by (intro q8_mono [OF lib]) (simp add: mult_left_mono)
    then show ?thesis
      unfolding lo hi by (intro conjI q8_mono [OF lib]) simp_all
  qed
qed

lemma maxChange_range: "0 \<le> maxChangeForPair pair" "maxChangeForPair pair \<le> ORACLE_MAX_CHANGE_PER_ROUND" "maxChangeForPair pair \<le> 1"
  by (simp_all add: maxChangeForPair_def ORACLE_MAX_CHANGE_PER_ROUND_def XCHAIN_PRICE_MAX_CHANGE_PER_ROUND_def)

lemma clamp_clip:
  assumes lib: "decimal_lib mj" and ok: "history_ok lastFin" and l: "lastFin pair = Some l"
  shows "clampToLastFinalized mj lastFin pair x = clip (move_lo mj l (maxChangeForPair pair)) (move_hi mj l (maxChangeForPair pair)) x"
proof -
  have "0 < l" "l < 10 ^ 10" "int_valued (l * 10 ^ 8)"
    using ok l by (auto simp: history_ok_def)
  from move_bounds(3,4) [OF lib this maxChange_range(1,3)]
  have "mj_fix mj 8 (move_lo mj l (maxChangeForPair pair)) = move_lo mj l (maxChangeForPair pair)"
      "mj_fix mj 8 (move_hi mj l (maxChangeForPair pair)) = move_hi mj l (maxChangeForPair pair)"
    using fix_exact [OF lib] by (auto simp only: plain_price_def)
  then show ?thesis
    using l \<open>0 < l\<close> unfolding clampToLastFinalized_def clip_def move_lo_def move_hi_def Let_def bcformat_def by simp
qed

lemma clamp_none: "lastFin pair = None \<Longrightarrow> clampToLastFinalized mj lastFin pair x = x"
  by (simp add: clampToLastFinalized_def)

lemma history_bounds:
  assumes "decimal_lib mj" and "history_ok lastFin" and "lastFin pair = Some l"
  shows "move_lo mj l (maxChangeForPair pair) \<le> move_hi mj l (maxChangeForPair pair)"
    and "plain_price (move_lo mj l (maxChangeForPair pair))" and "plain_price (move_hi mj l (maxChangeForPair pair))"
    and "move_lo mj l ORACLE_MAX_CHANGE_PER_ROUND \<le> move_lo mj l (maxChangeForPair pair)"
    and "move_hi mj l (maxChangeForPair pair) \<le> move_hi mj l ORACLE_MAX_CHANGE_PER_ROUND"
proof -
  have "0 < l" "l < 10 ^ 10" "int_valued (l * 10 ^ 8)"
    using assms by (auto simp: history_ok_def)
  from move_bounds [OF assms(1) this maxChange_range(1,3)] show
    "move_lo mj l (maxChangeForPair pair) \<le> move_hi mj l (maxChangeForPair pair)"
    "plain_price (move_lo mj l (maxChangeForPair pair))" "plain_price (move_hi mj l (maxChangeForPair pair))"
    "move_lo mj l ORACLE_MAX_CHANGE_PER_ROUND \<le> move_lo mj l (maxChangeForPair pair)"
    "move_hi mj l (maxChangeForPair pair) \<le> move_hi mj l ORACLE_MAX_CHANGE_PER_ROUND"
    using maxChange_range(2) by (auto intro: order_trans)
qed

lemma clamp_plain:
  assumes "decimal_lib mj" and "history_ok lastFin" and "plain_price x"
  shows "plain_price (clampToLastFinalized mj lastFin pair x)"
  using assms history_bounds(2,3) [OF assms(1,2)] by (cases "lastFin pair") (auto simp: clamp_none clamp_clip clip_def)

lemma clamp_deviation:
  assumes "decimal_lib mj" and "history_ok lastFin" and "0 < m" and "0 \<le> x" and "0 < clampToLastFinalized mj lastFin pair m"
  shows "\<bar>clampToLastFinalized mj lastFin pair x - clampToLastFinalized mj lastFin pair m\<bar> / clampToLastFinalized mj lastFin pair m \<le> \<bar>x - m\<bar> / m"
  using assms history_bounds(1) [OF assms(1,2)]
  by (cases "lastFin pair") (auto simp: clamp_none clamp_clip intro!: clip_deviation)

text \<open>A clamped aggregate is inside the historical band of every hub with the same history.\<close>

lemma clamped_in_history:
  assumes "decimal_lib mj" and "history_ok lastFin" and "lastFin pair = Some l"
  shows "historicalBandRejected mj (clampToLastFinalized mj lastFin pair x) l = None"
  using history_bounds [OF assms] by (auto simp: historicalBandRejected_def Let_def clamp_clip [OF assms] clip_def
      simp flip: move_lo_def move_hi_def)

section \<open>One more submission\<close>

text \<open>Adding one value to a sorted set: every old element stays at its place or moves one up.\<close>

lemma insort_nth:
  assumes "i < length xs"
  shows "xs ! i \<in> {insort_key f v xs ! i, insort_key f v xs ! Suc i}"
  using assms by (induction xs arbitrary: i) (auto simp: nth_Cons split: nat.split)

lemma sort_key_insert:
  assumes "mset vs = add_mset v (mset rs)"
  shows "sort_key exact_key vs = insort_key exact_key v (sort_key exact_key rs)"
  using sort_key_mset_eq [OF _ inj_exact_key, of vs "v # rs"] assms by simp

lemma sorted_step:
  assumes "mset vs = add_mset v (mset rs)" and "i < length rs"
  shows "sort_key exact_key rs ! i \<in> {sort_key exact_key vs ! i, sort_key exact_key vs ! Suc i}"
  unfolding sort_key_insert [OF assms(1)] using insort_nth [of i "sort_key exact_key rs"] assms(2) by simp

text \<open>What \<open>aggregate\<close> computes, on the sorted values.\<close>

definition quantized :: "mathjs \<Rightarrow> pval list \<Rightarrow> nat \<Rightarrow> rat" where
  "quantized mj vs i = mj_fix mj 8 (v_d (sort_key exact_key vs ! i))"

definition middle_mean :: "mathjs \<Rightarrow> pval list \<Rightarrow> rat" where
  "middle_mean mj vs = mean_at mj (v_d (sort_key exact_key vs ! (length vs div 2 - 1))) (v_d (sort_key exact_key vs ! (length vs div 2)))"

lemma aggregate_Some_iff:
  "aggregate mj lastFin subs pair = Some p \<longleftrightarrow>
     (let vs = collectPairValues subs pair; k = length vs div 2; m = (if even (length vs) then middle_mean mj vs else quantized mj vs k) in
      vs \<noteq> [] \<and> 0 < m \<and>
      (even (length vs) \<longrightarrow> \<not> exceedsBand mj (quantized mj vs (k - 1)) m ORACLE_DEVIATION_THRESHOLD 18 \<and>
         \<not> exceedsBand mj (quantized mj vs k) m ORACLE_DEVIATION_THRESHOLD 18) \<and>
      p = clampToLastFinalized mj lastFin pair m)"
proof (cases "collectPairValues subs pair = []")
  case True
  then show ?thesis
    by (simp add: aggregate_def)
next
  case False
  define vs where "vs = collectPairValues subs pair"
  obtain w where w: "trimPairValues vs = Some w" "length w mod 2 = length vs mod 2"
      "w ! (length w div 2) = sort_key exact_key vs ! (length vs div 2)"
      "even (length vs) \<Longrightarrow> w ! (length w div 2 - 1) = sort_key exact_key vs ! (length vs div 2 - 1)"
    using trim_keeps_middle [of vs] False unfolding vs_def by metis
  have "vs \<noteq> []"
    using False by (simp add: vs_def)
  then show ?thesis
    using w unfolding vs_def [symmetric] aggregate_def Let_def
    by (cases "even (length vs)")
       (auto simp: medianOf_mean_at evenSplitRejected_def middle_mean_def quantized_def bcformat_def even_iff_mod_2_eq_zero)
qed

definition values_ok :: "pval list \<Rightarrow> bool" where
  "values_ok vs \<longleftrightarrow> (\<forall>v \<in> set vs. 0 \<le> v_d v \<and> v_d v \<le> 10 ^ 10)"

lemma sorted_value_ok:
  assumes "values_ok vs" and "i < length vs"
  shows "0 \<le> v_d (sort_key exact_key vs ! i)" and "v_d (sort_key exact_key vs ! i) \<le> 10 ^ 10"
proof -
  have "sort_key exact_key vs ! i \<in> set vs"
    by (metis assms(2) length_sort nth_mem set_sort)
  then show "0 \<le> v_d (sort_key exact_key vs ! i)" "v_d (sort_key exact_key vs ! i) \<le> 10 ^ 10"
    using assms(1) by (auto simp: values_ok_def)
qed

lemma grid_bounds: "int_valued ((0 :: rat) * 10 ^ 8)" "int_valued ((10 ^ 10 :: rat) * 10 ^ 8)" "\<bar>0 :: rat\<bar> < 10 ^ 40" "\<bar>10 ^ 10 :: rat\<bar> < 10 ^ 40"
  using plain_int [of 0] plain_int [of "10 ^ 10"] by (simp_all add: plain_price_def)

lemma plain_between: "int_valued (x * 10 ^ 8) \<Longrightarrow> 0 \<le> x \<Longrightarrow> x \<le> 10 ^ 10 \<Longrightarrow> plain_price x"
  unfolding plain_price_def by (rule conjI) (auto intro: le_less_trans)

lemma quantized_ok:
  assumes lib: "decimal_lib mj" and "values_ok vs" and "i < length vs"
  shows "0 \<le> quantized mj vs i" and "plain_price (quantized mj vs i)"
proof -
  note b = sorted_value_ok [OF assms(2,3)]
  have "0 \<le> quantized mj vs i" "quantized mj vs i \<le> 10 ^ 10"
    using fix_mono [OF lib b(1), of 8] fix_mono [OF lib b(2), of 8] fix_exact [OF lib grid_bounds(1)] fix_exact [OF lib grid_bounds(2)]
    unfolding quantized_def by simp_all
  then show "0 \<le> quantized mj vs i" "plain_price (quantized mj vs i)"
    using plain_between fix_grid [OF lib] unfolding quantized_def by blast+
qed

lemma middle_mean_plain:
  assumes lib: "decimal_lib mj" and "values_ok vs" and "vs \<noteq> []"
  shows "plain_price (middle_mean mj vs)"
proof -
  have i: "length vs div 2 - 1 < length vs" "length vs div 2 < length vs"
    using assms(3) by (auto simp: less_imp_diff_less)
  note b = sorted_value_ok [OF assms(2) i(1)] sorted_value_ok [OF assms(2) i(2)]
  have "0 \<le> middle_mean mj vs" "middle_mean mj vs \<le> 10 ^ 10"
    unfolding middle_mean_def using mean_at_between [OF lib grid_bounds] b by blast+
  moreover have "int_valued (middle_mean mj vs * 10 ^ 8)"
    unfolding middle_mean_def mean_at_def bcformat_def by (rule fix_grid [OF lib])
  ultimately show ?thesis
    by (intro plain_between)
qed

text \<open>The band around a clamped price is at least the band around the price itself.\<close>

lemma clamped_band:
  assumes lib: "decimal_lib mj" and hist: "history_ok lastFin" and "plain_price x" "0 \<le> x" "plain_price y" "0 < y"
    "plain_price z" "0 \<le> z" "plain_price m" "0 < m"
    and pos: "0 < clampToLastFinalized mj lastFin pair y" and le: "\<bar>x - y\<bar> / y \<le> \<bar>z - m\<bar> / m"
    and inside: "\<not> exceedsBand mj z m t 18"
  shows "\<not> exceedsBand mj (clampToLastFinalized mj lastFin pair x) (clampToLastFinalized mj lastFin pair y) t 18"
  using inside order_trans [OF clamp_deviation [OF lib hist \<open>0 < y\<close> \<open>0 \<le> x\<close> pos] le]
    exceedsBand_mono [OF lib clamp_plain [OF lib hist] clamp_plain [OF lib hist]] assms(3-10) pos by blast

lemma odd_reference_accepts:
  assumes lib: "decimal_lib mj" and hist: "history_ok lastFin"
    and V: "values_ok (collectPairValues subs pair)"
    and step: "mset (collectPairValues subs pair) = add_mset v (mset (collectPairValues refs pair))"
    and odd: "odd (length (collectPairValues refs pair))"
    and p: "aggregate mj lastFin subs pair = Some p" "0 < p" and local: "aggregate mj lastFin refs pair = Some local"
  shows "\<not> exceedsBand mj local p ORACLE_DEVIATION_THRESHOLD 18"
proof -
  let ?V = "collectPairValues subs pair" and ?R = "collectPairValues refs pair"
  define k where "k = length ?R div 2"
  have len: "length ?V = Suc (length ?R)"
    using arg_cong [OF step, of size] by simp
  have idx: "length ?R = 2 * k + 1" "length ?V div 2 = Suc k" "even (length ?V)" "Suc k < length ?V"
    using odd len unfolding k_def by (auto elim!: oddE)
  let ?m = "middle_mean mj ?V"
  have pp: "0 < ?m" "\<not> exceedsBand mj (quantized mj ?V k) ?m ORACLE_DEVIATION_THRESHOLD 18"
      "\<not> exceedsBand mj (quantized mj ?V (Suc k)) ?m ORACLE_DEVIATION_THRESHOLD 18" "p = clampToLastFinalized mj lastFin pair ?m"
    using p(1) idx by (simp_all add: aggregate_Some_iff Let_def)
  have ll: "local = clampToLastFinalized mj lastFin pair (quantized mj ?R k)"
    using local odd by (simp add: aggregate_Some_iff Let_def k_def)
  have "quantized mj ?R k = quantized mj ?V k \<or> quantized mj ?R k = quantized mj ?V (Suc k)"
    using sorted_step [OF step, of k] idx(1) by (auto simp: quantized_def)
  then obtain i where i: "i < length ?V" "quantized mj ?R k = quantized mj ?V i" "\<not> exceedsBand mj (quantized mj ?V i) ?m ORACLE_DEVIATION_THRESHOLD 18"
    using pp(2,3) idx(4) Suc_lessD by metis
  have "plain_price ?m"
    using lib V idx(4) by (intro middle_mean_plain) auto
  then show ?thesis
    using clamped_band [OF lib hist quantized_ok(2,1) [OF lib V i(1)] _ pp(1) quantized_ok(2,1) [OF lib V i(1)] _ pp(1) _ order_refl i(3)]
      p(2) unfolding ll pp(4) i(2) by simp
qed

lemma ratio_mono:
  fixes y m a :: rat
  assumes "0 < y" and "0 < m" and "0 \<le> a"
  shows "a \<le> y \<Longrightarrow> y \<le> m \<Longrightarrow> \<bar>a - y\<bar> / y \<le> \<bar>a - m\<bar> / m" and "y \<le> a \<Longrightarrow> m \<le> y \<Longrightarrow> \<bar>a - y\<bar> / y \<le> \<bar>a - m\<bar> / m"
proof -
  have *: "y \<le> m \<Longrightarrow> a * y \<le> a * m" "m \<le> y \<Longrightarrow> a * m \<le> a * y"
    using assms(3) by (simp_all add: mult_left_mono)
  show "a \<le> y \<Longrightarrow> y \<le> m \<Longrightarrow> \<bar>a - y\<bar> / y \<le> \<bar>a - m\<bar> / m"
    using assms *(1) by (simp add: divide_simps algebra_simps)
  show "y \<le> a \<Longrightarrow> m \<le> y \<Longrightarrow> \<bar>a - y\<bar> / y \<le> \<bar>a - m\<bar> / m"
    using assms *(2) by (simp add: divide_simps algebra_simps)
qed

lemma even_reference_accepts:
  assumes lib: "decimal_lib mj" and hist: "history_ok lastFin"
    and V: "values_ok (collectPairValues subs pair)" and R: "values_ok (collectPairValues refs pair)"
    and step: "mset (collectPairValues subs pair) = add_mset v (mset (collectPairValues refs pair))"
    and even: "even (length (collectPairValues refs pair))" and k: "k = length (collectPairValues refs pair) div 2"
    and p: "aggregate mj lastFin subs pair = Some p" "0 < p" and local: "aggregate mj lastFin refs pair = Some local"
  shows "\<not> exceedsBand mj (clampToLastFinalized mj lastFin pair (quantized mj (collectPairValues refs pair) (k - 1))) p ORACLE_DEVIATION_THRESHOLD 18 \<or>
    \<not> exceedsBand mj (clampToLastFinalized mj lastFin pair (quantized mj (collectPairValues refs pair) k)) p ORACLE_DEVIATION_THRESHOLD 18"
proof -
  let ?V = "collectPairValues subs pair" and ?R = "collectPairValues refs pair"
  let ?m = "middle_mean mj ?R" and ?y = "quantized mj ?V k" and ?lo = "quantized mj ?R (k - 1)" and ?hi = "quantized mj ?R k"
  have len: "length ?V = Suc (length ?R)"
    using arg_cong [OF step, of size] by simp
  have mm: "?R \<noteq> []" "0 < ?m" "\<not> exceedsBand mj ?lo ?m ORACLE_DEVIATION_THRESHOLD 18" "\<not> exceedsBand mj ?hi ?m ORACLE_DEVIATION_THRESHOLD 18"
    using local even by (simp_all add: aggregate_Some_iff Let_def k)
  have idx: "length ?R = 2 * k" "0 < k" "k < length ?R" "k - 1 < length ?R" "k < length ?V" "length ?V div 2 = k" "odd (length ?V)"
  proof -
    have "2 * k = length ?R" "length ?R \<noteq> 0"
      using even mm(1) by (simp_all add: k)
    then show "length ?R = 2 * k" "0 < k" "k < length ?R" "k - 1 < length ?R" "k < length ?V" "length ?V div 2 = k" "odd (length ?V)"
      unfolding len by presburger+
  qed
  have yy: "0 < ?y" "p = clampToLastFinalized mj lastFin pair ?y"
    using p(1) idx by (simp_all add: aggregate_Some_iff Let_def)
  have lo: "?lo \<le> ?y"
    using sorted_step [OF step idx(4)] idx(2) sorted_values_nth [of "k - 1" k ?V] idx(5)
    unfolding quantized_def by (auto intro!: fix_mono [OF lib])
  have hi: "?y \<le> ?hi"
    using sorted_step [OF step idx(3)] sorted_values_nth [of k "Suc k" ?V] idx len
    unfolding quantized_def by (auto intro!: fix_mono [OF lib])
  have "plain_price ?m"
    using lib R mm(1) by (rule middle_mean_plain)
  note band = clamped_band [OF lib hist _ _ quantized_ok(2) [OF lib V idx(5)] yy(1) _ _ this mm(2)]
  show ?thesis
  proof (cases "?y \<le> ?m")
    case True
    then show ?thesis
      using band [OF quantized_ok(2,1) [OF lib R idx(4)] quantized_ok(2,1) [OF lib R idx(4)]] mm(3)
        ratio_mono(1) [OF yy(1) mm(2) quantized_ok(1) [OF lib R idx(4)] lo] p(2) unfolding yy(2) by blast
  next
    case False
    then show ?thesis
      using band [OF quantized_ok(2,1) [OF lib R idx(3)] quantized_ok(2,1) [OF lib R idx(3)]] mm(4)
        ratio_mono(2) [OF yy(1) mm(2) quantized_ok(1) [OF lib R idx(3)] hi] p(2) unfolding yy(2) by fastforce
  qed
qed

section \<open>Lookups\<close>

lemma map_of_map_filter: "map_of (List.map_filter (\<lambda>(k, v). map_option (Pair k) (g k)) m) k = (if k \<in> fst ` set m then g k else None)"
  by (induction m) (auto simp: List.map_filter_simps split: option.split)

lemma map_fst_map_filter: "map fst (List.map_filter (\<lambda>k. map_option (Pair k) (g k)) ks) = filter (\<lambda>k. g k \<noteq> None) ks"
  by (induction ks) (auto simp: List.map_filter_simps split: option.split)

lemma distinct_aggregateAll: "distinct (map fst (aggregateAll mj lastFin subs))"
  unfolding aggregateAll_def Let_def map_sort_key by (simp add: map_fst_map_filter)

lemma collect_pairs:
  assumes "collectPairValues subs pair \<noteq> []" and "pair \<noteq> []"
  shows "pair \<in> set (concat (map (\<lambda>(sender, sub). filter (\<lambda>p. p \<noteq> []) (map pe_pair (sb_prices sub))) subs))"
proof -
  obtain a sub where "(a, sub) \<in> set subs" "pair_value pair sub \<noteq> None"
    using assms(1) by (auto simp: collectPairValues_def map_filter_Nil_iff)
  then obtain e where "find (\<lambda>p. pe_pair p = pair \<and> pe_price p \<noteq> [] \<and> price_admitted (pe_price p)) (sb_prices sub) = Some e"
    by (auto simp: pair_value_def)
  then have "e \<in> set (sb_prices sub)" "pe_pair e = pair"
    by (auto simp: find_Some_iff)
  then show ?thesis
    using \<open>(a, sub) \<in> set subs\<close> assms(2) by force
qed

lemma aggregateAll_lookup:
  assumes "pair \<noteq> []"
  shows "map_of (aggregateAll mj lastFin subs) pair = aggregate mj lastFin subs pair"
proof -
  have "map_of (aggregateAll mj lastFin subs) pair = Some q \<longleftrightarrow> aggregate mj lastFin subs pair = Some q" for q
  proof -
    have "map_of (aggregateAll mj lastFin subs) pair = Some q \<longleftrightarrow> (pair, q) \<in> set (aggregateAll mj lastFin subs)"
      by (rule map_of_eq_Some_iff [OF distinct_aggregateAll])
    also have "\<dots> \<longleftrightarrow> aggregate mj lastFin subs pair = Some q"
      using collect_pairs [OF _ assms, of subs] by (fastforce simp: aggregateAll_def Let_def set_map_filter_iff aggregate_Some_iff)
    finally show ?thesis .
  qed
  then show ?thesis
    by (metis not_None_eq)
qed

lemma pair_value_reading:
  assumes "submission_ok pairs sub" and "pair_value pair sub = Some v"
  shows "0 \<le> v_d v \<and> v_d v \<le> 10 ^ 10"
proof -
  obtain e where e: "e \<in> set (sb_prices sub)" "v_d v = bcnum (pe_price e)"
    using assms(2) by (force simp: pair_value_def find_Some_iff)
  then have "canonical_spelling (pe_price e)" "length (pe_price e) \<le> 40" "price_admitted (pe_price e)"
    using assms(1) by (auto simp: submission_ok_def)
  moreover from this(1,2) obtain q where "literal_prefix (pe_price e) = Some q" "bcnum (pe_price e) = q"
    by (rule canonical_reading)
  ultimately have "price_in_range (v_d v)"
    by (simp add: price_admitted_decimal e(2))
  then show ?thesis
    by (auto simp: price_in_range_def intro: less_imp_le less_trans [of 0 "1 / 2 ^ 1075"])
qed

lemma values_ok_collect:
  assumes "\<forall>(a, s) \<in> set subs. submission_ok pairs s"
  shows "values_ok (collectPairValues subs pair)"
  using assms pair_value_reading by (fastforce simp: values_ok_def collectPairValues_def set_map_filter_iff)

lemma noted_has_value:
  assumes "submission_ok pairs sub" and "pair \<in> set (notePairs sub)"
  shows "pair_value pair sub \<noteq> None"
proof -
  obtain e where "e \<in> set (sb_prices sub)" "pe_pair e = pair"
    using assms(2) by (auto simp: notePairs_def)
  moreover from this have "canonical_spelling (pe_price e)" "price_admitted (pe_price e)"
    using assms(1) by (auto simp: submission_ok_def)
  moreover from this have "pe_price e \<noteq> []"
    using canonical_chars(2) by blast
  ultimately show ?thesis
    by (auto simp: pair_value_def find_None_iff)
qed

lemma map_filter_append: "List.map_filter f (xs @ ys) = List.map_filter f xs @ List.map_filter f ys"
  by (simp add: List.map_filter_def)

lemma collect_none: "collectPairValues [] pair = []"
  by (simp add: collectPairValues_def List.map_filter_def)

lemma collect_single: "collectPairValues [(a, s)] pair = (case pair_value pair s of None \<Rightarrow> [] | Some v \<Rightarrow> [v])"
  by (simp add: collectPairValues_def List.map_filter_simps split: option.split)

lemma collect_split:
  "mset (collectPairValues subs pair) = mset (collectPairValues (filter P subs) pair) + mset (collectPairValues (filter (\<lambda>e. \<not> P e) subs) pair)"
proof -
  have "mset subs = mset (filter P subs @ filter (\<lambda>e. \<not> P e) subs)"
    by (simp flip: multiset_partition)
  from map_filter_mset [OF this] show ?thesis
    unfolding collectPairValues_def map_filter_append by simp
qed

text \<open>The references the gate keeps for a pair.\<close>

lemma refs_local:
  "pair \<noteq> [] \<Longrightarrow> map_of (localByPair (proposerExcludedAggregate mj h sender subs)) pair =
     aggregate mj (oh_lastFin h) (filter (\<lambda>e. \<not> proposer_owned h sender e) subs) pair"
  by (simp add: proposerExcludedAggregate_def aggregateAll_lookup Let_def)

lemma refs_middles:
  assumes "pair \<noteq> []" and "aggregate mj (oh_lastFin h) (filter (\<lambda>e. \<not> proposer_owned h sender e) subs) pair = Some local"
  shows "map_of (middlesByPair (proposerExcludedAggregate mj h sender subs)) pair =
    (if \<exists>(a, s) \<in> set subs. proposer_owned h sender (a, s) \<and> pair \<in> set (notePairs s)
     then Option.bind (trimPairValues (collectPairValues (filter (\<lambda>e. \<not> proposer_owned h sender e) subs) pair)) (evenSetMiddles mj (oh_lastFin h) pair)
     else None)"
proof -
  let ?refs = "filter (\<lambda>e. \<not> proposer_owned h sender e) subs"
  let ?noted = "set (concat (map (\<lambda>(a, s). notePairs s) (filter (proposer_owned h sender) subs)))"
  let ?g = "\<lambda>pair. if pair \<in> ?noted then Option.bind (trimPairValues (collectPairValues ?refs pair)) (evenSetMiddles mj (oh_lastFin h) pair) else None"
  have "middlesByPair (proposerExcludedAggregate mj h sender subs) =
      List.map_filter (\<lambda>(k, v). map_option (Pair k) (?g k)) (aggregateAll mj (oh_lastFin h) ?refs)"
    unfolding proposerExcludedAggregate_def Let_def cosign_refs.simps
    by (rule arg_cong [where f = "\<lambda>f. List.map_filter f _"]) (auto simp: fun_eq_iff split: option.split)
  moreover have "pair \<in> fst ` set (aggregateAll mj (oh_lastFin h) ?refs)"
    using aggregateAll_lookup [OF assms(1), of mj "oh_lastFin h" ?refs] assms(2) by (metis domI dom_map_of_conv_image_fst)
  ultimately have "map_of (middlesByPair (proposerExcludedAggregate mj h sender subs)) pair = ?g pair"
    by (simp only: map_of_map_filter if_True)
  moreover have "pair \<in> ?noted \<longleftrightarrow> (\<exists>(a, s) \<in> set subs. proposer_owned h sender (a, s) \<and> pair \<in> set (notePairs s))"
    by auto
  ultimately show ?thesis
    by (simp only:)
qed

lemma middles_of_reference:
  assumes "vs \<noteq> []"
  shows "Option.bind (trimPairValues vs) (evenSetMiddles mj lastFin pair) =
    (if even (length vs)
     then Some [clampToLastFinalized mj lastFin pair (quantized mj vs (length vs div 2 - 1)), clampToLastFinalized mj lastFin pair (quantized mj vs (length vs div 2))]
     else None)"
proof -
  obtain w where w: "trimPairValues vs = Some w" "length w mod 2 = length vs mod 2" "w \<noteq> []"
      "w ! (length w div 2) = sort_key exact_key vs ! (length vs div 2)"
      "even (length vs) \<Longrightarrow> w ! (length w div 2 - 1) = sort_key exact_key vs ! (length vs div 2 - 1)"
    using trim_keeps_middle [OF assms] by metis
  then show ?thesis
    by (auto simp: evenSetMiddles_def quantized_def bcformat_def even_iff_mod_2_eq_zero Let_def)
qed

text \<open>The local reference accepts the leader's price, whatever the leader's own submission was.\<close>

lemma local_reference_accepts:
  assumes lib: "decimal_lib mj" and hist: "history_ok (oh_lastFin h)"
    and subs: "\<forall>(a, s) \<in> set subs. submission_ok pairs s" and one: "length (filter (proposer_owned h sender) subs) \<le> 1"
    and pair: "pair \<noteq> []" and p: "aggregate mj (oh_lastFin h) subs pair = Some p" "0 < p" "plain_price p"
    and local: "aggregate mj (oh_lastFin h) (filter (\<lambda>e. \<not> proposer_owned h sender e) subs) pair = Some local"
  shows "localDeviationRejected mj p local (map_of (middlesByPair (proposerExcludedAggregate mj h sender subs)) pair) ORACLE_DEVIATION_THRESHOLD = None"
proof -
  let ?own = "filter (proposer_owned h sender) subs" and ?refs = "filter (\<lambda>e. \<not> proposer_owned h sender e) subs"
  let ?R = "collectPairValues ?refs pair"
  note split = collect_split [of subs pair "proposer_owned h sender"]
  have ok: "values_ok (collectPairValues subs pair)" "values_ok ?R"
    using subs by (auto intro!: values_ok_collect [where pairs = pairs])
  have ne: "?R \<noteq> []"
    using local by (auto simp: aggregate_Some_iff Let_def)
  have "?own = [] \<or> (\<exists>a s. ?own = [(a, s)])"
    using one by (cases ?own) auto
  then consider "collectPairValues ?own pair = []" | a s v where "?own = [(a, s)]" "pair_value pair s = Some v"
    using collect_single by (metis option.exhaust option.simps(4) collect_none)
  then show ?thesis
  proof cases
    case 1
    have "\<not> (\<exists>(a, s) \<in> set subs. proposer_owned h sender (a, s) \<and> pair \<in> set (notePairs s))"
      using 1 subs noted_has_value by (fastforce simp: collectPairValues_def map_filter_Nil_iff)
    then have mid: "map_of (middlesByPair (proposerExcludedAggregate mj h sender subs)) pair = None"
      unfolding refs_middles [OF pair local] by (rule if_not_P)
    have "local = p"
      using aggregate_values_cong [of subs pair ?refs mj "oh_lastFin h"] split 1 p(1) local by simp
    then show ?thesis
      using exceedsBand_self [OF lib p(3,2)] by (simp add: localDeviationRejected_def mid ORACLE_DEVIATION_THRESHOLD_def)
  next
    case 2
    have step: "mset (collectPairValues subs pair) = add_mset v (mset ?R)"
      using split 2 by (simp add: collect_single)
    have "(a, s) \<in> set subs" "proposer_owned h sender (a, s)"
      using arg_cong [OF 2(1), of set] by auto
    moreover have "pair \<in> set (notePairs s)"
      using collect_pairs [of "[(a, s)]" pair] 2(2) pair by (auto simp: notePairs_def collect_single)
    ultimately have "map_of (middlesByPair (proposerExcludedAggregate mj h sender subs)) pair =
        Option.bind (trimPairValues ?R) (evenSetMiddles mj (oh_lastFin h) pair)"
      unfolding refs_middles [OF pair local] by (intro if_P) blast
    note mid = this [unfolded middles_of_reference [OF ne]]
    show ?thesis
    proof (cases "even (length ?R)")
      case True
      then show ?thesis
        using even_reference_accepts [OF lib hist ok step True refl p(1,2) local]
        by (auto simp: localDeviationRejected_def mid)
    next
      case False
      then show ?thesis
        using odd_reference_accepts [OF lib hist ok(1) step False p(1,2) local]
        by (simp add: localDeviationRejected_def mid)
    qed
  qed
qed

section \<open>Properties\<close>

lemma first_rejected_None: "first_rejected f ps = None \<longleftrightarrow> (\<forall>p \<in> set ps. f p = None)"
  by (induction ps) (auto split: option.split)

lemma chain_canonical: "chain_price_spelling s \<Longrightarrow> canonical_spelling s"
  by (cases "dropWhile is_digit s") (auto simp: chain_price_spelling_def canonical_spelling_def Let_def simp del: dropWhile_eq_Nil_conv)

text \<open>What fixed notation with 8 decimals gives for a price: a chain spelling that reads back as the price.\<close>

definition fixed_text :: "string \<Rightarrow> rat \<Rightarrow> bool" where
  "fixed_text s q \<longleftrightarrow> chain_price_spelling s \<and> length s \<le> PRICE_MAX_CHARS \<and> bcnum s = q"

definition honest_proposal :: "mathjs \<Rightarrow> (rat \<Rightarrow> string) \<Rightarrow> oracle_hub \<Rightarrow> submissions \<Rightarrow> raw_price list" where
  "honest_proposal mj fmt h subs = map (\<lambda>(pair, q). \<lparr>rp_pair = pair, rp_price = JStr (fmt q)\<rparr>) (aggregateAll mj (oh_lastFin h) subs)"

lemma fixed_text_admitted:
  assumes "fixed_text s q" and "price_in_range q"
  shows "canonicalPrice show (JStr s) = Some s" and "price_admitted s"
proof -
  have s: "canonical_spelling s" "length s \<le> 40" "bcnum s = q"
    using assms(1) by (auto simp: fixed_text_def PRICE_MAX_CHARS_def chain_canonical)
  then obtain r where "literal_prefix s = Some r" "bcnum s = r"
    by (metis canonical_reading)
  then show "price_admitted s"
    using assms(2) s(3) by (simp add: price_admitted_decimal)
  show "canonicalPrice show (JStr s) = Some s"
    using s by (simp add: canonicalPrice_def PRICE_MAX_CHARS_def)
qed

text \<open>The proposer's price of one pair passes, on the local reference or on the history.\<close>

lemma honest_price_passes:
  assumes lib: "decimal_lib mj" and hist: "history_ok (oh_lastFin h)"
    and subs: "\<forall>(a, s) \<in> set subs. submission_ok pairs s" and one: "length (filter (proposer_owned h sender) subs) \<le> 1"
    and "oh_pairs h = [] \<or> pair \<in> set (oh_pairs h)" and pair: "pair \<noteq> []" and p: "aggregate mj (oh_lastFin h) subs pair = Some q"
    and q: "price_in_range q" "fixed_text s q"
    and ver: "oh_lastFin h pair \<noteq> None \<or> oh_allowUnverified h \<or> aggregate mj (oh_lastFin h) (filter (\<lambda>e. \<not> proposer_owned h sender e) subs) pair \<noteq> None"
  shows "priceRejected mj show h (proposerExcludedAggregate mj h sender subs) ORACLE_DEVIATION_THRESHOLD \<lparr>rp_pair = pair, rp_price = JStr s\<rparr> = None"
proof -
  let ?refs = "filter (\<lambda>e. \<not> proposer_owned h sender e) subs"
  let ?m = "(let vs = collectPairValues subs pair in if even (length vs) then middle_mean mj vs else quantized mj vs (length vs div 2))"
  have vs: "values_ok (collectPairValues subs pair)" "collectPairValues subs pair \<noteq> []"
    using p subs by (auto simp: aggregate_Some_iff Let_def intro!: values_ok_collect [where pairs = pairs])
  have qm: "q = clampToLastFinalized mj (oh_lastFin h) pair ?m"
    using p by (simp add: aggregate_Some_iff Let_def)
  have "plain_price ?m"
    using middle_mean_plain [OF lib vs] quantized_ok(2) [OF lib vs(1), of "length (collectPairValues subs pair) div 2"] vs(2)
    by (simp add: Let_def)
  then have plain: "plain_price q" "0 < q"
    using clamp_plain [OF lib hist] qm q(1) by (auto simp: price_in_range_def intro: less_trans [of 0 "1 / 2 ^ 1075"])
  have past: "historicalRejected mj h pair q = None" if "oh_lastFin h pair \<noteq> None \<or> oh_allowUnverified h"
    using that clamped_in_history [OF lib hist] hist qm by (auto simp: historicalRejected_def history_ok_def split: option.split)
  have "(case aggregate mj (oh_lastFin h) ?refs pair of
          Some local \<Rightarrow> if 0 < local
            then localDeviationRejected mj q local (map_of (middlesByPair (proposerExcludedAggregate mj h sender subs)) pair) ORACLE_DEVIATION_THRESHOLD
            else historicalRejected mj h pair q
        | None \<Rightarrow> historicalRejected mj h pair q) = None"
  proof (cases "aggregate mj (oh_lastFin h) ?refs pair")
    case None
    then show ?thesis
      using past ver by simp
  next
    case (Some local)
    have "0 < local" if "oh_lastFin h pair = None"
      using Some clamp_none [of "oh_lastFin h" pair mj, OF that] by (auto simp: aggregate_Some_iff Let_def)
    then show ?thesis
      using Some past local_reference_accepts [OF lib hist subs one pair p plain(2,1) Some] by auto
  qed
  then show ?thesis
    using q assms(5) fixed_text_admitted [OF q(2,1)]
    by (cases "aggregate mj (oh_lastFin h) ?refs pair") (auto simp: priceRejected_def refs_local [OF pair] fixed_text_def)
qed

text \<open>
  C19: an honest leader is co-signed. A follower that holds the submissions the leader
  aggregated and the same finalized history, and can verify each pair against another
  submission or that history, accepts the leader's proposal in full: leaving the leader's own
  submission out of the reference, re-deriving the median of the remaining set (odd or even),
  the clamp and the coverage check never reject it. The text of a price is what the decimal
  library prints for it.
\<close>

theorem honest_leader_cosigned:
  assumes "decimal_lib mj" and "history_ok (oh_lastFin h)"
    and "\<forall>(a, s) \<in> set subs. submission_ok pairs s" and "length (filter (proposer_owned h sender) subs) \<le> 1"
    and "oh_pairs h = [] \<or> set pairs \<subseteq> set (oh_pairs h)" and "aggregateAll mj (oh_lastFin h) subs \<noteq> []"
    and "\<forall>(pair, q) \<in> set (aggregateAll mj (oh_lastFin h) subs). price_in_range q \<and> fixed_text (fmt q) q"
    and "\<forall>(pair, q) \<in> set (aggregateAll mj (oh_lastFin h) subs). oh_lastFin h pair \<noteq> None \<or> oh_allowUnverified h \<or>
      aggregate mj (oh_lastFin h) (filter (\<lambda>e. \<not> proposer_owned h sender e) subs) pair \<noteq> None"
  shows "coSignGateRejects mj show h sender (honest_proposal mj fmt h subs) subs = None"
proof -
  let ?refs = "proposerExcludedAggregate mj h sender subs"
  have "priceRejected mj show h ?refs ORACLE_DEVIATION_THRESHOLD \<lparr>rp_pair = pair, rp_price = JStr (fmt q)\<rparr> = None"
    if pq: "(pair, q) \<in> set (aggregateAll mj (oh_lastFin h) subs)" for pair q
  proof -
    have "pair \<in> set (concat (map (\<lambda>(sender, sub). filter (\<lambda>p. p \<noteq> []) (map pe_pair (sb_prices sub))) subs))"
        "aggregate mj (oh_lastFin h) subs pair = Some q"
      using pq by (auto simp: aggregateAll_def Let_def set_map_filter_iff)
    moreover from this(1) have "pair \<noteq> []" "pair \<in> set pairs"
      using assms(3) by (fastforce simp: submission_ok_def)+
    ultimately show ?thesis
      using assms pq by (intro honest_price_passes [where pairs = pairs]) auto
  qed
  then have "first_rejected (priceRejected mj show h ?refs ORACLE_DEVIATION_THRESHOLD) (honest_proposal mj fmt h subs) = None"
    by (auto simp: first_rejected_None honest_proposal_def)
  moreover have "coverageRejects mj h (honest_proposal mj fmt h subs) subs (localByPair ?refs) = None"
    using assms(6) by (force simp: coverageRejects_def honest_proposal_def find_None_iff)
  ultimately show ?thesis
    by (simp add: coSignGateRejects_def)
qed

text \<open>A round of three hubs in which the follower leaves out the leader's submission.\<close>

definition demo_fmt :: "rat \<Rightarrow> string" where
  "demo_fmt q = ''101''"

lemma demo_honest:
  "aggregateAll exact_lib (\<lambda>p. None) demo_round = [(''BTC/USD'', 101)]"
proof -
  have "sort_key exact_key (collectPairValues demo_round ''BTC/USD'') ! 1 = \<lparr>v_s = ''101'', v_d = 101\<rparr>"
    unfolding demo_values by (simp add: exact_key_def)
  then have "aggregate exact_lib (\<lambda>p. None) demo_round ''BTC/USD'' = Some 101"
    using fix_exact [OF exact_lib_ok, of 101 8] plain_int [of 101]
    by (simp add: aggregate_Some_iff demo_values quantized_def clamp_none plain_price_def)
  then show ?thesis
    by (simp add: aggregateAll_def demo_round_def demo_sub_def js_set_of_def js_add_def List.map_filter_simps)
qed

lemma demo_round_ok: "\<forall>(a, s) \<in> set demo_round. submission_ok [''BTC/USD''] s"
  by (simp add: demo_round_def demo_sub_def submission_ok_def demo_readings canonical_spelling_def is_digit_def)

lemma demo_fmt_ok: "price_in_range 101" "fixed_text (demo_fmt 101) 101"
  by (simp_all add: price_in_range_def fixed_text_def demo_fmt_def chain_price_spelling_def PRICE_MAX_CHARS_def demo_readings is_digit_def)

definition trusting_hub :: oracle_hub where
  "trusting_hub = \<lparr>oh_registry = Some [(''a'', ''ka''), (''b'', ''kb''), (''c'', ''kc'')], oh_addr = ''a'', oh_identity = Some ''ka'',
     oh_pairs = [''BTC/USD''], oh_allowUnverified = True, oh_lastFin = (\<lambda>p. None)\<rparr>"

theorem honest_leader_cosigned_witness:
  "coSignGateRejects exact_lib (\<lambda>q. []) trusting_hub ''b'' (honest_proposal exact_lib demo_fmt trusting_hub demo_round) demo_round = None"
proof (rule honest_leader_cosigned [OF exact_lib_ok _ demo_round_ok])
  have lf: "oh_lastFin trusting_hub = (\<lambda>p. None)"
    by (simp add: trusting_hub_def)
  show "history_ok (oh_lastFin trusting_hub)"
    by (simp add: lf history_ok_def)
  show "length (filter (proposer_owned trusting_hub ''b'') demo_round) \<le> 1"
    by (simp add: demo_round_def demo_sub_def proposer_owned_def oracleSenderPubkey_def submission_key_def trusting_hub_def to_lower_def lower_char_def)
  show "oh_pairs trusting_hub = [] \<or> set [''BTC/USD''] \<subseteq> set (oh_pairs trusting_hub)"
    by (simp add: trusting_hub_def)
  show "aggregateAll exact_lib (oh_lastFin trusting_hub) demo_round \<noteq> []"
    by (simp add: lf demo_honest)
  show "\<forall>(pair, q) \<in> set (aggregateAll exact_lib (oh_lastFin trusting_hub) demo_round). price_in_range q \<and> fixed_text (demo_fmt q) q"
    by (simp add: lf demo_honest demo_fmt_ok)
  show "\<forall>(pair, q) \<in> set (aggregateAll exact_lib (oh_lastFin trusting_hub) demo_round). oh_lastFin trusting_hub pair \<noteq> None \<or> oh_allowUnverified trusting_hub \<or>
      aggregate exact_lib (oh_lastFin trusting_hub) (filter (\<lambda>e. \<not> proposer_owned trusting_hub ''b'' e) demo_round) pair \<noteq> None"
    by (simp add: trusting_hub_def split_def)
qed

definition lone_hub :: oracle_hub where
  "lone_hub = \<lparr>oh_registry = Some [(''hub-a'', ''0A'')], oh_addr = ''hub-a'', oh_identity = Some ''0A'', oh_pairs = [''BTC/USD''],
     oh_allowUnverified = False, oh_lastFin = (\<lambda>p. None)\<rparr>"

text \<open>
  C37: the exclusion of the proposer's own submission is by registry only. A validator the chain
  attributes but no registry row binds submits a price under one address and proposes it from
  another, both signed with its one proven key: its own submission stays in the reference set
  and the follower, which priced the pair nowhere else, accepts the value.
\<close>

theorem proposer_is_its_own_reference:
  "coSignGateRejects exact_lib (\<lambda>q. []) lone_hub ''addr-b'' [\<lparr>rp_pair = ''BTC/USD'', rp_price = JStr ''9999''\<rparr>]
     [(''addr-a'', demo_sub ''kb'' ''9999'')] = None \<and>
   coSignGateRejects exact_lib (\<lambda>q. []) lone_hub ''addr-b'' [\<lparr>rp_pair = ''BTC/USD'', rp_price = JStr ''9999''\<rparr>]
     [(''addr-b'', demo_sub ''kb'' ''9999'')] = Some (''BTC/USD'', UnverifiableNewPair)"
proof -
  have v: "collectPairValues [(a, demo_sub k ''9999'')] ''BTC/USD'' = [\<lparr>v_s = ''9999'', v_d = 9999\<rparr>]" for a k
    by (simp add: collect_single pair_value_def demo_sub_def demo_readings)
  have c: "canonicalPrice show (JStr ''9999'') = Some ''9999''" "chain_price_spelling ''9999''" for "show"
    by (simp_all add: canonicalPrice_def PRICE_MAX_CHARS_def canonical_spelling_def chain_price_spelling_def is_digit_def)
  have plain: "plain_price 9999"
    using plain_int [of 9999] by simp
  have agg: "aggregate exact_lib (\<lambda>p. None) [(''addr-a'', demo_sub ''kb'' ''9999'')] ''BTC/USD'' = Some 9999"
    using fix_exact [OF exact_lib_ok, of 9999 8] plain
    by (simp add: aggregate_Some_iff v clamp_none quantized_def plain_price_def)
  have own: "\<not> proposer_owned lone_hub ''addr-b'' (''addr-a'', demo_sub ''kb'' ''9999'')"
      "proposer_owned lone_hub ''addr-b'' (''addr-b'', demo_sub ''kb'' ''9999'')"
    by (simp_all add: proposer_owned_def oracleSenderPubkey_def lone_hub_def)
  let ?a = "[(''addr-a'', demo_sub ''kb'' ''9999'')]" and ?b = "[(''addr-b'', demo_sub ''kb'' ''9999'')]"
  let ?refs = "proposerExcludedAggregate exact_lib lone_hub ''addr-b'' ?a"
  have lf: "oh_lastFin lone_hub = (\<lambda>p. None)" "oh_pairs lone_hub = [''BTC/USD'']" "\<not> oh_allowUnverified lone_hub"
    by (simp_all add: lone_hub_def)
  have "map_of (localByPair ?refs) ''BTC/USD'' = Some 9999" "map_of (middlesByPair ?refs) ''BTC/USD'' = None"
    using own(1) agg by (simp_all add: refs_local refs_middles lf)
  then have "first_rejected (priceRejected exact_lib (\<lambda>q. []) lone_hub ?refs ORACLE_DEVIATION_THRESHOLD) [\<lparr>rp_pair = ''BTC/USD'', rp_price = JStr ''9999''\<rparr>] = None"
    using c demo_readings exceedsBand_self [OF exact_lib_ok plain, of ORACLE_DEVIATION_THRESHOLD]
    by (simp add: priceRejected_def localDeviationRejected_def lf ORACLE_DEVIATION_THRESHOLD_def)
  moreover have "set (map fst (localByPair ?refs)) \<subseteq> {''BTC/USD''}"
    using own(1) by (auto simp: proposerExcludedAggregate_def aggregateAll_def demo_sub_def set_map_filter_iff Let_def)
  then have "coverageRejects exact_lib lone_hub [\<lparr>rp_pair = ''BTC/USD'', rp_price = JStr ''9999''\<rparr>] ?a (localByPair ?refs) = None"
    by (auto simp: coverageRejects_def find_None_iff)
  moreover have "map_of (localByPair (proposerExcludedAggregate exact_lib lone_hub ''addr-b'' ?b)) ''BTC/USD'' = None"
    using own(2) by (simp add: refs_local aggregate_def collect_none)
  then have "priceRejected exact_lib (\<lambda>q. []) lone_hub (proposerExcludedAggregate exact_lib lone_hub ''addr-b'' ?b) ORACLE_DEVIATION_THRESHOLD
      \<lparr>rp_pair = ''BTC/USD'', rp_price = JStr ''9999''\<rparr> = Some UnverifiableNewPair"
    using c demo_readings by (simp add: priceRejected_def historicalRejected_def lf)
  ultimately show ?thesis
    by (simp add: coSignGateRejects_def)
qed

text \<open>
  one camp cannot disagree with itself. When the two middle values of an even set carry at
  most 18 decimals and quantize to the same positive price, the median is that price and the
  even-split gate publishes it, limited to the per-round change.
\<close>

theorem unanimous_middles_publish:
  assumes lib: "decimal_lib mj" and vs: "vs = collectPairValues subs pair" and "vs \<noteq> []" and "even (length vs)" and "values_ok vs"
    and grid: "\<forall>i < length vs. int_valued (v_d (sort_key exact_key vs ! i) * 10 ^ 18)"
    and same: "quantized mj vs (length vs div 2 - 1) = quantized mj vs (length vs div 2)" and "0 < quantized mj vs (length vs div 2)"
  shows "aggregate mj lastFin subs pair = Some (clampToLastFinalized mj lastFin pair (quantized mj vs (length vs div 2)))"
proof -
  define k where "k = length vs div 2"
  have k: "k - 1 < length vs" "k < length vs" "k - 1 \<le> k"
    using assms(3) by (auto simp: k_def less_imp_diff_less)
  let ?a = "v_d (sort_key exact_key vs ! (k - 1))" and ?b = "v_d (sort_key exact_key vs ! k)"
  have small: "\<bar>?a\<bar> < 10 ^ 40" "\<bar>?b\<bar> < 10 ^ 40"
    using sorted_value_ok [OF assms(5) k(1)] sorted_value_ok [OF assms(5) k(2)] by (auto intro: le_less_trans)
  have "mean_at mj ?a ?a = quantized mj vs (k - 1)" "mean_at mj ?b ?b = quantized mj vs k"
    using mean_at_same [OF lib _ small(1)] mean_at_same [OF lib _ small(2)] grid k(1,2) by (simp_all only: quantized_def)
  moreover have "mean_at mj ?a ?a \<le> mean_at mj ?a ?b" "mean_at mj ?a ?b \<le> mean_at mj ?b ?b"
    using sorted_values_nth [OF k(3,2)] by (auto intro: mean_at_mono [OF lib])
  ultimately have mm: "middle_mean mj vs = quantized mj vs k"
    using same by (simp add: middle_mean_def k_def)
  have pos: "0 < quantized mj vs k" and q: "quantized mj vs (k - 1) = quantized mj vs k"
    using assms(8) same by (simp_all add: k_def)
  have "\<not> exceedsBand mj (quantized mj vs k) (quantized mj vs k) ORACLE_DEVIATION_THRESHOLD 18"
    using quantized_ok(2) [OF lib assms(5) k(2)] pos by (intro exceedsBand_self [OF lib]) (simp_all add: ORACLE_DEVIATION_THRESHOLD_def)
  then show ?thesis
    using assms(3,4) pos q by (simp add: aggregate_Some_iff Let_def mm flip: vs k_def)
qed

definition twin_round :: submissions where
  "twin_round = [(''a'', demo_sub ''ka'' ''101''), (''b'', demo_sub ''kb'' ''101'')]"

lemma twin_values: "collectPairValues twin_round ''BTC/USD'' = [\<lparr>v_s = ''101'', v_d = 101\<rparr>, \<lparr>v_s = ''101'', v_d = 101\<rparr>]"
  by (simp add: collectPairValues_def twin_round_def demo_sub_def pair_value_def demo_readings List.map_filter_simps)

theorem unanimous_middles_publish_witness:
  "aggregate exact_lib (\<lambda>p. None) twin_round ''BTC/USD'' = Some 101"
proof -
  let ?vs = "collectPairValues twin_round ''BTC/USD''"
  have s: "sort_key exact_key ?vs = ?vs"
    by (simp add: twin_values)
  have q: "quantized exact_lib ?vs 0 = 101" "quantized exact_lib ?vs 1 = 101"
    using fix_exact [OF exact_lib_ok, of 101 8] plain_int [of 101] unfolding quantized_def s by (simp_all add: twin_values plain_price_def)
  have grid: "\<forall>i < length ?vs. int_valued (v_d (sort_key exact_key ?vs ! i) * 10 ^ 18)"
    unfolding s by (auto simp: twin_values less_Suc_eq)
  have two: "length ?vs div 2 = 1" "length ?vs div 2 - 1 = 0"
    by (simp_all add: twin_values)
  show ?thesis
    using unanimous_middles_publish [OF exact_lib_ok refl _ _ _ grid, where lastFin = "\<lambda>p. None", unfolded two] q
    by (simp add: twin_values values_ok_def clamp_none)
qed

definition fine_price :: string where
  "fine_price = ''0.0000000149999999999''"

text \<open>
  past 18 decimals the median is rounded twice. Two hubs submit the same price with 19
  decimals; both quantize to one ulp, the mean rounds to 18 decimals first and to 8 after
  that, lands on two ulps, and the even-split gate drops the pair every submitter agrees on.
\<close>

theorem unanimous_past_18_decimals_dropped:
  "aggregate exact_lib (\<lambda>p. None) [(''a'', demo_sub ''ka'' fine_price), (''b'', demo_sub ''kb'' fine_price)] ''BTC/USD'' = None \<and>
   bcformat exact_lib (bcnum fine_price) 8 = 1 / 10 ^ 8"
proof -
  have fine: "bcnum fine_price = 149999999999 / 10 ^ 19" "price_admitted fine_price" "fine_price \<noteq> []"
    by (simp_all add: fine_price_def bcnum_def price_admitted_decimal price_in_range_def literal_prefix_def exponent_prefix_def text_eval)
  define v where "v = \<lparr>v_s = fine_price, v_d = 149999999999 / 10 ^ 19\<rparr>"
  have d: "v_d v = 149999999999 / 10 ^ 19"
    by (simp add: v_def)
  let ?subs = "[(''a'', demo_sub ''ka'' fine_price), (''b'', demo_sub ''kb'' fine_price)]"
  have vs: "collectPairValues ?subs ''BTC/USD'' = [v, v]"
    by (simp add: collectPairValues_def demo_sub_def pair_value_def fine List.map_filter_simps v_def)
  have s: "sort_key exact_key [v, v] = [v, v]"
    by simp
  have q: "quantized exact_lib [v, v] i = 1 / 10 ^ 8" if "i < 2" for i
    using that unfolding quantized_def s by (auto simp: d less_2_cases_iff exact_lib_def half_up_def floor_eq_iff)
  have "\<lfloor>300000000003 / 10 :: rat\<rfloor> = 30000000000" "\<lfloor>15000000000 + 1 / 2 :: rat\<rfloor> = 15000000000"
    by (simp_all add: floor_eq_iff)
  then have m: "middle_mean exact_lib [v, v] = 2 / 10 ^ 8"
    unfolding middle_mean_def s by (simp add: d mean_at_def bcformat_def bcdiv_def bcadd_def exact_lib_def half_up_def)
  have "exceedsBand exact_lib (1 / 10 ^ 8) (2 / 10 ^ 8) ORACLE_DEVIATION_THRESHOLD 18"
    using dev_exact [OF exact_lib_ok, of "1 / 10 ^ 8" "2 / 10 ^ 8"] half_up_exact [of "1 / 2" 18]
    by (simp add: exceedsBand_def exact_lib_def ORACLE_DEVIATION_THRESHOLD_def)
  then have "exceedsBand exact_lib (quantized exact_lib [v, v] 0) (middle_mean exact_lib [v, v]) ORACLE_DEVIATION_THRESHOLD 18"
    unfolding m q [OF zero_less_numeral] .
  then have "aggregate exact_lib (\<lambda>p. None) ?subs ''BTC/USD'' \<noteq> Some p" for p
    by (simp add: aggregate_Some_iff vs Let_def)
  then show ?thesis
    by (auto simp: bcformat_def fine exact_lib_def half_up_def floor_eq_iff)
qed

end
