(* ===== verification/Json_Text.thy ===== *)
theory Json_Text
  imports Prelude
begin

text \<open>
  The text forms of JavaScript values the wire formats use: decimal numbers, \<open>String(v)\<close>,
  \<open>JSON.stringify\<close> and \<open>JSON.parse\<close>, and the UTF-8 check of a byte buffer. A text is its UTF-8
  bytes, so a \<open>Buffer\<close> and a string have the same type; a lone surrogate, which has no UTF-8 form,
  is read from an escape as its generalised three bytes. The text of a number that is not an
  integer below \<open>10 ^ 21\<close> is the argument \<open>show\<close>. The result is the round trip: parsing what was printed
  gives the value back.
\<close>

section \<open>Decimal numbers\<close>

fun show_nat :: "nat \<Rightarrow> string" where
  "show_nat n = (if n < 10 then [char_of (48 + n)] else show_nat (n div 10) @ [char_of (48 + n mod 10)])"

declare show_nat.simps [simp del]

definition show_int :: "int \<Rightarrow> string" where
  "show_int k = (if k < 0 then CHR ''-'' # show_nat (nat (- k)) else show_nat (nat k))"

definition num_text :: "(rat \<Rightarrow> string) \<Rightarrow> rat \<Rightarrow> string" where
  "num_text show q = (if int_valued q \<and> \<bar>q\<bar> < 10 ^ 21 then show_int \<lfloor>q\<rfloor> else show q)"

definition join :: "string \<Rightarrow> string list \<Rightarrow> string" where
  "join sep xs = (case xs of [] \<Rightarrow> [] | y # ys \<Rightarrow> y @ concat (map (\<lambda>z. sep @ z) ys))"

lemma join_simps [simp]: "join sep [] = []" "join sep [x] = x" "join sep (x # y # ys) = x @ sep @ join sep (y # ys)"
  by (simp_all add: join_def)

text \<open>\<open>String(v)\<close>.\<close>

fun js_String :: "(rat \<Rightarrow> string) \<Rightarrow> jsval \<Rightarrow> string" where
  "js_String show JUndef = ''undefined''"
| "js_String show JNull = ''null''"
| "js_String show (JBool b) = (if b then ''true'' else ''false'')"
| "js_String show (JNum x) = (case x of Fin q \<Rightarrow> num_text show q | PInf \<Rightarrow> ''Infinity'' | NInf \<Rightarrow> ''-Infinity'' | NaN \<Rightarrow> ''NaN'')"
| "js_String show (JStr s) = s"
| "js_String show (JArr xs) = join '','' (map (\<lambda>x. if x = JUndef \<or> x = JNull then [] else js_String show x) xs)"
| "js_String show (JObj ms) = ''[object Object]''"

section \<open>JSON.stringify\<close>

definition hex_digit :: "nat \<Rightarrow> char" where
  "hex_digit n = (if n < 10 then char_of (48 + n) else char_of (87 + n))"

definition escape_char :: "char \<Rightarrow> string" where
  "escape_char c =
     (if c = CHR 0x22 then [CHR 0x5C, CHR 0x22]
      else if c = CHR 0x5C then [CHR 0x5C, CHR 0x5C]
      else if c = CHR 0x08 then [CHR 0x5C, CHR ''b'']
      else if c = CHR 0x09 then [CHR 0x5C, CHR ''t'']
      else if c = CHR 0x0A then [CHR 0x5C, CHR ''n'']
      else if c = CHR 0x0C then [CHR 0x5C, CHR ''f'']
      else if c = CHR 0x0D then [CHR 0x5C, CHR ''r'']
      else if (of_char c :: nat) < 32
      then [CHR 0x5C, CHR ''u'', CHR ''0'', CHR ''0'', hex_digit (of_char c div 16), hex_digit (of_char c mod 16)]
      else [c])"

definition quote :: "string \<Rightarrow> string" where
  "quote s = CHR 0x22 # concat (map escape_char s) @ [CHR 0x22]"

fun stringify :: "(rat \<Rightarrow> string) \<Rightarrow> jsval \<Rightarrow> string" where
  "stringify show JUndef = ''null''"
| "stringify show JNull = ''null''"
| "stringify show (JBool b) = (if b then ''true'' else ''false'')"
| "stringify show (JNum x) = (case x of Fin q \<Rightarrow> num_text show q | _ \<Rightarrow> ''null'')"
| "stringify show (JStr s) = quote s"
| "stringify show (JArr xs) = ''['' @ join '','' (map (\<lambda>x. stringify show x) xs) @ '']''"
| "stringify show (JObj ms) =
     ''{'' @ join '','' (map (\<lambda>(k, v). quote k @ '':'' @ stringify show v) (filter (\<lambda>(k, v). v \<noteq> JUndef) ms)) @ ''}''"

section \<open>JSON.parse\<close>

definition json_space :: "char \<Rightarrow> bool" where
  "json_space c \<longleftrightarrow> c \<in> {CHR 0x09, CHR 0x0A, CHR 0x0D, CHR 0x20}"

definition skip_ws :: "string \<Rightarrow> string" where
  "skip_ws s = dropWhile json_space s"

text \<open>The bytes of a code point.\<close>

definition utf8_bytes :: "nat \<Rightarrow> string" where
  "utf8_bytes n =
     (if n < 128 then [char_of n]
      else if n < 2048 then [char_of (192 + n div 64), char_of (128 + n mod 64)]
      else if n < 65536 then [char_of (224 + n div 4096), char_of (128 + n div 64 mod 64), char_of (128 + n mod 64)]
      else [char_of (240 + n div 262144), char_of (128 + n div 4096 mod 64), char_of (128 + n div 64 mod 64), char_of (128 + n mod 64)])"

definition hex4 :: "string \<Rightarrow> (nat \<times> string) option" where
  "hex4 s =
     (case s of
        a # b # c # d # r \<Rightarrow>
          (case (hex_val a, hex_val b, hex_val c, hex_val d) of
             (Some w, Some x, Some y, Some z) \<Rightarrow> Some (4096 * w + 256 * x + 16 * y + z, r)
           | _ \<Rightarrow> None)
      | _ \<Rightarrow> None)"

text \<open>A high surrogate escape joins a low one that follows it.\<close>

definition join_surrogate :: "nat \<Rightarrow> string \<Rightarrow> string \<times> string" where
  "join_surrogate n r =
     (case r of
        c # d # r2 \<Rightarrow>
          if c = CHR 0x5C \<and> d = CHR ''u''
          then (case hex4 r2 of
              Some (m, r3) \<Rightarrow>
                if 56320 \<le> m \<and> m \<le> 57343 then (utf8_bytes (65536 + (n - 55296) * 1024 + (m - 56320)), r3)
                else (utf8_bytes n, r)
            | None \<Rightarrow> (utf8_bytes n, r))
          else (utf8_bytes n, r)
      | _ \<Rightarrow> (utf8_bytes n, r))"

definition unescape :: "string \<Rightarrow> (string \<times> string) option" where
  "unescape s =
     (case s of
        [] \<Rightarrow> None
      | e # r \<Rightarrow>
          if e = CHR 0x22 \<or> e = CHR 0x5C \<or> e = CHR ''/'' then Some ([e], r)
          else if e = CHR ''b'' then Some ([CHR 0x08], r)
          else if e = CHR ''t'' then Some ([CHR 0x09], r)
          else if e = CHR ''n'' then Some ([CHR 0x0A], r)
          else if e = CHR ''f'' then Some ([CHR 0x0C], r)
          else if e = CHR ''r'' then Some ([CHR 0x0D], r)
          else if e = CHR ''u''
          then (case hex4 r of
              None \<Rightarrow> None
            | Some (n, r1) \<Rightarrow> Some (if 55296 \<le> n \<and> n < 56320 then join_surrogate n r1 else (utf8_bytes n, r1)))
          else None)"

lemma hex4_shorter: "hex4 s = Some (n, r) \<Longrightarrow> length r < length s"
  by (auto simp: hex4_def split: list.splits option.splits)

lemma join_surrogate_shorter: "join_surrogate n r = (b, t) \<Longrightarrow> length t \<le> length r"
  by (auto simp: join_surrogate_def split: list.splits option.splits if_splits dest!: hex4_shorter)

lemma unescape_shorter: "unescape s = Some (b, r) \<Longrightarrow> length r < length s"
  by (auto simp: unescape_def split: list.splits option.splits if_splits dest!: hex4_shorter join_surrogate_shorter)

text \<open>The rest of a string literal after its opening quote.\<close>

function p_string :: "string \<Rightarrow> (string \<times> string) option" where
  "p_string s =
     (case s of
        [] \<Rightarrow> None
      | c # cs \<Rightarrow>
          if c = CHR 0x22 then Some ([], cs)
          else if c = CHR 0x5C
          then (case unescape cs of
              None \<Rightarrow> None
            | Some (b, r) \<Rightarrow> map_option (\<lambda>(t, u). (b @ t, u)) (p_string r))
          else if (of_char c :: nat) < 32 then None
          else map_option (\<lambda>(t, u). (c # t, u)) (p_string cs))"
  by pat_completeness auto
termination
  by (relation "measure length") (auto dest: unescape_shorter)

declare p_string.simps [simp del]

definition p_exponent :: "string \<Rightarrow> (int \<times> string) option" where
  "p_exponent s =
     (case s of
        c # cs \<Rightarrow>
          if c = CHR ''e'' \<or> c = CHR ''E''
          then (let (neg, u) = split_sign cs; ds = takeWhile is_digit u
                in if ds = [] then None
                   else Some ((if neg then - 1 else 1) * int (digits_val 0 ds), dropWhile is_digit u))
          else Some (0, s)
      | [] \<Rightarrow> Some (0, s))"

definition p_number :: "string \<Rightarrow> (jsval \<times> string) option" where
  "p_number s =
     (let neg = (case s of c # cs \<Rightarrow> c = CHR ''-'' | [] \<Rightarrow> False);
          u = (if neg then tl s else s);
          ip = takeWhile is_digit u; r = dropWhile is_digit u
      in if ip = [] \<or> hd ip = CHR ''0'' \<and> 1 < length ip then None
         else (let point = (case r of c # cs \<Rightarrow> c = CHR ''.'' | [] \<Rightarrow> False);
                   fp = (if point then takeWhile is_digit (tl r) else []);
                   r2 = (if point then dropWhile is_digit (tl r) else r)
               in if point \<and> fp = [] then None
                  else (case p_exponent r2 of
                      None \<Rightarrow> None
                    | Some (e, r3) \<Rightarrow>
                        Some (JNum (clip_double ((if neg then - 1 else 1) * of_nat (digits_val 0 (ip @ fp)) * pow10 (e - int (length fp)))), r3))))"

definition p_atom :: "string \<Rightarrow> (jsval \<times> string) option" where
  "p_atom s =
     (if take 4 s = ''true'' then Some (JBool True, drop 4 s)
      else if take 5 s = ''false'' then Some (JBool False, drop 5 s)
      else if take 4 s = ''null'' then Some (JNull, drop 4 s)
      else p_number s)"

text \<open>Values, elements and members. The fuel is the nesting depth plus the number of separators still allowed.\<close>

fun p_value :: "nat \<Rightarrow> string \<Rightarrow> (jsval \<times> string) option"
  and p_elems :: "nat \<Rightarrow> string \<Rightarrow> jsval list \<Rightarrow> (jsval \<times> string) option"
  and p_members :: "nat \<Rightarrow> string \<Rightarrow> (string \<times> jsval) list \<Rightarrow> (jsval \<times> string) option" where
  "p_value 0 s = None"
| "p_value (Suc n) s =
     (case skip_ws s of
        [] \<Rightarrow> None
      | c # cs \<Rightarrow>
          if c = CHR ''{''
          then (case skip_ws cs of
              [] \<Rightarrow> None
            | d # r \<Rightarrow> if d = CHR ''}'' then Some (JObj [], r) else p_members n cs [])
          else if c = CHR ''[''
          then (case skip_ws cs of
              [] \<Rightarrow> None
            | d # r \<Rightarrow> if d = CHR '']'' then Some (JArr [], r) else p_elems n cs [])
          else if c = CHR 0x22 then map_option (\<lambda>(t, r). (JStr t, r)) (p_string cs)
          else p_atom (c # cs))"
| "p_elems 0 s acc = None"
| "p_elems (Suc n) s acc =
     (case p_value n s of
        None \<Rightarrow> None
      | Some (v, r) \<Rightarrow>
          (case skip_ws r of
             [] \<Rightarrow> None
           | d # r' \<Rightarrow>
               if d = CHR '','' then p_elems n r' (acc @ [v])
               else if d = CHR '']'' then Some (JArr (acc @ [v]), r')
               else None))"
| "p_members 0 s acc = None"
| "p_members (Suc n) s acc =
     (case skip_ws s of
        [] \<Rightarrow> None
      | q # cs \<Rightarrow>
          if q \<noteq> CHR 0x22 then None
          else (case p_string cs of
              None \<Rightarrow> None
            | Some (k, r) \<Rightarrow>
                (case skip_ws r of
                   [] \<Rightarrow> None
                 | col # r1 \<Rightarrow>
                     if col \<noteq> CHR '':'' then None
                     else (case p_value n r1 of
                         None \<Rightarrow> None
                       | Some (v, r2) \<Rightarrow>
                           (case skip_ws r2 of
                              [] \<Rightarrow> None
                            | d # r3 \<Rightarrow>
                                if d = CHR '','' then p_members n r3 (js_put k v acc)
                                else if d = CHR ''}'' then Some (JObj (js_put k v acc), r3)
                                else None)))))"

definition JSON_parse :: "string \<Rightarrow> jsval option" where
  "JSON_parse s =
     (case p_value (2 * length s + 1) s of
        Some (v, r) \<Rightarrow> if skip_ws r = [] then Some v else None
      | None \<Rightarrow> None)"

section \<open>UTF-8\<close>

text \<open>
  What may follow a lead byte: the number of continuation bytes and the range of the first one
  (no overlong form, no surrogate, nothing past U+10FFFF).
\<close>

definition utf8_lead :: "nat \<Rightarrow> (nat \<times> nat \<times> nat) option" where
  "utf8_lead n =
     (if n < 128 then Some (0, 128, 191)
      else if 194 \<le> n \<and> n \<le> 223 then Some (1, 128, 191)
      else if n = 224 then Some (2, 160, 191)
      else if n = 237 then Some (2, 128, 159)
      else if 225 \<le> n \<and> n \<le> 239 then Some (2, 128, 191)
      else if n = 240 then Some (3, 144, 191)
      else if 241 \<le> n \<and> n \<le> 243 then Some (3, 128, 191)
      else if n = 244 then Some (3, 128, 143)
      else None)"

fun utf8_run :: "nat \<Rightarrow> nat \<Rightarrow> nat \<Rightarrow> string \<Rightarrow> bool" where
  "utf8_run k lo hi [] = (k = 0)"
| "utf8_run k lo hi (c # cs) =
     (if k = 0 then (case utf8_lead (of_char c) of None \<Rightarrow> False | Some (k', lo', hi') \<Rightarrow> utf8_run k' lo' hi' cs)
      else lo \<le> of_char c \<and> of_char c \<le> hi \<and> utf8_run (k - 1) 128 191 cs)"

definition utf8_valid :: "string \<Rightarrow> bool" where
  "utf8_valid s = utf8_run 0 128 191 s"

text \<open>The UTF-16 length of a UTF-8 text (\<open>String.length\<close>).\<close>

definition text_length :: "string \<Rightarrow> nat" where
  "text_length s = (\<Sum>c \<leftarrow> s. let n = (of_char c :: nat) in if 128 \<le> n \<and> n < 192 then 0 else if 240 \<le> n then 2 else 1)"

section \<open>Reading printed numbers\<close>

lemma digits_val_snoc: "digits_val acc (xs @ [c]) = 10 * digits_val acc xs + digit_val c"
  by (induction xs arbitrary: acc) auto

lemma digit_char: "k < 10 \<Longrightarrow> is_digit (char_of (48 + k)) \<and> digit_val (char_of (48 + k)) = k"
  by (simp add: is_digit_def digit_val_def)

lemma show_nat_digits: "list_all is_digit (show_nat n)" "show_nat n \<noteq> []" "digits_val 0 (show_nat n) = n"
  by (induction n rule: show_nat.induct, subst show_nat.simps, simp add: digit_char digits_val_snoc)+

lemma show_nat_hd: "hd (show_nat n) = CHR ''0'' \<longleftrightarrow> n = 0"
proof (induction n rule: show_nat.induct)
  case (1 n)
  have "char_of (48 + n) = CHR ''0'' \<longleftrightarrow> n = 0" if "n < 10"
    using that by (simp add: char_of_eq_iff take_bit_eq_mod)
  then show ?case
    using 1 show_nat_digits(2) [of "n div 10"] by (subst show_nat.simps) (auto simp: hd_append)
qed

lemma show_nat_length: "n < 10 \<Longrightarrow> length (show_nat n) = 1"
  by (subst show_nat.simps) simp

lemma takeWhile_digits: "list_all is_digit ds \<Longrightarrow> (rest \<noteq> [] \<Longrightarrow> \<not> is_digit (hd rest)) \<Longrightarrow>
  takeWhile is_digit (ds @ rest) = ds \<and> dropWhile is_digit (ds @ rest) = rest"
  by (cases rest) (auto simp: list_all_iff takeWhile_append dropWhile_append)

text \<open>What may follow a value inside an array, an object or at the end.\<close>

definition delimited :: "string \<Rightarrow> bool" where
  "delimited rest \<longleftrightarrow> rest = [] \<or> hd rest \<in> {CHR '','', CHR '']'', CHR ''}''}"

lemma delimitedD:
  assumes "delimited rest" "rest \<noteq> []"
  shows "\<not> is_digit (hd rest)" "hd rest \<noteq> CHR ''.''" "hd rest \<noteq> CHR ''e''" "hd rest \<noteq> CHR ''E''"
  using assms by (auto simp: delimited_def is_digit_def)

lemma delimited_simps [simp]: "delimited []" "delimited (CHR '','' # s)" "delimited (CHR '']'' # s)" "delimited (CHR ''}'' # s)"
  by (simp_all add: delimited_def)

lemma p_exponent_none: "delimited rest \<Longrightarrow> p_exponent rest = Some (0, rest)"
  by (cases rest) (auto simp: p_exponent_def dest: delimitedD)

lemma clip_small: "\<bar>k\<bar> < 10 ^ 21 \<Longrightarrow> clip_double (of_int k) = Fin (of_int k)"
proof -
  assume k: "\<bar>k\<bar> < 10 ^ 21"
  have "(10 :: rat) ^ 21 < 2 ^ 1024"
    by simp
  moreover have "\<bar>of_int k :: rat\<bar> < 10 ^ 21"
    using k by (metis of_int_abs of_int_less_iff of_int_numeral of_int_power)
  ultimately have "\<bar>of_int k :: rat\<bar> < 2 ^ 1024"
    by (rule less_trans [rotated])
  then have "of_int k < (2 :: rat) ^ 1024" "- (2 ^ 1024) < (of_int k :: rat)"
    by (auto simp only: abs_less_iff minus_less_iff)
  then have "\<not> (2 :: rat) ^ 1024 \<le> of_int k" "\<not> of_int k \<le> - ((2 :: rat) ^ 1024)"
    by (simp_all only: not_le)
  then show ?thesis
    by (simp only: clip_double_def if_False)
qed

lemma p_number_nat:
  assumes "delimited rest" and s: "s = (if neg then CHR ''-'' # show_nat n else show_nat n) @ rest"
  shows "p_number s = Some (JNum (clip_double ((if neg then - 1 else 1) * of_nat n)), rest)"
proof -
  have not_minus: "(case show_nat n @ rest of c # cs \<Rightarrow> c = CHR ''-'' | [] \<Rightarrow> False) = False"
    using show_nat_digits(1,2) [of n] by (cases "show_nat n") (auto simp: is_digit_def)
  have neg: "(case s of c # cs \<Rightarrow> c = CHR ''-'' | [] \<Rightarrow> False) = neg"
    using not_minus by (simp add: s)
  have tw: "takeWhile is_digit (show_nat n @ rest) = show_nat n" "dropWhile is_digit (show_nat n @ rest) = rest"
    using takeWhile_digits [OF show_nat_digits(1), of rest n] delimitedD(1) [OF assms(1)] by auto
  have nopoint: "(case rest of c # cs \<Rightarrow> c = CHR ''.'' | [] \<Rightarrow> False) = False"
    using delimitedD(2) [OF assms(1)] by (cases rest) auto
  have lead: "\<not> (hd (show_nat n) = CHR ''0'' \<and> 1 < length (show_nat n))"
    using show_nat_hd [of n] show_nat_length [of 0] by auto
  have u: "(if neg then tl s else s) = show_nat n @ rest"
    by (simp add: s)
  show ?thesis
    unfolding p_number_def Let_def neg u tw nopoint using show_nat_digits(2,3) [of n] lead p_exponent_none [OF assms(1)]
    by (simp add: pow10_def)
qed

lemma p_number_int:
  assumes "delimited rest" and "\<bar>k\<bar> < 10 ^ 21"
  shows "p_number (show_int k @ rest) = Some (JNum (Fin (of_int k)), rest)"
proof -
  have "(if k < 0 then - 1 else 1) * of_nat (nat \<bar>k\<bar>) = (of_int k :: rat)"
    by simp
  moreover have "show_int k = (if k < 0 then CHR ''-'' # show_nat (nat \<bar>k\<bar>) else show_nat (nat \<bar>k\<bar>))"
    by (simp add: show_int_def)
  ultimately show ?thesis
    using p_number_nat [OF assms(1), of "show_int k @ rest" "k < 0" "nat \<bar>k\<bar>"] clip_small [OF assms(2)] by simp
qed

lemma show_int_start: "\<exists>c cs. show_int k = c # cs \<and> (c = CHR ''-'' \<or> is_digit c)"
  using show_nat_digits(1,2) [of "nat k"] by (cases "show_nat (nat k)") (auto simp: show_int_def)

section \<open>Reading printed strings\<close>

lemma hex_val_digit: "n < 16 \<Longrightarrow> hex_val (hex_digit n) = Some n"
  by (auto simp: hex_val_def hex_digit_def)

lemma p_string_quote [simp]: "p_string (CHR 0x22 # t) = Some ([], t)"
  by (subst p_string.simps) simp

lemma p_string_escape: "p_string (escape_char c @ t) = map_option (\<lambda>(x, u). (c # x, u)) (p_string t)"
proof -
  have ctrl: "p_string (CHR 0x5C # CHR ''u'' # CHR ''0'' # CHR ''0'' # hex_digit (of_char c div 16) # hex_digit (of_char c mod 16) # t) =
      map_option (\<lambda>(x, u). (c # x, u)) (p_string t)" if c: "(of_char c :: nat) < 32"
  proof -
    have "hex4 (CHR ''0'' # CHR ''0'' # hex_digit (of_char c div 16) # hex_digit (of_char c mod 16) # t) = Some (of_char c, t)"
      using c by (simp add: hex4_def hex_val_digit hex_val_def [of "CHR ''0''"])
    then show ?thesis
      using c by (subst p_string.simps) (simp add: unescape_def utf8_bytes_def)
  qed
  have esc: "p_string (CHR 0x5C # e # t) = map_option (\<lambda>(x, u). (d # x, u)) (p_string t)"
    if "(e, d) \<in> {(CHR 0x22, CHR 0x22), (CHR 0x5C, CHR 0x5C), (CHR ''b'', CHR 0x08), (CHR ''t'', CHR 0x09), (CHR ''n'', CHR 0x0A),
      (CHR ''f'', CHR 0x0C), (CHR ''r'', CHR 0x0D)}" for e d
    using that by (subst p_string.simps) (auto simp: unescape_def)
  have plain: "p_string (c # t) = map_option (\<lambda>(x, u). (c # x, u)) (p_string t)"
    if "c \<noteq> CHR 0x22" "c \<noteq> CHR 0x5C" "\<not> (of_char c :: nat) < 32"
    using that by (subst p_string.simps) simp
  show ?thesis
    unfolding escape_char_def using ctrl plain by (simp add: esc)
qed

lemma p_string_quoted: "p_string (concat (map escape_char s) @ CHR 0x22 # rest) = Some (s, rest)"
  by (induction s) (simp_all add: p_string_escape)

section \<open>The round trip\<close>

lemma skip_ws_start [simp]: "\<not> json_space c \<Longrightarrow> skip_ws (c # cs) = c # cs"
  by (simp add: skip_ws_def)

lemma json_space_punct [simp]: "\<not> json_space CHR ''{''" "\<not> json_space CHR ''}''" "\<not> json_space CHR ''[''" "\<not> json_space CHR '']''"
    "\<not> json_space CHR '',''" "\<not> json_space CHR '':''" "\<not> json_space CHR 0x22"
  by (simp_all add: json_space_def)

text \<open>The values the round trip is about: what \<open>JSON.parse\<close> can return, with the numbers that print as integers.\<close>

fun json_ok :: "jsval \<Rightarrow> bool" where
  "json_ok JUndef = False"
| "json_ok JNull = True"
| "json_ok (JBool b) = True"
| "json_ok (JNum x) = (case x of Fin q \<Rightarrow> int_valued q \<and> \<bar>q\<bar> < 10 ^ 21 | _ \<Rightarrow> False)"
| "json_ok (JStr s) = True"
| "json_ok (JArr xs) = list_all (\<lambda>x. json_ok x) xs"
| "json_ok (JObj ms) = (distinct (map fst ms) \<and> list_all (\<lambda>(k, v). json_ok v) ms)"

definition members_text :: "(rat \<Rightarrow> string) \<Rightarrow> (string \<times> jsval) list \<Rightarrow> string list" where
  "members_text show ms = map (\<lambda>(k, v). quote k @ '':'' @ stringify show v) ms"

lemma stringify_start: "json_ok v \<Longrightarrow> \<exists>c cs. stringify show v = c # cs \<and> \<not> json_space c \<and> c \<noteq> CHR '']'' \<and> c \<noteq> CHR ''}''"
proof (induction v)
  case (JNum x)
  then obtain q where q: "x = Fin q" "int_valued q" "\<bar>q\<bar> < 10 ^ 21"
    by (cases x) auto
  then show ?case
    using show_int_start [of "\<lfloor>q\<rfloor>"] by (auto simp: num_text_def json_space_def is_digit_def)
qed (auto simp: quote_def json_space_def)

lemma p_value_int:
  assumes "delimited rest" "int_valued q" "\<bar>q\<bar> < 10 ^ 21"
  shows "p_value (Suc n) (num_text show q @ rest) = Some (JNum (Fin q), rest)"
proof -
  obtain k where k: "q = of_int k"
    using assms(2) by (rule int_valuedE)
  then have abs: "\<bar>k\<bar> < 10 ^ 21"
    using assms(3) by (metis of_int_abs of_int_less_iff of_int_numeral of_int_power)
  obtain c cs where c: "show_int k = c # cs" "c = CHR ''-'' \<or> is_digit c"
    using show_int_start by blast
  then have "\<not> json_space c" "c \<noteq> CHR ''{''" "c \<noteq> CHR ''[''" "c \<noteq> CHR 0x22" "c \<noteq> CHR ''t''" "c \<noteq> CHR ''f''" "c \<noteq> CHR ''n''"
    by (auto simp: json_space_def is_digit_def)
  then have "p_value (Suc n) (show_int k @ rest) = p_number (show_int k @ rest)"
    by (simp add: c p_atom_def)
  then show ?thesis
    using p_number_int [OF assms(1) abs] assms(2,3) by (simp add: num_text_def k)
qed

definition reads :: "(rat \<Rightarrow> string) \<Rightarrow> jsval \<Rightarrow> bool" where
  "reads show v \<longleftrightarrow> (\<forall>n rest. delimited rest \<longrightarrow> 2 * length (stringify show v) + 1 \<le> n \<longrightarrow> p_value n (stringify show v @ rest) = Some (v, rest))"

lemma readsD: "reads show v \<Longrightarrow> delimited rest \<Longrightarrow> 2 * length (stringify show v) + 1 \<le> n \<Longrightarrow> p_value n (stringify show v @ rest) = Some (v, rest)"
  by (simp add: reads_def)

lemma p_elems_read:
  assumes "ys \<noteq> []" "\<forall>y \<in> set ys. reads show y" "2 * length (join '','' (map (stringify show) ys)) + 2 \<le> m"
  shows "p_elems m (join '','' (map (stringify show) ys) @ CHR '']'' # rest) acc = Some (JArr (acc @ ys), rest)"
  using assms
proof (induction ys arbitrary: m acc)
  case (Cons y ys)
  then obtain k where m: "m = Suc k"
    by (cases m) auto
  show ?case
  proof (cases ys)
    case Nil
    then show ?thesis
      using Cons.prems readsD [of "show" y "CHR '']'' # rest" k] by (simp add: m)
  next
    case ys: (Cons z zs)
    let ?rest = "CHR '','' # join '','' (map (stringify show) ys) @ CHR '']'' # rest"
    have "p_value k (stringify show y @ ?rest) = Some (y, ?rest)"
      using Cons.prems ys by (intro readsD) (auto simp: m)
    then show ?thesis
      using ys Cons.prems Cons.IH [of k "acc @ [y]"] by (simp add: m)
  qed
qed simp

lemma p_members_read:
  assumes "ms \<noteq> []" "\<forall>(k, v) \<in> set ms. reads show v" "2 * length (join '','' (members_text show ms)) + 2 \<le> m"
    "distinct (map fst (acc @ ms))"
  shows "p_members m (join '','' (members_text show ms) @ CHR ''}'' # rest) acc = Some (JObj (acc @ ms), rest)"
  using assms
proof (induction ms arbitrary: m acc)
  case (Cons e ms)
  then obtain j where m: "m = Suc j"
    by (cases m) auto
  obtain k v where e: "e = (k, v)"
    by (cases e)
  have put: "js_put k v acc = acc @ [(k, v)]"
    using Cons.prems(4) by (intro js_put_new) (auto simp: e map_of_eq_None_iff)
  show ?case
  proof (cases ms)
    case Nil
    then have "p_value j (stringify show v @ CHR ''}'' # rest) = Some (v, CHR ''}'' # rest)"
      using Cons.prems by (intro readsD) (auto simp: m e members_text_def)
    then show ?thesis
      using Nil put by (simp add: m e members_text_def quote_def p_string_quoted)
  next
    case ms: (Cons z zs)
    let ?rest = "CHR '','' # join '','' (members_text show ms) @ CHR ''}'' # rest"
    have "p_value j (stringify show v @ ?rest) = Some (v, ?rest)"
      using Cons.prems ms by (intro readsD) (auto simp: m e members_text_def)
    moreover have "join '','' (members_text show (e # ms)) = quote k @ '':'' @ stringify show v @ '','' @ join '','' (members_text show ms)"
      using ms by (simp add: e members_text_def)
    ultimately show ?thesis
      using ms Cons.prems Cons.IH [of j "acc @ [(k, v)]"] put by (simp add: m e quote_def p_string_quoted)
  qed
qed simp

lemma join_start: "xs \<noteq> [] \<Longrightarrow> hd xs = c # cs \<Longrightarrow> \<exists>t. join sep xs = c # t"
  by (cases xs) (auto simp: join_def)

lemma p_value_arr:
  assumes "\<forall>x \<in> set xs. reads show x \<and> json_ok x" "2 * length (stringify show (JArr xs)) + 1 \<le> n"
  shows "p_value n (stringify show (JArr xs) @ rest) = Some (JArr xs, rest)"
proof (cases xs)
  case Nil
  then show ?thesis
    using assms by (cases n) auto
next
  case (Cons x xs')
  then obtain c cs where c: "stringify show x = c # cs" "\<not> json_space c" "c \<noteq> CHR '']''"
    using assms stringify_start [of x "show"] by auto
  then obtain t where "join '','' (map (stringify show) xs) = c # t"
    using join_start [of "map (stringify show) xs" c cs] Cons by auto
  then show ?thesis
    using assms p_elems_read [of xs "show" "n - 1" rest "[]"] Cons c by (cases n) auto
qed

lemma p_value_obj:
  assumes "\<forall>(k, v) \<in> set ms. reads show v \<and> json_ok v" "distinct (map fst ms)" "2 * length (stringify show (JObj ms)) + 1 \<le> n"
  shows "p_value n (stringify show (JObj ms) @ rest) = Some (JObj ms, rest)"
proof (cases ms)
  case Nil
  then show ?thesis
    using assms by (cases n) auto
next
  case (Cons e ms')
  have "filter (\<lambda>(k, v). v \<noteq> JUndef) ms = ms"
    using assms(1) by (intro filter_True) auto
  then have txt_obj: "stringify show (JObj ms) = ''{'' @ join '','' (members_text show ms) @ ''}''"
    by (simp add: members_text_def)
  have "\<exists>t. join '','' (members_text show ms) = CHR 0x22 # t"
    using Cons by (cases e; cases ms') (auto simp: members_text_def quote_def)
  then obtain t where "join '','' (members_text show ms) = CHR 0x22 # t"
    by blast
  moreover have "p_members (n - 1) (join '','' (members_text show ms) @ CHR ''}'' # rest) [] = Some (JObj ms, rest)"
    unfolding One_nat_def
  proof (rule p_members_read [where acc = "[]", simplified])
    show "ms \<noteq> []" "\<forall>(k, v) \<in> set ms. reads show v" "distinct (map fst ms)"
      using Cons assms(1,2) by auto
    have "2 * length (''{'' @ join '','' (members_text show ms) @ ''}'') + 1 \<le> n"
      using assms(3) by (simp only: txt_obj)
    then show "Suc (Suc (2 * length (join '','' (members_text show ms)))) \<le> n - Suc 0"
      by simp
  qed
  ultimately show ?thesis
    using assms(3) by (cases n) (auto simp: txt_obj simp del: stringify.simps)
qed

lemma p_value_words:
  "0 < n \<Longrightarrow> p_value n (CHR ''t'' # CHR ''r'' # CHR ''u'' # CHR ''e'' # rest) = Some (JBool True, rest)"
  "0 < n \<Longrightarrow> p_value n (CHR ''f'' # CHR ''a'' # CHR ''l'' # CHR ''s'' # CHR ''e'' # rest) = Some (JBool False, rest)"
  "0 < n \<Longrightarrow> p_value n (CHR ''n'' # CHR ''u'' # CHR ''l'' # CHR ''l'' # rest) = Some (JNull, rest)"
  by (cases n; simp add: p_atom_def json_space_def)+

lemma json_reads: "json_ok v \<Longrightarrow> reads show v"
proof (induction v)
  case (JNum x)
  then obtain q where q: "x = Fin q" "int_valued q" "\<bar>q\<bar> < 10 ^ 21"
    by (cases x) auto
  then have "p_value (Suc n) (num_text show q @ rest) = Some (JNum (Fin q), rest)" if "delimited rest" for n rest
    using that by (intro p_value_int)
  then show ?case
    by (auto simp: reads_def q(1) gr0_conv_Suc Suc_le_eq elim!: less_natE simp del: p_value.simps)
next
  case (JArr xs)
  then have "\<forall>x \<in> set xs. reads show x \<and> json_ok x"
    by (auto simp: list_all_iff)
  then show ?case
    using p_value_arr unfolding reads_def [of _ "JArr xs"] by blast
next
  case (JObj ms)
  then have "\<forall>(k, v) \<in> set ms. reads show v \<and> json_ok v" "distinct (map fst ms)"
    by (auto simp: list_all_iff)
  then show ?case
    using p_value_obj unfolding reads_def [of _ "JObj ms"] by blast
next
  case (JStr s)
  have "p_value n (quote s @ rest) = Some (JStr s, rest)" if "0 < n" for n rest
    using that by (cases n) (simp_all add: quote_def p_string_quoted)
  then show ?case
    by (simp add: reads_def)
qed (auto simp: reads_def p_value_words)

text \<open>Parsing what was printed gives the value back.\<close>

lemma JSON_roundtrip: "json_ok v \<Longrightarrow> JSON_parse (stringify show v) = Some v"
  using readsD [OF json_reads, of v "[]" "show" "2 * length (stringify show v) + 1"]
  by (simp add: JSON_parse_def skip_ws_def del: p_value.simps)

section \<open>The fuel is enough\<close>

lemma skip_ws_le: "length (skip_ws s) \<le> length s"
  by (simp add: skip_ws_def length_dropWhile_le)

lemma skip_ws_Cons: "skip_ws s = c # cs \<Longrightarrow> length cs < length s"
  using skip_ws_le [of s] by simp

lemma p_string_shorter: "p_string s = Some (t, r) \<Longrightarrow> length r < length s"
proof (induction s arbitrary: t rule: length_induct)
  case (1 s)
  then obtain c cs where s: "s = c # cs"
    by (cases s) (simp_all add: p_string.simps [of "[]"])
  have step: "length r < length u" if "p_string u = Some (t', r)" "length u < length s" for u t'
    using 1 that by blast
  have esc: "length r < length s" if "unescape cs = Some (b, u)" "p_string u = Some (t', r)" for b u t'
    using unescape_shorter [OF that(1)] step [OF that(2)] by (simp add: s)
  have plain: "length r < length s" if "p_string cs = Some (t', r)" for t'
    using step [OF that] by (simp add: s)
  show ?case
    using "1.prems" esc plain unfolding s by (subst (asm) p_string.simps) (auto simp: s split: if_splits option.splits)
qed

lemma dropWhile_takeWhile: "takeWhile P s \<noteq> [] \<Longrightarrow> length (dropWhile P s) < length s"
  by (cases s) (auto simp: le_imp_less_Suc length_dropWhile_le split: if_splits)

lemma split_sign_le: "length (snd (split_sign s)) \<le> length s"
  by (induction s rule: split_sign.induct) auto

lemma p_exponent_le: "p_exponent s = Some (e, r) \<Longrightarrow> length r \<le> length s"
proof (cases s)
  case (Cons c cs)
  have "length (dropWhile is_digit (snd (split_sign cs))) \<le> length cs"
    using split_sign_le [of cs] length_dropWhile_le [of is_digit "snd (split_sign cs)"] by linarith
  moreover assume "p_exponent s = Some (e, r)"
  ultimately show ?thesis
    by (auto simp: p_exponent_def Cons Let_def split_def split: if_splits)
qed (auto simp: p_exponent_def)

lemma p_number_shorter: "p_number s = Some (v, r) \<Longrightarrow> length r < length s"
proof -
  define u where "u = (if (case s of c # cs \<Rightarrow> c = CHR ''-'' | [] \<Rightarrow> False) then tl s else s)"
  define t where "t = dropWhile is_digit u"
  define t2 where "t2 = (if (case t of c # cs \<Rightarrow> c = CHR ''.'' | [] \<Rightarrow> False) then dropWhile is_digit (tl t) else t)"
  assume "p_number s = Some (v, r)"
  then have u: "takeWhile is_digit u \<noteq> []" and "\<exists>e. p_exponent t2 = Some (e, r)"
    by (auto simp: p_number_def Let_def u_def [symmetric] t_def [symmetric] t2_def split: if_splits option.splits)
  then have "length r \<le> length t2"
    using p_exponent_le by blast
  also have "\<dots> \<le> length t"
    by (cases t) (auto simp: t2_def le_Suc_eq length_dropWhile_le)
  also have "\<dots> < length u"
    using dropWhile_takeWhile [OF u] by (simp add: t_def)
  also have "\<dots> \<le> length s"
    by (simp add: u_def)
  finally show ?thesis .
qed

lemma p_atom_shorter: "p_atom s = Some (v, r) \<Longrightarrow> length r < length s"
  by (cases s) (auto simp: p_atom_def less_Suc_eq_le split: if_splits dest: p_number_shorter)

lemma p_shorter:
  "p_value n s = Some (v, r) \<Longrightarrow> length r < length s"
  "p_elems n s acc = Some (v, r) \<Longrightarrow> length r < length s"
  "p_members n s acc' = Some (v, r) \<Longrightarrow> length r < length s"
proof (induction n s and n s acc and n s acc' arbitrary: v r and v r and v r rule: p_value_p_elems_p_members.induct)
  case (2 n s)
  then show ?case
    by (fastforce split: list.splits if_splits dest!: skip_ws_Cons p_string_shorter p_atom_shorter)
next
  case (4 n s acc)
  then show ?case
    by (fastforce split: list.splits if_splits option.splits dest!: skip_ws_Cons)
next
  case (6 n s acc)
  then show ?case
    by (fastforce split: list.splits if_splits option.splits dest!: skip_ws_Cons p_string_shorter)
qed simp_all

lemma p_fuel:
  "2 * length s + 1 \<le> n \<Longrightarrow> n \<le> m \<Longrightarrow> p_value m s = p_value n s"
  "2 * length s + 2 \<le> n \<Longrightarrow> n \<le> m \<Longrightarrow> p_elems m s acc = p_elems n s acc"
  "2 * length s + 2 \<le> n \<Longrightarrow> n \<le> m \<Longrightarrow> p_members m s acc' = p_members n s acc'"
proof (induction n s and n s acc and n s acc' arbitrary: m and m and m rule: p_value_p_elems_p_members.induct)
  case (2 n s)
  obtain k where m: "m = Suc k" "n \<le> k"
    using "2.prems" by (cases m) auto
  have len: "2 * length cs + 2 \<le> n" if "skip_ws s = c # cs" for c cs
    using skip_ws_Cons [OF that] "2.prems" by simp
  have "p_members k cs [] = p_members n cs []" if "skip_ws s = CHR ''{'' # cs" "skip_ws cs = d # r" "d \<noteq> CHR ''}''" for cs d r
    using "2.IH"(1) [OF that(1) refl that(2,3) len [OF that(1)] m(2)] .
  moreover have "p_elems k cs [] = p_elems n cs []" if "skip_ws s = CHR ''['' # cs" "skip_ws cs = d # r" "d \<noteq> CHR '']''" for cs d r
    using "2.IH"(2) [OF that(1) _ refl that(2,3) len [OF that(1)] m(2)] by simp
  ultimately show ?case
    by (simp add: m(1) split: list.split)
next
  case (4 n s acc)
  obtain k where m: "m = Suc k" "n \<le> k"
    using "4.prems" by (cases m) auto
  have v: "p_value k s = p_value n s"
    using "4.IH"(1) [of k] "4.prems" m by simp
  have "p_elems k r' (acc @ [w]) = p_elems n r' (acc @ [w])" if "p_value n s = Some (w, r)" "skip_ws r = CHR '','' # r'" for w r r'
    using "4.IH"(2) [OF that(1) refl that(2) refl, of k] p_shorter(1) [OF that(1)] skip_ws_Cons [OF that(2)] "4.prems" m by simp
  then show ?case
    by (auto simp: m v split: option.split list.split)
next
  case (6 n s acc)
  obtain k where m: "m = Suc k" "n \<le> k"
    using "6.prems" by (cases m) auto
  have v: "p_value k r1 = p_value n r1" if "skip_ws s = CHR 0x22 # cs" "p_string cs = Some (kk, r)" "skip_ws r = CHR '':'' # r1" for cs kk r r1
    using "6.IH"(1) [OF that(1) _ that(2) refl that(3), of k] skip_ws_Cons [OF that(1)] p_string_shorter [OF that(2)] skip_ws_Cons [OF that(3)]
      "6.prems" m by simp
  have "p_members k r3 (js_put kk w acc) = p_members n r3 (js_put kk w acc)"
    if "skip_ws s = CHR 0x22 # cs" "p_string cs = Some (kk, r)" "skip_ws r = CHR '':'' # r1" "p_value n r1 = Some (w, r2)"
      "skip_ws r2 = CHR '','' # r3" for cs kk r r1 w r2 r3
    using "6.IH"(2) [OF that(1) _ that(2) refl that(3) _ that(4) refl that(5) refl, of k] skip_ws_Cons [OF that(1)] p_string_shorter [OF that(2)]
      skip_ws_Cons [OF that(3)] p_shorter(1) [OF that(4)] skip_ws_Cons [OF that(5)] "6.prems" m by simp
  with v show ?case
    by (auto simp: m split: option.split list.split)
qed simp_all

text \<open>More fuel than \<open>JSON.parse\<close> is given never changes its answer.\<close>

lemma JSON_parse_fuel: "2 * length s + 1 \<le> n \<Longrightarrow>
  JSON_parse s = (case p_value n s of Some (v, r) \<Rightarrow> if skip_ws r = [] then Some v else None | None \<Rightarrow> None)"
  unfolding JSON_parse_def using p_fuel(1) [of s "2 * length s + 1" n] by simp

section \<open>Printed text is UTF-8\<close>

lemma utf8_run_0: "utf8_run 0 lo hi s = utf8_valid s"
  by (cases s) (simp_all add: utf8_valid_def)

lemma utf8_valid_Nil [simp]: "utf8_valid []"
  by (simp add: utf8_valid_def)

lemma utf8_run_append: "utf8_run k lo hi s \<Longrightarrow> utf8_valid t \<Longrightarrow> utf8_run k lo hi (s @ t)"
  by (induction s arbitrary: k lo hi) (auto simp: utf8_run_0 split: option.splits if_splits)

lemma utf8_valid_append: "utf8_valid s \<Longrightarrow> utf8_valid t \<Longrightarrow> utf8_valid (s @ t)"
  unfolding utf8_valid_def [of s] utf8_valid_def [of "s @ t"] by (rule utf8_run_append)

lemma utf8_valid_ascii: "\<forall>c \<in> set s. (of_char c :: nat) < 128 \<Longrightarrow> utf8_valid s"
  unfolding utf8_valid_def by (induction s) (simp_all add: utf8_lead_def)

lemma utf8_valid_concat: "\<forall>s \<in> set xs. utf8_valid s \<Longrightarrow> utf8_valid (concat xs)"
  by (induction xs) (auto intro: utf8_valid_append)

lemma utf8_valid_join: "\<forall>s \<in> set xs. utf8_valid s \<Longrightarrow> utf8_valid sep \<Longrightarrow> utf8_valid (join sep xs)"
  by (cases xs) (auto simp: join_def intro!: utf8_valid_append utf8_valid_concat)

text \<open>Only ASCII characters are escaped, and by ASCII characters.\<close>

lemma escape_char_high: "128 \<le> (of_char c :: nat) \<Longrightarrow> escape_char c = [c]"
proof -
  assume c: "128 \<le> (of_char c :: nat)"
  then have "c \<noteq> d" if "(of_char d :: nat) < 128" for d
    using that by auto
  then have "c \<notin> {CHR 0x22, CHR 0x5C, CHR 0x08, CHR 0x09, CHR 0x0A, CHR 0x0C, CHR 0x0D}"
    by simp
  then show ?thesis
    using c by (simp add: escape_char_def)
qed

lemma hex_digit_ascii: "n < 16 \<Longrightarrow> (of_char (hex_digit n) :: nat) < 128"
  by (simp add: hex_digit_def)

lemma escape_char_ascii: "(of_char c :: nat) < 128 \<Longrightarrow> \<forall>d \<in> set (escape_char c). (of_char d :: nat) < 128"
proof -
  assume "(of_char c :: nat) < 128"
  moreover have "(of_char c :: nat) < 32 \<Longrightarrow> (of_char (hex_digit (of_char c div 16)) :: nat) < 128"
      "(of_char (hex_digit (of_char c mod 16)) :: nat) < 128"
    by (intro hex_digit_ascii; linarith)+
  ultimately show ?thesis
    unfolding escape_char_def by (simp split: if_split)
qed

lemma utf8_lead_range: "utf8_lead n = Some (k, lo, hi) \<Longrightarrow> 128 \<le> lo"
  by (auto simp: utf8_lead_def split: if_splits)

lemma utf8_run_escape: "utf8_run k lo hi s \<Longrightarrow> 128 \<le> lo \<Longrightarrow> utf8_run k lo hi (concat (map escape_char s))"
proof (induction s arbitrary: k lo hi)
  case (Cons c s)
  show ?case
  proof (cases "(of_char c :: nat) < 128")
    case True
    then have k: "k = 0" "utf8_run 0 128 191 s"
      using Cons.prems by (auto simp: utf8_lead_def split: if_splits)
    then have "utf8_valid (concat (map escape_char s))"
      unfolding utf8_valid_def by (intro Cons.IH) simp_all
    then show ?thesis
      using utf8_valid_append [OF utf8_valid_ascii [OF escape_char_ascii [OF True]]] by (simp add: k(1) utf8_run_0)
  next
    case False
    then show ?thesis
      using Cons.prems Cons.IH utf8_lead_range by (auto simp: escape_char_high split: option.splits if_splits)
  qed
qed simp

lemma utf8_valid_quote: "utf8_valid s \<Longrightarrow> utf8_valid (quote s)"
proof -
  assume "utf8_valid s"
  then have "utf8_valid (concat (map escape_char s))"
    using utf8_run_escape by (simp add: utf8_valid_def)
  then have "utf8_valid ([CHR 0x22] @ concat (map escape_char s) @ [CHR 0x22])"
    by (intro utf8_valid_append) (simp_all add: utf8_valid_ascii)
  then show ?thesis
    by (simp add: quote_def)
qed

lemma show_nat_ascii: "c \<in> set (show_nat n) \<Longrightarrow> (of_char c :: nat) < 128"
  using show_nat_digits(1) [of n] by (fastforce simp: list_all_iff is_digit_def)

lemma utf8_valid_int: "utf8_valid (show_int k)"
  by (intro utf8_valid_ascii) (auto simp: show_int_def show_nat_ascii)

text \<open>Every text a value holds.\<close>

fun texts_valid :: "jsval \<Rightarrow> bool" where
  "texts_valid (JStr s) = utf8_valid s"
| "texts_valid (JArr xs) = list_all (\<lambda>x. texts_valid x) xs"
| "texts_valid (JObj ms) = list_all (\<lambda>(k, v). utf8_valid k \<and> texts_valid v) ms"
| "texts_valid v = True"

lemma utf8_valid_stringify: "json_ok v \<Longrightarrow> texts_valid v \<Longrightarrow> utf8_valid (stringify show v)"
proof (induction v)
  case (JNum x)
  then show ?case
    by (cases x) (auto simp: num_text_def utf8_valid_int)
next
  case (JStr s)
  then show ?case
    by (simp add: utf8_valid_quote)
next
  case (JArr xs)
  then have "utf8_valid (''['' @ join '','' (map (stringify show) xs) @ '']'')"
    by (intro utf8_valid_append utf8_valid_join) (auto simp: list_all_iff utf8_valid_ascii)
  then show ?case
    by simp
next
  case (JObj ms)
  have "utf8_valid (quote k @ '':'' @ stringify show v)" if kv: "(k, v) \<in> set ms" for k v
  proof -
    have "utf8_valid k" "utf8_valid (stringify show v)"
      using JObj.IH [OF kv] JObj.prems kv by (auto simp: list_all_iff)
    then show ?thesis
      by (intro utf8_valid_append utf8_valid_quote) (simp_all add: utf8_valid_ascii)
  qed
  then have "utf8_valid (''{'' @ join '','' (map (\<lambda>(k, v). quote k @ '':'' @ stringify show v) (filter (\<lambda>(k, v). v \<noteq> JUndef) ms)) @ ''}'')"
    by (intro utf8_valid_append utf8_valid_join) (auto simp: utf8_valid_ascii)
  then show ?case
    by simp
qed (auto simp: utf8_valid_ascii)

end
