(* ===== verification/Admission.thy ===== *)
theory Admission
  imports Json_Text Gate_Registry
begin

text \<open>
  Admission by height: every mirrored row carries, per chain that reads it, the height from which
  it may be read. This theory models the shared gate (\<open>src/consensus/gates/mirror_admission_gate.js\<close>),
  the per-chain margins (\<open>mirror_admission_margin_gate.js\<close>), the hub's stamp and follower
  bound (\<open>src/lib/admission_height.js\<close>) and the freshness of the tips they start from
  (\<open>src/hub/chain_tips.js\<close>). The committed tables are constants; the regtest entries of the
  activation tables come from the environment, so a table is an argument. Chain codes are ASCII texts,
  heights rationals: sums of a height and a margin are exact in doubles below \<open>2 ^ 53\<close>, the range
  a tip is held to. Members of an admission map are read by name, so their order carries no meaning.
\<close>

section \<open>Committed rows (shared\_rows\_2.js, shared\_rows\_5.js)\<close>

definition ADMIT_MARGIN_BLOCKS :: "(string \<times> rat) list" where
  "ADMIT_MARGIN_BLOCKS = [(''default'', 4), (''attestation_responses'', 1), (''oracle_prices'', 1), (''anchor_reward_attestations'', 144)]"

definition ADMIT_MIN_FUTURE_BLOCKS :: rat where "ADMIT_MIN_FUTURE_BLOCKS = 1"

definition ADMIT_MAX_FUTURE_BLOCKS :: "(string \<times> rat) list" where
  "ADMIT_MAX_FUTURE_BLOCKS = [(''BTC'', 6), (''LTC'', 24), (''DOGE'', 60), (''default'', 6)]"

definition MIRROR_ADMISSION_ACTIVATION :: "(string \<times> jsval) list" where
  "MIRROR_ADMISSION_ACTIVATION =
     [(''BTC:mainnet'', JNull), (''LTC:mainnet'', JNull), (''DOGE:mainnet'', JNull), (''BTC:testnet'', JNum (Fin 154234)),
      (''LTC:testnet'', JNum (Fin 4903068)), (''DOGE:testnet'', JNum (Fin 67936053)), (''BTC:regtest'', JNull),
      (''LTC:regtest'', JNull), (''DOGE:regtest'', JNull)]"

definition MIRROR_ADMISSION_CONSUMER_ACTIVATION :: "(string \<times> jsval) list" where
  "MIRROR_ADMISSION_CONSUMER_ACTIVATION =
     [(''BTC:mainnet'', JNull), (''LTC:mainnet'', JNull), (''DOGE:mainnet'', JNull), (''BTC:testnet'', JNum (Fin 154291)),
      (''LTC:testnet'', JNum (Fin 4903291)), (''DOGE:testnet'', JNum (Fin 67936888)), (''BTC:regtest'', JNull),
      (''LTC:regtest'', JNull), (''DOGE:regtest'', JNull)]"

definition ADMIT_COLUMN_CHAINS :: "string list" where
  "ADMIT_COLUMN_CHAINS = [''BTC'', ''LTC'', ''DOGE'']"

definition ADMIT_CHAIN_MARGIN_BLOCKS :: "(string \<times> (string \<times> rat) list) list" where
  "ADMIT_CHAIN_MARGIN_BLOCKS =
     [(''DOGE'', [(''bridge_transfers'', 14), (''cross_chain_calls'', 14), (''cross_chain_matches'', 14), (''list_snapshots'', 14),
        (''policy_snapshots'', 14), (''price_snapshots'', 16), (''remote_token_snapshots'', 14)]),
      (''LTC'', [(''bridge_transfers'', 14), (''cross_chain_calls'', 14), (''cross_chain_matches'', 14), (''list_snapshots'', 14),
        (''policy_snapshots'', 14), (''price_snapshots'', 17), (''remote_token_snapshots'', 14)])]"

definition ADMIT_CHAIN_MARGIN_ACTIVATION :: "(string \<times> rat option) list" where
  "ADMIT_CHAIN_MARGIN_ACTIVATION =
     [(''mainnet'', None), (''DOGE:mainnet'', None), (''DOGE:testnet'', Some 67989993), (''LTC:mainnet'', None),
      (''LTC:testnet'', Some 4949697), (''regtest'', Some 0)]"

text \<open>\<open>CHAIN_CODE_RE\<close> and \<open>CANONICAL_HEIGHT_RE\<close>.\<close>

definition is_code_char :: "char \<Rightarrow> bool" where
  "is_code_char c \<longleftrightarrow> (let n = (of_char c :: nat) in 48 \<le> n \<and> n \<le> 57 \<or> 65 \<le> n \<and> n \<le> 90)"

definition chain_code :: "string \<Rightarrow> bool" where
  "chain_code s \<longleftrightarrow> s \<noteq> [] \<and> length s \<le> 10 \<and> list_all is_code_char s"

definition canonical_height :: "string \<Rightarrow> bool" where
  "canonical_height s \<longleftrightarrow> s = ''0'' \<or> s \<noteq> [] \<and> list_all is_digit s \<and> hd s \<noteq> CHR ''0''"

section \<open>The gate (mirror\_admission\_gate.js)\<close>

definition resolveMirrorAdmissionRegtest :: "(rat \<Rightarrow> string) \<Rightarrow> jsval \<Rightarrow> rat option" where
  "resolveMirrorAdmissionRegtest show raw =
     (if nullish raw then None
      else (let s = to_lower (trim (js_String show raw)) in
        if s \<in> {[], ''off'', ''inert'', ''false'', ''no'', ''none''} then None
        else if s \<in> {''armed'', ''genesis'', ''on'', ''true'', ''yes''} then Some 0
        else if list_all is_digit s then (case clip_double (of_nat (digits_val 0 s)) of Fin h \<Rightarrow> Some h | _ \<Rightarrow> None)
        else None))"

definition admissionKey :: "(rat \<Rightarrow> string) \<Rightarrow> jsval \<Rightarrow> jsval \<Rightarrow> string option" where
  "admissionKey show coin network =
     (if nullish coin \<or> nullish network then None
      else (let c = to_upper (trim (js_String show coin)); n = to_lower (trim (js_String show network)) in
        if c = [] \<or> n = [] then None else Some (c @ '':'' @ n)))"

text \<open>A height, read strictly: a finite number, or a text of digits with an optional minus.\<close>

definition readHeight :: "jsval \<Rightarrow> rat option" where
  "readHeight v =
     (case v of
        JNum (Fin q) \<Rightarrow> Some q
      | JStr s \<Rightarrow>
          (let t = trim s; (neg, ds) = (case t of CHR ''-'' # u \<Rightarrow> (True, u) | _ \<Rightarrow> (False, t)) in
           if ds = [] \<or> \<not> list_all is_digit ds then None
           else (case clip_double (of_nat (digits_val 0 ds)) of Fin h \<Rightarrow> Some (if neg then - h else h) | _ \<Rightarrow> None))
      | _ \<Rightarrow> None)"

definition activeIn :: "(rat \<Rightarrow> string) \<Rightarrow> (string \<times> jsval) list \<Rightarrow> jsval \<Rightarrow> jsval \<Rightarrow> jsval \<Rightarrow> bool" where
  "activeIn show table coin network height =
     (case admissionKey show coin network of
        None \<Rightarrow> False
      | Some key \<Rightarrow>
          (case map_of table key of
             Some (JNum (Fin threshold)) \<Rightarrow> (case readHeight height of None \<Rightarrow> False | Some h \<Rightarrow> threshold \<le> h)
           | _ \<Rightarrow> False))"

definition margin_of :: "(string \<times> rat) list \<Rightarrow> string \<Rightarrow> string \<Rightarrow> rat" where
  "margin_of table dflt k = (case (if k = dflt then None else map_of table k) of Some m \<Rightarrow> m | None \<Rightarrow> (case map_of table ''default'' of Some m \<Rightarrow> m | None \<Rightarrow> 0))"

definition admitMarginBlocks :: "(rat \<Rightarrow> string) \<Rightarrow> jsval \<Rightarrow> rat" where
  "admitMarginBlocks show table =
     (if nullish table then margin_of ADMIT_MARGIN_BLOCKS ''default'' ''default''
      else margin_of ADMIT_MARGIN_BLOCKS ''default'' (trim (js_String show table)))"

definition admitMaxFutureBlocks :: "(rat \<Rightarrow> string) \<Rightarrow> jsval \<Rightarrow> rat" where
  "admitMaxFutureBlocks show chain =
     (if nullish chain then margin_of ADMIT_MAX_FUTURE_BLOCKS ''DEFAULT'' ''DEFAULT''
      else margin_of ADMIT_MAX_FUTURE_BLOCKS ''DEFAULT'' (to_upper (trim (js_String show chain))))"

definition isAdmitBlockInFollowerBound :: "(rat \<Rightarrow> string) \<Rightarrow> jsval \<Rightarrow> jsval \<Rightarrow> jsval \<Rightarrow> bool" where
  "isAdmitBlockInFollowerBound show chain admitBlock ownTip =
     (case (readHeight admitBlock, readHeight ownTip) of
        (Some h, Some tip) \<Rightarrow>
          if \<not> int_valued h \<or> h < 0 then False
          else tip + ADMIT_MIN_FUTURE_BLOCKS \<le> h \<and> h \<le> tip + admitMaxFutureBlocks show chain
      | _ \<Rightarrow> False)"

definition isRowReadableAt :: "jsval \<Rightarrow> jsval \<Rightarrow> jsval \<Rightarrow> jsval \<Rightarrow> bool" where
  "isRowReadableAt admitBlock blockHeight effectiveTime blockTime =
     (if nullish admitBlock
      then (case (readHeight effectiveTime, readHeight blockTime) of (Some et, Some bt) \<Rightarrow> et \<le> bt | _ \<Rightarrow> False)
      else (case (readHeight admitBlock, readHeight blockHeight) of (Some h, Some b) \<Rightarrow> h \<le> b | _ \<Rightarrow> False))"

text \<open>\<open>Object.keys\<close> with their values: the members of an object, the elements of an array by index.\<close>

definition own_entries :: "jsval \<Rightarrow> (string \<times> jsval) list option" where
  "own_entries v =
     (case v of
        JObj ms \<Rightarrow> Some ms
      | JArr xs \<Rightarrow> Some (map (\<lambda>(i, x). (show_nat i, x)) (enumerate 0 xs))
      | _ \<Rightarrow> None)"

definition spell_height :: "jsval \<Rightarrow> string option" where
  "spell_height v =
     (case v of
        JNum (Fin q) \<Rightarrow> if safe_integer q then Some (show_int \<lfloor>q\<rfloor>) else None
      | JStr s \<Rightarrow> Some s
      | _ \<Rightarrow> None)"

definition encode_entry :: "string \<times> jsval \<Rightarrow> string option" where
  "encode_entry kv =
     (if \<not> chain_code (fst kv) then None
      else (case spell_height (snd kv) of
          None \<Rightarrow> None
        | Some s \<Rightarrow> if canonical_height s then Some (fst kv @ '':'' @ s) else None))"

text \<open>None stands for the exception.\<close>

definition encodeAdmitBlocks :: "jsval \<Rightarrow> string option" where
  "encodeAdmitBlocks am =
     (case own_entries am of
        None \<Rightarrow> None
      | Some [] \<Rightarrow> None
      | Some ms \<Rightarrow> map_option (join '','') (those (map encode_entry (sort_key fst ms))))"

definition decode_entry :: "string \<Rightarrow> (string \<times> nat) option" where
  "decode_entry p =
     (case dropWhile (\<lambda>c. c \<noteq> CHR '':'') p of
        [] \<Rightarrow> None
      | c # ds \<Rightarrow>
          (let code = takeWhile (\<lambda>c. c \<noteq> CHR '':'') p in
           if chain_code code \<and> canonical_height ds then Some (code, digits_val 0 ds) else None))"

fun decode_parts :: "string option \<Rightarrow> string list \<Rightarrow> (string \<times> jsval) list option" where
  "decode_parts prev [] = Some []"
| "decode_parts prev (p # ps) =
     (case decode_entry p of
        None \<Rightarrow> None
      | Some (code, h) \<Rightarrow>
          if prev \<noteq> None \<and> \<not> the prev < code then None
          else if MAX_SAFE_INTEGER < of_nat h then None
          else map_option (\<lambda>m. (code, JNum (Fin (of_nat h))) # m) (decode_parts (Some code) ps))"

definition decodeAdmitBlocks :: "string \<Rightarrow> (string \<times> jsval) list option" where
  "decodeAdmitBlocks field = (if field = [] then None else decode_parts None (split_on CHR '','' [] field))"

text \<open>The two flag days, over the tables \<open>MIRROR_ADMISSION_ACTIVATION\<close> and \<open>MIRROR_ADMISSION_CONSUMER_ACTIVATION\<close> as registered.\<close>

definition isMirrorAdmissionProducerActive :: "(rat \<Rightarrow> string) \<Rightarrow> (string \<times> jsval) list \<Rightarrow> jsval \<Rightarrow> jsval \<Rightarrow> jsval \<Rightarrow> bool" where
  "isMirrorAdmissionProducerActive show table coin network height = activeIn show table coin network height"

definition isMirrorAdmissionConsumerActive :: "(rat \<Rightarrow> string) \<Rightarrow> (string \<times> jsval) list \<Rightarrow> jsval \<Rightarrow> jsval \<Rightarrow> jsval \<Rightarrow> bool" where
  "isMirrorAdmissionConsumerActive show table coin network height = activeIn show table coin network height"

definition isAdmissionEra :: "(rat \<Rightarrow> string) \<Rightarrow> (string \<times> jsval) list \<Rightarrow> jsval \<Rightarrow> jsval \<Rightarrow> bool" where
  "isAdmissionEra show table network eraBlock = isMirrorAdmissionProducerActive show table (JStr ''BTC'') network eraBlock"

text \<open>\<open>Inl ()\<close> when the encoder throws; \<open>Inr None\<close> below the activation or without a map.\<close>

definition admissionCanonicalValue ::
  "(rat \<Rightarrow> string) \<Rightarrow> (string \<times> jsval) list \<Rightarrow> jsval \<Rightarrow> jsval \<Rightarrow> jsval \<Rightarrow> unit + string option" where
  "admissionCanonicalValue show table network eraBlock am =
     (if \<not> isAdmissionEra show table network eraBlock \<or> nullish am then Inr None
      else (case encodeAdmitBlocks am of None \<Rightarrow> Inl () | Some s \<Rightarrow> Inr (Some s)))"

definition admissionCanonicalField ::
  "(rat \<Rightarrow> string) \<Rightarrow> (string \<times> jsval) list \<Rightarrow> jsval \<Rightarrow> jsval \<Rightarrow> jsval \<Rightarrow> unit + string" where
  "admissionCanonicalField show table network eraBlock am =
     (case admissionCanonicalValue show table network eraBlock am of
        Inl e \<Rightarrow> Inl e
      | Inr None \<Rightarrow> Inr []
      | Inr (Some s) \<Rightarrow> Inr (''|'' @ s))"

definition column_of :: "string \<Rightarrow> string" where
  "column_of c = ''admit_block_'' @ to_lower c"

text \<open>\<open>columnsAdmitBlocks\<close>: None stands for the exception on an unusable column.\<close>

fun columns_loop :: "jsval \<Rightarrow> string list \<Rightarrow> (string \<times> jsval) list \<Rightarrow> (string \<times> jsval) list option" where
  "columns_loop row [] acc = Some acc"
| "columns_loop row (c # cs) acc =
     (let v = js_prop row (column_of c) in
      if nullish v then columns_loop row cs acc
      else (case js_Number v of
          Fin h \<Rightarrow> if safe_integer h \<and> 0 \<le> h then columns_loop row cs (js_put c (JNum (Fin h)) acc) else None
        | _ \<Rightarrow> None))"

definition columnsAdmitBlocks :: "jsval \<Rightarrow> jsval option" where
  "columnsAdmitBlocks row = map_option (\<lambda>m. if m = [] then JNull else JObj m) (columns_loop row ADMIT_COLUMN_CHAINS [])"

section \<open>Margins (mirror\_admission\_margin\_gate.js)\<close>

definition baseMarginBlocks :: "(rat \<Rightarrow> string) \<Rightarrow> jsval \<Rightarrow> rat" where
  "baseMarginBlocks show table =
     (if nullish table then margin_of ADMIT_MARGIN_BLOCKS ''default'' ''default''
      else margin_of ADMIT_MARGIN_BLOCKS ''default'' (trim (js_String show table)))"

definition chainMarginBlocks :: "(rat \<Rightarrow> string) \<Rightarrow> jsval \<Rightarrow> jsval \<Rightarrow> rat option" where
  "chainMarginBlocks show table chain =
     (if nullish table \<or> nullish chain then None
      else Option.bind (map_of ADMIT_CHAIN_MARGIN_BLOCKS (to_upper (trim (js_String show chain))))
             (\<lambda>margins. map_of margins (trim (js_String show table))))"

definition activationHeight :: "(rat \<Rightarrow> string) \<Rightarrow> jsval \<Rightarrow> jsval \<Rightarrow> rat option" where
  "activationHeight show chain network =
     (if nullish chain \<or> nullish network then None
      else (let code = to_upper (trim (js_String show chain)); venue = to_lower (trim (js_String show network)) in
        case map_of ADMIT_CHAIN_MARGIN_ACTIVATION (code @ '':'' @ venue) of
          Some h \<Rightarrow> h
        | None \<Rightarrow> (case map_of ADMIT_CHAIN_MARGIN_ACTIVATION venue of Some h \<Rightarrow> h | None \<Rightarrow> None)))"

definition stampMarginAt :: "rat \<Rightarrow> rat option \<Rightarrow> rat option \<Rightarrow> rat \<Rightarrow> rat" where
  "stampMarginAt m mChain H tip =
     (case (mChain, H) of (Some mc, Some h) \<Rightarrow> if h \<le> tip + mc then mc else m | _ \<Rightarrow> m)"

definition rowMarginAt :: "rat \<Rightarrow> rat option \<Rightarrow> rat option \<Rightarrow> rat \<Rightarrow> rat" where
  "rowMarginAt m mChain H admit =
     (case (mChain, H) of (Some mc, Some h) \<Rightarrow> if h \<le> admit then mc else m | _ \<Rightarrow> m)"

definition consumerTargetAt :: "rat \<Rightarrow> rat option \<Rightarrow> rat option \<Rightarrow> rat \<Rightarrow> rat" where
  "consumerTargetAt m mChain H blockHeight =
     (case (mChain, H) of
        (Some mc, Some h) \<Rightarrow> if blockHeight < h then blockHeight - m else blockHeight - mc
      | _ \<Rightarrow> blockHeight - m)"

definition stampMarginBlocks :: "(rat \<Rightarrow> string) \<Rightarrow> jsval \<Rightarrow> jsval \<Rightarrow> jsval \<Rightarrow> rat \<Rightarrow> rat" where
  "stampMarginBlocks show table chain network tip =
     stampMarginAt (baseMarginBlocks show table) (chainMarginBlocks show table chain) (activationHeight show chain network) tip"

definition rowMarginBlocks :: "(rat \<Rightarrow> string) \<Rightarrow> jsval \<Rightarrow> jsval \<Rightarrow> jsval \<Rightarrow> rat \<Rightarrow> rat" where
  "rowMarginBlocks show table chain network admit =
     rowMarginAt (baseMarginBlocks show table) (chainMarginBlocks show table chain) (activationHeight show chain network) admit"

definition consumerTargetHeight :: "(rat \<Rightarrow> string) \<Rightarrow> jsval \<Rightarrow> jsval \<Rightarrow> jsval \<Rightarrow> rat \<Rightarrow> rat" where
  "consumerTargetHeight show table chain network blockHeight =
     consumerTargetAt (baseMarginBlocks show table) (chainMarginBlocks show table chain) (activationHeight show chain network) blockHeight"

definition isChainMarginActive :: "(rat \<Rightarrow> string) \<Rightarrow> registry \<Rightarrow> jsval \<Rightarrow> jsval \<Rightarrow> clock \<Rightarrow> gate_err + bool" where
  "isChainMarginActive show reg chain network height =
     (if nullish network then Inr False
      else (let code = (if nullish chain then None else Some (to_upper (trim (js_String show chain))));
                venue = to_lower (trim (js_String show network)) in
        if code = Some [] \<or> venue = [] then Inr False
        else activeAt reg ''mirror_admission_margin_activation.ADMIT_CHAIN_MARGIN_ACTIVATION'' (JStr venue) code height CMissing))"

section \<open>The hub's side (admission\_height.js)\<close>

definition normalizeChain :: "(rat \<Rightarrow> string) \<Rightarrow> jsval \<Rightarrow> string option" where
  "normalizeChain show chain =
     (if nullish chain then None
      else (let c = to_upper (trim (js_String show chain)) in if chain_code c then Some c else None))"

definition admitColumn :: "(rat \<Rightarrow> string) \<Rightarrow> jsval \<Rightarrow> string option" where
  "admitColumn show chain = map_option column_of (normalizeChain show chain)"

text \<open>\<open>rowAdmitBlocks\<close>: None stands for the exception (an unusable column, or two maps that disagree).\<close>

definition rowAdmitBlocks :: "jsval \<Rightarrow> jsval option" where
  "rowAdmitBlocks row =
     (let r = (if truthy row then row else JObj []);
          inMem = (case js_prop r ''admit_blocks'' of JObj ms \<Rightarrow> JObj ms | JArr xs \<Rightarrow> JArr xs | _ \<Rightarrow> JNull)
      in case columnsAdmitBlocks r of
           None \<Rightarrow> None
         | Some fromCols \<Rightarrow>
             if inMem = JNull then Some fromCols
             else if fromCols = JNull then Some inMem
             else (case (encodeAdmitBlocks inMem, encodeAdmitBlocks fromCols) of
                 (Some a, Some b) \<Rightarrow> if a = b then Some inMem else None
               | _ \<Rightarrow> None))"

definition admitBlocksToColumns :: "jsval \<Rightarrow> (string \<times> jsval) list" where
  "admitBlocksToColumns am =
     map (\<lambda>c. (column_of c, let v = js_prop am c in if nullish v then JNull else JNum (js_Number v))) ADMIT_COLUMN_CHAINS"

datatype read_set = Fields "string list" | EveryChain | FixedChains "string list" | PublishingChain

definition ADMISSION_READ_SETS :: "(string \<times> read_set) list" where
  "ADMISSION_READ_SETS =
     [(''cross_chain_matches'', Fields [''a_chain'', ''b_chain'']), (''cross_chain_calls'', Fields [''target_chain'', ''source_chain'']),
      (''bridge_transfers'', Fields [''dest_chain'']), (''policy_snapshots'', EveryChain), (''list_snapshots'', EveryChain),
      (''remote_token_snapshots'', EveryChain), (''attestation_responses'', FixedChains [''BTC'']),
      (''anchor_reward_attestations'', FixedChains [''BTC'']), (''oracle_prices'', PublishingChain), (''price_snapshots'', EveryChain)]"

fun dedup_chains :: "(rat \<Rightarrow> string) \<Rightarrow> jsval list \<Rightarrow> string list \<Rightarrow> string list option" where
  "dedup_chains show [] out = Some out"
| "dedup_chains show (c # cs) out =
     (case normalizeChain show c of None \<Rightarrow> None | Some n \<Rightarrow> dedup_chains show cs (js_add n out))"

text \<open>None stands for the exception.\<close>

definition admissionReadSet :: "(rat \<Rightarrow> string) \<Rightarrow> string \<Rightarrow> jsval \<Rightarrow> jsval list \<Rightarrow> string list option" where
  "admissionReadSet show table row federationChains =
     (case map_of ADMISSION_READ_SETS table of
        None \<Rightarrow> None
      | Some spec \<Rightarrow>
          (case (case spec of
               PublishingChain \<Rightarrow>
                 (let src = js_prop row ''source_chain'' in
                  if nullish src \<or> trim (js_String show src) = [] then None else Some [src])
             | EveryChain \<Rightarrow> if federationChains = [] then None else Some federationChains
             | FixedChains cs \<Rightarrow> Some (map JStr cs)
             | Fields fs \<Rightarrow> Some (map (js_prop row) fs)) of
             None \<Rightarrow> None
           | Some raw \<Rightarrow> map_option sort (dedup_chains show raw [])))"

definition usable_tip :: "jsval \<Rightarrow> bool" where
  "usable_tip t \<longleftrightarrow> (case t of JNum (Fin q) \<Rightarrow> safe_integer q \<and> 0 \<le> q | _ \<Rightarrow> False)"

type_synonym tips = "(string \<times> jsval) list"

definition tip_of :: "tips \<Rightarrow> string \<Rightarrow> jsval" where
  "tip_of tips c = (case map_of tips c of Some v \<Rightarrow> v | None \<Rightarrow> JUndef)"

definition missingAdmissionTips :: "(rat \<Rightarrow> string) \<Rightarrow> jsval list \<Rightarrow> tips \<Rightarrow> string list" where
  "missingAdmissionTips show readSet tips =
     List.map_filter (\<lambda>chain. case normalizeChain show chain of
         None \<Rightarrow> Some (js_String show chain)
       | Some c \<Rightarrow> if usable_tip (tip_of tips c) then None else Some c) readSet"

text \<open>The stamp; None stands for the exception.\<close>

definition admitBlocks :: "(rat \<Rightarrow> string) \<Rightarrow> jsval list \<Rightarrow> tips \<Rightarrow> jsval \<Rightarrow> jsval \<Rightarrow> (string \<times> jsval) list option" where
  "admitBlocks show readSet tips table network =
     (if nullish network \<or> trim (js_String show network) = [] then None
      else (case those (map (normalizeChain show) readSet) of
          None \<Rightarrow> None
        | Some codes \<Rightarrow>
            if codes = [] \<or> missingAdmissionTips show (map JStr codes) tips \<noteq> [] then None
            else Some (fold (\<lambda>c m. case tip_of tips c of
                   JNum (Fin tip) \<Rightarrow> js_put c (JNum (Fin (tip + stampMarginBlocks show table (JStr c) network tip))) m
                 | _ \<Rightarrow> m) codes [])))"

datatype admit_verdict = AdmitOk | BadReadSet | NoMap | Omits string | NoTip string | OutOfBound string | Superfluous string

fun check_chains :: "(rat \<Rightarrow> string) \<Rightarrow> (string \<times> jsval) list \<Rightarrow> tips \<Rightarrow> string list \<Rightarrow> admit_verdict option" where
  "check_chains show am ownTips [] = None"
| "check_chains show am ownTips (c # cs) =
     (case map_of am c of
        None \<Rightarrow> Some (Omits c)
      | Some v \<Rightarrow>
          (let own = tip_of ownTips c in
           if nullish own \<or> \<not> (case js_Number own of Fin q \<Rightarrow> int_valued q \<and> 0 \<le> q | _ \<Rightarrow> False) then Some (NoTip c)
           else if \<not> isAdmitBlockInFollowerBound show (JStr c) v (JNum (js_Number own)) then Some (OutOfBound c)
           else check_chains show am ownTips cs))"

definition checkAdmitBlocks :: "(rat \<Rightarrow> string) \<Rightarrow> jsval list \<Rightarrow> jsval \<Rightarrow> tips \<Rightarrow> admit_verdict" where
  "checkAdmitBlocks show readSet am ownTips =
     (case those (map (normalizeChain show) readSet) of
        None \<Rightarrow> BadReadSet
      | Some [] \<Rightarrow> BadReadSet
      | Some codes \<Rightarrow>
          (case own_entries am of
             None \<Rightarrow> NoMap
           | Some ms \<Rightarrow>
               (case check_chains show ms ownTips codes of
                  Some v \<Rightarrow> v
                | None \<Rightarrow>
                    (case find (\<lambda>k. k \<notin> set codes) (map fst ms) of
                       Some k \<Rightarrow> Superfluous k
                     | None \<Rightarrow> AdmitOk))))"

text \<open>\<open>checkAdmitBlocksAgainstHub\<close> over the answer of \<open>resolveAdmissionTips\<close>: None when the hub cannot resolve its tips.\<close>

definition checkAdmitBlocksAgainstHub :: "(rat \<Rightarrow> string) \<Rightarrow> tips option \<Rightarrow> jsval list \<Rightarrow> jsval \<Rightarrow> admit_verdict" where
  "checkAdmitBlocksAgainstHub show resolved readSet am =
     (case resolved of None \<Rightarrow> NoTip [] | Some ownTips \<Rightarrow> checkAdmitBlocks show readSet am ownTips)"

section \<open>Tips (chain\_tips.js, relay\_margin.js)\<close>

definition blockIntervalS :: "string \<Rightarrow> rat" where
  "blockIntervalS c = (case map_of [(''BTC'', 600), (''LTC'', 150), (''DOGE'', 60)] c of Some s \<Rightarrow> s | None \<Rightarrow> 600)"

definition relayMarginFloorS :: "string \<Rightarrow> rat" where
  "relayMarginFloorS c = min (4 * blockIntervalS c) 3000"

definition relayMarginS :: "string \<Rightarrow> jsval \<Rightarrow> rat" where
  "relayMarginS c blocks =
     (let want = (case blocks of JNum (Fin b) \<Rightarrow> b | _ \<Rightarrow> 4) * blockIntervalS c
      in min (max want (relayMarginFloorS c)) 3000)"

text \<open>The last height observed per chain, and when; \<open>cfg\<close> is \<open>ADMISSION_TIP_MAX_AGE_S\<close>.\<close>

type_synonym tip_memory = "(string \<times> rat \<times> rat) list"

definition admissionTipFresh :: "(rat \<Rightarrow> string) \<Rightarrow> string \<Rightarrow> jsval \<Rightarrow> rat \<Rightarrow> jsval \<Rightarrow> rat \<Rightarrow> tip_memory \<Rightarrow> bool \<times> tip_memory" where
  "admissionTipFresh show network cfg nowMs coin tip seen =
     (case normalizeChain show coin of
        None \<Rightarrow> (False, seen)
      | Some c \<Rightarrow>
          (case map_of seen c of
             None \<Rightarrow> (True, js_put c (tip, nowMs) seen)
           | Some (height, atMs) \<Rightarrow>
               if height < tip then (True, js_put c (tip, nowMs) seen)
               else if to_lower network = ''regtest'' \<and> tip = height then (True, seen)
               else (let maxAgeS = (case js_Number cfg of Fin a \<Rightarrow> if 0 < a then a else 6 * blockIntervalS c | _ \<Rightarrow> 6 * blockIntervalS c)
                     in (of_int \<lfloor>(nowMs - atMs) / 1000\<rfloor> \<le> maxAgeS, seen))))"

text \<open>
  One chain's tip from its indexer: \<open>answer\<close> is the result of the \<open>getlatestblock\<close> call, None when there
  is no indexer URL or the read failed or was cancelled. The result is \<open>JNull\<close> for every refusal.
\<close>

definition resolveAdmissionTip ::
  "(rat \<Rightarrow> string) \<Rightarrow> string \<Rightarrow> jsval \<Rightarrow> rat \<Rightarrow> (string \<Rightarrow> jsval option) \<Rightarrow> jsval \<Rightarrow> tip_memory \<Rightarrow> jsval \<times> tip_memory" where
  "resolveAdmissionTip show network cfg nowMs answer coin seen =
     (case normalizeChain show coin of
        None \<Rightarrow> (JNull, seen)
      | Some c \<Rightarrow>
          (case answer c of
             None \<Rightarrow> (JNull, seen)
           | Some result \<Rightarrow>
               if \<not> truthy result \<or> truthy (js_prop result ''error'') then (JNull, seen)
               else (let raw = js_prop result ''decoder_block'' in
                 if nullish raw \<or> raw = JStr [] then (JNull, seen)
                 else (case js_Number raw of
                     Fin tip \<Rightarrow>
                       if \<not> safe_integer tip \<or> tip < 0 then (JNull, seen)
                       else (case admissionTipFresh show network cfg nowMs (JStr c) tip seen of
                           (fresh, seen') \<Rightarrow> (if fresh then JNum (Fin tip) else JNull, seen'))
                   | _ \<Rightarrow> (JNull, seen)))))"

text \<open>
  The tips of a read set, one read per distinct chain. The reads run in parallel, each on its own
  entry of the memory, so their order does not matter; the per-proposal memo only shares them.
\<close>

fun wanted_chains :: "(rat \<Rightarrow> string) \<Rightarrow> jsval list \<Rightarrow> tips \<Rightarrow> string list \<Rightarrow> tips \<times> string list" where
  "wanted_chains show [] out want = (out, want)"
| "wanted_chains show (raw # rs) out want =
     (case normalizeChain show raw of
        None \<Rightarrow> wanted_chains show rs (js_put (js_String show raw) JNull out) want
      | Some c \<Rightarrow> wanted_chains show rs out (js_add c want))"

fun read_tips :: "(string \<Rightarrow> tip_memory \<Rightarrow> jsval \<times> tip_memory) \<Rightarrow> string list \<Rightarrow> tips \<Rightarrow> tip_memory \<Rightarrow> tips \<times> tip_memory" where
  "read_tips rd [] out seen = (out, seen)"
| "read_tips rd (c # cs) out seen = (case rd c seen of (t, seen') \<Rightarrow> read_tips rd cs (js_put c t out) seen')"

definition resolveAdmissionTips ::
  "(rat \<Rightarrow> string) \<Rightarrow> string \<Rightarrow> jsval \<Rightarrow> rat \<Rightarrow> (string \<Rightarrow> jsval option) \<Rightarrow> jsval list \<Rightarrow> tip_memory \<Rightarrow> tips \<times> tip_memory" where
  "resolveAdmissionTips show network cfg nowMs answer readSet seen =
     (case wanted_chains show readSet [] [] of
        (out, want) \<Rightarrow> read_tips (\<lambda>c. resolveAdmissionTip show network cfg nowMs answer (JStr c)) want out seen)"

text \<open>\<open>resolveAdmitBlocks\<close> over the answer of \<open>resolveAdmissionTips\<close>; \<open>JNull\<close> when nothing may be stamped.\<close>

definition resolveAdmitBlocks :: "(rat \<Rightarrow> string) \<Rightarrow> jsval \<Rightarrow> tips option \<Rightarrow> jsval \<Rightarrow> jsval list \<Rightarrow> jsval" where
  "resolveAdmitBlocks show network resolved table readSet =
     (case resolved of
        None \<Rightarrow> JNull
      | Some tips \<Rightarrow>
          if missingAdmissionTips show readSet tips \<noteq> [] then JNull
          else (case admitBlocks show readSet tips table network of None \<Rightarrow> JNull | Some m \<Rightarrow> JObj m))"

end
