(* ===== verification/Oracle_Membership.thy ===== *)
theory Oracle_Membership
  imports Oracle_Cosign Admission
begin

text \<open>
  What the oracle's rounds decide from: the member set and leader of a round
  (\<open>src/oracle/consensus/membership.js\<close>), the payload its signatures cover
  (\<open>src/oracle/consensus.js\<close>), and the gates of both sides of a round
  (\<open>finalize_round.js\<close>, \<open>propose/handle_propose.js\<close>). Everything here is a function of the
  configuration and of a view: what the hub reads of its peers, its registry, the indexer and the clock at
  the moment of a step. Rounds and heights are integers; a wire price list is an array of entries with a pair
  and a price, since any other shape throws in the digest or at the co-sign gate.
\<close>

section \<open>Configuration and view\<close>

record oracle_conf =
  oc_network :: string
  oc_gates :: registry
  oc_seeds :: string
  oc_admit :: "(string \<times> jsval) list"
  oc_hasSnapshots :: bool
  oc_epochStart :: rat
  oc_interval :: rat
  oc_minSubmissions :: nat
  oc_leaderTimeout :: rat
  oc_finalizationTimeout :: rat
  oc_tolerance :: rat
  oc_finalizedMax :: nat
  oc_earlyMaxRounds :: nat
  oc_mj :: mathjs
  oc_fmt :: "rat \<Rightarrow> string"
  oc_show :: "rat \<Rightarrow> string"
  oc_rnd :: "rat \<Rightarrow> rat"
  oc_hash :: "string \<Rightarrow> string"
  oc_sign :: "string \<Rightarrow> string \<Rightarrow> jsval"
  oc_verify :: "string \<Rightarrow> jsval \<Rightarrow> string \<Rightarrow> bool"

record oracle_view =
  ov_hub :: oracle_hub
  ov_chain :: "string list option"
  ov_validatorSet :: "validator list"
  ov_quorumPeers :: nat
  ov_openPeers :: nat
  ov_submissions :: "(int \<times> submissions) list"
  ov_current :: int
  ov_now :: rat
  ov_weightSnapshot :: "snapshot option"
  ov_countSnapshot :: "snapshot option"
  ov_tip :: jsval
  ov_admitTips :: "tips option"
  ov_dbOk :: bool

definition oracle_auth :: "oracle_view \<Rightarrow> peer_auth" where
  "oracle_auth w = \<lparr>registry_map = oh_registry (ov_hub w), chain_set = ov_chain w\<rparr>"

text \<open>\<open>OracleRound.getSubmissions\<close>: \<open>round || this.currentRound\<close>, so round 0 reads the current round's.\<close>

definition getSubmissions :: "oracle_view \<Rightarrow> int \<Rightarrow> submissions" where
  "getSubmissions w rd =
     (case map_of (ov_submissions w) (if rd = 0 then ov_current w else rd) of None \<Rightarrow> [] | Some s \<Rightarrow> s)"

section \<open>Members and leader (membership.js)\<close>

definition oracle_row :: "stake_row \<Rightarrow> stake_row" where
  "oracle_row v =
     \<lparr>s_pubkey = CStr (to_lower (cell_string (s_pubkey v))),
      s_source = CStr (case s_source v of CStr s \<Rightarrow> s | _ \<Rightarrow> []),
      s_weight = CStr (case s_weight v of CStr s \<Rightarrow> s | _ \<Rightarrow> ''0'')\<rparr>"

definition oracleNormalizeValidators :: "snapshot option \<Rightarrow> bool \<Rightarrow> stake_set" where
  "oracleNormalizeValidators so weighted =
     (case so of
        Some s \<Rightarrow>
          (case sn_validators s of
             Some vs \<Rightarrow> if weighted then \<lparr>stake_rows = map oracle_row vs, stake_truncated = sn_truncated s\<rparr>
                        else \<lparr>stake_rows = [], stake_truncated = False\<rparr>
           | None \<Rightarrow> \<lparr>stake_rows = [], stake_truncated = False\<rparr>)
      | None \<Rightarrow> \<lparr>stake_rows = [], stake_truncated = False\<rparr>)"

text \<open>
  \<open>memberPubkeySet\<close> keeps every row with a truthy key, \<open>String(v.pubkey)\<close> in lower case. A \<open>CStr\<close> cell is that spelling,
  whatever type the snapshot carried (\<open>Stake_Quorum\<close>); the falsy cells are the empty text and the missing ones.
\<close>

definition cell_text :: "cell \<Rightarrow> string option" where
  "cell_text c = (case c of CStr s \<Rightarrow> if s = [] then None else Some s | _ \<Rightarrow> None)"

definition oracleMemberPubkeySet :: "snapshot option \<Rightarrow> string list option" where
  "oracleMemberPubkeySet so =
     (case so of
        None \<Rightarrow> None
      | Some s \<Rightarrow>
          (let ms = js_set_of (map (\<lambda>v. to_lower (cell_string (s_pubkey v)))
             (filter (\<lambda>v. cell_text (s_pubkey v) \<noteq> None) (case sn_validators s of None \<Rightarrow> [] | Some vs \<Rightarrow> vs)))
           in if ms = [] then None else Some ms))"

text \<open>First arrival wins: one submission per member key.\<close>

fun filter_members :: "oracle_hub \<Rightarrow> string list \<Rightarrow> string list \<Rightarrow> submissions \<Rightarrow> submissions" where
  "filter_members h ms seen [] = []"
| "filter_members h ms seen ((addr, sub) # rest) =
     (case submission_key h addr sub of
        None \<Rightarrow> filter_members h ms seen rest
      | Some pk \<Rightarrow>
          if pk \<notin> set ms \<or> pk \<in> set seen then filter_members h ms seen rest
          else (addr, sub) # filter_members h ms (pk # seen) rest)"

definition filterSubmissionsToSnapshot :: "oracle_hub \<Rightarrow> submissions \<Rightarrow> string list option \<Rightarrow> submissions" where
  "filterSubmissionsToSnapshot h subs members =
     (case members of None \<Rightarrow> subs | Some ms \<Rightarrow> filter_members h ms [] subs)"

record oracle_leader =
  ol_addr :: "string option"
  ol_pubkey :: "string option"

definition lowest :: "string list \<Rightarrow> string option" where
  "lowest xs = (case sort xs of [] \<Rightarrow> None | x # _ \<Rightarrow> Some x)"

definition oracleAddrForPubkey :: "oracle_view \<Rightarrow> string \<Rightarrow> string option" where
  "oracleAddrForPubkey w pubkey =
     (case find (\<lambda>v. map_option to_lower (cell_text (v_pubkey v)) = Some pubkey) (ov_validatorSet w) of
        Some v \<Rightarrow> cell_text (v_addr v)
      | None \<Rightarrow>
          (case lowest (map fst (filter (\<lambda>(a, pk). pk \<noteq> [] \<and> to_lower pk = pubkey)
                 (case oh_registry (ov_hub w) of None \<Rightarrow> [] | Some r \<Rightarrow> r))) of
             Some a \<Rightarrow> Some a
           | None \<Rightarrow> if map_option to_lower (oh_identity (ov_hub w)) = Some pubkey then Some (oh_addr (ov_hub w)) else None))"

definition oracleGetLeader :: "oracle_view \<Rightarrow> int \<Rightarrow> string list option \<Rightarrow> oracle_leader option" where
  "oracleGetLeader w rd members =
     (case members of
        Some (m # ms) \<Rightarrow>
          (let keys = sort (m # ms); pubkey = keys ! nat (rd mod int (length keys))
           in Some \<lparr>ol_addr = oracleAddrForPubkey w pubkey, ol_pubkey = Some pubkey\<rparr>)
      | _ \<Rightarrow>
          (case ov_validatorSet w of
             [] \<Rightarrow> None
           | v # vs \<Rightarrow>
               (let l = (v # vs) ! nat (rd mod int (length (v # vs)))
                in Some \<lparr>ol_addr = cell_text (v_addr l), ol_pubkey = cell_text (v_pubkey l)\<rparr>)))"

definition oracleIsLeader :: "oracle_leader option \<Rightarrow> string \<Rightarrow> string option \<Rightarrow> bool" where
  "oracleIsLeader leader addr pubkey =
     (case leader of
        None \<Rightarrow> False
      | Some l \<Rightarrow>
          if ol_addr l \<noteq> None \<and> ol_addr l \<noteq> Some [] \<and> ol_addr l = Some addr then True
          else (case (ol_pubkey l, pubkey) of
              (Some lpk, Some pk) \<Rightarrow> pk \<noteq> [] \<and> to_lower lpk = pk
            | _ \<Rightarrow> False))"

definition leaderSubmissionAddr :: "oracle_hub \<Rightarrow> submissions \<Rightarrow> oracle_leader option \<Rightarrow> string option" where
  "leaderSubmissionAddr h subs leader =
     (case leader of
        None \<Rightarrow> None
      | Some l \<Rightarrow>
          (case ol_addr l of
             Some a \<Rightarrow> if a \<noteq> [] \<and> a \<in> fst ` set subs then Some a
                       else (case ol_pubkey l of None \<Rightarrow> None
                             | Some k \<Rightarrow> map_option fst (find (\<lambda>(addr, sub). submission_key h addr sub = Some (to_lower k)) subs))
           | None \<Rightarrow> (case ol_pubkey l of None \<Rightarrow> None
                      | Some k \<Rightarrow> map_option fst (find (\<lambda>(addr, sub). submission_key h addr sub = Some (to_lower k)) subs))))"

definition oracleGetQuorum :: "oracle_view \<Rightarrow> int" where
  "oracleGetQuorum w =
     bftQuorumOrSingle (if ov_validatorSet w = [] then int (ov_quorumPeers w) + 1 else int (length (ov_validatorSet w))) 0"

text \<open>The engine has no \<open>minValidators\<close> of its own: \<open>Number(undefined)\<close> is no number, which reads as no floor.\<close>

definition oracle_signals :: "oracle_conf \<Rightarrow> oracle_view \<Rightarrow> signals" where
  "oracle_signals c w =
     \<lparr>sig_minValidators = 0, sig_validators = length (ov_validatorSet w), sig_peers = ov_openPeers w, sig_seedNodes = oc_seeds c\<rparr>"

definition oracleFederated :: "oracle_conf \<Rightarrow> oracle_view \<Rightarrow> int option \<Rightarrow> bool" where
  "oracleFederated c w height =
     roundIsFederated (oc_gates c) (oc_network c) (oracleGetQuorum w) (oracle_signals c w)
       (case height of None \<Rightarrow> CMissing | Some h \<Rightarrow> CNum h)"

definition oracleHasSnapshot :: "snapshot option \<Rightarrow> bool" where
  "oracleHasSnapshot so = (case so of None \<Rightarrow> False | Some s \<Rightarrow> sn_validators s \<noteq> None)"

definition oracleEmptySnapshot :: "oracle_conf \<Rightarrow> oracle_view \<Rightarrow> snapshot option \<Rightarrow> int option \<Rightarrow> bool" where
  "oracleEmptySnapshot c w so height =
     (case so of None \<Rightarrow> False
      | Some s \<Rightarrow> (case sn_validators s of None \<Rightarrow> True | Some vs \<Rightarrow> vs = []) \<and> oracleFederated c w height)"

section \<open>Times and the signed payload (round\_time.js, consensus.js)\<close>

definition nominalRoundSeconds :: "int \<Rightarrow> rat \<Rightarrow> rat \<Rightarrow> int option" where
  "nominalRoundSeconds rd epochStartMs roundIntervalMs =
     (if rd < 0 \<or> \<not> 0 < roundIntervalMs then None
      else Some \<lfloor>(epochStartMs + of_int rd * roundIntervalMs) / 1000\<rfloor>)"

definition js_parseInt :: "(rat \<Rightarrow> string) \<Rightarrow> jsval \<Rightarrow> int option" where
  "js_parseInt show v = parse_int_text (js_String show v)"

text \<open>\<open>NaN === null\<close> is false, so two missing readings do not match.\<close>

definition roundTimeMatches :: "(rat \<Rightarrow> string) \<Rightarrow> jsval \<Rightarrow> int \<Rightarrow> rat \<Rightarrow> rat \<Rightarrow> bool" where
  "roundTimeMatches show wireTime rd epochStartMs roundIntervalMs =
     (case (js_parseInt show wireTime, nominalRoundSeconds rd epochStartMs roundIntervalMs) of
        (Some a, Some b) \<Rightarrow> a = b
      | _ \<Rightarrow> False)"

definition roundTimeGateActive :: "oracle_conf \<Rightarrow> int \<Rightarrow> bool" where
  "roundTimeGateActive c btcHeight =
     (\<bar>of_int btcHeight\<bar> \<le> MAX_SAFE_INTEGER \<and> 0 \<le> btcHeight \<and>
      gate_true (activeAt (oc_gates c) ''oracle_round_time_activation.ORACLE_ROUND_TIME_ACTIVATION'' (JStr (oc_network c)) (Some ''BTC'') (CNum btcHeight) CMissing))"

definition ORACLE_CLAMP_REFERENCE_ACTIVATION :: "(string \<times> int option) list" where
  "ORACLE_CLAMP_REFERENCE_ACTIVATION = [(''mainnet'', None), (''testnet'', Some 152400), (''regtest'', Some 0)]"

definition isClampReferenceAlignActive :: "jsval \<Rightarrow> (rat \<Rightarrow> string) \<Rightarrow> string \<Rightarrow> bool" where
  "isClampReferenceAlignActive blockHeight show network =
     (case map_of ORACLE_CLAMP_REFERENCE_ACTIVATION network of
        Some (Some threshold) \<Rightarrow> (case js_parseInt show blockHeight of None \<Rightarrow> False | Some blk \<Rightarrow> threshold \<le> blk)
      | _ \<Rightarrow> False)"

definition js_int_of :: "int \<Rightarrow> jsval" where
  "js_int_of k = JNum (Fin (of_int k))"

definition price_pairs :: "(rat \<Rightarrow> string) \<Rightarrow> raw_price list \<Rightarrow> (string \<times> string) list" where
  "price_pairs show prices = sort_key fst (map (\<lambda>p. (rp_pair p, js_String show (rp_price p))) prices)"

definition pairs_json :: "(string \<times> string) list \<Rightarrow> jsval" where
  "pairs_json ps = JArr (map (\<lambda>(a, b). JObj [(''pair'', JStr a), (''price'', JStr b)]) ps)"

definition price_body :: "(rat \<Rightarrow> string) \<Rightarrow> int \<Rightarrow> jsval \<Rightarrow> raw_price list \<Rightarrow> int \<Rightarrow> jsval" where
  "price_body show rd time prices height =
     JObj [(''round'', js_int_of rd),
           (''timestamp'', case js_parseInt show time of None \<Rightarrow> JNull | Some t \<Rightarrow> js_int_of t),
           (''btc_block_height'', js_int_of height),
           (''pairs'', pairs_json (price_pairs show prices))]"

text \<open>\<open>Inl ()\<close> when the builder throws.\<close>

definition buildPriceV0Payload :: "oracle_conf \<Rightarrow> int \<Rightarrow> jsval \<Rightarrow> raw_price list \<Rightarrow> int \<Rightarrow> jsval \<Rightarrow> unit + string" where
  "buildPriceV0Payload c rd time prices height admit =
     (case admissionCanonicalField (oc_show c) (oc_admit c) (JStr (oc_network c)) (js_int_of height) admit of
        Inl e \<Rightarrow> Inl e
      | Inr field \<Rightarrow>
          (let raw = stringify (oc_show c) (price_body (oc_show c) rd time prices height) @ field in
           if isEquivHeaderActive (CNum height) (oc_network c)
           then Inr (buildEquivCanonical ''XORACLE'' (show_int height) ''0'' raw) else Inr raw))"

definition oracle_digest :: "oracle_conf \<Rightarrow> int \<Rightarrow> raw_price list \<Rightarrow> string" where
  "oracle_digest c rd prices =
     oc_hash c (stringify (oc_show c) (JObj [(''round'', js_int_of rd),
       (''prices'', JArr (map (\<lambda>(a, b). JObj [(''coinPair'', JStr a), (''price'', JStr b)])
          (canonicalDigestPrices (js_String (oc_show c)) (map (\<lambda>p. (JStr (rp_pair p), rp_price p)) prices))))]))"

text \<open>\<open>signPriceV0\<close>: None without an identity or when the payload cannot be built.\<close>

definition signPriceV0 :: "oracle_conf \<Rightarrow> oracle_view \<Rightarrow> int \<Rightarrow> jsval \<Rightarrow> raw_price list \<Rightarrow> int \<Rightarrow> jsval \<Rightarrow> (string \<times> jsval) option" where
  "signPriceV0 c w rd time prices height admit =
     (case oh_identity (ov_hub w) of
        None \<Rightarrow> None
      | Some k \<Rightarrow> (case buildPriceV0Payload c rd time prices height admit of Inl e \<Rightarrow> None | Inr t \<Rightarrow> Some (k, oc_sign c k t)))"

definition oracleSelfPubkey :: "oracle_view \<Rightarrow> string option" where
  "oracleSelfPubkey w = oracleSenderPubkey (ov_hub w) (oh_addr (ov_hub w))"

section \<open>The admission map of a round (consensus.js)\<close>

definition admit_chains :: "jsval list" where
  "admit_chains = map JStr ADMIT_COLUMN_CHAINS"

definition resolveRoundAdmitBlocks :: "oracle_conf \<Rightarrow> oracle_view \<Rightarrow> jsval" where
  "resolveRoundAdmitBlocks c w =
     resolveAdmitBlocks (oc_show c) (JStr (oc_network c)) (ov_admitTips w) (JStr ''price_snapshots'') admit_chains"

text \<open>\<open>checkProposedAdmit\<close>: the normalised map when the follower's bound holds.\<close>

definition checkProposedAdmit :: "oracle_conf \<Rightarrow> oracle_view \<Rightarrow> jsval \<Rightarrow> jsval option" where
  "checkProposedAdmit c w admit =
     (case encodeAdmitBlocks admit of
        None \<Rightarrow> None
      | Some f \<Rightarrow>
          (case decodeAdmitBlocks f of
             None \<Rightarrow> None
           | Some m \<Rightarrow> if checkAdmitBlocksAgainstHub (oc_show c) (ov_admitTips w) admit_chains (JObj m) = AdmitOk then Some (JObj m) else None))"

definition spellAdmit :: "jsval \<Rightarrow> string option" where
  "spellAdmit m = (if nullish m then None else (case encodeAdmitBlocks m of None \<Rightarrow> Some ''(unspellable)'' | Some s \<Rightarrow> Some s))"

definition oracleEra :: "oracle_conf \<Rightarrow> int \<Rightarrow> bool" where
  "oracleEra c height = isAdmissionEra (oc_show c) (oc_admit c) (JStr (oc_network c)) (js_int_of height)"

section \<open>The proposer's gates (finalize\_round.js)\<close>

definition submissionCountSkip :: "oracle_conf \<Rightarrow> submissions \<Rightarrow> string option" where
  "submissionCountSkip c subs =
     (if subs = [] then Some ''no submissions''
      else if length subs < oc_minSubmissions c then Some ''below minimum submissions threshold''
      else None)"

datatype weight_verdict = Proceed | Downgrade | Refuse

definition missing_weights :: "bool \<Rightarrow> snapshot option \<Rightarrow> bool" where
  "missing_weights weighted so \<longleftrightarrow>
     weighted \<and> (case so of None \<Rightarrow> True | Some s \<Rightarrow> (case sn_validators s of None \<Rightarrow> True | Some vs \<Rightarrow> vs = []))"

definition weightedSnapshotVerdict :: "oracle_conf \<Rightarrow> oracle_view \<Rightarrow> bool \<Rightarrow> snapshot option \<Rightarrow> int option \<Rightarrow> weight_verdict" where
  "weightedSnapshotVerdict c w weighted so height =
     (if missing_weights weighted so then (if oracleFederated c w height then Refuse else Downgrade) else Proceed)"

definition snapshotSkip :: "oracle_conf \<Rightarrow> oracle_view \<Rightarrow> int \<Rightarrow> snapshot option \<Rightarrow> string option" where
  "snapshotSkip c w height so =
     (if \<not> oracleHasSnapshot so \<and> oracleFederated c w (Some height) then Some ''no deterministic capability snapshot''
      else if oracleEmptySnapshot c w so (Some height) then Some ''empty qualifying validator snapshot''
      else None)"

definition memberSubmissionSkip :: "oracle_conf \<Rightarrow> submissions \<Rightarrow> string option" where
  "memberSubmissionSkip c subs =
     (if subs = [] then Some ''no submissions from snapshot members''
      else if length subs < oc_minSubmissions c then Some ''below minimum member submissions threshold''
      else None)"

definition oracle_quorum :: "oracle_view \<Rightarrow> snapshot option \<Rightarrow> int" where
  "oracle_quorum w so = (case so of None \<Rightarrow> oracleGetQuorum w | Some s \<Rightarrow> snapshot_getQuorum so)"

section \<open>The follower's gates (handle\_propose.js)\<close>

record oracle_msg =
  om_sender :: string
  om_sig :: jsval
  om_round :: jsval
  om_digest :: jsval
  om_prices :: "raw_price list option"
  om_height :: jsval
  om_time :: jsval
  om_sigPubkey :: jsval
  om_sigHex :: jsval
  om_admit :: jsval

definition round_of :: "jsval \<Rightarrow> int option" where
  "round_of v = (case v of JNum (Fin q) \<Rightarrow> if int_valued q \<and> 0 \<le> q then Some \<lfloor>q\<rfloor> else None | _ \<Rightarrow> None)"

definition oracleIsKnownSender :: "oracle_view \<Rightarrow> oracle_msg \<Rightarrow> bool" where
  "oracleIsKnownSender w m = isAdmissibleSigner (oracle_auth w) (om_sig m)"

text \<open>The round and prices of a PROPOSE that clears the cheap refusals; \<open>fin\<close> holds the finalized rounds.\<close>

definition proposalAdmissible :: "oracle_conf \<Rightarrow> oracle_view \<Rightarrow> int list \<Rightarrow> oracle_msg \<Rightarrow> (int \<times> raw_price list) option" where
  "proposalAdmissible c w fin m =
     (case (round_of (om_round m), om_prices m) of
        (Some rd, Some prices) \<Rightarrow>
          if \<not> truthy (om_digest m) \<or> rd \<in> set fin \<or> \<not> oracleIsKnownSender w m then None
          else if om_digest m = JStr (oracle_digest c rd prices) then Some (rd, prices)
          else None
      | _ \<Rightarrow> None)"

text \<open>The snapshot height of a PROPOSE, held against the hub's own tip.\<close>

definition wire_height :: "jsval \<Rightarrow> int option" where
  "wire_height v = (case v of JNum (Fin q) \<Rightarrow> if int_valued q \<and> 0 < q then Some \<lfloor>q\<rfloor> else None | _ \<Rightarrow> None)"

definition boundedProposeHeight :: "oracle_conf \<Rightarrow> oracle_view \<Rightarrow> int \<Rightarrow> jsval \<Rightarrow> int option" where
  "boundedProposeHeight c w rd height =
     (let fed = tipAnchoredFederation (oc_gates c) (oc_network c) (oracleGetQuorum w) (oracle_signals c w) (ov_tip w) in
      case wire_height height of
        None \<Rightarrow> if ta_federated fed then None else Some rd
      | Some h \<Rightarrow>
          if \<not> ta_federated fed then Some h
          else (let myTip = (if ta_tipResolved fed then ta_myTip fed else ov_tip w) in
            if ta_tipResolved fed \<and> \<not> ta_tipKnown fed then None
            else (case js_Number myTip of
                Fin t \<Rightarrow> if oc_tolerance c < \<bar>t - of_int h\<bar> then None else Some h
              | _ \<Rightarrow> None)))"

text \<open>The quorum a follower's round opens with; None drops the PROPOSE.\<close>

definition proposeSnapshotQuorum :: "oracle_conf \<Rightarrow> oracle_view \<Rightarrow> snapshot option \<Rightarrow> int option \<Rightarrow> int option" where
  "proposeSnapshotQuorum c w so anchor =
     (if \<not> oracleHasSnapshot so \<and> oracleFederated c w anchor then None
      else if oracleEmptySnapshot c w so anchor then None
      else Some (oracle_quorum w so))"

definition electedFallback ::
  "oracle_conf \<Rightarrow> oracle_view \<Rightarrow> (int \<times> rat) list \<Rightarrow> int \<Rightarrow> string \<Rightarrow> submissions \<Rightarrow> oracle_leader option \<Rightarrow> bool" where
  "electedFallback c w ready rd sender subs leader =
     (let keys = map fst subs in
      if keys = [] then False
      else (case leaderSubmissionAddr (ov_hub w) subs leader of
          None \<Rightarrow> lowest keys = Some sender
        | Some la \<Rightarrow>
            (case map_of ready rd of
               None \<Rightarrow> False
             | Some readyAt \<Rightarrow>
                 readyAt \<noteq> 0 \<and> oc_leaderTimeout c \<le> ov_now w - readyAt \<and> lowest (filter (\<lambda>a. a \<noteq> la) keys) = Some sender)))"

text \<open>
  \<open>judgeProposer\<close> up to the binding of the admission map: the sender is the leader or a fallback elected over
  the submissions this hub holds, and the co-sign gate lets the prices through.
\<close>

definition judgeProposer ::
  "oracle_conf \<Rightarrow> oracle_view \<Rightarrow> (int \<times> rat) list \<Rightarrow> int \<Rightarrow> raw_price list \<Rightarrow> oracle_msg \<Rightarrow> string list option \<Rightarrow> bool" where
  "judgeProposer c w ready rd prices m members =
     (let leader = oracleGetLeader w rd members;
          subs = filterSubmissionsToSnapshot (ov_hub w) (getSubmissions w rd) members;
          proposerPk = (case provenPubkey (om_sig m) of Some k \<Rightarrow> Some k | None \<Rightarrow> oracleSenderPubkey (ov_hub w) (om_sender m))
      in (oracleIsLeader leader (om_sender m) proposerPk \<or> electedFallback c w ready rd (om_sender m) subs leader) \<and>
         coSignGateRejects (oc_mj c) (oc_show c) (ov_hub w) (om_sender m) prices subs = None)"

text \<open>\<open>admissionEraOf\<close>: the era of a proposal, None when the map's presence does not fit it.\<close>

definition admissionEraOf :: "oracle_conf \<Rightarrow> int \<Rightarrow> jsval \<Rightarrow> bool option" where
  "admissionEraOf c height admit =
     (if oracleEra c height = nullish admit then None else Some (oracleEra c height))"

end
