(* ===== verification/Oracle_Rounds.thy ===== *)
theory Oracle_Rounds
  imports Oracle_Membership
begin

text \<open>
  The oracle's rounds as a state machine (\<open>src/oracle/consensus/\<close>: \<open>messages.js\<close>, \<open>propose/\<close>, \<open>follower_round.js\<close>,
  \<open>commit.js\<close>, \<open>finalize_round.js\<close>, \<open>seats.js\<close>, \<open>watchdog.js\<close>, \<open>lifecycle.js\<close>). A handler runs up to its next await; what follows
  is a task in the state, run later with the view of that moment, in any order with messages and timers. A view
  also stands for what the same handler read just before the await. Round objects live in a heap, since
  timers and continuations hold on to objects that \<open>pendingRounds\<close> has dropped or replaced. Elapsed time is not
  modelled: an armed timer may fire at any step. Logging, counters and the seat names kept for
  diagnostics are left out. The set \<open>finalized\<close> and its insertion order always hold the same rounds, so one
  list stands for both; likewise for \<open>locallySkipped\<close>.
\<close>

section \<open>State\<close>

datatype round_timer = NoTimer | LeaderTimer | FollowerTimer | RetryTimer

record oround =
  pr_round :: int
  pr_prices :: "raw_price list"
  pr_digest :: string
  pr_height :: int
  pr_time :: jsval
  pr_admit :: jsval
  pr_prepares :: "string list"
  pr_commits :: "string list"
  pr_sigs :: "(string \<times> jsval) list"
  pr_finalized :: bool
  pr_commitSent :: bool
  pr_quorum :: int
  pr_weighted :: bool
  pr_validators :: stake_set
  pr_members :: "string list option"
  pr_retryMs :: rat
  pr_timer :: round_timer

datatype vote_kind = Propose | Prepare | Commit

text \<open>What finalizeRound hands on: the round with its anchor.\<close>

record oseat =
  se_round :: int
  se_height :: int
  se_time :: jsval

record oproposal =
  ox_seat :: oseat
  ox_prices :: "raw_price list"
  ox_snapshot :: "snapshot option"
  ox_quorum :: int
  ox_weighted :: bool
  ox_members :: "string list option"
  ox_keys :: "string list"

text \<open>What a follower locked for a PROPOSE; \<open>lp_quorum\<close> is None when a round was already open.\<close>

record olocked =
  lp_height :: int
  lp_weighted :: bool
  lp_snapshot :: "snapshot option"
  lp_quorum :: "int option"
  lp_members :: "string list option"
  lp_roundTime :: bool

type_synonym sigproof = "(string \<times> jsval) list"

datatype otask =
    TFinalizeSnap oseat
  | TFinalizeCount oseat
  | TFinalizeSeat oseat bool "snapshot option" "string list option" submissions
  | TSolo oseat "raw_price list"
  | TSoloStore oseat "raw_price list" jsval sigproof
  | TSoloAnnounce oseat "raw_price list" jsval sigproof
  | TSkip int int jsval string
  | TSkipMark int
  | TPropose oproposal
  | TBound oracle_msg int "raw_price list"
  | TLock oracle_msg int "raw_price list" int bool
  | TLockSnap oracle_msg int "raw_price list" int bool bool
  | TLockCount oracle_msg int "raw_price list" int bool
  | TBind oracle_msg int "raw_price list" olocked
  | TStore nat int nat sigproof nat
  | TBackoff nat int nat sigproof nat
  | TAnnounce nat int
  | TStopped

record ograce =
  gr_seat :: oseat
  gr_snapshot :: "snapshot option"
  gr_quorum :: int
  gr_weighted :: bool
  gr_members :: "string list option"
  gr_leader :: "oracle_leader option"
  gr_leaderSubmitted :: bool

record owatch =
  wt_height :: int
  wt_time :: jsval
  wt_rearms :: nat

type_synonym own_sig = "(string \<times> jsval) option"

datatype oout =
    OutPropose int "raw_price list" string int jsval "string list" own_sig jsval
  | OutPrepare int string own_sig
  | OutCommit int string own_sig

text \<open>A finalized row of the database; \<open>sr_origin\<close> is a ghost: the round object it came from, None on the single-node path.\<close>

record ostored =
  sr_round :: int
  sr_prices :: "raw_price list"
  sr_count :: nat
  sr_proof :: sigproof
  sr_height :: int
  sr_time :: jsval
  sr_admit :: jsval
  sr_origin :: "nat option"

datatype oevent =
    Finalized int "raw_price list" int jsval jsval "string list" sigproof
  | Skipped int

record ostate =
  os_running :: bool
  os_heap :: "oround list"
  os_pending :: "(int \<times> nat) list"
  os_finalized :: "int list"
  os_skipped :: "int list"
  os_early :: "(int \<times> (vote_kind \<times> oracle_msg) list) list"
  os_ttl :: "(int \<times> rat) list"
  os_ready :: "(int \<times> rat) list"
  os_grace :: "(nat \<times> ograce) list"
  os_leaderTimers :: "(int \<times> nat) list"
  os_nextTimer :: nat
  os_watch :: "(int \<times> owatch) list"
  os_tasks :: "otask list"
  os_out :: "oout list"
  os_stored :: "ostored list"
  os_skipRows :: "(int \<times> string) list"
  os_events :: "oevent list"

definition new_oracle :: ostate where
  "new_oracle = \<lparr>os_running = True, os_heap = [], os_pending = [], os_finalized = [], os_skipped = [], os_early = [], os_ttl = [],
     os_ready = [], os_grace = [], os_leaderTimers = [], os_nextTimer = 0, os_watch = [], os_tasks = [], os_out = [], os_stored = [],
     os_skipRows = [], os_events = []\<rparr>"

definition push :: "otask \<Rightarrow> ostate \<Rightarrow> ostate" where
  "push t s = s\<lparr>os_tasks := os_tasks s @ [t]\<rparr>"

definition oracle_emit :: "oout \<Rightarrow> ostate \<Rightarrow> ostate" where
  "oracle_emit m s = s\<lparr>os_out := os_out s @ [m]\<rparr>"

definition upd_round :: "nat \<Rightarrow> (oround \<Rightarrow> oround) \<Rightarrow> ostate \<Rightarrow> ostate" where
  "upd_round i f s = s\<lparr>os_heap := (os_heap s)[i := f (os_heap s ! i)]\<rparr>"

definition drop_pending :: "int \<Rightarrow> ostate \<Rightarrow> ostate" where
  "drop_pending rd s = s\<lparr>os_pending := js_del rd (os_pending s)\<rparr>"

section \<open>Outcome bookkeeping (lifecycle.js, watchdog.js)\<close>

definition disarmRoundWatchdog :: "int \<Rightarrow> ostate \<Rightarrow> ostate" where
  "disarmRoundWatchdog rd s = s\<lparr>os_watch := js_del rd (os_watch s)\<rparr>"

definition clearRoundTracking :: "int \<Rightarrow> ostate \<Rightarrow> ostate" where
  "clearRoundTracking rd s =
     disarmRoundWatchdog rd
       (s\<lparr>os_ready := js_del rd (os_ready s),
          os_grace := (case map_of (os_leaderTimers s) rd of None \<Rightarrow> os_grace s | Some t \<Rightarrow> js_del t (os_grace s)),
          os_leaderTimers := js_del rd (os_leaderTimers s)\<rparr>)"

definition ring_add :: "nat \<Rightarrow> int \<Rightarrow> int list \<Rightarrow> int list" where
  "ring_add mx rd xs = (if mx < length xs + 1 then tl (xs @ [rd]) else xs @ [rd])"

definition oracleMarkFinalized :: "oracle_conf \<Rightarrow> int \<Rightarrow> ostate \<Rightarrow> ostate" where
  "oracleMarkFinalized c rd s =
     (let s1 = s\<lparr>os_skipped := remove1 rd (os_skipped s)\<rparr> in
      if rd \<in> set (os_finalized s1) then s1
      else (disarmRoundWatchdog rd s1)\<lparr>os_finalized := ring_add (oc_finalizedMax c) rd (os_finalized s1)\<rparr>)"

definition markLocallySkipped :: "oracle_conf \<Rightarrow> int \<Rightarrow> ostate \<Rightarrow> ostate" where
  "markLocallySkipped c rd s =
     (if rd \<in> set (os_finalized s) \<or> rd \<in> set (os_skipped s) then s
      else s\<lparr>os_skipped := ring_add (oc_finalizedMax c) rd (os_skipped s), os_events := os_events s @ [Skipped rd]\<rparr>)"

definition markRoundReady :: "oracle_conf \<Rightarrow> oracle_view \<Rightarrow> int \<Rightarrow> ostate \<Rightarrow> ostate" where
  "markRoundReady c w rd s =
     (let ready = filter (\<lambda>(r, ts). \<not> oc_finalizationTimeout c * 2 + oc_leaderTimeout c < ov_now w - ts) (os_ready s)
      in s\<lparr>os_ready := (if map_of ready rd = None then ready @ [(rd, ov_now w)] else ready)\<rparr>)"

definition armRoundWatchdog :: "int \<Rightarrow> int \<Rightarrow> jsval \<Rightarrow> ostate \<Rightarrow> ostate" where
  "armRoundWatchdog rd height time s =
     (if rd \<in> set (os_finalized s) \<or> rd \<in> set (os_skipped s) \<or> map_of (os_watch s) rd \<noteq> None then s
      else s\<lparr>os_watch := js_put rd \<lparr>wt_height = height, wt_time = time, wt_rearms = 0\<rparr> (os_watch s)\<rparr>)"

definition ROUND_ABANDON_MAX_REARMS :: nat where "ROUND_ABANDON_MAX_REARMS = 3"

definition onRoundAbandoned :: "int \<Rightarrow> ostate \<Rightarrow> ostate" where
  "onRoundAbandoned rd s =
     (case map_of (os_watch s) rd of
        None \<Rightarrow> s
      | Some entry \<Rightarrow>
          if rd \<in> set (os_finalized s) \<or> rd \<in> set (os_skipped s) then disarmRoundWatchdog rd s
          else if map_of (os_pending s) rd \<noteq> None \<and> wt_rearms entry < ROUND_ABANDON_MAX_REARMS
          then s\<lparr>os_watch := js_put rd (entry\<lparr>wt_rearms := wt_rearms entry + 1\<rparr>) (os_watch s)\<rparr>
          else push (TSkip rd (wt_height entry) (wt_time entry) ''round abandoned before finalization'') (disarmRoundWatchdog rd s))"

section \<open>Votes and quorum (messages.js, commit.js)\<close>

definition oracleAddVote :: "oracle_msg \<Rightarrow> string list \<Rightarrow> string list" where
  "oracleAddVote m votes = (case provenPubkey (om_sig m) of None \<Rightarrow> votes | Some pk \<Rightarrow> js_add pk votes)"

definition add_self :: "oracle_view \<Rightarrow> string list \<Rightarrow> string list" where
  "add_self w votes = (case oracleSelfPubkey w of None \<Rightarrow> votes | Some pk \<Rightarrow> js_add pk votes)"

definition round_payload :: "oracle_conf \<Rightarrow> oround \<Rightarrow> unit + string" where
  "round_payload c p = buildPriceV0Payload c (pr_round p) (pr_time p) (pr_prices p) (pr_height p) (pr_admit p)"

definition verifyAndStoreSig :: "oracle_conf \<Rightarrow> jsval \<Rightarrow> jsval \<Rightarrow> oround \<Rightarrow> oround" where
  "verifyAndStoreSig c pubkeyHex sigHex p =
     (if \<not> truthy pubkeyHex \<or> \<not> truthy sigHex then p
      else (let pk = to_lower (js_String (oc_show c) pubkeyHex) in
        if pk \<in> fst ` set (pr_sigs p) then p
        else (case round_payload c p of
            Inl e \<Rightarrow> p
          | Inr t \<Rightarrow> if oc_verify c t sigHex pk then p\<lparr>pr_sigs := pr_sigs p @ [(pk, sigHex)]\<rparr> else p)))"

definition own_signature :: "oracle_conf \<Rightarrow> oracle_view \<Rightarrow> oround \<Rightarrow> own_sig" where
  "own_signature c w p = signPriceV0 c w (pr_round p) (pr_time p) (pr_prices p) (pr_height p) (pr_admit p)"

definition add_own :: "own_sig \<Rightarrow> oround \<Rightarrow> oround" where
  "add_own sg p =
     (case sg of
        None \<Rightarrow> p
      | Some (pk, sig) \<Rightarrow> if pk \<in> fst ` set (pr_sigs p) then p else p\<lparr>pr_sigs := pr_sigs p @ [(pk, sig)]\<rparr>)"

definition countDistinctMembers :: "oround \<Rightarrow> string list \<Rightarrow> nat" where
  "countDistinctMembers p votes =
     (case pr_members p of None \<Rightarrow> length votes | Some ms \<Rightarrow> length (filter (\<lambda>k. k \<in> set ms) votes))"

definition COUNT_QUORUM_SIGNED_KEY :: string where
  "COUNT_QUORUM_SIGNED_KEY = ''oracle/consensus/commit.COUNT_QUORUM_SIGNED_ACTIVATION''"

definition signed_tally :: "oracle_conf \<Rightarrow> oround \<Rightarrow> bool" where
  "signed_tally c p = gate_true (activeAt (oc_gates c) COUNT_QUORUM_SIGNED_KEY (JStr (oc_network c)) (Some ''BTC'') (CNum (pr_height p)) CMissing)"

definition oracleQuorumMet :: "oracle_conf \<Rightarrow> oround \<Rightarrow> string list \<Rightarrow> bool" where
  "oracleQuorumMet c p votes =
     (if pr_weighted p then meetsStakeThreshold (oc_rnd c) (pr_validators p) (map fst (pr_sigs p))
      else pr_quorum p \<le> int (countDistinctMembers p (if signed_tally c p then map fst (pr_sigs p) else votes)))"

definition sortedSignatures :: "oround \<Rightarrow> sigproof" where
  "sortedSignatures p = sort_key fst (pr_sigs p)"

definition finalizeCommittedRound :: "int \<Rightarrow> ostate \<Rightarrow> ostate" where
  "finalizeCommittedRound rd s =
     (case map_of (os_pending s) rd of
        None \<Rightarrow> s
      | Some i \<Rightarrow>
          (let p = os_heap s ! i
           in push (TStore i rd (countDistinctMembers p (pr_prepares p)) (sortedSignatures p) 1) s))"

definition oracleCheckCommit :: "oracle_conf \<Rightarrow> int \<Rightarrow> ostate \<Rightarrow> ostate" where
  "oracleCheckCommit c rd s =
     (case map_of (os_pending s) rd of
        None \<Rightarrow> s
      | Some i \<Rightarrow>
          (let p = os_heap s ! i in
           if pr_finalized p \<or> \<not> oracleQuorumMet c p (pr_commits p) then s
           else finalizeCommittedRound rd (upd_round i (\<lambda>p. p\<lparr>pr_finalized := True, pr_timer := NoTimer\<rparr>) s)))"

definition oracleCheckPrepare :: "oracle_conf \<Rightarrow> oracle_view \<Rightarrow> int \<Rightarrow> ostate \<Rightarrow> ostate" where
  "oracleCheckPrepare c w rd s =
     (case map_of (os_pending s) rd of
        None \<Rightarrow> s
      | Some i \<Rightarrow>
          (let p = os_heap s ! i in
           if pr_finalized p \<or> \<not> oracleQuorumMet c p (pr_prepares p) \<or> pr_commitSent p then s
           else (let sg = own_signature c w p in
             oracleCheckCommit c rd
               (oracle_emit (OutCommit rd (pr_digest p) sg)
                 (upd_round i (\<lambda>p. add_own sg (p\<lparr>pr_commitSent := True, pr_commits := add_self w (pr_commits p)\<rparr>)) s)))))"

section \<open>Early messages (messages.js)\<close>

definition pruneEarlyMessages :: "rat \<Rightarrow> ostate \<Rightarrow> ostate" where
  "pruneEarlyMessages nowMs s =
     (let gone = map fst (filter (\<lambda>(r, expiresAt). expiresAt \<le> nowMs) (os_ttl s))
      in s\<lparr>os_early := filter (\<lambda>(r, a). r \<notin> set gone) (os_early s), os_ttl := filter (\<lambda>(r, e). r \<notin> set gone) (os_ttl s)\<rparr>)"

fun evict_oldest :: "nat \<Rightarrow> (int \<times> 'a) list \<Rightarrow> (int \<times> rat) list \<Rightarrow> (int \<times> 'a) list \<times> (int \<times> rat) list" where
  "evict_oldest mx [] ttl = ([], ttl)"
| "evict_oldest mx ((r, a) # es) ttl =
     (if mx \<le> length ((r, a) # es) then evict_oldest mx es (js_del r ttl) else ((r, a) # es, ttl))"

definition EARLY_MAX_PER_ROUND :: nat where "EARLY_MAX_PER_ROUND = 64"
definition EARLY_TTL_MS :: rat where "EARLY_TTL_MS = 60000"

definition bufferEarlyMessage :: "oracle_conf \<Rightarrow> oracle_view \<Rightarrow> int \<Rightarrow> vote_kind \<times> oracle_msg \<Rightarrow> ostate \<Rightarrow> ostate" where
  "bufferEarlyMessage c w rd env s =
     (let s1 = pruneEarlyMessages (ov_now w) s;
          s2 = (if map_of (os_early s1) rd \<noteq> None then s1
                else (case evict_oldest (oc_earlyMaxRounds c) (os_early s1) (os_ttl s1) of
                    (es, ttl) \<Rightarrow> s1\<lparr>os_early := js_put rd [] es, os_ttl := ttl\<rparr>));
          arr = the (map_of (os_early s2) rd)
      in if EARLY_MAX_PER_ROUND \<le> length arr then s2
         else s2\<lparr>os_early := js_put rd (arr @ [env]) (os_early s2), os_ttl := js_put rd (ov_now w + EARLY_TTL_MS) (os_ttl s2)\<rparr>)"

text \<open>\<open>handlePrepare\<close> and \<open>handleCommit\<close>.\<close>

definition oracleHandlePrepare :: "oracle_conf \<Rightarrow> oracle_view \<Rightarrow> oracle_msg \<Rightarrow> ostate \<Rightarrow> ostate" where
  "oracleHandlePrepare c w m s =
     (case round_of (om_round m) of
        None \<Rightarrow> s
      | Some rd \<Rightarrow>
          if \<not> truthy (om_digest m) \<or> \<not> oracleIsKnownSender w m then s
          else (case map_of (os_pending s) rd of
              None \<Rightarrow> if rd \<in> set (os_finalized s) then s else bufferEarlyMessage c w rd (Prepare, m) s
            | Some i \<Rightarrow>
                if om_digest m \<noteq> JStr (pr_digest (os_heap s ! i)) then s
                else oracleCheckPrepare c w rd
                  (upd_round i (\<lambda>p. verifyAndStoreSig c (om_sigPubkey m) (om_sigHex m) (p\<lparr>pr_prepares := oracleAddVote m (pr_prepares p)\<rparr>)) s)))"

definition oracleHandleCommit :: "oracle_conf \<Rightarrow> oracle_view \<Rightarrow> oracle_msg \<Rightarrow> ostate \<Rightarrow> ostate" where
  "oracleHandleCommit c w m s =
     (case round_of (om_round m) of
        None \<Rightarrow> s
      | Some rd \<Rightarrow>
          if \<not> truthy (om_digest m) \<or> \<not> oracleIsKnownSender w m then s
          else (case map_of (os_pending s) rd of
              None \<Rightarrow> if rd \<in> set (os_finalized s) then s else bufferEarlyMessage c w rd (Commit, m) s
            | Some i \<Rightarrow>
                if om_digest m \<noteq> JStr (pr_digest (os_heap s ! i)) then s
                else oracleCheckCommit c rd
                  (upd_round i (\<lambda>p. verifyAndStoreSig c (om_sigPubkey m) (om_sigHex m) (p\<lparr>pr_commits := oracleAddVote m (pr_commits p)\<rparr>)) s)))"

definition handle_vote :: "oracle_conf \<Rightarrow> oracle_view \<Rightarrow> vote_kind \<times> oracle_msg \<Rightarrow> ostate \<Rightarrow> ostate" where
  "handle_vote c w env s =
     (case fst env of
        Prepare \<Rightarrow> oracleHandlePrepare c w (snd env) s
      | Commit \<Rightarrow> oracleHandleCommit c w (snd env) s
      | Propose \<Rightarrow> s)"

text \<open>Only votes are ever buffered, so the replay never meets a PROPOSE.\<close>

definition drainEarlyMessages :: "oracle_conf \<Rightarrow> oracle_view \<Rightarrow> int \<Rightarrow> ostate \<Rightarrow> ostate" where
  "drainEarlyMessages c w rd s =
     (case map_of (os_early s) rd of
        None \<Rightarrow> s
      | Some arr \<Rightarrow> fold (handle_vote c w) arr (s\<lparr>os_early := js_del rd (os_early s), os_ttl := js_del rd (os_ttl s)\<rparr>))"

section \<open>Proposing (propose.js, seats.js)\<close>

text \<open>The tail of \<open>proposeRound\<close>: sign, open the round, replay early votes, arm the timeout, broadcast, count.\<close>

definition leader_round :: "oracle_conf \<Rightarrow> oracle_view \<Rightarrow> oproposal \<Rightarrow> jsval \<Rightarrow> own_sig \<Rightarrow> oround" where
  "leader_round c w x admit sg =
     \<lparr>pr_round = se_round (ox_seat x), pr_prices = ox_prices x, pr_digest = oracle_digest c (se_round (ox_seat x)) (ox_prices x),
      pr_height = se_height (ox_seat x), pr_time = se_time (ox_seat x), pr_admit = admit,
      pr_prepares = add_self w [], pr_commits = [], pr_sigs = (case sg of None \<Rightarrow> [] | Some ks \<Rightarrow> [ks]),
      pr_finalized = False, pr_commitSent = False,
      pr_quorum = (if 0 \<le> ox_quorum x then ox_quorum x else oracleGetQuorum w), pr_weighted = ox_weighted x,
      pr_validators = oracleNormalizeValidators (ox_snapshot x) (ox_weighted x), pr_members = ox_members x,
      pr_retryMs = 0, pr_timer = NoTimer\<rparr>"

definition oracleOpenLeader :: "oracle_conf \<Rightarrow> oracle_view \<Rightarrow> oproposal \<Rightarrow> jsval \<Rightarrow> ostate \<Rightarrow> ostate" where
  "oracleOpenLeader c w x admit s =
     (let rd = se_round (ox_seat x);
          sg = signPriceV0 c w rd (se_time (ox_seat x)) (ox_prices x) (se_height (ox_seat x)) admit;
          i = length (os_heap s);
          s1 = drainEarlyMessages c w rd
                 (s\<lparr>os_heap := os_heap s @ [leader_round c w x admit sg], os_pending := js_put rd i (os_pending s)\<rparr>);
          s2 = oracle_emit (OutPropose rd (ox_prices x) (oracle_digest c rd (ox_prices x)) (se_height (ox_seat x)) (se_time (ox_seat x))
                      (sort (ox_keys x)) sg admit)
                 (upd_round i (\<lambda>p. p\<lparr>pr_timer := LeaderTimer\<rparr>) s1)
      in oracleCheckPrepare c w rd s2)"

definition proposeRound ::
  "oracle_conf \<Rightarrow> oracle_view \<Rightarrow> oseat \<Rightarrow> submissions \<Rightarrow> snapshot option \<Rightarrow> int \<Rightarrow> bool \<Rightarrow> string list option \<Rightarrow> ostate \<Rightarrow> ostate" where
  "proposeRound c w se subs so quorum weighted members s =
     (let aggregated = honest_proposal (oc_mj c) (oc_fmt c) (ov_hub w) subs;
          x = \<lparr>ox_seat = se, ox_prices = aggregated, ox_snapshot = so, ox_quorum = quorum, ox_weighted = weighted,
               ox_members = members, ox_keys = map fst subs\<rparr>
      in if aggregated = [] then push (TSkip (se_round se) (se_height se) (se_time se) ''aggregation yielded no prices'') s
         else if oracleEra c (se_height se) then push (TPropose x) s
         else oracleOpenLeader c w x JNull s)"

definition arm_grace :: "ograce \<Rightarrow> ostate \<Rightarrow> ostate" where
  "arm_grace g s =
     s\<lparr>os_grace := os_grace s @ [(os_nextTimer s, g)], os_leaderTimers := js_put (se_round (gr_seat g)) (os_nextTimer s) (os_leaderTimers s),
       os_nextTimer := Suc (os_nextTimer s)\<rparr>"

definition takeSeat ::
  "oracle_conf \<Rightarrow> oracle_view \<Rightarrow> oseat \<Rightarrow> submissions \<Rightarrow> snapshot option \<Rightarrow> int \<Rightarrow> bool \<Rightarrow> string list option \<Rightarrow> ostate \<Rightarrow> ostate" where
  "takeSeat c w se subs so quorum weighted members s =
     (let rd = se_round se; leader = oracleGetLeader w rd members; myAddr = oh_addr (ov_hub w) in
      if oracleIsLeader leader myAddr (oracleSelfPubkey w) then proposeRound c w se subs so quorum weighted members s
      else (let s1 = markRoundReady c w rd s;
                la = leaderSubmissionAddr (ov_hub w) subs leader;
                candidates = (case la of None \<Rightarrow> map fst subs | Some a \<Rightarrow> filter (\<lambda>x. x \<noteq> a) (map fst subs))
            in if lowest candidates \<noteq> Some myAddr then s1
               else arm_grace \<lparr>gr_seat = se, gr_snapshot = so, gr_quorum = quorum, gr_weighted = weighted, gr_members = members,
                       gr_leader = leader, gr_leaderSubmitted = (la \<noteq> None)\<rparr> s1))"

text \<open>The grace timer of an elected fallback.\<close>

definition fireGrace :: "oracle_conf \<Rightarrow> oracle_view \<Rightarrow> nat \<Rightarrow> ograce \<Rightarrow> ostate \<Rightarrow> ostate" where
  "fireGrace c w t g s =
     (let se = gr_seat g; rd = se_round se;
          s1 = s\<lparr>os_grace := js_del t (os_grace s), os_leaderTimers := js_del rd (os_leaderTimers s)\<rparr>;
          subs = filterSubmissionsToSnapshot (ov_hub w) (getSubmissions w rd) (gr_members g);
          la = leaderSubmissionAddr (ov_hub w) subs (gr_leader g)
      in if map_of (os_pending s1) rd \<noteq> None \<or> rd \<in> set (os_finalized s1) \<or> subs = [] then s1
         else if gr_leaderSubmitted g \<and>
                 lowest (filter (\<lambda>a. Some a \<noteq> la) (map fst subs)) \<noteq> Some (oh_addr (ov_hub w)) then s1
         else proposeRound c w se subs (gr_snapshot g) (gr_quorum g) (gr_weighted g) (gr_members g) s1)"

section \<open>Finalizing a round (finalize\_round.js)\<close>

definition skip_round :: "oseat \<Rightarrow> string \<Rightarrow> ostate \<Rightarrow> ostate" where
  "skip_round se reason s = push (TSkip (se_round se) (se_height se) (se_time se) reason) s"

text \<open>The single-node path, up to its awaits.\<close>

definition solo_sign :: "oracle_conf \<Rightarrow> oracle_view \<Rightarrow> oseat \<Rightarrow> raw_price list \<Rightarrow> jsval \<Rightarrow> ostate \<Rightarrow> ostate" where
  "solo_sign c w se prices admit s =
     push (TSoloStore se prices admit
       (case signPriceV0 c w (se_round se) (se_time se) prices (se_height se) admit of None \<Rightarrow> [] | Some ks \<Rightarrow> [ks])) s"

definition finalizeSoloRound :: "oracle_conf \<Rightarrow> oracle_view \<Rightarrow> oseat \<Rightarrow> submissions \<Rightarrow> ostate \<Rightarrow> ostate" where
  "finalizeSoloRound c w se subs s =
     (let aggregated = honest_proposal (oc_mj c) (oc_fmt c) (ov_hub w) subs in
      if aggregated = [] then skip_round se ''aggregation yielded no prices'' s
      else if oracleEra c (se_height se) then push (TSolo se aggregated) s
      else solo_sign c w se aggregated JNull s)"

definition open_or_solo :: "oracle_conf \<Rightarrow> oracle_view \<Rightarrow> oseat \<Rightarrow> bool \<Rightarrow> snapshot option \<Rightarrow> string list option \<Rightarrow> submissions \<Rightarrow> ostate \<Rightarrow> ostate" where
  "open_or_solo c w se weighted so members subs s =
     (let quorum = oracle_quorum w so in
      if quorum = 0 then finalizeSoloRound c w se subs s
      else takeSeat c w se subs so quorum weighted members (armRoundWatchdog (se_round se) (se_height se) (se_time se) s))"

definition finalize_locked :: "oracle_conf \<Rightarrow> oracle_view \<Rightarrow> oseat \<Rightarrow> bool \<Rightarrow> snapshot option \<Rightarrow> ostate \<Rightarrow> ostate" where
  "finalize_locked c w se weighted so s =
     (case snapshotSkip c w (se_height se) so of
        Some reason \<Rightarrow> skip_round se reason s
      | None \<Rightarrow>
          (let members = oracleMemberPubkeySet so;
               subs = filterSubmissionsToSnapshot (ov_hub w) (getSubmissions w (se_round se)) members
           in case memberSubmissionSkip c subs of
                Some reason \<Rightarrow> skip_round se reason s
              | None \<Rightarrow>
                  if isClampReferenceAlignActive (js_int_of (se_height se)) (oc_show c) (oc_network c)
                  then push (TFinalizeSeat se weighted so members subs) s
                  else open_or_solo c w se weighted so members subs s))"

definition finalizeOnSnapshot :: "oracle_conf \<Rightarrow> oracle_view \<Rightarrow> oseat \<Rightarrow> bool \<Rightarrow> snapshot option \<Rightarrow> ostate \<Rightarrow> ostate" where
  "finalizeOnSnapshot c w se weighted so s =
     (case weightedSnapshotVerdict c w weighted so (Some (se_height se)) of
        Refuse \<Rightarrow> skip_round se ''weighted quorum active but weight snapshot unavailable'' s
      | Downgrade \<Rightarrow> if oc_hasSnapshots c then push (TFinalizeCount se) s else finalize_locked c w se False None s
      | Proceed \<Rightarrow> finalize_locked c w se weighted so s)"

definition finalize_seat :: "oracle_conf \<Rightarrow> oracle_view \<Rightarrow> int \<Rightarrow> int \<Rightarrow> jsval \<Rightarrow> oseat" where
  "finalize_seat c w rd height time =
     (let h = (if height = 0 then rd else height) in
      \<lparr>se_round = rd, se_height = h,
       se_time = (if truthy time then time
                  else if roundTimeGateActive c h
                  then (case nominalRoundSeconds rd (oc_epochStart c) (oc_interval c) of None \<Rightarrow> JNull | Some t \<Rightarrow> js_int_of t)
                  else js_int_of \<lfloor>ov_now w / 1000\<rfloor>)\<rparr>)"

text \<open>\<open>finalizeRound\<close>; a missing height is 0.\<close>

definition finalizeRound :: "oracle_conf \<Rightarrow> oracle_view \<Rightarrow> int \<Rightarrow> int \<Rightarrow> jsval \<Rightarrow> ostate \<Rightarrow> ostate" where
  "finalizeRound c w rd height time s =
     (if rd \<in> set (os_finalized s) then s
      else (let se = finalize_seat c w rd height time in
        case submissionCountSkip c (getSubmissions w rd) of
          Some reason \<Rightarrow> skip_round se reason s
        | None \<Rightarrow>
            if oc_hasSnapshots c then push (TFinalizeSnap se) s
            else finalizeOnSnapshot c w se (isStakeWeightedQuorumActive (CNum (se_height se)) (oc_network c)) None s))"

section \<open>Following a PROPOSE (handle\_propose.js, follower\_round.js)\<close>

definition follower_round :: "oracle_conf \<Rightarrow> oracle_view \<Rightarrow> oracle_msg \<Rightarrow> int \<Rightarrow> raw_price list \<Rightarrow> string \<Rightarrow> olocked \<Rightarrow> int \<Rightarrow> jsval \<Rightarrow> oround" where
  "follower_round c w m rd prices digest lk quorum admit =
     \<lparr>pr_round = rd, pr_prices = prices, pr_digest = digest, pr_height = lp_height lk,
      pr_time = (if truthy (om_time m) then om_time m
                 else if lp_roundTime lk
                 then (case nominalRoundSeconds rd (oc_epochStart c) (oc_interval c) of None \<Rightarrow> JNull | Some t \<Rightarrow> js_int_of t)
                 else js_int_of \<lfloor>ov_now w / 1000\<rfloor>),
      pr_admit = admit, pr_prepares = [], pr_commits = [], pr_sigs = [], pr_finalized = False, pr_commitSent = False,
      pr_quorum = quorum, pr_weighted = lp_weighted lk,
      pr_validators = oracleNormalizeValidators (lp_snapshot lk) (lp_weighted lk), pr_members = lp_members lk,
      pr_retryMs = 0, pr_timer = FollowerTimer\<rparr>"

definition oracleOpenFollower :: "oracle_conf \<Rightarrow> oracle_view \<Rightarrow> oracle_msg \<Rightarrow> int \<Rightarrow> raw_price list \<Rightarrow> string \<Rightarrow> olocked \<Rightarrow> jsval \<Rightarrow> ostate \<Rightarrow> ostate" where
  "oracleOpenFollower c w m rd prices digest lk admit s =
     (case lp_quorum lk of
        None \<Rightarrow> s
      | Some quorum \<Rightarrow>
          if map_of (os_pending s) rd \<noteq> None then s
          else (let p = follower_round c w m rd prices digest lk quorum admit in
            drainEarlyMessages c w rd
              (armRoundWatchdog rd (pr_height p) (pr_time p)
                (s\<lparr>os_heap := os_heap s @ [p], os_pending := js_put rd (length (os_heap s)) (os_pending s)\<rparr>))))"

text \<open>\<open>prepareOnPropose\<close>; with no open round left the source throws, and the handler ends.\<close>

definition prepareOnPropose :: "oracle_conf \<Rightarrow> oracle_view \<Rightarrow> oracle_msg \<Rightarrow> int \<Rightarrow> raw_price list \<Rightarrow> string \<Rightarrow> jsval \<Rightarrow> ostate \<Rightarrow> ostate" where
  "prepareOnPropose c w m rd prices digest admit s =
     (case map_of (os_pending s) rd of
        None \<Rightarrow> s
      | Some i \<Rightarrow>
          (let p = os_heap s ! i in
           if pr_digest p \<noteq> digest \<or> spellAdmit (pr_admit p) \<noteq> spellAdmit admit then s
           else (let sg = signPriceV0 c w rd (pr_time p) prices (pr_height p) (pr_admit p) in
             oracleCheckPrepare c w rd
               (oracle_emit (OutPrepare rd digest sg)
                 (upd_round i (\<lambda>p. add_own sg (verifyAndStoreSig c (om_sigPubkey m) (om_sigHex m)
                     (p\<lparr>pr_prepares := add_self w (oracleAddVote m (pr_prepares p))\<rparr>))) s)))))"

definition co_sign :: "oracle_conf \<Rightarrow> oracle_view \<Rightarrow> oracle_msg \<Rightarrow> int \<Rightarrow> raw_price list \<Rightarrow> olocked \<Rightarrow> jsval \<Rightarrow> ostate \<Rightarrow> ostate" where
  "co_sign c w m rd prices lk admit s =
     (let digest = oracle_digest c rd prices in
      if (case map_of (os_pending s) rd of
            None \<Rightarrow> False
          | Some i \<Rightarrow> pr_digest (os_heap s ! i) = digest \<and> spellAdmit (pr_admit (os_heap s ! i)) = spellAdmit admit)
      then s
      else prepareOnPropose c w m rd prices digest admit (oracleOpenFollower c w m rd prices digest lk admit s))"

definition bindAndCoSign :: "oracle_conf \<Rightarrow> oracle_view \<Rightarrow> oracle_msg \<Rightarrow> int \<Rightarrow> raw_price list \<Rightarrow> olocked \<Rightarrow> ostate \<Rightarrow> ostate" where
  "bindAndCoSign c w m rd prices lk s =
     (case admissionEraOf c (lp_height lk) (om_admit m) of
        None \<Rightarrow> s
      | Some True \<Rightarrow> push (TBind m rd prices lk) s
      | Some False \<Rightarrow> co_sign c w m rd prices lk JNull s)"

definition judge_and_bind :: "oracle_conf \<Rightarrow> oracle_view \<Rightarrow> oracle_msg \<Rightarrow> int \<Rightarrow> raw_price list \<Rightarrow> olocked \<Rightarrow> ostate \<Rightarrow> ostate" where
  "judge_and_bind c w m rd prices lk s =
     (if judgeProposer c w (os_ready s) rd prices m (lp_members lk) then bindAndCoSign c w m rd prices lk s else s)"

definition lock_judged :: "oracle_conf \<Rightarrow> oracle_view \<Rightarrow> oracle_msg \<Rightarrow> int \<Rightarrow> raw_price list \<Rightarrow> int \<Rightarrow> bool \<Rightarrow> bool \<Rightarrow> snapshot option \<Rightarrow> ostate \<Rightarrow> ostate" where
  "lock_judged c w m rd prices height roundTime weighted so s =
     (case proposeSnapshotQuorum c w so (if wire_height (om_height m) = None then None else Some height) of
        None \<Rightarrow> s
      | Some q \<Rightarrow>
          judge_and_bind c w m rd prices
            \<lparr>lp_height = height, lp_weighted = weighted, lp_snapshot = so, lp_quorum = Some q, lp_members = oracleMemberPubkeySet so,
             lp_roundTime = roundTime\<rparr> s)"

definition lock_verdict :: "oracle_conf \<Rightarrow> oracle_view \<Rightarrow> oracle_msg \<Rightarrow> int \<Rightarrow> raw_price list \<Rightarrow> int \<Rightarrow> bool \<Rightarrow> bool \<Rightarrow> snapshot option \<Rightarrow> ostate \<Rightarrow> ostate" where
  "lock_verdict c w m rd prices height roundTime weighted so s =
     (case weightedSnapshotVerdict c w weighted so (if wire_height (om_height m) = None then None else Some height) of
        Refuse \<Rightarrow> s
      | Downgrade \<Rightarrow>
          if oc_hasSnapshots c then push (TLockCount m rd prices height roundTime) s
          else lock_judged c w m rd prices height roundTime False None s
      | Proceed \<Rightarrow> lock_judged c w m rd prices height roundTime weighted so s)"

definition lockProposeSnapshot :: "oracle_conf \<Rightarrow> oracle_view \<Rightarrow> oracle_msg \<Rightarrow> int \<Rightarrow> raw_price list \<Rightarrow> int \<Rightarrow> bool \<Rightarrow> ostate \<Rightarrow> ostate" where
  "lockProposeSnapshot c w m rd prices height roundTime s =
     (case map_of (os_pending s) rd of
        Some i \<Rightarrow>
          judge_and_bind c w m rd prices
            \<lparr>lp_height = height, lp_weighted = False, lp_snapshot = None, lp_quorum = None, lp_members = pr_members (os_heap s ! i),
             lp_roundTime = roundTime\<rparr> s
      | None \<Rightarrow>
          (let wt = isStakeWeightedQuorumActive (CNum height) (oc_network c) in
           if oc_hasSnapshots c then push (TLockSnap m rd prices height roundTime wt) s
           else lock_verdict c w m rd prices height roundTime wt None s))"

text \<open>\<open>handlePropose\<close> up to its first await, and from the resolved tip on.\<close>

definition oracleHandlePropose :: "oracle_conf \<Rightarrow> oracle_view \<Rightarrow> oracle_msg \<Rightarrow> ostate \<Rightarrow> ostate" where
  "oracleHandlePropose c w m s =
     (case proposalAdmissible c w (os_finalized s) m of
        None \<Rightarrow> s
      | Some (rd, prices) \<Rightarrow> push (TBound m rd prices) s)"

definition propose_bounded :: "oracle_conf \<Rightarrow> oracle_view \<Rightarrow> oracle_msg \<Rightarrow> int \<Rightarrow> raw_price list \<Rightarrow> ostate \<Rightarrow> ostate" where
  "propose_bounded c w m rd prices s =
     (case boundedProposeHeight c w rd (om_height m) of
        None \<Rightarrow> s
      | Some height \<Rightarrow>
          (let roundTime = roundTimeGateActive c height in
           if roundTime \<and> \<not> nullish (om_time m) \<and> \<not> roundTimeMatches (oc_show c) (om_time m) rd (oc_epochStart c) (oc_interval c) then s
           else if isClampReferenceAlignActive (om_height m) (oc_show c) (oc_network c) then push (TLock m rd prices height roundTime) s
           else lockProposeSnapshot c w m rd prices height roundTime s))"

definition oracleHandleMessage :: "oracle_conf \<Rightarrow> oracle_view \<Rightarrow> vote_kind \<times> oracle_msg \<Rightarrow> ostate \<Rightarrow> ostate" where
  "oracleHandleMessage c w env s =
     (case fst env of
        Propose \<Rightarrow> oracleHandlePropose c w (snd env) s
      | Prepare \<Rightarrow> oracleHandlePrepare c w (snd env) s
      | Commit \<Rightarrow> oracleHandleCommit c w (snd env) s)"

section \<open>Storing and announcing (commit.js, snapshot\_store.js)\<close>

definition or_now :: "oracle_view \<Rightarrow> jsval \<Rightarrow> jsval" where
  "or_now w time = (if truthy time then time else js_int_of \<lfloor>ov_now w / 1000\<rfloor>)"

text \<open>\<open>storeSnapshot\<close> when the database accepts the round: an empty round is not written.\<close>

definition store_row :: "oracle_view \<Rightarrow> int \<Rightarrow> raw_price list \<Rightarrow> nat \<Rightarrow> sigproof \<Rightarrow> int \<Rightarrow> jsval \<Rightarrow> jsval \<Rightarrow> nat option \<Rightarrow> ostate \<Rightarrow> ostate" where
  "store_row w rd prices cnt pf height time admit origin s =
     (if prices = [] then s
      else s\<lparr>os_stored := os_stored s @ [\<lparr>sr_round = rd, sr_prices = prices, sr_count = cnt, sr_proof = pf,
               sr_height = (if height = 0 then rd else height), sr_time = or_now w time, sr_admit = admit, sr_origin = origin\<rparr>]\<rparr>)"

definition FINALIZE_RETRY_BASE_MS :: rat where "FINALIZE_RETRY_BASE_MS = 1000"
definition FINALIZE_RETRY_MAX_MS :: rat where "FINALIZE_RETRY_MAX_MS = 30000"

definition armFinalizeRetry :: "oround \<Rightarrow> oround" where
  "armFinalizeRetry p =
     p\<lparr>pr_retryMs := min (if pr_retryMs p = 0 then FINALIZE_RETRY_BASE_MS else pr_retryMs p * 2) FINALIZE_RETRY_MAX_MS,
       pr_timer := RetryTimer\<rparr>"

definition MAX_STORE_ATTEMPTS :: nat where "MAX_STORE_ATTEMPTS = 3"

text \<open>One attempt to store a committed round.\<close>

definition store_attempt :: "oracle_view \<Rightarrow> nat \<Rightarrow> int \<Rightarrow> nat \<Rightarrow> sigproof \<Rightarrow> nat \<Rightarrow> ostate \<Rightarrow> ostate" where
  "store_attempt w i rd cnt pf attempt s =
     (let p = os_heap s ! i in
      if ov_dbOk w
      then push (TAnnounce i rd) (store_row w rd (pr_prices p) cnt pf (pr_height p) (pr_time p) (pr_admit p) (Some i) s)
      else if attempt < MAX_STORE_ATTEMPTS then push (TBackoff i rd cnt pf attempt) s
      else (case map_of (os_pending s) rd of
          None \<Rightarrow> s
        | Some j \<Rightarrow> upd_round j (\<lambda>p. armFinalizeRetry (p\<lparr>pr_finalized := False\<rparr>)) s))"

definition announceCommittedRound :: "oracle_conf \<Rightarrow> nat \<Rightarrow> int \<Rightarrow> ostate \<Rightarrow> ostate" where
  "announceCommittedRound c i rd s =
     (let p = os_heap s ! i; s1 = clearRoundTracking rd (drop_pending rd (oracleMarkFinalized c rd s))
      in s1\<lparr>os_events := os_events s1 @ [Finalized rd (pr_prices p) (pr_height p) (pr_time p)
              (if nullish (pr_admit p) then JNull else pr_admit p) (pr_prepares p) (sortedSignatures p)]\<rparr>)"

definition solo_announce :: "oracle_conf \<Rightarrow> oracle_view \<Rightarrow> oseat \<Rightarrow> raw_price list \<Rightarrow> jsval \<Rightarrow> sigproof \<Rightarrow> ostate \<Rightarrow> ostate" where
  "solo_announce c w se prices admit pf s =
     (let s1 = oracleMarkFinalized c (se_round se) s
      in s1\<lparr>os_events := os_events s1 @ [Finalized (se_round se) prices (se_height se) (se_time se) admit (add_self w []) pf]\<rparr>)"

section \<open>Tasks, timers, steps\<close>

text \<open>The rest of a handler after its await; a failed database write of the skip and single-node
  paths ends the handler. Without members the submissions are the live map, read again after the await.\<close>

fun run_task :: "oracle_conf \<Rightarrow> oracle_view \<Rightarrow> otask \<Rightarrow> ostate \<Rightarrow> ostate" where
  "run_task c w (TFinalizeSnap se) s =
     (let wt = isStakeWeightedQuorumActive (CNum (se_height se)) (oc_network c)
      in finalizeOnSnapshot c w se wt (if wt then ov_weightSnapshot w else ov_countSnapshot w) s)"
| "run_task c w (TFinalizeCount se) s = finalize_locked c w se False (ov_countSnapshot w) s"
| "run_task c w (TFinalizeSeat se weighted so members subs) s =
     open_or_solo c w se weighted so members (if members = None then getSubmissions w (se_round se) else subs) s"
| "run_task c w (TSolo se prices) s =
     (let admit = resolveRoundAdmitBlocks c w in if admit = JNull then s else solo_sign c w se prices admit s)"
| "run_task c w (TSoloStore se prices admit pf) s =
     (if ov_dbOk w
      then push (TSoloAnnounce se prices admit pf)
             (store_row w (se_round se) prices 1 pf (se_height se) (se_time se) admit None s)
      else s)"
| "run_task c w (TSoloAnnounce se prices admit pf) s = solo_announce c w se prices admit pf s"
| "run_task c w (TSkip rd height time reason) s =
     (if ov_dbOk w then push (TSkipMark rd) (s\<lparr>os_skipRows := os_skipRows s @ [(rd, reason)]\<rparr>) else s)"
| "run_task c w (TSkipMark rd) s = clearRoundTracking rd (markLocallySkipped c rd s)"
| "run_task c w (TPropose x) s =
     (let admit = resolveRoundAdmitBlocks c w; rd = se_round (ox_seat x) in
      if admit = JNull \<or> rd \<in> set (os_finalized s) \<or> map_of (os_pending s) rd \<noteq> None then s
      else oracleOpenLeader c w x admit s)"
| "run_task c w (TBound m rd prices) s = propose_bounded c w m rd prices s"
| "run_task c w (TLock m rd prices height roundTime) s = lockProposeSnapshot c w m rd prices height roundTime s"
| "run_task c w (TLockSnap m rd prices height roundTime wt) s =
     lock_verdict c w m rd prices height roundTime wt (if wt then ov_weightSnapshot w else ov_countSnapshot w) s"
| "run_task c w (TLockCount m rd prices height roundTime) s = lock_judged c w m rd prices height roundTime False (ov_countSnapshot w) s"
| "run_task c w (TBind m rd prices lk) s =
     (case checkProposedAdmit c w (om_admit m) of None \<Rightarrow> s | Some admit \<Rightarrow> co_sign c w m rd prices lk admit s)"
| "run_task c w (TStore i rd cnt pf attempt) s = store_attempt w i rd cnt pf attempt s"
| "run_task c w (TBackoff i rd cnt pf attempt) s =
     (if map_of (os_pending s) rd = None then s else push (TStore i rd cnt pf (attempt + 1)) s)"
| "run_task c w (TAnnounce i rd) s = announceCommittedRound c i rd s"
| "run_task c w TStopped s = s\<lparr>os_pending := [], os_ready := [], os_early := [], os_ttl := []\<rparr>"

definition fireTimer :: "nat \<Rightarrow> ostate \<Rightarrow> ostate" where
  "fireTimer i s =
     (let p = os_heap s ! i; rd = pr_round p; s1 = upd_round i (\<lambda>p. p\<lparr>pr_timer := NoTimer\<rparr>) s in
      case pr_timer p of
        NoTimer \<Rightarrow> s
      | LeaderTimer \<Rightarrow> if pr_finalized p then s1 else drop_pending rd s1
      | FollowerTimer \<Rightarrow> drop_pending rd s1
      | RetryTimer \<Rightarrow>
          (case map_of (os_pending s1) rd of
             None \<Rightarrow> s1
           | Some j \<Rightarrow>
               if pr_finalized (os_heap s1 ! j) \<or> rd \<in> set (os_finalized s1) then s1
               else finalizeCommittedRound rd (upd_round j (\<lambda>p. p\<lparr>pr_finalized := True\<rparr>) s1)))"

definition stop_rounds :: "ostate \<Rightarrow> ostate" where
  "stop_rounds s =
     (let lost = filter (\<lambda>(rd, e). rd \<notin> set (os_finalized s) \<and> rd \<notin> set (os_skipped s)) (os_watch s);
          s1 = fold (\<lambda>(rd, i). upd_round i (\<lambda>p. p\<lparr>pr_timer := NoTimer\<rparr>)) (os_pending s) s;
          s2 = s1\<lparr>os_running := False,
                  os_grace := filter (\<lambda>(t, g). t \<notin> snd ` set (os_leaderTimers s)) (os_grace s1), os_leaderTimers := [], os_watch := []\<rparr>
      in push TStopped (fold (\<lambda>(rd, e). push (TSkip rd (wt_height e) (wt_time e) ''hub stopped with round in flight'')) lost s2))"

definition drop_nth :: "nat \<Rightarrow> 'a list \<Rightarrow> 'a list" where
  "drop_nth i xs = take i xs @ drop (Suc i) xs"

text \<open>
  One step of a hub, whatever it reads (the view \<open>w\<close>) and whoever sends. \<open>H\<close> holds the anchor heights of the rounds
  the scheduler asks to finalize.
\<close>

inductive oracle_step :: "oracle_conf \<Rightarrow> int set \<Rightarrow> ostate \<Rightarrow> ostate \<Rightarrow> bool" for c :: oracle_conf and H :: "int set" where
  message: "os_running s \<Longrightarrow> oracle_step c H s (oracleHandleMessage c w env s)"
| finalize: "se_height (finalize_seat c w rd height time) \<in> H \<Longrightarrow> oracle_step c H s (finalizeRound c w rd height time s)"
| task: "i < length (os_tasks s) \<Longrightarrow> oracle_step c H s (run_task c w (os_tasks s ! i) (s\<lparr>os_tasks := drop_nth i (os_tasks s)\<rparr>))"
| timer: "i < length (os_heap s) \<Longrightarrow> oracle_step c H s (fireTimer i s)"
| grace: "(t, g) \<in> set (os_grace s) \<Longrightarrow> oracle_step c H s (fireGrace c w t g s)"
| watchdog: "oracle_step c H s (onRoundAbandoned rd s)"
| stop: "oracle_step c H s (stop_rounds s)"

inductive oracle_reach :: "oracle_conf \<Rightarrow> int set \<Rightarrow> ostate \<Rightarrow> bool" for c :: oracle_conf and H :: "int set" where
  start: "oracle_reach c H new_oracle"
| step: "oracle_reach c H s \<Longrightarrow> oracle_step c H s s' \<Longrightarrow> oracle_reach c H s'"

end
