(* ===== verification/Oracle_Micro.thy ===== *)
theory Oracle_Micro
  imports Oracle_Rounds
begin

text \<open>
  Every step of the oracle's rounds is a sequence of guarded atomic updates. The updates are the rules of
  \<open>oracle_micro\<close>; the simulation \<open>oracle_step_micros\<close> covers each handler, task and timer, so an invariant is proved
  once per update.
\<close>

section \<open>Growth of a round\<close>

text \<open>A round object never changes its content and never loses a vote or a signature.\<close>

definition round_grows :: "oround \<Rightarrow> oround \<Rightarrow> bool" where
  "round_grows p q \<longleftrightarrow>
     pr_round q = pr_round p \<and> pr_prices q = pr_prices p \<and> pr_digest q = pr_digest p \<and> pr_height q = pr_height p \<and>
     pr_time q = pr_time p \<and> pr_admit q = pr_admit p \<and> pr_quorum q = pr_quorum p \<and> pr_weighted q = pr_weighted p \<and>
     pr_validators q = pr_validators p \<and> pr_members q = pr_members p \<and>
     set (pr_prepares p) \<subseteq> set (pr_prepares q) \<and> set (pr_commits p) \<subseteq> set (pr_commits q) \<and> set (pr_sigs p) \<subseteq> set (pr_sigs q)"

lemma grows_refl [simp]: "round_grows p p"
  by (simp add: round_grows_def)

lemma grows_trans: "round_grows p q \<Longrightarrow> round_grows q r \<Longrightarrow> round_grows p r"
  by (auto simp: round_grows_def)

lemma grows_flags [simp]:
  "round_grows p (q\<lparr>pr_finalized := b\<rparr>) = round_grows p q" "round_grows p (q\<lparr>pr_timer := t\<rparr>) = round_grows p q"
  "round_grows p (q\<lparr>pr_commitSent := b\<rparr>) = round_grows p q" "round_grows p (q\<lparr>pr_retryMs := ms\<rparr>) = round_grows p q"
  by (simp_all add: round_grows_def)

text \<open>Distinct votes, and every signature verifies over the payload of the round.\<close>

definition oround_ok :: "oracle_conf \<Rightarrow> oround \<Rightarrow> bool" where
  "oround_ok c p \<longleftrightarrow>
     distinct (map fst (pr_sigs p)) \<and> distinct (pr_prepares p) \<and> distinct (pr_commits p) \<and>
     (\<forall>k sg. (k, sg) \<in> set (pr_sigs p) \<longrightarrow> (\<exists>t. round_payload c p = Inr t \<and> oc_verify c t sg k))"

lemma oround_ok_flags [simp]:
  "oround_ok c (p\<lparr>pr_finalized := b\<rparr>) = oround_ok c p" "oround_ok c (p\<lparr>pr_timer := t\<rparr>) = oround_ok c p"
  "oround_ok c (p\<lparr>pr_commitSent := b\<rparr>) = oround_ok c p" "oround_ok c (p\<lparr>pr_retryMs := ms\<rparr>) = oround_ok c p"
  by (simp_all add: oround_ok_def round_payload_def)

text \<open>What the platform promises of its signatures: an own signature verifies under the own key.\<close>

definition signatures_ok :: "oracle_conf \<Rightarrow> bool" where
  "signatures_ok c \<longleftrightarrow> (\<forall>k t. oc_verify c t (oc_sign c k t) k)"

text \<open>Whether a set of signatures and commits certifies a round.\<close>

definition certified :: "oracle_conf \<Rightarrow> oround \<Rightarrow> string list \<Rightarrow> string list \<Rightarrow> bool" where
  "certified c p commits keys \<longleftrightarrow>
     (if pr_weighted p then (\<exists>ks. set ks \<subseteq> set keys \<and> meetsStakeThreshold (oc_rnd c) (pr_validators p) ks)
      else pr_quorum p \<le> int (countDistinctMembers p (if signed_tally c p then keys else commits)))"

definition round_voted :: "oround \<Rightarrow> oround \<Rightarrow> bool" where
  "round_voted p q \<longleftrightarrow> round_grows p q \<and> pr_finalized q = pr_finalized p \<and> pr_timer q = pr_timer p"

text \<open>The seats a task or a grace timer carries.\<close>

fun task_seats :: "otask \<Rightarrow> oseat list" where
  "task_seats (TFinalizeSnap se) = [se]"
| "task_seats (TFinalizeCount se) = [se]"
| "task_seats (TFinalizeSeat se weighted so members subs) = [se]"
| "task_seats (TPropose x) = [ox_seat x]"
| "task_seats t = []"

fun storing :: "otask \<Rightarrow> nat option" where
  "storing (TStore i rd cnt pf attempt) = Some i"
| "storing (TBackoff i rd cnt pf attempt) = Some i"
| "storing (TAnnounce i rd) = Some i"
| "storing t = None"

fun solo_row :: "otask \<Rightarrow> bool" where
  "solo_row (TSoloAnnounce se prices admit pf) = True"
| "solo_row t = False"

definition same_core :: "ostate \<Rightarrow> ostate \<Rightarrow> bool" where
  "same_core s s' \<longleftrightarrow>
     os_running s' = os_running s \<and> os_heap s' = os_heap s \<and> os_pending s' = os_pending s \<and> os_grace s' = os_grace s \<and>
     os_tasks s' = os_tasks s \<and> os_stored s' = os_stored s \<and>
     filter (\<lambda>e. \<forall>rd. e \<noteq> Skipped rd) (os_events s') = filter (\<lambda>e. \<forall>rd. e \<noteq> Skipped rd) (os_events s)"

definition seat_ok :: "int set \<Rightarrow> oseat \<Rightarrow> bool" where
  "seat_ok H se \<longleftrightarrow> se_height se \<in> H"

section \<open>The updates\<close>

inductive oracle_micro :: "oracle_conf \<Rightarrow> int set \<Rightarrow> ostate \<Rightarrow> ostate \<Rightarrow> bool" for c :: oracle_conf and H :: "int set" where
  frame: "same_core s s' \<Longrightarrow> oracle_micro c H s s'"
| vote: "i < length (os_heap s) \<Longrightarrow> round_voted (os_heap s ! i) (f (os_heap s ! i)) \<Longrightarrow>
    (oround_ok c (os_heap s ! i) \<Longrightarrow> oround_ok c (f (os_heap s ! i))) \<Longrightarrow> oracle_micro c H s (upd_round i f s)"
| claim: "map_of (os_pending s) rd = Some i \<Longrightarrow> i < length (os_heap s) \<Longrightarrow> \<not> pr_finalized (os_heap s ! i) \<Longrightarrow>
    certified c (os_heap s ! i) (pr_commits (os_heap s ! i)) (map fst (pr_sigs (os_heap s ! i))) \<Longrightarrow>
    oracle_micro c H s (push (TStore i rd cnt (sortedSignatures (os_heap s ! i)) 1)
      (upd_round i (\<lambda>p. p\<lparr>pr_finalized := True, pr_timer := NoTimer\<rparr>) s))"
| follower_open: "map_of (os_pending s) (pr_round p) = None \<Longrightarrow> oround_ok c p \<Longrightarrow> \<not> pr_finalized p \<Longrightarrow> pr_timer p = FollowerTimer \<Longrightarrow>
    oracle_micro c H s (s\<lparr>os_heap := os_heap s @ [p], os_pending := js_put (pr_round p) (length (os_heap s)) (os_pending s)\<rparr>)"
| leader_open: "map_of (os_pending s) (pr_round p) = None \<or> pr_height p \<in> H \<and> \<not> oracleEra c (pr_height p) \<Longrightarrow>
    oround_ok c p \<Longrightarrow> \<not> pr_finalized p \<Longrightarrow> pr_timer p = NoTimer \<Longrightarrow>
    oracle_micro c H s (s\<lparr>os_heap := os_heap s @ [p], os_pending := js_put (pr_round p) (length (os_heap s)) (os_pending s)\<rparr>)"
| arm_leader: "i < length (os_heap s) \<Longrightarrow> map_of (os_pending s) (pr_round (os_heap s ! i)) = Some i \<Longrightarrow>
    oracle_micro c H s (upd_round i (\<lambda>p. p\<lparr>pr_timer := LeaderTimer\<rparr>) s)"
| push: "storing t = None \<Longrightarrow> \<not> solo_row t \<Longrightarrow> (t = TStopped \<Longrightarrow> \<not> os_running s) \<Longrightarrow> list_all (seat_ok H) (task_seats t) \<Longrightarrow> oracle_micro c H s (push t s)"
| take: "os_tasks s = xs @ t # ys \<Longrightarrow> storing t = None \<Longrightarrow> oracle_micro c H s (s\<lparr>os_tasks := xs @ ys\<rparr>)"
| arm: "seat_ok H (gr_seat g) \<Longrightarrow> oracle_micro c H s (arm_grace g s)"
| disarm: "oracle_micro c H s (s\<lparr>os_grace := filter P (os_grace s)\<rparr>)"
| stored: "os_tasks s = xs @ TStore i rd cnt pf attempt # ys \<Longrightarrow>
    oracle_micro c H s (push (TAnnounce i rd) (store_row w rd (pr_prices (os_heap s ! i)) cnt pf (pr_height (os_heap s ! i))
      (pr_time (os_heap s ! i)) (pr_admit (os_heap s ! i)) (Some i) (s\<lparr>os_tasks := xs @ ys\<rparr>)))"
| backoff: "os_tasks s = xs @ TStore i rd cnt pf attempt # ys \<Longrightarrow>
    oracle_micro c H s (push (TBackoff i rd cnt pf attempt) (s\<lparr>os_tasks := xs @ ys\<rparr>))"
| lost: "os_tasks s = xs @ t # ys \<Longrightarrow> storing t = Some i \<Longrightarrow> t = TStore i rd cnt pf attempt \<or> t = TBackoff i rd cnt pf attempt \<Longrightarrow>
    map_of (os_pending s) rd = None \<Longrightarrow> oracle_micro c H s (s\<lparr>os_tasks := xs @ ys\<rparr>)"
| retry: "os_tasks s = xs @ TStore i rd cnt pf attempt # ys \<Longrightarrow> map_of (os_pending s) rd = Some j \<Longrightarrow>
    oracle_micro c H s (upd_round j (\<lambda>p. armFinalizeRetry (p\<lparr>pr_finalized := False\<rparr>)) (s\<lparr>os_tasks := xs @ ys\<rparr>))"
| resume: "os_tasks s = xs @ TBackoff i rd cnt pf attempt # ys \<Longrightarrow>
    oracle_micro c H s (push (TStore i rd cnt pf (attempt + 1)) (s\<lparr>os_tasks := xs @ ys\<rparr>))"
| announce: "os_tasks s = xs @ TAnnounce i rd # ys \<Longrightarrow>
    oracle_micro c H s (s\<lparr>os_tasks := xs @ ys, os_pending := js_del rd (os_pending s),
      os_events := os_events s @ [Finalized rd (pr_prices (os_heap s ! i)) (pr_height (os_heap s ! i)) (pr_time (os_heap s ! i))
        (if nullish (pr_admit (os_heap s ! i)) then JNull else pr_admit (os_heap s ! i)) (pr_prepares (os_heap s ! i)) (sortedSignatures (os_heap s ! i))]\<rparr>)"
| solo_store: "os_tasks s = xs @ TSoloStore se prices admit pf # ys \<Longrightarrow>
    oracle_micro c H s (push (TSoloAnnounce se prices admit pf)
      (store_row w (se_round se) prices 1 pf (se_height se) (se_time se) admit None (s\<lparr>os_tasks := xs @ ys\<rparr>)))"
| solo_announce: "os_tasks s = xs @ TSoloAnnounce se prices admit pf # ys \<Longrightarrow>
    oracle_micro c H s (s\<lparr>os_tasks := xs @ ys,
      os_events := os_events s @ [Finalized (se_round se) prices (se_height se) (se_time se) admit parts pf]\<rparr>)"
| timeout: "i < length (os_heap s) \<Longrightarrow>
    pr_timer (os_heap s ! i) = LeaderTimer \<and> \<not> pr_finalized (os_heap s ! i) \<or> pr_timer (os_heap s ! i) = FollowerTimer \<Longrightarrow>
    oracle_micro c H s (drop_pending (pr_round (os_heap s ! i)) (upd_round i (\<lambda>p. p\<lparr>pr_timer := NoTimer\<rparr>) s))"
| disarm_timer: "i < length (os_heap s) \<Longrightarrow> oracle_micro c H s (upd_round i (\<lambda>p. p\<lparr>pr_timer := NoTimer\<rparr>) s)"
| redrive: "i < length (os_heap s) \<Longrightarrow> pr_timer (os_heap s ! i) = RetryTimer \<Longrightarrow> map_of (os_pending s) (pr_round (os_heap s ! i)) = Some j \<Longrightarrow>
    j < length (os_heap s) \<Longrightarrow> \<not> pr_finalized (os_heap s ! j) \<Longrightarrow>
    oracle_micro c H s (push (TStore j (pr_round (os_heap s ! i)) cnt (sortedSignatures (os_heap s ! j)) 1)
      (upd_round j (\<lambda>p. p\<lparr>pr_finalized := True\<rparr>) (upd_round i (\<lambda>p. p\<lparr>pr_timer := NoTimer\<rparr>) s)))"
| halt: "oracle_micro c H s (s\<lparr>os_running := False\<rparr>)"
| clear: "\<not> os_running s \<Longrightarrow> oracle_micro c H s (s\<lparr>os_pending := []\<rparr>)"

end
