(* ===== verification/Oracle_Simulation.thy ===== *)
theory Oracle_Simulation
  imports Oracle_Micro
begin

text \<open>
  The simulation: every step of the oracle's rounds is a sequence of the updates of \<open>Oracle_Micro\<close>.
\<close>

section \<open>Well-formed states\<close>

definition task_ok :: "int set \<Rightarrow> ostate \<Rightarrow> otask \<Rightarrow> bool" where
  "task_ok H s t \<longleftrightarrow>
     list_all (seat_ok H) (task_seats t) \<and> (t = TStopped \<longrightarrow> \<not> os_running s) \<and>
     (\<forall>i rd cnt pf n. t = TStore i rd cnt pf n \<or> t = TBackoff i rd cnt pf n \<or> t = TAnnounce i rd \<longrightarrow>
        i < length (os_heap s) \<and> pr_round (os_heap s ! i) = rd)"

definition oracle_wf :: "int set \<Rightarrow> ostate \<Rightarrow> bool" where
  "oracle_wf H s \<longleftrightarrow>
     distinct (map fst (os_pending s)) \<and>
     (\<forall>rd i. map_of (os_pending s) rd = Some i \<longrightarrow> i < length (os_heap s) \<and> pr_round (os_heap s ! i) = rd) \<and>
     (\<forall>t \<in> set (os_tasks s). task_ok H s t) \<and>
     (\<forall>t g. (t, g) \<in> set (os_grace s) \<longrightarrow> seat_ok H (gr_seat g))"

lemma wf_pending: "oracle_wf H s \<Longrightarrow> map_of (os_pending s) rd = Some i \<Longrightarrow> i < length (os_heap s) \<and> pr_round (os_heap s ! i) = rd"
  by (simp add: oracle_wf_def)

lemma state_simps [simp]:
  "os_heap (push t s) = os_heap s" "os_pending (push t s) = os_pending s" "os_tasks (push t s) = os_tasks s @ [t]"
  "os_grace (push t s) = os_grace s" "os_running (push t s) = os_running s" "os_stored (push t s) = os_stored s"
  "os_events (push t s) = os_events s" "os_finalized (push t s) = os_finalized s"
  "os_heap (upd_round i f s) = (os_heap s)[i := f (os_heap s ! i)]" "os_pending (upd_round i f s) = os_pending s"
  "os_tasks (upd_round i f s) = os_tasks s" "os_grace (upd_round i f s) = os_grace s" "os_running (upd_round i f s) = os_running s"
  "os_stored (upd_round i f s) = os_stored s" "os_events (upd_round i f s) = os_events s" "os_finalized (upd_round i f s) = os_finalized s"
  "os_heap (oracle_emit m s) = os_heap s" "os_pending (oracle_emit m s) = os_pending s" "os_tasks (oracle_emit m s) = os_tasks s"
  "os_grace (oracle_emit m s) = os_grace s" "os_running (oracle_emit m s) = os_running s" "os_stored (oracle_emit m s) = os_stored s" "os_events (oracle_emit m s) = os_events s"
  "os_heap (drop_pending rd s) = os_heap s" "os_pending (drop_pending rd s) = js_del rd (os_pending s)" "os_tasks (drop_pending rd s) = os_tasks s"
  "os_grace (drop_pending rd s) = os_grace s" "os_running (drop_pending rd s) = os_running s" "os_stored (drop_pending rd s) = os_stored s"
  "os_events (drop_pending rd s) = os_events s"
  "os_heap (arm_grace g s) = os_heap s" "os_pending (arm_grace g s) = os_pending s" "os_tasks (arm_grace g s) = os_tasks s"
  "os_grace (arm_grace g s) = os_grace s @ [(os_nextTimer s, g)]" "os_running (arm_grace g s) = os_running s" "os_stored (arm_grace g s) = os_stored s"
  "os_events (arm_grace g s) = os_events s"
  by (simp_all add: push_def upd_round_def oracle_emit_def drop_pending_def arm_grace_def)

lemma store_row_simps [simp]:
  "os_heap (store_row w rd ps cnt pf h tm a og s) = os_heap s" "os_pending (store_row w rd ps cnt pf h tm a og s) = os_pending s"
  "os_tasks (store_row w rd ps cnt pf h tm a og s) = os_tasks s" "os_grace (store_row w rd ps cnt pf h tm a og s) = os_grace s"
  "os_running (store_row w rd ps cnt pf h tm a og s) = os_running s" "os_events (store_row w rd ps cnt pf h tm a og s) = os_events s"
  by (simp_all add: store_row_def)

lemma armFinalizeRetry_simps [simp]:
  "round_grows p (armFinalizeRetry q) = round_grows p q" "pr_round (armFinalizeRetry p) = pr_round p" "oround_ok c (armFinalizeRetry p) = oround_ok c p"
  "pr_timer (armFinalizeRetry p) = RetryTimer" "pr_finalized (armFinalizeRetry p) = pr_finalized p"
  by (simp_all add: armFinalizeRetry_def)

text \<open>No update loses an object or changes its content.\<close>

definition heap_le :: "oround list \<Rightarrow> oround list \<Rightarrow> bool" where
  "heap_le xs ys \<longleftrightarrow> length xs \<le> length ys \<and> (\<forall>i < length xs. round_grows (xs ! i) (ys ! i))"

lemma heap_le_refl [simp]: "heap_le xs xs"
  by (simp add: heap_le_def)

lemma heap_le_trans: "heap_le xs ys \<Longrightarrow> heap_le ys zs \<Longrightarrow> heap_le xs zs"
  unfolding heap_le_def by (meson grows_trans less_le_trans order_trans)

lemma heap_le_append [simp]: "heap_le xs (xs @ ys)"
  by (simp add: heap_le_def nth_append)

lemma heap_le_update: "round_grows (xs ! i) q \<Longrightarrow> heap_le xs (xs[i := q])"
  by (cases "i < length xs") (auto simp: heap_le_def nth_list_update)

lemma heap_le_update2: "heap_le xs ys \<Longrightarrow> round_grows (ys ! i) q \<Longrightarrow> heap_le xs (ys[i := q])"
  using heap_le_trans heap_le_update by blast

lemma micro_heap_le: "oracle_micro c H s s' \<Longrightarrow> heap_le (os_heap s) (os_heap s')"
  by (induction rule: oracle_micro.induct)
    (auto simp: same_core_def round_voted_def intro!: heap_le_update heap_le_update2)

lemma heap_le_round: "heap_le xs ys \<Longrightarrow> i < length xs \<Longrightarrow> i < length ys \<and> pr_round (ys ! i) = pr_round (xs ! i)"
  by (auto simp: heap_le_def round_grows_def)

lemma task_ok_mono:
  assumes "task_ok H s t" and "heap_le (os_heap s) (os_heap s')" and "os_running s' \<Longrightarrow> os_running s"
  shows "task_ok H s' t"
  using assms heap_le_round [OF assms(2)] by (cases t) (auto simp: task_ok_def)

lemma micro_running: "oracle_micro c H s s' \<Longrightarrow> os_running s' \<Longrightarrow> os_running s"
  by (induction rule: oracle_micro.induct) (simp_all add: same_core_def)

lemma task_ok_simps [simp]:
  "task_ok H s (TStore i rd cnt pf n) \<longleftrightarrow> i < length (os_heap s) \<and> pr_round (os_heap s ! i) = rd"
  "task_ok H s (TBackoff i rd cnt pf n) \<longleftrightarrow> i < length (os_heap s) \<and> pr_round (os_heap s ! i) = rd"
  "task_ok H s (TAnnounce i rd) \<longleftrightarrow> i < length (os_heap s) \<and> pr_round (os_heap s ! i) = rd"
  "task_ok H s (TSoloAnnounce se prices admit pf)"
  by (simp_all add: task_ok_def)

lemma micro_tasks:
  assumes "oracle_micro c H s s'" and "oracle_wf H s" and "t \<in> set (os_tasks s')"
  shows "t \<in> set (os_tasks s) \<or> task_ok H s' t"
  using assms
proof (induction rule: oracle_micro.induct)
  case (push t' s)
  then show ?case
    by (auto simp: task_ok_def elim: storing.elims)
next
  case (claim s rd i cnt)
  then show ?case
    using wf_pending [OF claim.prems(1)] by (auto simp: nth_list_update)
next
  case (redrive i s j cnt)
  let ?heap = "(os_heap s)[i := (os_heap s ! i)\<lparr>pr_timer := NoTimer\<rparr>]"
  have "pr_round (?heap ! j) = pr_round (os_heap s ! j)"
    using redrive.hyps(1) by (cases "i = j") simp_all
  moreover have "pr_round (os_heap s ! j) = pr_round (os_heap s ! i)"
    using wf_pending [OF redrive.prems(1) redrive.hyps(3)] by simp
  ultimately show ?case
    using redrive.prems(2) redrive.hyps(4) by auto
qed (auto simp: same_core_def oracle_wf_def)

lemma micro_pending:
  assumes "oracle_micro c H s s'" and "map_of (os_pending s') rd = Some i"
  shows "map_of (os_pending s) rd = Some i \<or> i < length (os_heap s') \<and> pr_round (os_heap s' ! i) = rd"
  using assms
  by (induction rule: oracle_micro.induct) (auto simp: same_core_def map_of_js_put map_of_js_del split: if_splits)

lemma micro_grace: "oracle_micro c H s s' \<Longrightarrow> (t, g) \<in> set (os_grace s') \<Longrightarrow> (t, g) \<in> set (os_grace s) \<or> seat_ok H (gr_seat g)"
  by (induction rule: oracle_micro.induct) (auto simp: same_core_def)

lemma micro_distinct: "oracle_micro c H s s' \<Longrightarrow> distinct (map fst (os_pending s)) \<Longrightarrow> distinct (map fst (os_pending s'))"
  by (induction rule: oracle_micro.induct) (simp_all add: same_core_def js_put_ok js_del_ok)

lemma wf_micro:
  assumes "oracle_micro c H s s'" and "oracle_wf H s"
  shows "oracle_wf H s'"
proof -
  note le = micro_heap_le [OF assms(1)]
  have "i < length (os_heap s') \<and> pr_round (os_heap s' ! i) = rd" if "map_of (os_pending s') rd = Some i" for rd i
    using micro_pending [OF assms(1) that] wf_pending [OF assms(2)] heap_le_round [OF le] by blast
  moreover have "task_ok H s' t" if "t \<in> set (os_tasks s')" for t
    using micro_tasks [OF assms that] assms(2) task_ok_mono [OF _ le micro_running [OF assms(1)]] by (auto simp: oracle_wf_def)
  moreover have "seat_ok H (gr_seat g)" if "(t, g) \<in> set (os_grace s')" for t g
    using micro_grace [OF assms(1) that] assms(2) by (auto simp: oracle_wf_def)
  moreover have "distinct (map fst (os_pending s'))"
    using micro_distinct [OF assms(1)] assms(2) by (simp add: oracle_wf_def)
  ultimately show ?thesis
    by (simp add: oracle_wf_def)
qed

section \<open>Sequences of updates\<close>

definition oracle_micros :: "oracle_conf \<Rightarrow> int set \<Rightarrow> ostate \<Rightarrow> ostate \<Rightarrow> bool" where
  "oracle_micros c H s s' \<longleftrightarrow> (oracle_micro c H)\<^sup>*\<^sup>* s s'"

lemma micros_refl [simp, intro]: "oracle_micros c H s s"
  by (simp add: oracle_micros_def)

lemma micro_micros: "oracle_micro c H s s' \<Longrightarrow> oracle_micros c H s s'"
  by (simp add: oracle_micros_def)

lemma micros_trans: "oracle_micros c H s t \<Longrightarrow> oracle_micros c H t u \<Longrightarrow> oracle_micros c H s u"
  by (simp add: oracle_micros_def)

lemma micros_inv: "oracle_micros c H s s' \<Longrightarrow> (\<And>s s'. oracle_micro c H s s' \<Longrightarrow> I s \<Longrightarrow> I s') \<Longrightarrow> I s \<Longrightarrow> I s'"
  unfolding oracle_micros_def by (induction rule: rtranclp_induct) auto

lemma micros_wf: "oracle_micros c H s s' \<Longrightarrow> oracle_wf H s \<Longrightarrow> oracle_wf H s'"
  by (rule micros_inv [where I = "oracle_wf H"]) (auto intro: wf_micro)

lemma micros_heap_le: "oracle_micros c H s s' \<Longrightarrow> heap_le (os_heap s) (os_heap s')"
  unfolding oracle_micros_def by (induction rule: rtranclp_induct) (auto intro: heap_le_trans micro_heap_le)

text \<open>Composition: the second part may rely on the first one's well-formedness.\<close>

lemma oracle_micros_then:
  assumes "oracle_wf H s" and "oracle_micros c H s t" and "oracle_wf H t \<Longrightarrow> oracle_micros c H t u"
  shows "oracle_micros c H s u"
  using assms micros_wf micros_trans by blast

lemma frame_micros: "same_core s s' \<Longrightarrow> oracle_micros c H s s'"
  by (intro micro_micros oracle_micro.frame)

lemma push_micros:
  "storing t = None \<Longrightarrow> \<not> solo_row t \<Longrightarrow> t \<noteq> TStopped \<Longrightarrow> list_all (seat_ok H) (task_seats t) \<Longrightarrow> oracle_micros c H s (push t s)"
  by (intro micro_micros oracle_micro.push) auto

section \<open>Votes\<close>

lemma round_ok_vote:
  "oround_ok c p \<Longrightarrow> oround_ok c (p\<lparr>pr_prepares := oracleAddVote m (pr_prepares p)\<rparr>)"
  "oround_ok c p \<Longrightarrow> oround_ok c (p\<lparr>pr_commits := oracleAddVote m (pr_commits p)\<rparr>)"
  "oround_ok c p \<Longrightarrow> oround_ok c (p\<lparr>pr_commits := add_self w (pr_commits p)\<rparr>)"
  "oround_ok c p \<Longrightarrow> oround_ok c (p\<lparr>pr_prepares := add_self w (pr_prepares p)\<rparr>)"
  by (auto simp: oround_ok_def round_payload_def oracleAddVote_def add_self_def split: option.split)

lemma votes_grow:
  "set votes \<subseteq> set (oracleAddVote m votes)" "set votes \<subseteq> set (add_self w votes)"
  by (auto simp: oracleAddVote_def add_self_def split: option.split)

lemma verify_voted: "round_voted p (verifyAndStoreSig c k sg p)"
  by (auto simp: verifyAndStoreSig_def round_voted_def round_grows_def Let_def split: sum.split)

lemma verify_ok: "oround_ok c p \<Longrightarrow> oround_ok c (verifyAndStoreSig c k sg p)"
  by (auto simp: verifyAndStoreSig_def oround_ok_def round_payload_def Let_def split: sum.split)

text \<open>An own signature made over the content of the round.\<close>

definition own_ok :: "oracle_conf \<Rightarrow> oround \<Rightarrow> own_sig \<Rightarrow> bool" where
  "own_ok c p sg \<longleftrightarrow> (\<forall>k x. sg = Some (k, x) \<longrightarrow> (\<exists>t. round_payload c p = Inr t \<and> oc_verify c t x k))"

lemma sign_ok:
  "signatures_ok c \<Longrightarrow> round_payload c p = buildPriceV0Payload c rd tm ps h a \<Longrightarrow> own_ok c p (signPriceV0 c w rd tm ps h a)"
  by (auto simp: own_ok_def signPriceV0_def signatures_ok_def split: option.splits sum.splits)

lemma own_signature_ok: "signatures_ok c \<Longrightarrow> own_ok c p (own_signature c w p)"
  unfolding own_signature_def by (rule sign_ok) (simp_all add: round_payload_def)

lemma add_own_voted: "round_voted p (add_own sg p)"
  by (auto simp: add_own_def round_voted_def round_grows_def split: option.split)

lemma add_own_ok: "own_ok c p sg \<Longrightarrow> oround_ok c p \<Longrightarrow> oround_ok c (add_own sg p)"
  by (auto simp: add_own_def own_ok_def oround_ok_def round_payload_def split: option.split)

lemma voted_trans: "round_voted p q \<Longrightarrow> round_voted q r \<Longrightarrow> round_voted p r"
  by (auto simp: round_voted_def intro: grows_trans)

lemma own_ok_grows: "own_ok c p sg \<Longrightarrow> round_grows p q \<Longrightarrow> own_ok c q sg"
  by (simp add: own_ok_def round_payload_def round_grows_def)

lemma vote_micros:
  "i < length (os_heap s) \<Longrightarrow> round_voted (os_heap s ! i) (f (os_heap s ! i)) \<Longrightarrow> (oround_ok c (os_heap s ! i) \<Longrightarrow> oround_ok c (f (os_heap s ! i))) \<Longrightarrow>
   oracle_micros c H s (upd_round i f s)"
  by (intro micro_micros oracle_micro.vote)

lemma emit_micros: "oracle_micros c H s (oracle_emit m s)"
  by (intro frame_micros) (simp add: same_core_def)

lemma quorum_certified: "oracleQuorumMet c p (pr_commits p) \<Longrightarrow> certified c p (pr_commits p) (map fst (pr_sigs p))"
  by (auto simp: oracleQuorumMet_def certified_def intro: exI [of _ "map fst (pr_sigs p)"] split: if_splits)

lemma check_commit_micros:
  assumes "oracle_wf H s"
  shows "oracle_micros c H s (oracleCheckCommit c rd s)"
proof (cases "map_of (os_pending s) rd")
  case (Some i)
  note i = wf_pending [OF assms Some]
  show ?thesis
  proof (cases "pr_finalized (os_heap s ! i) \<or> \<not> oracleQuorumMet c (os_heap s ! i) (pr_commits (os_heap s ! i))")
    case False
    then show ?thesis
      using Some i oracle_micro.claim [OF Some, of c] quorum_certified
      by (auto simp: oracleCheckCommit_def finalizeCommittedRound_def sortedSignatures_def countDistinctMembers_def Let_def intro!: micro_micros)
  qed (simp add: oracleCheckCommit_def Some)
qed (simp add: oracleCheckCommit_def)

lemma check_prepare_micros:
  assumes "oracle_wf H s" and "signatures_ok c"
  shows "oracle_micros c H s (oracleCheckPrepare c w rd s)"
proof (cases "map_of (os_pending s) rd")
  case (Some i)
  note i = wf_pending [OF assms(1) Some]
  let ?p = "os_heap s ! i"
  let ?sg = "own_signature c w ?p"
  let ?f = "\<lambda>p. add_own ?sg (p\<lparr>pr_commitSent := True, pr_commits := add_self w (pr_commits p)\<rparr>)"
  have q: "round_voted ?p (?p\<lparr>pr_commitSent := True, pr_commits := add_self w (pr_commits ?p)\<rparr>)"
    using votes_grow by (simp add: round_voted_def round_grows_def)
  have "oracle_micros c H s (upd_round i ?f s)"
  proof (rule vote_micros)
    show "round_voted ?p (?f ?p)"
      using q add_own_voted by (rule voted_trans)
    have "own_ok c (?p\<lparr>pr_commitSent := True, pr_commits := add_self w (pr_commits ?p)\<rparr>) ?sg"
      using own_ok_grows [OF own_signature_ok [OF assms(2)]] q by (simp add: round_voted_def)
    then show "oround_ok c (?f ?p)" if "oround_ok c ?p"
      using round_ok_vote(3) [of c "?p\<lparr>pr_commitSent := True\<rparr>" w] that by (intro add_own_ok) simp_all
  qed (use i in simp)
  then have "oracle_micros c H s (oracle_emit (OutCommit rd (pr_digest ?p) ?sg) (upd_round i ?f s))"
    using emit_micros micros_trans by blast
  then have "oracle_micros c H s (oracleCheckCommit c rd (oracle_emit (OutCommit rd (pr_digest ?p) ?sg) (upd_round i ?f s)))"
    using check_commit_micros by (rule oracle_micros_then [OF assms(1)])
  then show ?thesis
    by (simp add: oracleCheckPrepare_def Some Let_def)
qed (simp add: oracleCheckPrepare_def)

lemma buffer_core: "same_core s (bufferEarlyMessage c w rd env s)"
  by (simp add: bufferEarlyMessage_def pruneEarlyMessages_def same_core_def Let_def split_def)

lemma message_vote:
  assumes "i < length (os_heap s)" and "round_voted (os_heap s ! i) (g (os_heap s ! i))" and "oround_ok c (os_heap s ! i) \<Longrightarrow> oround_ok c (g (os_heap s ! i))"
  shows "oracle_micros c H s (upd_round i (\<lambda>p. verifyAndStoreSig c k sg (g p)) s)"
proof (rule vote_micros [OF assms(1)])
  show "round_voted (os_heap s ! i) (verifyAndStoreSig c k sg (g (os_heap s ! i)))"
    using assms(2) verify_voted by (rule voted_trans)
qed (rule verify_ok, rule assms(3))

lemma handle_vote_micros:
  assumes "oracle_wf H s" and "signatures_ok c"
  shows "oracle_micros c H s (oracleHandlePrepare c w m s)" "oracle_micros c H s (oracleHandleCommit c w m s)"
proof -
  let ?fp = "\<lambda>k sg p. verifyAndStoreSig c k sg (p\<lparr>pr_prepares := oracleAddVote m (pr_prepares p)\<rparr>)"
  let ?fc = "\<lambda>k sg p. verifyAndStoreSig c k sg (p\<lparr>pr_commits := oracleAddVote m (pr_commits p)\<rparr>)"
  have up: "oracle_micros c H s (upd_round i (?fp k sg) s)" "oracle_micros c H s (upd_round i (?fc k sg) s)" if "i < length (os_heap s)" for i k sg
    by (rule message_vote [OF that]; (simp add: round_voted_def round_grows_def votes_grow round_ok_vote))+
  have "oracle_micros c H s (oracleCheckPrepare c w rd (upd_round i (?fp k sg) s))" if "map_of (os_pending s) rd = Some i" for rd i k sg
    using wf_pending [OF assms(1) that] by (intro oracle_micros_then [OF assms(1) up(1) [of i k sg]] check_prepare_micros assms) simp_all
  then show "oracle_micros c H s (oracleHandlePrepare c w m s)"
    by (auto simp: oracleHandlePrepare_def buffer_core intro: frame_micros split: option.split)
  have "oracle_micros c H s (oracleCheckCommit c rd (upd_round i (?fc k sg) s))" if "map_of (os_pending s) rd = Some i" for rd i k sg
    using wf_pending [OF assms(1) that] by (intro oracle_micros_then [OF assms(1) up(2) [of i k sg]] check_commit_micros assms) simp_all
  then show "oracle_micros c H s (oracleHandleCommit c w m s)"
    by (auto simp: oracleHandleCommit_def buffer_core intro: frame_micros split: option.split)
qed

lemma drain_micros:
  assumes "oracle_wf H s" and "signatures_ok c"
  shows "oracle_micros c H s (drainEarlyMessages c w rd s)"
proof (cases "map_of (os_early s) rd")
  case (Some arr)
  have "oracle_micros c H t (fold (handle_vote c w) arr t)" if "oracle_wf H t" for t
    using that
  proof (induction arr arbitrary: t)
    case (Cons e arr)
    have "oracle_micros c H t (handle_vote c w e t)"
      using handle_vote_micros [OF Cons.prems assms(2)] by (simp add: handle_vote_def split: vote_kind.split)
    then show ?case
      using Cons.IH by (auto intro: oracle_micros_then [OF Cons.prems])
  qed simp
  moreover have "oracle_micros c H s (s\<lparr>os_early := js_del rd (os_early s), os_ttl := js_del rd (os_ttl s)\<rparr>)"
    by (intro frame_micros) (simp add: same_core_def)
  ultimately show ?thesis
    unfolding drainEarlyMessages_def Some option.simps using oracle_micros_then [OF assms(1)] by blast
qed (simp add: drainEarlyMessages_def)

section \<open>Opening rounds\<close>

lemma pending_kept [simp]:
  "os_pending (oracleCheckCommit c rd s) = os_pending s" "os_pending (oracleCheckPrepare c w rd s) = os_pending s"
  "os_pending (bufferEarlyMessage c w rd env s) = os_pending s" "os_pending (armRoundWatchdog rd h tm s) = os_pending s"
proof -
  show cc: "os_pending (oracleCheckCommit c rd s) = os_pending s" for s
    by (simp add: oracleCheckCommit_def finalizeCommittedRound_def Let_def split: option.split)
  show "os_pending (oracleCheckPrepare c w rd s) = os_pending s"
    by (simp add: oracleCheckPrepare_def cc Let_def split: option.split)
  show "os_pending (bufferEarlyMessage c w rd env s) = os_pending s"
    using buffer_core by (simp add: same_core_def)
  show "os_pending (armRoundWatchdog rd h tm s) = os_pending s"
    by (simp add: armRoundWatchdog_def)
qed

lemma drain_pending [simp]: "os_pending (drainEarlyMessages c w rd s) = os_pending s"
proof -
  have v: "os_pending (handle_vote c w e t) = os_pending t" for e t
    by (simp add: handle_vote_def oracleHandlePrepare_def oracleHandleCommit_def split: vote_kind.split option.split)
  have "os_pending (fold (handle_vote c w) arr t) = os_pending t" for arr t
    by (induction arr arbitrary: t) (simp_all add: v)
  then show ?thesis
    by (simp add: drainEarlyMessages_def split: option.split)
qed

lemma watch_core: "same_core s (armRoundWatchdog rd h tm s)" "same_core s (markRoundReady c w rd s)"
  by (simp_all add: armRoundWatchdog_def markRoundReady_def same_core_def Let_def)

abbreviation add_round :: "oround \<Rightarrow> ostate \<Rightarrow> ostate" where
  "add_round p s \<equiv> s\<lparr>os_heap := os_heap s @ [p], os_pending := js_put (pr_round p) (length (os_heap s)) (os_pending s)\<rparr>"

text \<open>After a round is opened, its replayed votes leave it in place.\<close>

lemma open_then_drain:
  assumes "oracle_wf H s" and "signatures_ok c"
    and "oracle_micro c H s (add_round p s)" and "same_core (add_round p s) s2"
  shows "oracle_micros c H s (drainEarlyMessages c w rd s2)"
    and "map_of (os_pending (drainEarlyMessages c w rd s2)) (pr_round p) = Some (length (os_heap s))"
    and "length (os_heap s) < length (os_heap (drainEarlyMessages c w rd s2))"
    and "round_grows p (os_heap (drainEarlyMessages c w rd s2) ! length (os_heap s))"
proof -
  have s2: "oracle_micros c H s s2" "os_pending s2 = os_pending (add_round p s)" "os_heap s2 = os_heap (add_round p s)"
    using micros_trans [OF micro_micros [OF assms(3)] frame_micros [OF assms(4)]] assms(4) by (simp_all add: same_core_def)
  have d: "oracle_micros c H s2 (drainEarlyMessages c w rd s2)"
    using micros_wf [OF s2(1) assms(1)] assms(2) by (rule drain_micros)
  show "oracle_micros c H s (drainEarlyMessages c w rd s2)"
    using s2(1) d by (rule micros_trans)
  show "map_of (os_pending (drainEarlyMessages c w rd s2)) (pr_round p) = Some (length (os_heap s))"
    by (simp add: s2(2) map_of_js_put)
  have "length (os_heap s) < length (os_heap s2)" "os_heap s2 ! length (os_heap s) = p"
    by (simp_all add: s2(3))
  then show "length (os_heap s) < length (os_heap (drainEarlyMessages c w rd s2))"
    "round_grows p (os_heap (drainEarlyMessages c w rd s2) ! length (os_heap s))"
    using micros_heap_le [OF d] by (auto simp: heap_le_def)
qed

lemma leader_round_ok: "own_ok c (leader_round c w x admit sg) sg \<Longrightarrow> oround_ok c (leader_round c w x admit sg)"
  by (auto simp: own_ok_def oround_ok_def leader_round_def add_self_def split: option.splits)

lemma open_leader_micros:
  assumes "oracle_wf H s" and "signatures_ok c"
    and "map_of (os_pending s) (se_round (ox_seat x)) = None \<or> se_height (ox_seat x) \<in> H \<and> \<not> oracleEra c (se_height (ox_seat x))"
  shows "oracle_micros c H s (oracleOpenLeader c w x admit s)"
proof -
  let ?rd = "se_round (ox_seat x)" and ?i = "length (os_heap s)"
  let ?sg = "signPriceV0 c w ?rd (se_time (ox_seat x)) (ox_prices x) (se_height (ox_seat x)) admit"
  let ?p = "leader_round c w x admit ?sg"
  have p: "pr_round ?p = ?rd" "pr_height ?p = se_height (ox_seat x)" "\<not> pr_finalized ?p" "pr_timer ?p = NoTimer"
    by (simp_all add: leader_round_def)
  have "own_ok c ?p ?sg"
    by (rule sign_ok [OF assms(2)]) (simp add: round_payload_def leader_round_def)
  then have "oracle_micro c H s (add_round ?p s)"
    using p assms(3) by (intro oracle_micro.leader_open leader_round_ok) simp_all
  note od = open_then_drain [OF assms(1, 2) this, of _ w ?rd]
  let ?s0 = "add_round ?p s"
  let ?s1 = "drainEarlyMessages c w ?rd ?s0"
  have core: "same_core ?s0 ?s0"
    by (simp add: same_core_def)
  note od = od [OF core]
  have "oracle_micros c H ?s1 (upd_round ?i (\<lambda>p. p\<lparr>pr_timer := LeaderTimer\<rparr>) ?s1)"
    using od(2, 3, 4) by (intro micro_micros oracle_micro.arm_leader) (simp_all add: round_grows_def)
  then have "oracle_micros c H s (oracle_emit m (upd_round ?i (\<lambda>p. p\<lparr>pr_timer := LeaderTimer\<rparr>) ?s1))" for m
    using od(1) emit_micros micros_trans by blast
  then have "oracle_micros c H s (oracleCheckPrepare c w ?rd (oracle_emit m (upd_round ?i (\<lambda>p. p\<lparr>pr_timer := LeaderTimer\<rparr>) ?s1)))" for m
    using check_prepare_micros [OF _ assms(2)] by (rule oracle_micros_then [OF assms(1)])
  then show ?thesis
    using p(1) by (simp add: oracleOpenLeader_def Let_def)
qed

lemma propose_micros:
  assumes "oracle_wf H s" and "signatures_ok c" and "seat_ok H se"
  shows "oracle_micros c H s (proposeRound c w se subs so quorum weighted members s)"
proof -
  have "oracle_micros c H s (oracleOpenLeader c w x JNull s)" if "ox_seat x = se" "\<not> oracleEra c (se_height se)" for x
    using that assms(3) by (intro open_leader_micros [OF assms(1, 2)]) (simp add: seat_ok_def)
  then show ?thesis
    using assms(3) by (simp add: proposeRound_def Let_def push_micros)
qed

lemma take_seat_micros:
  assumes "oracle_wf H s" and "signatures_ok c" and "seat_ok H se"
  shows "oracle_micros c H s (takeSeat c w se subs so quorum weighted members s)"
proof -
  have ready: "oracle_micros c H s (markRoundReady c w (se_round se) s)"
    by (rule frame_micros [OF watch_core(2)])
  have "oracle_micros c H s (arm_grace g (markRoundReady c w (se_round se) s))" if "gr_seat g = se" for g
    using assms(3) that by (intro micros_trans [OF ready] micro_micros oracle_micro.arm) simp
  then show ?thesis
    using propose_micros [OF assms] ready by (simp add: takeSeat_def Let_def)
qed

lemma grace_micros:
  assumes "oracle_wf H s" and "signatures_ok c" and "(t, g) \<in> set (os_grace s)"
  shows "oracle_micros c H s (fireGrace c w t g s)"
proof -
  let ?s0 = "s\<lparr>os_grace := js_del t (os_grace s)\<rparr>"
  let ?s1 = "s\<lparr>os_grace := js_del t (os_grace s), os_leaderTimers := js_del (se_round (gr_seat g)) (os_leaderTimers s)\<rparr>"
  have "oracle_micros c H s ?s0"
    unfolding js_del_def by (intro micro_micros oracle_micro.disarm)
  moreover have "oracle_micros c H ?s0 ?s1"
    by (intro frame_micros) (simp add: same_core_def)
  ultimately have s1: "oracle_micros c H s ?s1"
    by (rule micros_trans)
  have "seat_ok H (gr_seat g)"
    using assms(1, 3) by (auto simp: oracle_wf_def)
  then have "oracle_micros c H s (proposeRound c w (gr_seat g) subs so q wt mb ?s1)" for subs so q wt mb
    using micros_wf [OF s1 assms(1)] by (intro micros_trans [OF s1] propose_micros assms(2))
  then show ?thesis
    using s1 by (simp add: fireGrace_def Let_def)
qed

section \<open>Finalizing\<close>

lemma skip_micros: "oracle_micros c H s (skip_round se reason s)"
  unfolding skip_round_def by (intro push_micros) simp_all

lemma open_or_solo_micros:
  assumes "oracle_wf H s" and "signatures_ok c" and "seat_ok H se"
  shows "oracle_micros c H s (open_or_solo c w se weighted so members subs s)"
proof -
  have "oracle_micros c H s (finalizeSoloRound c w se subs s)"
    by (auto simp: finalizeSoloRound_def solo_sign_def Let_def skip_micros intro!: push_micros)
  moreover have "oracle_micros c H s (armRoundWatchdog rd h tm s)" for rd h tm
    by (rule frame_micros [OF watch_core(1)])
  then have "oracle_micros c H s (takeSeat c w se subs so q weighted members (armRoundWatchdog rd h tm s))" for q rd h tm
    using take_seat_micros [OF _ assms(2, 3)] by (rule oracle_micros_then [OF assms(1)])
  ultimately show ?thesis
    by (simp add: open_or_solo_def Let_def)
qed

lemma finalize_locked_micros:
  assumes "oracle_wf H s" and "signatures_ok c" and "seat_ok H se"
  shows "oracle_micros c H s (finalize_locked c w se weighted so s)"
  using open_or_solo_micros [OF assms] assms(3)
  by (auto simp: finalize_locked_def Let_def skip_micros intro!: push_micros split: option.split)

lemma finalize_micros:
  assumes "oracle_wf H s" and "signatures_ok c" and "seat_ok H se"
  shows "oracle_micros c H s (finalizeOnSnapshot c w se weighted so s)"
  using finalize_locked_micros [OF assms] assms(3)
  by (auto simp: finalizeOnSnapshot_def skip_micros intro!: push_micros split: weight_verdict.split)

lemma finalize_round_micros:
  assumes "oracle_wf H s" and "signatures_ok c" and "seat_ok H (finalize_seat c w rd height tm)"
  shows "oracle_micros c H s (finalizeRound c w rd height tm s)"
  using finalize_micros [OF assms] assms(3)
  by (auto simp: finalizeRound_def Let_def skip_micros intro!: push_micros split: option.split)

section \<open>Following\<close>

text \<open>The own signature of a follower covers the payload of the round it has just opened.\<close>

lemma prepare_micros:
  assumes "oracle_wf H s" and "signatures_ok c"
    and "\<And>i. map_of (os_pending s) rd = Some i \<Longrightarrow> pr_digest (os_heap s ! i) = digest \<Longrightarrow> spellAdmit (pr_admit (os_heap s ! i)) = spellAdmit admit \<Longrightarrow>
           pr_prices (os_heap s ! i) = prices"
  shows "oracle_micros c H s (prepareOnPropose c w m rd prices digest admit s)"
proof (cases "map_of (os_pending s) rd")
  case (Some i)
  let ?p = "os_heap s ! i"
  let ?sg = "signPriceV0 c w rd (pr_time ?p) prices (pr_height ?p) (pr_admit ?p)"
  let ?g = "\<lambda>p. p\<lparr>pr_prepares := add_self w (oracleAddVote m (pr_prepares p))\<rparr>"
  let ?h = "\<lambda>p. verifyAndStoreSig c (om_sigPubkey m) (om_sigHex m) (?g p)"
  note i = wf_pending [OF assms(1) Some]
  show ?thesis
  proof (cases "pr_digest ?p \<noteq> digest \<or> spellAdmit (pr_admit ?p) \<noteq> spellAdmit admit")
    case False
    have g: "round_voted ?p (?g ?p)"
      using votes_grow(1) [of "pr_prepares ?p" m] votes_grow(2) [of "oracleAddVote m (pr_prepares ?p)" w] by (auto simp: round_voted_def round_grows_def)
    then have h: "round_voted ?p (?h ?p)"
      using verify_voted by (rule voted_trans)
    have "own_ok c ?p ?sg"
      using i assms(3) [OF Some] False by (intro sign_ok [OF assms(2)]) (simp add: round_payload_def)
    then have own: "own_ok c (?h ?p) ?sg"
      using h by (simp add: own_ok_grows round_voted_def)
    have "oround_ok c (?g ?p)" if "oround_ok c ?p"
      using round_ok_vote(4) [OF round_ok_vote(1) [OF that, of m], of w] by simp
    then have "oround_ok c (?h ?p)" if "oround_ok c ?p"
      using that by (intro verify_ok)
    then have "oracle_micros c H s (upd_round i (\<lambda>p. add_own ?sg (?h p)) s)"
      using i h own by (intro vote_micros voted_trans [OF h add_own_voted] add_own_ok) simp_all
    then have "oracle_micros c H s (oracle_emit (OutPrepare rd digest ?sg) (upd_round i (\<lambda>p. add_own ?sg (?h p)) s))"
      using emit_micros by (rule micros_trans)
    then have "oracle_micros c H s (oracleCheckPrepare c w rd (oracle_emit (OutPrepare rd digest ?sg) (upd_round i (\<lambda>p. add_own ?sg (?h p)) s)))"
      using check_prepare_micros [OF _ assms(2)] by (rule oracle_micros_then [OF assms(1)])
    then show ?thesis
      using Some False by (simp add: prepareOnPropose_def Let_def)
  qed (simp add: prepareOnPropose_def Some)
qed (simp add: prepareOnPropose_def)

lemma co_sign_micros:
  assumes "oracle_wf H s" and "signatures_ok c"
  shows "oracle_micros c H s (co_sign c w m rd prices lk admit s)"
proof (cases "map_of (os_pending s) rd = None \<and> lp_quorum lk \<noteq> None")
  case True
  then obtain q where q: "lp_quorum lk = Some q"
    by blast
  let ?digest = "oracle_digest c rd prices"
  let ?p = "follower_round c w m rd prices ?digest lk q admit"
  let ?s1 = "armRoundWatchdog rd (pr_height ?p) (pr_time ?p) (add_round ?p s)"
  have p: "pr_round ?p = rd" "pr_prices ?p = prices" "oround_ok c ?p" "\<not> pr_finalized ?p" "pr_timer ?p = FollowerTimer"
    by (simp_all add: follower_round_def oround_ok_def)
  then have "oracle_micro c H s (add_round ?p s)"
    using True by (intro oracle_micro.follower_open) simp_all
  note od = open_then_drain [OF assms this watch_core(1), of w rd rd "pr_height ?p" "pr_time ?p"]
  have "oracleOpenFollower c w m rd prices ?digest lk admit s = drainEarlyMessages c w rd ?s1"
    using True q p(1) by (simp add: oracleOpenFollower_def Let_def)
  moreover have "oracle_micros c H s (prepareOnPropose c w m rd prices ?digest admit (drainEarlyMessages c w rd ?s1))"
    using od(2, 4) p(1, 2) micros_wf [OF od(1) assms(1)]
    by (intro micros_trans [OF od(1)] prepare_micros assms(2)) (auto simp: round_grows_def)
  ultimately show ?thesis
    using True by (simp add: co_sign_def Let_def)
next
  case False
  then have "oracleOpenFollower c w m rd prices (oracle_digest c rd prices) lk admit s = s"
    by (auto simp: oracleOpenFollower_def split: option.split)
  then show ?thesis
    by (auto simp: co_sign_def prepareOnPropose_def Let_def split: option.splits)
qed

lemma judge_micros:
  assumes "oracle_wf H s" and "signatures_ok c"
  shows "oracle_micros c H s (judge_and_bind c w m rd prices lk s)"
  using co_sign_micros [OF assms]
  by (simp add: judge_and_bind_def bindAndCoSign_def push_micros split: option.split bool.split)

lemma lock_micros:
  assumes "oracle_wf H s" and "signatures_ok c"
  shows "oracle_micros c H s (lock_judged c w m rd prices h rt wt so s)" "oracle_micros c H s (lock_verdict c w m rd prices h rt wt so s)"
    "oracle_micros c H s (lockProposeSnapshot c w m rd prices h rt s)" "oracle_micros c H s (propose_bounded c w m rd prices s)"
proof -
  note j = judge_micros [OF assms]
  show lj: "oracle_micros c H s (lock_judged c w m rd prices h rt wt so s)" for h rt wt so
    using j by (simp add: lock_judged_def split: option.split)
  show lv: "oracle_micros c H s (lock_verdict c w m rd prices h rt wt so s)" for h rt wt so
    using lj by (simp add: lock_verdict_def push_micros split: weight_verdict.split)
  show lp: "oracle_micros c H s (lockProposeSnapshot c w m rd prices h rt s)" for h rt
    using j lv by (simp add: lockProposeSnapshot_def push_micros Let_def split: option.split)
  show "oracle_micros c H s (propose_bounded c w m rd prices s)"
    using lp by (simp add: propose_bounded_def push_micros Let_def split: option.split)
qed

lemma message_micros:
  assumes "oracle_wf H s" and "signatures_ok c"
  shows "oracle_micros c H s (oracleHandleMessage c w env s)"
  using handle_vote_micros [OF assms]
  by (simp add: oracleHandleMessage_def oracleHandlePropose_def push_micros split: vote_kind.split option.split prod.split)

section \<open>Tasks\<close>

lemma take_micros: "os_tasks s = xs @ t # ys \<Longrightarrow> storing t = None \<Longrightarrow> oracle_micros c H s (s\<lparr>os_tasks := xs @ ys\<rparr>)"
  by (intro micro_micros oracle_micro.take)

lemma disarm_frame_micros:
  assumes "same_core (s\<lparr>os_grace := filter P (os_grace s)\<rparr>) s'"
  shows "oracle_micros c H s s'"
  by (rule micros_trans [OF micro_micros [OF oracle_micro.disarm] frame_micros [OF assms]])

lemma clear_tracking_micros: "oracle_micros c H s (clearRoundTracking rd s)"
  by (rule disarm_frame_micros [where P = "\<lambda>(t, g). \<not> (map_of (os_leaderTimers s) rd = Some t)"])
    (auto simp: clearRoundTracking_def disarmRoundWatchdog_def same_core_def js_del_def split_def split: option.split intro!: filter_cong)

lemma mark_core:
  "same_core s (oracleMarkFinalized c rd s)" "same_core s (markLocallySkipped c rd s)" "same_core s (disarmRoundWatchdog rd s)"
  by (simp_all add: oracleMarkFinalized_def markLocallySkipped_def disarmRoundWatchdog_def same_core_def Let_def)

lemma announce_micros:
  assumes "os_tasks s = xs @ TAnnounce i rd # ys"
  shows "oracle_micros c H s (announceCommittedRound c i rd (s\<lparr>os_tasks := xs @ ys\<rparr>))"
proof -
  let ?P = "\<lambda>(t, g). \<not> (map_of (os_leaderTimers s) rd = Some t)"
  show ?thesis
    by (rule micros_trans [OF micro_micros [OF oracle_micro.announce [OF assms]] disarm_frame_micros [where P = ?P]])
      (auto simp: announceCommittedRound_def clearRoundTracking_def disarmRoundWatchdog_def oracleMarkFinalized_def drop_pending_def
        same_core_def js_del_def split_def Let_def split: option.split intro!: filter_cong)
qed

lemma solo_announce_micros:
  assumes "os_tasks s = xs @ TSoloAnnounce se prices admit pf # ys"
  shows "oracle_micros c H s (solo_announce c w se prices admit pf (s\<lparr>os_tasks := xs @ ys\<rparr>))"
  by (rule micros_trans [OF micro_micros [OF oracle_micro.solo_announce [OF assms, of _ _ "add_self w []"]] frame_micros])
    (simp add: solo_announce_def oracleMarkFinalized_def disarmRoundWatchdog_def same_core_def Let_def)

lemma store_micros:
  assumes "os_tasks s = xs @ TStore i rd cnt pf n # ys"
  shows "oracle_micros c H s (store_attempt w i rd cnt pf n (s\<lparr>os_tasks := xs @ ys\<rparr>))"
proof (cases "ov_dbOk w")
  case True
  then show ?thesis
    using oracle_micro.stored [OF assms, of c H w] by (simp add: store_attempt_def Let_def micro_micros)
next
  case False
  have "oracle_micros c H s (s\<lparr>os_tasks := xs @ ys\<rparr>)" if "map_of (os_pending s) rd = None"
    using that by (intro micro_micros oracle_micro.lost [OF assms]) simp_all
  then show ?thesis
    using False oracle_micro.backoff [OF assms, of c H] oracle_micro.retry [OF assms, of _ c H]
    by (simp add: store_attempt_def Let_def micro_micros split: option.split)
qed

lemma backoff_micros:
  assumes "os_tasks s = xs @ TBackoff i rd cnt pf n # ys"
  shows "oracle_micros c H s (run_task c w (TBackoff i rd cnt pf n) (s\<lparr>os_tasks := xs @ ys\<rparr>))"
proof -
  have "oracle_micros c H s (s\<lparr>os_tasks := xs @ ys\<rparr>)" if "map_of (os_pending s) rd = None"
    using that by (intro micro_micros oracle_micro.lost [OF assms]) simp_all
  then show ?thesis
    using oracle_micro.resume [OF assms, of c H] by (simp add: micro_micros)
qed

lemma stopped_micros:
  assumes "os_tasks s = xs @ TStopped # ys" and "oracle_wf H s"
  shows "oracle_micros c H s (run_task c w TStopped (s\<lparr>os_tasks := xs @ ys\<rparr>))"
proof -
  have "\<not> os_running s"
    using assms by (auto simp: oracle_wf_def task_ok_def)
  then have "oracle_micros c H s (s\<lparr>os_tasks := xs @ ys, os_pending := []\<rparr>)"
    using take_micros [OF assms(1), of c H] oracle_micro.clear [of "s\<lparr>os_tasks := xs @ ys\<rparr>" c H] by (auto intro: micros_trans micro_micros)
  then show ?thesis
    by (rule micros_trans) (simp add: frame_micros same_core_def)
qed

text \<open>The tasks that are removed before their handler runs.\<close>

lemma plain_task_micros:
  assumes "oracle_wf H s" and "signatures_ok c" and "task_ok H s t" and "storing t = None" and "\<not> solo_row t" and "t \<noteq> TStopped"
    and "\<And>se prices admit pf. t \<noteq> TSoloStore se prices admit pf"
  shows "oracle_micros c H s (run_task c w t s)"
proof (cases t)
  case (TFinalizeSnap se)
  then show ?thesis
    using assms(3) finalize_micros [OF assms(1, 2)] by (simp add: task_ok_def Let_def)
next
  case (TFinalizeCount se)
  then show ?thesis
    using assms(3) finalize_locked_micros [OF assms(1, 2)] by (simp add: task_ok_def)
next
  case (TFinalizeSeat se wt so members subs)
  then show ?thesis
    using assms(3) open_or_solo_micros [OF assms(1, 2)] by (simp add: task_ok_def)
next
  case (TSolo se prices)
  then show ?thesis
    by (simp add: solo_sign_def push_micros Let_def)
next
  case (TSkip rd h tm reason)
  have "oracle_micros c H s (push (TSkipMark rd) (s\<lparr>os_skipRows := os_skipRows s @ [(rd, reason)]\<rparr>))"
    by (rule micros_trans [OF frame_micros push_micros]) (simp_all add: same_core_def)
  then show ?thesis
    using TSkip by simp
next
  case (TSkipMark rd)
  then show ?thesis
    using micros_trans [OF frame_micros [OF mark_core(2)] clear_tracking_micros] by simp
next
  case (TPropose x)
  then show ?thesis
    using open_leader_micros [OF assms(1, 2), of x] by (simp add: Let_def)
next
  case (TBind m rd prices lk)
  then show ?thesis
    using co_sign_micros [OF assms(1, 2)] by (simp split: option.split)
qed (use assms(4-7) lock_micros [OF assms(1, 2)] in simp_all)

lemma task_micros:
  assumes "oracle_wf H s" and "signatures_ok c" and "os_tasks s = xs @ t # ys"
  shows "oracle_micros c H s (run_task c w t (s\<lparr>os_tasks := xs @ ys\<rparr>))"
proof -
  have ok: "task_ok H (s\<lparr>os_tasks := xs @ ys\<rparr>) t"
    using assms(1, 3) by (simp add: oracle_wf_def task_ok_def)
  have plain: ?thesis if "storing t = None" "\<not> solo_row t" "t \<noteq> TStopped" "\<And>se prices admit pf. t \<noteq> TSoloStore se prices admit pf"
    using take_micros [OF assms(3) that(1)] plain_task_micros [OF _ assms(2) ok that] by (rule oracle_micros_then [OF assms(1)])
  show ?thesis
  proof (cases t)
    case (TSoloStore se prices admit pf)
    then show ?thesis
      using take_micros [OF assms(3)] oracle_micro.solo_store [of s xs se prices admit pf ys c H w] assms(3) by (simp add: micro_micros)
  qed (use plain announce_micros store_micros backoff_micros solo_announce_micros stopped_micros assms in simp_all)
qed

section \<open>Timers, stopping, steps\<close>

lemma finalize_committed: "map_of (os_pending s) rd = Some i \<Longrightarrow>
    finalizeCommittedRound rd s = push (TStore i rd (countDistinctMembers (os_heap s ! i) (pr_prepares (os_heap s ! i))) (sortedSignatures (os_heap s ! i)) 1) s"
  by (simp add: finalizeCommittedRound_def Let_def)

lemma retry_timer_micros:
  assumes "oracle_wf H s" and "i < length (os_heap s)" and "pr_timer (os_heap s ! i) = RetryTimer"
    and "map_of (os_pending s) (pr_round (os_heap s ! i)) = Some j"
    and "\<not> pr_finalized (os_heap (upd_round i (\<lambda>p. p\<lparr>pr_timer := NoTimer\<rparr>) s) ! j)"
  shows "oracle_micros c H s (finalizeCommittedRound (pr_round (os_heap s ! i))
    (upd_round j (\<lambda>p. p\<lparr>pr_finalized := True\<rparr>) (upd_round i (\<lambda>p. p\<lparr>pr_timer := NoTimer\<rparr>) s)))"
proof -
  have j: "j < length (os_heap s)"
    using wf_pending [OF assms(1, 4)] by simp
  have "\<not> pr_finalized (os_heap s ! j)"
    using assms(2, 5) by (cases "i = j") simp_all
  note r = oracle_micro.redrive [OF assms(2-4) j this]
  have "sortedSignatures ((os_heap (upd_round i (\<lambda>p. p\<lparr>pr_timer := NoTimer\<rparr>) s) ! j)\<lparr>pr_finalized := True\<rparr>) = sortedSignatures (os_heap s ! j)"
    using assms(2) by (cases "i = j") (simp_all add: sortedSignatures_def)
  then show ?thesis
    using r j assms(4) by (simp add: finalize_committed micro_micros)
qed

lemma timer_micros:
  assumes "oracle_wf H s" and "i < length (os_heap s)"
  shows "oracle_micros c H s (fireTimer i s)"
proof -
  have off: "oracle_micros c H s (upd_round i (\<lambda>p. p\<lparr>pr_timer := NoTimer\<rparr>) s)"
    by (intro micro_micros oracle_micro.disarm_timer assms(2))
  show ?thesis
  proof (cases "pr_timer (os_heap s ! i)")
    case RetryTimer
    then show ?thesis
      using off retry_timer_micros [OF assms RetryTimer] by (simp add: fireTimer_def Let_def split: option.split)
  qed (use off oracle_micro.timeout [OF assms(2), of c H] in \<open>simp_all add: fireTimer_def Let_def micro_micros\<close>)
qed

lemma abandoned_micros: "oracle_micros c H s (onRoundAbandoned rd s)"
proof -
  have d: "oracle_micros c H s (disarmRoundWatchdog rd s)"
    by (rule frame_micros [OF mark_core(3)])
  have "oracle_micros c H s (s\<lparr>os_watch := x\<rparr>)" for x
    by (intro frame_micros) (simp add: same_core_def)
  moreover have "oracle_micros c H s (push (TSkip rd h tm reason) (disarmRoundWatchdog rd s))" for h tm reason
    by (rule micros_trans [OF d push_micros]) simp_all
  ultimately show ?thesis
    using d by (simp add: onRoundAbandoned_def split: option.split)
qed

lemma fold_micros:
  assumes "\<And>x t. x \<in> set xs \<Longrightarrow> J t \<Longrightarrow> oracle_micros c H t (f x t)" and "\<And>x t. x \<in> set xs \<Longrightarrow> J t \<Longrightarrow> J (f x t)" and "J s"
  shows "oracle_micros c H s (fold f xs s)"
  using assms
proof (induction xs arbitrary: s)
  case (Cons x xs)
  have "oracle_micros c H (f x s) (fold f xs (f x s))"
    using Cons.prems by (intro Cons.IH) simp_all
  then show ?case
    using Cons.prems(1) [of x s] Cons.prems(3) by (auto intro: micros_trans)
qed simp

lemma fold_push_running: "os_running (fold (\<lambda>(rd, e). push (TSkip rd (wt_height e) (wt_time e) reason)) xs s) = os_running s"
  by (induction xs arbitrary: s) (simp_all add: split_def)

lemma oracle_stop_micros:
  assumes "oracle_wf H s"
  shows "oracle_micros c H s (stop_rounds s)"
proof -
  let ?off = "\<lambda>(rd, i). upd_round i (\<lambda>p. p\<lparr>pr_timer := NoTimer\<rparr>)"
  let ?s1 = "fold ?off (os_pending s) s"
  let ?P = "\<lambda>(t, g). t \<notin> snd ` set (os_leaderTimers s)"
  let ?s2 = "?s1\<lparr>os_running := False, os_grace := filter ?P (os_grace ?s1), os_leaderTimers := [], os_watch := []\<rparr>"
  have idx: "snd x < length (os_heap s)" if "x \<in> set (os_pending s)" for x
    using wf_pending [OF assms, of "fst x" "snd x"] that assms by (simp add: oracle_wf_def)
  have "oracle_micros c H s ?s1"
    by (rule fold_micros [where J = "\<lambda>t. length (os_heap t) = length (os_heap s)"])
      (auto simp: split_def intro!: micro_micros oracle_micro.disarm_timer dest: idx)
  moreover have "oracle_micros c H ?s1 (?s1\<lparr>os_running := False\<rparr>)"
    by (intro micro_micros oracle_micro.halt)
  moreover have "oracle_micros c H (?s1\<lparr>os_running := False\<rparr>) ?s2"
    by (rule disarm_frame_micros [where P = ?P]) (simp add: same_core_def)
  ultimately have s2: "oracle_micros c H s ?s2"
    by (meson micros_trans)
  have skips: "oracle_micros c H ?s2 (fold (\<lambda>(rd, e). push (TSkip rd (wt_height e) (wt_time e) reason)) xs ?s2)" for reason xs
    by (rule fold_micros [where J = "\<lambda>t. True"]) (auto intro!: push_micros)
  have "oracle_micros c H s (push TStopped (fold (\<lambda>(rd, e). push (TSkip rd (wt_height e) (wt_time e) reason)) xs ?s2))" for reason xs
    by (rule micros_trans [OF micros_trans [OF s2 skips] micro_micros [OF oracle_micro.push]]) (simp_all add: fold_push_running)
  then show ?thesis
    by (simp add: stop_rounds_def Let_def)
qed

theorem oracle_step_micros:
  assumes "oracle_step c H s s'" and "oracle_wf H s" and "signatures_ok c"
  shows "oracle_micros c H s s'"
  using assms
proof (induction rule: oracle_step.induct)
  case (message s w env)
  then show ?case by (intro message_micros)
next
  case (finalize w rd height time s)
  then show ?case by (intro finalize_round_micros) (simp_all add: seat_ok_def)
next
  case (task i s w)
  then show ?case
    unfolding drop_nth_def by (intro task_micros) (simp_all add: id_take_nth_drop)
next
  case (timer i s)
  then show ?case by (intro timer_micros)
next
  case (grace t g s w)
  then show ?case by (intro grace_micros)
next
  case (watchdog s rd)
  show ?case by (rule abandoned_micros)
next
  case (stop s)
  then show ?case by (intro oracle_stop_micros)
qed

lemma wf_start: "oracle_wf H new_oracle"
  by (simp add: oracle_wf_def new_oracle_def)

section \<open>Invariants of runs\<close>

text \<open>
  What is kept by every update, given the conditions \<open>A\<close> on the configuration and the scheduled heights, holds in every
  reachable state.
\<close>

locale oracle_run_invariant =
  fixes A :: "oracle_conf \<Rightarrow> int set \<Rightarrow> bool" and I :: "oracle_conf \<Rightarrow> int set \<Rightarrow> ostate \<Rightarrow> bool"
  assumes platform: "A c H \<Longrightarrow> signatures_ok c"
    and initially: "I c H new_oracle"
    and preserved: "A c H \<Longrightarrow> oracle_micro c H s s' \<Longrightarrow> oracle_wf H s \<Longrightarrow> I c H s \<Longrightarrow> I c H s'"
begin

lemma micros_keep: "A c H \<Longrightarrow> oracle_micros c H s s' \<Longrightarrow> oracle_wf H s \<and> I c H s \<Longrightarrow> oracle_wf H s' \<and> I c H s'"
  by (rule micros_inv) (auto intro: wf_micro preserved)

lemma holds:
  assumes "oracle_reach c H s" and "A c H"
  shows "oracle_wf H s \<and> I c H s"
  using assms(1)
proof (induction rule: oracle_reach.induct)
  case start
  show ?case by (simp add: wf_start initially)
next
  case (step s s')
  have "oracle_micros c H s s'"
    using step oracle_step_micros platform [OF assms(2)] by blast
  then show ?case
    using step.IH by (rule micros_keep [OF assms(2)])
qed

end

end
