(* ===== verification/Oracle_Safety.thy ===== *)
theory Oracle_Safety
  imports Oracle_Simulation
begin

text \<open>
  Invariants of the oracle's rounds: every signature kept in a round verifies over the round's payload, and, while the
  hub runs and only rounds of the admission era are scheduled, every round in storage was certified by its quorum.
\<close>

section \<open>Signatures\<close>

definition orounds_ok :: "oracle_conf \<Rightarrow> ostate \<Rightarrow> bool" where
  "orounds_ok c s \<longleftrightarrow> (\<forall>i < length (os_heap s). oround_ok c (os_heap s ! i))"

lemma rounds_ok_upd:
  "orounds_ok c s \<Longrightarrow> (oround_ok c (os_heap s ! i) \<Longrightarrow> oround_ok c (f (os_heap s ! i))) \<Longrightarrow> orounds_ok c (upd_round i f s)"
  unfolding orounds_ok_def by (metis length_list_update nth_list_update_eq nth_list_update_neq state_simps(9))

lemma rounds_ok_simps [simp]:
  "orounds_ok c (push t s) = orounds_ok c s" "orounds_ok c (drop_pending rd s) = orounds_ok c s" "orounds_ok c (arm_grace g s) = orounds_ok c s"
  "orounds_ok c (store_row w rd ps cnt pf h tm a og s) = orounds_ok c s"
  "orounds_ok c (s\<lparr>os_tasks := ts\<rparr>) = orounds_ok c s" "orounds_ok c (s\<lparr>os_grace := gs\<rparr>) = orounds_ok c s"
  "orounds_ok c (s\<lparr>os_running := b\<rparr>) = orounds_ok c s" "orounds_ok c (s\<lparr>os_pending := ps'\<rparr>) = orounds_ok c s"
  "orounds_ok c (s\<lparr>os_events := es\<rparr>) = orounds_ok c s"
  by (simp_all add: orounds_ok_def)

lemma rounds_ok_add: "orounds_ok c s \<Longrightarrow> oround_ok c p \<Longrightarrow> orounds_ok c (s\<lparr>os_heap := os_heap s @ [p]\<rparr>)"
  by (simp add: orounds_ok_def nth_append less_Suc_eq)

lemma rounds_ok_micro: "oracle_micro c H s s' \<Longrightarrow> orounds_ok c s \<Longrightarrow> orounds_ok c s'"
proof (induction rule: oracle_micro.induct)
  case (frame s s')
  then show ?case by (simp add: same_core_def orounds_ok_def)
qed (auto intro!: rounds_ok_upd rounds_ok_add)

section \<open>Claims and timers\<close>

definition stores_inflight :: "nat \<Rightarrow> otask list \<Rightarrow> nat" where
  "stores_inflight i ts = length (filter (\<lambda>t. storing t = Some i) ts)"

lemma inflight_simps [simp]:
  "stores_inflight i [] = 0" "stores_inflight i (xs @ ys) = stores_inflight i xs + stores_inflight i ys"
  "stores_inflight i (t # ts) = (if storing t = Some i then Suc (stores_inflight i ts) else stores_inflight i ts)"
  by (simp_all add: stores_inflight_def)

text \<open>The object is the open round of its number.\<close>

definition current :: "nat \<Rightarrow> ostate \<Rightarrow> bool" where
  "current i s \<longleftrightarrow> i < length (os_heap s) \<and> map_of (os_pending s) (pr_round (os_heap s ! i)) = Some i"

definition owned :: "nat \<Rightarrow> ostate \<Rightarrow> bool" where
  "owned i s \<longleftrightarrow> current i s \<and> pr_finalized (os_heap s ! i) \<and> (pr_timer (os_heap s ! i) = NoTimer \<or> pr_timer (os_heap s ! i) = LeaderTimer)"

definition timer_waiting :: "oround \<Rightarrow> bool" where
  "timer_waiting p \<longleftrightarrow> pr_timer p = FollowerTimer \<or> pr_timer p = RetryTimer \<or> pr_timer p = LeaderTimer \<and> \<not> pr_finalized p"

text \<open>At most one store is in flight for a round object, and it holds the claim.\<close>

definition claims_ok :: "ostate \<Rightarrow> bool" where
  "claims_ok s \<longleftrightarrow> (\<forall>i. stores_inflight i (os_tasks s) = 0 \<or> stores_inflight i (os_tasks s) = 1 \<and> owned i s)"

definition timers_ok :: "ostate \<Rightarrow> bool" where
  "timers_ok s \<longleftrightarrow> (\<forall>i < length (os_heap s). timer_waiting (os_heap s ! i) \<longrightarrow> current i s \<and> (pr_timer (os_heap s ! i) = RetryTimer \<longrightarrow> \<not> pr_finalized (os_heap s ! i)))"

lemma current_unique: "current i s \<Longrightarrow> current j s \<Longrightarrow> pr_round (os_heap s ! i) = pr_round (os_heap s ! j) \<Longrightarrow> i = j"
  by (simp add: current_def)

lemma current_upd [simp]: "pr_round (f (os_heap s ! i)) = pr_round (os_heap s ! i) \<Longrightarrow> current k (upd_round i f s) = current k s"
  by (cases "k = i"; cases "i < length (os_heap s)") (simp_all add: current_def)

lemma owned_upd [simp]: "k \<noteq> i \<Longrightarrow> owned k (upd_round i f s) = owned k s"
  by (simp add: owned_def current_def)

lemma same_objects:
  assumes "os_heap s' = os_heap s" and "os_pending s' = os_pending s"
  shows "current i s' = current i s" "owned i s' = owned i s"
  using assms by (simp_all add: current_def owned_def)

lemma objects_simps [simp]:
  "current i (push t s) = current i s" "owned i (push t s) = owned i s" "current i (s\<lparr>os_tasks := ts\<rparr>) = current i s" "owned i (s\<lparr>os_tasks := ts\<rparr>) = owned i s"
  "current i (store_row w rd ps cnt pf h tm a og s) = current i s" "owned i (store_row w rd ps cnt pf h tm a og s) = owned i s"
  "current i (s\<lparr>os_grace := gs\<rparr>) = current i s" "owned i (s\<lparr>os_grace := gs\<rparr>) = owned i s"
  "current i (s\<lparr>os_events := es\<rparr>) = current i s" "owned i (s\<lparr>os_events := es\<rparr>) = owned i s"
  "current i (arm_grace g s) = current i s" "owned i (arm_grace g s) = owned i s"
  by (simp_all add: current_def owned_def)

lemma current_drop: "current k (drop_pending rd s) \<longleftrightarrow> current k s \<and> pr_round (os_heap s ! k) \<noteq> rd"
  by (auto simp: current_def map_of_js_del)

lemma current_add: "map_of (os_pending s) (pr_round p) = None \<Longrightarrow> current k s \<Longrightarrow> current k (add_round p s)"
  by (auto simp: current_def map_of_js_put nth_append)

lemma owned_add: "map_of (os_pending s) (pr_round p) = None \<Longrightarrow> owned k s \<Longrightarrow> owned k (add_round p s)"
  using current_add [of s p k] by (simp add: owned_def current_def nth_append)

lemma owned_not_waiting: "owned i s \<Longrightarrow> \<not> timer_waiting (os_heap s ! i)"
  by (auto simp: owned_def timer_waiting_def)

lemma claims_of:
  assumes "claims_ok s" and "os_tasks s = xs @ t # ys" and "storing t = Some i"
  shows "owned i s" "stores_inflight i xs = 0" "stores_inflight i ys = 0"
proof -
  have "stores_inflight i (os_tasks s) = 0 \<or> stores_inflight i (os_tasks s) = 1 \<and> owned i s"
    using assms(1) by (simp add: claims_ok_def)
  then show "owned i s" "stores_inflight i xs = 0" "stores_inflight i ys = 0"
    using assms(2, 3) by simp_all
qed

lemma claims_mono:
  assumes "claims_ok s" and "\<And>i. stores_inflight i (os_tasks s') \<le> stores_inflight i (os_tasks s)"
    and "\<And>i. owned i s \<Longrightarrow> 0 < stores_inflight i (os_tasks s') \<Longrightarrow> owned i s'"
  shows "claims_ok s'"
  unfolding claims_ok_def
proof
  fix i
  have "stores_inflight i (os_tasks s) = 0 \<or> stores_inflight i (os_tasks s) = 1 \<and> owned i s"
    using assms(1) by (simp add: claims_ok_def)
  then show "stores_inflight i (os_tasks s') = 0 \<or> stores_inflight i (os_tasks s') = 1 \<and> owned i s'"
    using assms(2) [of i] assms(3) [of i] by linarith
qed

text \<open>A new claim on an object that holds none.\<close>

lemma claims_new:
  assumes "claims_ok s" and "\<not> owned j s" and "os_tasks s' = os_tasks s @ [TStore j rd cnt pf n]"
    and "owned j s'" and "\<And>i. i \<noteq> j \<Longrightarrow> owned i s \<Longrightarrow> owned i s'"
  shows "claims_ok s'"
  unfolding claims_ok_def
proof
  fix i
  have "stores_inflight i (os_tasks s) = 0 \<or> stores_inflight i (os_tasks s) = 1 \<and> owned i s"
    using assms(1) by (simp add: claims_ok_def)
  then show "stores_inflight i (os_tasks s') = 0 \<or> stores_inflight i (os_tasks s') = 1 \<and> owned i s'"
    using assms(2-4) assms(5) [of i] by (cases "i = j") auto
qed

lemma era_fresh: "H \<subseteq> {h. oracleEra c h} \<Longrightarrow> map_of m r = None \<or> h \<in> H \<and> \<not> oracleEra c h \<Longrightarrow> map_of m r = None"
  by auto

lemma pending_current: "oracle_wf H s \<Longrightarrow> map_of (os_pending s) rd = Some i \<Longrightarrow> current i s \<and> pr_round (os_heap s ! i) = rd"
  using wf_pending [of H s rd i] by (simp add: current_def)

text \<open>While the claims are in order, a store in flight is for the open round of its number.\<close>

lemma store_current:
  assumes "claims_ok s" and "oracle_wf H s" and "os_tasks s = xs @ t # ys" and "t = TStore i rd cnt pf n \<or> t = TBackoff i rd cnt pf n \<or> t = TAnnounce i rd"
  shows "owned i s" "pr_round (os_heap s ! i) = rd" "map_of (os_pending s) rd = Some i"
proof -
  have "storing t = Some i" "task_ok H s t"
    using assms(2-4) by (auto simp: oracle_wf_def)
  then show "owned i s" "pr_round (os_heap s ! i) = rd" "map_of (os_pending s) rd = Some i"
    using claims_of(1) [OF assms(1, 3)] assms(4) by (auto simp: owned_def current_def)
qed

lemma claims_micro:
  assumes "oracle_micro c H s s'" and "oracle_wf H s" and "H \<subseteq> {h. oracleEra c h}" and "os_running s'"
    and "claims_ok s" and "timers_ok s"
  shows "claims_ok s'"
  using assms
proof (induction rule: oracle_micro.induct)
  case (frame s s')
  then show ?case using same_objects [of s' s] by (intro claims_mono [OF frame.prems(4)]) (simp_all add: same_core_def)
next
  case (vote i s f)
  have "owned k (upd_round i f s)" if "owned k s" for k
    using vote.hyps that by (cases "k = i") (simp_all add: owned_def round_voted_def round_grows_def)
  then show ?case by (intro claims_mono [OF vote.prems(4)]) simp_all
next
  case (claim s rd i cnt)
  have "current i s"
    using pending_current [OF claim.prems(1) claim.hyps(1)] by simp
  then show ?case
    using claim.hyps by (intro claims_new [OF claim.prems(4), of i]) (simp_all add: owned_def)
next
  case (follower_open s p)
  then show ?case by (intro claims_mono [OF follower_open.prems(4)] owned_add) simp_all
next
  case (leader_open s p)
  then show ?case
    using era_fresh [OF leader_open.prems(2) leader_open.hyps(1)] by (intro claims_mono [OF leader_open.prems(4)] owned_add) simp_all
next
  case (arm_leader i s)
  have "owned k (upd_round i (\<lambda>p. p\<lparr>pr_timer := LeaderTimer\<rparr>) s)" if "owned k s" for k
    using arm_leader.hyps that by (cases "k = i") (simp_all add: owned_def)
  then show ?case by (intro claims_mono [OF arm_leader.prems(4)]) simp_all
next
  case (retry s xs i rd cnt pf attempt ys j)
  have "j = i"
    using store_current(3) [OF retry.prems(4, 1) retry.hyps(1)] retry.hyps(2) by simp
  moreover have "k \<noteq> i" if "0 < stores_inflight k (xs @ ys)" for k
    using claims_of(2, 3) [OF retry.prems(4) retry.hyps(1)] that by auto
  ultimately show ?case
    using retry.hyps(1) by (intro claims_mono [OF retry.prems(4)]) simp_all
next
  case (announce s xs i rd ys)
  note i = store_current [OF announce.prems(4, 1) announce.hyps]
  have keep: "owned k (drop_pending rd s)" if "owned k s" "k \<noteq> i" for k
    using that i by (auto simp: owned_def current_def map_of_js_del)
  have "stores_inflight i xs = 0" "stores_inflight i ys = 0"
    using claims_of [OF announce.prems(4) announce.hyps] by simp_all
  then have "k \<noteq> i" if "0 < stores_inflight k (xs @ ys)" for k
    using that by auto
  moreover have "owned k (s\<lparr>os_tasks := xs @ ys, os_pending := js_del rd (os_pending s), os_events := es\<rparr>) = owned k (drop_pending rd s)" for k es
    by (simp add: owned_def current_def)
  ultimately show ?case
    using keep announce.hyps by (intro claims_mono [OF announce.prems(4)]) simp_all
next
  case (timeout i s)
  have w: "timer_waiting (os_heap s ! i)"
    using timeout.hyps(2) by (auto simp: timer_waiting_def)
  have cur: "current i s"
    using timeout.prems(5) timeout.hyps(1) w by (auto simp: timers_ok_def)
  let ?s1 = "upd_round i (\<lambda>p. p\<lparr>pr_timer := NoTimer\<rparr>) s"
  have "owned k (drop_pending (pr_round (os_heap s ! i)) ?s1)" if "owned k s" for k
  proof -
    have "k \<noteq> i"
      using owned_not_waiting [OF that] w by blast
    then show ?thesis
      using that cur by (auto simp: owned_def current_drop current_unique)
  qed
  then show ?case by (intro claims_mono [OF timeout.prems(4)]) simp_all
next
  case (disarm_timer i s)
  have "owned k (upd_round i (\<lambda>p. p\<lparr>pr_timer := NoTimer\<rparr>) s)" if "owned k s" for k
    using disarm_timer.hyps that by (cases "k = i") (simp_all add: owned_def)
  then show ?case by (intro claims_mono [OF disarm_timer.prems(4)]) simp_all
next
  case (redrive i s j cnt)
  have ti: "timer_waiting (os_heap s ! i)"
    using redrive.hyps(2) by (simp add: timer_waiting_def)
  have cur: "current i s"
    using redrive.prems(5) redrive.hyps(1) ti by (auto simp: timers_ok_def)
  then have ij: "j = i"
    using redrive.hyps(3) by (simp add: current_def)
  have "owned i (upd_round i (\<lambda>p. p\<lparr>pr_finalized := True\<rparr>) (upd_round i (\<lambda>p. p\<lparr>pr_timer := NoTimer\<rparr>) s))"
    using cur by (simp add: owned_def current_def)
  then show ?case
    unfolding ij using owned_not_waiting [of i s] ti by (intro claims_new [OF redrive.prems(4), of i]) auto
qed (erule claims_mono; simp)+

lemma timers_of: "timers_ok s \<Longrightarrow> i < length (os_heap s) \<Longrightarrow> timer_waiting (os_heap s ! i) \<Longrightarrow>
    current i s \<and> (pr_timer (os_heap s ! i) = RetryTimer \<longrightarrow> \<not> pr_finalized (os_heap s ! i))"
  by (simp add: timers_ok_def)

text \<open>An update of one object, after which it is either not timer_waiting or still open.\<close>

lemma timers_upd:
  assumes "timers_ok s" and "pr_round (f (os_heap s ! i)) = pr_round (os_heap s ! i)"
    and "timer_waiting (f (os_heap s ! i)) \<Longrightarrow> i < length (os_heap s) \<Longrightarrow> current i s \<and> (pr_timer (f (os_heap s ! i)) = RetryTimer \<longrightarrow> \<not> pr_finalized (f (os_heap s ! i)))"
  shows "timers_ok (upd_round i f s)"
  unfolding timers_ok_def
proof (intro allI impI)
  fix k assume k: "k < length (os_heap (upd_round i f s))" and w: "timer_waiting (os_heap (upd_round i f s) ! k)"
  show "current k (upd_round i f s) \<and> (pr_timer (os_heap (upd_round i f s) ! k) = RetryTimer \<longrightarrow> \<not> pr_finalized (os_heap (upd_round i f s) ! k))"
    using k w assms timers_of [OF assms(1), of k] by (cases "k = i") simp_all
qed

lemma timers_drop:
  assumes "timers_ok s" and "current i s" and "\<not> timer_waiting (os_heap s ! i)"
  shows "timers_ok (drop_pending (pr_round (os_heap s ! i)) s)"
proof -
  have "pr_round (os_heap s ! k) \<noteq> pr_round (os_heap s ! i)" if "k < length (os_heap s)" "timer_waiting (os_heap s ! k)" for k
    using timers_of [OF assms(1) that] current_unique [OF _ assms(2)] assms(3) that(2) by blast
  then show ?thesis
    using assms(1) by (auto simp: timers_ok_def current_drop)
qed

lemma timers_add:
  assumes "timers_ok s" and "map_of (os_pending s) (pr_round p) = None" and "pr_timer p \<noteq> RetryTimer"
  shows "timers_ok (add_round p s)"
  unfolding timers_ok_def
proof (intro allI impI)
  fix k assume k: "k < length (os_heap (add_round p s))" and w: "timer_waiting (os_heap (add_round p s) ! k)"
  show "current k (add_round p s) \<and> (pr_timer (os_heap (add_round p s) ! k) = RetryTimer \<longrightarrow> \<not> pr_finalized (os_heap (add_round p s) ! k))"
  proof (cases "k < length (os_heap s)")
    case True
    then show ?thesis
      using w timers_of [OF assms(1), of k] current_add [OF assms(2), of k] by (simp add: nth_append)
  next
    case False
    then have "k = length (os_heap s)"
      using k by simp
    then show ?thesis
      using assms(3) by (simp add: current_def map_of_js_put)
  qed
qed

lemma timers_same: "timers_ok s \<Longrightarrow> os_heap s' = os_heap s \<Longrightarrow> os_pending s' = os_pending s \<Longrightarrow> timers_ok s'"
  by (simp add: timers_ok_def current_def)

lemma timers_simps [simp]:
  "timers_ok (push t s) = timers_ok s" "timers_ok (arm_grace g s) = timers_ok s" "timers_ok (store_row w rd ps cnt pf h tm a og s) = timers_ok s"
  "timers_ok (s\<lparr>os_tasks := ts\<rparr>) = timers_ok s" "timers_ok (s\<lparr>os_grace := gs\<rparr>) = timers_ok s" "timers_ok (s\<lparr>os_events := es\<rparr>) = timers_ok s"
  by (simp_all add: timers_ok_def)

lemma timers_micro:
  assumes "oracle_micro c H s s'" and "oracle_wf H s" and "H \<subseteq> {h. oracleEra c h}" and "os_running s'"
    and "claims_ok s" and "timers_ok s"
  shows "timers_ok s'"
  using assms
proof (induction rule: oracle_micro.induct)
  case (frame s s')
  then show ?case by (intro timers_same [OF frame.prems(5)]) (simp_all add: same_core_def)
next
  case (vote i s f)
  then show ?case
    using timers_of [OF vote.prems(5) vote.hyps(1)] by (intro timers_upd) (simp_all add: round_voted_def round_grows_def timer_waiting_def)
next
  case (claim s rd i cnt)
  then show ?case by (simp, intro timers_upd) (simp_all add: timer_waiting_def)
next
  case (follower_open s p)
  then show ?case by (intro timers_add) simp_all
next
  case (leader_open s p)
  then show ?case
    using era_fresh [OF leader_open.prems(2) leader_open.hyps(1)] by (intro timers_add) simp_all
next
  case (arm_leader i s)
  then show ?case by (intro timers_upd) (simp_all add: current_def)
next
  case (retry s xs i rd cnt pf attempt ys j)
  then show ?case
    using pending_current [OF retry.prems(1) retry.hyps(2)] by (intro timers_upd) simp_all
next
  case (announce s xs i rd ys)
  note i = store_current [OF announce.prems(4, 1) announce.hyps]
  have "timers_ok (drop_pending rd s)"
    using timers_drop [OF announce.prems(5), of i] owned_not_waiting [OF i(1)] i by (simp add: owned_def)
  then show ?case by (rule timers_same) simp_all
next
  case (timeout i s)
  let ?s1 = "upd_round i (\<lambda>p. p\<lparr>pr_timer := NoTimer\<rparr>) s"
  have "timer_waiting (os_heap s ! i)"
    using timeout.hyps(2) by (auto simp: timer_waiting_def)
  then have cur: "current i s"
    using timers_of [OF timeout.prems(5) timeout.hyps(1)] by simp
  have "timers_ok ?s1"
    using timeout.prems(5) by (intro timers_upd) (simp_all add: timer_waiting_def)
  from timers_drop [OF this, of i] show ?case
    using cur timeout.hyps(1) by (simp add: timer_waiting_def)
next
  case (disarm_timer i s)
  then show ?case by (intro timers_upd) (simp_all add: timer_waiting_def)
next
  case (redrive i s j cnt)
  have w: "timer_waiting (os_heap s ! i)"
    using redrive.hyps(2) by (simp add: timer_waiting_def)
  have ij: "j = i"
    using redrive.hyps(3) timers_of [OF redrive.prems(5) redrive.hyps(1) w] by (simp add: current_def)
  have "timers_ok (upd_round i (\<lambda>p. p\<lparr>pr_timer := NoTimer\<rparr>) s)"
    using redrive.prems(5) by (intro timers_upd) (simp_all add: timer_waiting_def)
  then show ?case
    unfolding ij timers_simps by (rule timers_upd) (use redrive.hyps(1) in \<open>simp_all add: timer_waiting_def\<close>)
qed simp_all

section \<open>Certificates\<close>

lemma members_mono:
  assumes "distinct xs" and "set xs \<subseteq> set ys"
  shows "countDistinctMembers p xs \<le> countDistinctMembers p ys"
proof -
  have "length (filter P xs) \<le> length (filter P ys)" for P
  proof -
    have "length (filter P xs) = card (set (filter P xs))"
      using assms(1) by (metis distinct_card distinct_filter)
    also have "\<dots> \<le> card (set (filter P ys))"
      using assms(2) by (intro card_mono) auto
    also have "\<dots> \<le> length (filter P ys)"
      by (rule card_length)
    finally show ?thesis .
  qed
  from this [of "\<lambda>x. True"] this show ?thesis
    by (simp add: countDistinctMembers_def split: option.split)
qed

lemma certified_mono:
  assumes "certified c p xs ks" and "distinct xs" and "distinct ks" and "set xs \<subseteq> set xs'" and "set ks \<subseteq> set ks'"
  shows "certified c p xs' ks'"
proof (cases "pr_weighted p")
  case True
  then show ?thesis
    using assms(1, 5) by (auto simp: certified_def)
next
  case False
  then show ?thesis
    using assms(1) members_mono [OF assms(2, 4), of p] members_mono [OF assms(3, 5), of p] by (simp add: certified_def split: if_splits)
qed

lemma certified_content: "round_grows p q \<Longrightarrow> certified c q xs ks = certified c p xs ks"
  by (simp add: certified_def round_grows_def countDistinctMembers_def signed_tally_def)

text \<open>A proof that certifies the round: its signatures are among those kept, one per key.\<close>

definition backed :: "oracle_conf \<Rightarrow> oround \<Rightarrow> sigproof \<Rightarrow> bool" where
  "backed c p pf \<longleftrightarrow> distinct (map fst pf) \<and> set pf \<subseteq> set (pr_sigs p) \<and> certified c p (pr_commits p) (map fst pf)"

lemma backed_grows: "backed c p pf \<Longrightarrow> oround_ok c p \<Longrightarrow> round_grows p q \<Longrightarrow> backed c q pf"
  using certified_mono [of c p "pr_commits p" "map fst pf" "pr_commits q" "map fst pf"]
  by (auto simp: backed_def certified_content oround_ok_def) (auto simp: round_grows_def)

lemma now_backed:
  assumes "oround_ok c p" and "certified c p (pr_commits p) (map fst (pr_sigs p))"
  shows "backed c p (sortedSignatures p)"
  using assms certified_mono [OF assms(2), of "pr_commits p" "map fst (sortedSignatures p)"]
  by (auto simp: backed_def sortedSignatures_def oround_ok_def distinct_map)

lemma now_grows:
  assumes "certified c p (pr_commits p) (map fst (pr_sigs p))" and "oround_ok c p" and "round_grows p q"
  shows "certified c q (pr_commits q) (map fst (pr_sigs q))"
proof -
  have "set (pr_commits p) \<subseteq> set (pr_commits q)" "set (map fst (pr_sigs p)) \<subseteq> set (map fst (pr_sigs q))"
    using assms(3) by (auto simp: round_grows_def)
  then have "certified c p (pr_commits q) (map fst (pr_sigs q))"
    using assms(2) by (intro certified_mono [OF assms(1)]) (simp_all add: oround_ok_def)
  then show ?thesis
    by (simp add: certified_content [OF assms(3)])
qed

fun task_proof :: "otask \<Rightarrow> (nat \<times> sigproof) option" where
  "task_proof (TStore i rd cnt pf attempt) = Some (i, pf)"
| "task_proof (TBackoff i rd cnt pf attempt) = Some (i, pf)"
| "task_proof t = None"

definition row_of :: "oround \<Rightarrow> ostored \<Rightarrow> bool" where
  "row_of p r \<longleftrightarrow>
     sr_round r = pr_round p \<and> sr_prices r = pr_prices p \<and> sr_admit r = pr_admit p \<and>
     sr_height r = (if pr_height p = 0 then pr_round p else pr_height p) \<and> (truthy (pr_time p) \<longrightarrow> sr_time r = pr_time p)"

definition certificates_ok :: "oracle_conf \<Rightarrow> ostate \<Rightarrow> bool" where
  "certificates_ok c s \<longleftrightarrow>
     (\<forall>i < length (os_heap s). pr_timer (os_heap s ! i) = RetryTimer \<longrightarrow>
        certified c (os_heap s ! i) (pr_commits (os_heap s ! i)) (map fst (pr_sigs (os_heap s ! i)))) \<and>
     (\<forall>t i pf. t \<in> set (os_tasks s) \<longrightarrow> task_proof t = Some (i, pf) \<longrightarrow> i < length (os_heap s) \<and> backed c (os_heap s ! i) pf) \<and>
     (\<forall>r i. r \<in> set (os_stored s) \<longrightarrow> sr_origin r = Some i \<longrightarrow>
        i < length (os_heap s) \<and> row_of (os_heap s ! i) r \<and> backed c (os_heap s ! i) (sr_proof r))"

lemma row_grows: "round_grows p q \<Longrightarrow> row_of q r = row_of p r"
  by (simp add: row_of_def round_grows_def)

text \<open>Growth of the heap keeps the certificates; what is left is to certify what an update adds.\<close>

lemma certificates_step:
  assumes "certificates_ok c s" and "orounds_ok c s" and "heap_le (os_heap s) (os_heap s')"
    and "\<And>i. i < length (os_heap s') \<Longrightarrow> pr_timer (os_heap s' ! i) = RetryTimer \<Longrightarrow>
           i < length (os_heap s) \<and> certified c (os_heap s ! i) (pr_commits (os_heap s ! i)) (map fst (pr_sigs (os_heap s ! i)))"
    and "\<And>t i pf. t \<in> set (os_tasks s') \<Longrightarrow> task_proof t = Some (i, pf) \<Longrightarrow>
           (\<exists>t. t \<in> set (os_tasks s) \<and> task_proof t = Some (i, pf)) \<or> i < length (os_heap s) \<and> backed c (os_heap s ! i) pf"
    and "\<And>r i. r \<in> set (os_stored s') \<Longrightarrow> sr_origin r = Some i \<Longrightarrow>
           r \<in> set (os_stored s) \<or> i < length (os_heap s) \<and> row_of (os_heap s ! i) r \<and> backed c (os_heap s ! i) (sr_proof r)"
  shows "certificates_ok c s'"
proof -
  have grow: "i < length (os_heap s') \<and> round_grows (os_heap s ! i) (os_heap s' ! i) \<and> oround_ok c (os_heap s ! i)" if "i < length (os_heap s)" for i
    using assms(2, 3) that by (auto simp: heap_le_def orounds_ok_def)
  have keep: "i < length (os_heap s') \<and> backed c (os_heap s' ! i) pf" if "i < length (os_heap s) \<and> backed c (os_heap s ! i) pf" for i pf
    using that grow [of i] backed_grows by blast
  have "certified c (os_heap s' ! i) (pr_commits (os_heap s' ! i)) (map fst (pr_sigs (os_heap s' ! i)))"
    if "i < length (os_heap s')" "pr_timer (os_heap s' ! i) = RetryTimer" for i
    using assms(4) [OF that] grow [of i] now_grows by blast
  moreover have "i < length (os_heap s') \<and> backed c (os_heap s' ! i) pf" if "t \<in> set (os_tasks s')" "task_proof t = Some (i, pf)" for t i pf
    using assms(5) [OF that] assms(1) keep [of i pf] unfolding certificates_ok_def by blast
  moreover have "i < length (os_heap s') \<and> row_of (os_heap s' ! i) r \<and> backed c (os_heap s' ! i) (sr_proof r)"
    if "r \<in> set (os_stored s')" "sr_origin r = Some i" for r i
  proof -
    have "i < length (os_heap s) \<and> row_of (os_heap s ! i) r \<and> backed c (os_heap s ! i) (sr_proof r)"
      using assms(6) [OF that] assms(1) that(2) unfolding certificates_ok_def by blast
    then show ?thesis
      using keep [of i "sr_proof r"] grow [of i] row_grows by blast
  qed
  ultimately show ?thesis
    unfolding certificates_ok_def by blast
qed

lemma retry_certified: "certificates_ok c s \<Longrightarrow> i < length (os_heap s) \<Longrightarrow> pr_timer (os_heap s ! i) = RetryTimer \<Longrightarrow>
    certified c (os_heap s ! i) (pr_commits (os_heap s ! i)) (map fst (pr_sigs (os_heap s ! i)))"
  by (simp add: certificates_ok_def)

lemma task_backed: "certificates_ok c s \<Longrightarrow> t \<in> set (os_tasks s) \<Longrightarrow> task_proof t = Some (i, pf) \<Longrightarrow>
    i < length (os_heap s) \<and> backed c (os_heap s ! i) pf"
  unfolding certificates_ok_def by blast

text \<open>No update but a retry arms a retry timer.\<close>

lemma backed_key_certified:
  assumes "backed c p pf" and "oround_ok c p"
  shows "certified c p (pr_commits p) (map fst (pr_sigs p))"
proof -
  have "set (map fst pf) \<subseteq> set (map fst (pr_sigs p))"
    using assms(1) by (auto simp: backed_def)
  then show ?thesis
    by (rule certified_mono [of c p "pr_commits p" "map fst pf", rotated 4]) (use assms in \<open>simp_all add: backed_def oround_ok_def\<close>)
qed

lemma retry_timers:
  assumes "oracle_micro c H s s'" and "oracle_wf H s" and "claims_ok s" and "certificates_ok c s" and "orounds_ok c s"
    and "i < length (os_heap s')" and "pr_timer (os_heap s' ! i) = RetryTimer"
  shows "i < length (os_heap s) \<and> certified c (os_heap s ! i) (pr_commits (os_heap s ! i)) (map fst (pr_sigs (os_heap s ! i)))"
  using assms
proof (induction rule: oracle_micro.induct)
  case (frame s s')
  then have "os_heap s' = os_heap s"
    by (simp add: same_core_def)
  then show ?case using retry_certified [OF frame.prems(3), of i] frame.prems(5, 6) by simp
next
  case (retry s xs k rd cnt pf attempt ys j)
  have kj: "j = k"
    using store_current(3) [OF retry.prems(2, 1) retry.hyps(1)] retry.hyps(2) by simp
  have "k < length (os_heap s) \<and> backed c (os_heap s ! k) pf"
    using task_backed [OF retry.prems(3), of "TStore k rd cnt pf attempt"] retry.hyps(1) by simp
  then have "certified c (os_heap s ! k) (pr_commits (os_heap s ! k)) (map fst (pr_sigs (os_heap s ! k)))"
    using retry.prems(4) backed_key_certified by (auto simp: orounds_ok_def)
  then show ?case
    using retry.prems(5, 6) retry_certified [OF retry.prems(3), of i] kj by (cases "i = k") simp_all
next
  case (vote j s f)
  then show ?case
    using retry_certified [OF vote.prems(3), of i] by (cases "i = j") (simp_all add: round_voted_def)
next
  case (claim s rd j cnt)
  then show ?case using retry_certified [OF claim.prems(3), of i] by (cases "i = j") simp_all
next
  case (arm_leader j s)
  then show ?case using retry_certified [OF arm_leader.prems(3), of i] by (cases "i = j") simp_all
next
  case (timeout j s)
  then show ?case using retry_certified [OF timeout.prems(3), of i] by (cases "i = j") simp_all
next
  case (disarm_timer j s)
  then show ?case using retry_certified [OF disarm_timer.prems(3), of i] by (cases "i = j") simp_all
next
  case (redrive j s k cnt)
  then show ?case using retry_certified [OF redrive.prems(3), of i] by (cases "i = k"; cases "i = j"; cases "k = j") simp_all
next
  case (follower_open s p)
  then show ?case using retry_certified [OF follower_open.prems(3), of i] by (cases "i < length (os_heap s)") (simp_all add: nth_append split: if_splits)
next
  case (leader_open s p)
  then show ?case using retry_certified [OF leader_open.prems(3), of i] by (cases "i < length (os_heap s)") (simp_all add: nth_append split: if_splits)
qed (use retry_certified in simp_all)

lemma new_proofs:
  assumes "oracle_micro c H s s'" and "oracle_wf H s" and "timers_ok s" and "certificates_ok c s" and "orounds_ok c s"
    and "t \<in> set (os_tasks s')" and "task_proof t = Some (i, pf)"
  shows "(\<exists>t. t \<in> set (os_tasks s) \<and> task_proof t = Some (i, pf)) \<or> i < length (os_heap s) \<and> backed c (os_heap s ! i) pf"
  using assms
proof (induction rule: oracle_micro.induct)
  case (claim s rd j cnt)
  have "backed c (os_heap s ! j) (sortedSignatures (os_heap s ! j))"
    using claim.hyps(2, 4) claim.prems(4) by (intro now_backed) (simp_all add: orounds_ok_def)
  then show ?case
    using claim.hyps(2) claim.prems(5, 6) by auto
next
  case (redrive j s k cnt)
  have kj: "k = j"
    using timers_of [OF redrive.prems(2) redrive.hyps(1)] redrive.hyps(2, 3) by (simp add: timer_waiting_def current_def)
  have "backed c (os_heap s ! j) (sortedSignatures (os_heap s ! j))"
    using redrive.hyps(1, 2) redrive.prems(4) retry_certified [OF redrive.prems(3)] by (intro now_backed) (simp_all add: orounds_ok_def)
  then show ?case
    using redrive.hyps(1) redrive.prems(5, 6) kj by auto
next
  case (push t' s)
  then show ?case by (cases t') auto
next
  case (frame s s')
  then have "os_tasks s' = os_tasks s"
    by (simp add: same_core_def)
  then show ?case using frame.prems(5, 6) by auto
next
  case (resume s xs j rd cnt pf' attempt ys)
  then have "t \<in> set (os_tasks s) \<or> task_proof (TBackoff j rd cnt pf' attempt) = Some (i, pf)"
    by auto
  then show ?case
    using resume.hyps resume.prems(6) by (metis in_set_conv_decomp)
next
  case (backoff s xs j rd cnt pf' attempt ys)
  then have "t \<in> set (os_tasks s) \<or> task_proof (TStore j rd cnt pf' attempt) = Some (i, pf)"
    by auto
  then show ?case
    using backoff.hyps backoff.prems(6) by (metis in_set_conv_decomp)
next
  case (stored s xs j rd cnt pf' attempt ys w)
  then have "t \<in> set (os_tasks s)"
    by auto
  then show ?case
    using stored.prems(6) by blast
next
  case (solo_store s xs se prices admit pf' ys w)
  then have "t \<in> set (os_tasks s)"
    by auto
  then show ?case
    using solo_store.prems(6) by blast
qed auto

lemma new_rows:
  assumes "oracle_micro c H s s'" and "oracle_wf H s" and "certificates_ok c s"
    and "r \<in> set (os_stored s')" and "sr_origin r = Some i"
  shows "r \<in> set (os_stored s) \<or> i < length (os_heap s) \<and> row_of (os_heap s ! i) r \<and> backed c (os_heap s ! i) (sr_proof r)"
  using assms
proof (induction rule: oracle_micro.induct)
  case (stored s xs j rd cnt pf attempt ys w)
  have "j < length (os_heap s)" "backed c (os_heap s ! j) pf" "pr_round (os_heap s ! j) = rd"
    using task_backed [OF stored.prems(2), of "TStore j rd cnt pf attempt"] stored.hyps stored.prems(1) by (auto simp: oracle_wf_def)
  then show ?case
    using stored.prems(3, 4) by (auto simp: store_row_def row_of_def or_now_def split: if_splits)
qed (auto simp: same_core_def store_row_def split: if_splits)

lemma certificates_micro:
  assumes "oracle_micro c H s s'" and "oracle_wf H s" and "claims_ok s" and "timers_ok s" and "certificates_ok c s" and "orounds_ok c s"
  shows "certificates_ok c s'"
  by (rule certificates_step [OF assms(5, 6) micro_heap_le [OF assms(1)]
        retry_timers [OF assms(1, 2, 3, 5, 6)] new_proofs [OF assms(1, 2, 4, 5, 6)] new_rows [OF assms(1, 2, 5)]])

section \<open>The invariants of a run\<close>

definition era_run :: "oracle_conf \<Rightarrow> int set \<Rightarrow> bool" where
  "era_run c H \<longleftrightarrow> signatures_ok c \<and> H \<subseteq> {h. oracleEra c h}"

definition run_safe :: "oracle_conf \<Rightarrow> int set \<Rightarrow> ostate \<Rightarrow> bool" where
  "run_safe c H s \<longleftrightarrow> orounds_ok c s \<and> (os_running s \<longrightarrow> claims_ok s \<and> timers_ok s \<and> certificates_ok c s)"

interpretation sound_rounds: oracle_run_invariant "\<lambda>c H. signatures_ok c" "\<lambda>c H. orounds_ok c"
  by unfold_locales (auto simp: orounds_ok_def [of _ new_oracle] new_oracle_def [THEN arg_cong, of os_heap] intro: rounds_ok_micro)

interpretation era_rounds: oracle_run_invariant era_run run_safe
proof unfold_locales
  show "run_safe c H new_oracle" for c H
    by (simp add: run_safe_def orounds_ok_def claims_ok_def timers_ok_def certificates_ok_def new_oracle_def)
  fix c H s s'
  assume "era_run c H" and m: "oracle_micro c H s s'" and wf: "oracle_wf H s" and I: "run_safe c H s"
  then have era: "H \<subseteq> {h. oracleEra c h}"
    by (simp add: era_run_def)
  have "orounds_ok c s'"
    using rounds_ok_micro [OF m] I by (simp add: run_safe_def)
  moreover have "claims_ok s' \<and> timers_ok s' \<and> certificates_ok c s'" if r: "os_running s'"
  proof -
    have "claims_ok s" "timers_ok s" "certificates_ok c s" "orounds_ok c s"
      using micro_running [OF m r] I by (simp_all add: run_safe_def)
    then show ?thesis
      using claims_micro [OF m wf era r] timers_micro [OF m wf era r] certificates_micro [OF m wf] by blast
  qed
  ultimately show "run_safe c H s'"
    by (simp add: run_safe_def)
qed (simp add: era_run_def)

end
