(* ===== verification/Oracle_Demo.thy ===== *)
theory Oracle_Demo
  imports Oracle_Safety
begin

text \<open>
  Scripted runs of the oracle's rounds: a script of events drives one hub through the steps of \<open>oracle_step\<close>, so
  whatever a script reaches is reachable. Two hubs are set up, both on regtest with a gate registry of the demonstration's own
  (\<open>oracle_gates\<close>, every row active from height 0): \<open>era_conf\<close> has an admission table that puts all its rounds in the admission
  era, \<open>legacy_conf\<close> has the committed table, under which its rounds are before it.
\<close>

section \<open>Scripts\<close>

datatype event =
    EMessage oracle_view "vote_kind \<times> oracle_msg"
  | EFinalize oracle_view int int jsval
  | ETask oracle_view nat
  | ETimer nat

fun exec :: "oracle_conf \<Rightarrow> event \<Rightarrow> ostate \<Rightarrow> ostate" where
  "exec c (EMessage w env) s = (if os_running s then oracleHandleMessage c w env s else s)"
| "exec c (EFinalize w rd height time) s = finalizeRound c w rd height time s"
| "exec c (ETask w i) s =
     (if i < length (os_tasks s) then run_task c w (os_tasks s ! i) (s\<lparr>os_tasks := drop_nth i (os_tasks s)\<rparr>) else s)"
| "exec c (ETimer i) s = (if i < length (os_heap s) then fireTimer i s else s)"

fun event_ok :: "oracle_conf \<Rightarrow> int set \<Rightarrow> event \<Rightarrow> bool" where
  "event_ok c H (EFinalize w rd height time) = (se_height (finalize_seat c w rd height time) \<in> H)"
| "event_ok c H e = True"

lemma exec_reach: "oracle_reach c H s \<Longrightarrow> event_ok c H e \<Longrightarrow> oracle_reach c H (exec c e s)"
  by (cases e) (auto intro: oracle_reach.step oracle_step.intros)

lemma script_reach: "list_all (event_ok c H) es \<Longrightarrow> oracle_reach c H s \<Longrightarrow> oracle_reach c H (fold (exec c) es s)"
  by (induction es arbitrary: s) (auto intro: exec_reach)

section \<open>Evaluation\<close>

text \<open>Small numbers are below the largest double without computing it.\<close>

lemma clip_double_code [code]:
  "clip_double q = (if \<bar>q\<bar> < 1000000 then Fin q else if 2 ^ 1024 \<le> q then PInf else if q \<le> - (2 ^ 1024) then NInf else Fin q)"
proof -
  have "(1000000 :: rat) \<le> 2 ^ 20" "(2 :: rat) ^ 20 \<le> 2 ^ 1024"
    by (simp, rule power_increasing) simp_all
  then show ?thesis
    unfolding clip_double_def by auto
qed

lemma price_in_range_code [code]:
  "price_in_range q = (if 1 \<le> q \<and> q \<le> 1000000 then True else 1 / 2 ^ 1075 < q \<and> q < 10 ^ 10 - 1 / 2 ^ 20)"
proof -
  have "(1 :: rat) / 2 ^ 1075 < 1"
    by (simp add: divide_less_eq)
  moreover have "(1000000 :: rat) < 10 ^ 10 - 1 / 2 ^ 20"
    by simp
  ultimately show ?thesis
    unfolding price_in_range_def by auto
qed

section \<open>Two configurations\<close>

text \<open>The digits of a text stand for its hash, and with the key in front for its signature.\<close>

definition demo_text :: "rat \<Rightarrow> string" where
  "demo_text q = show_int \<lfloor>q\<rfloor>"

definition oracle_gate_row :: gate_row where
  "oracle_gate_row = \<lparr>row_unit = ''height'', row_table = JObj [(''mainnet'', JNum (Fin 9999999999)), (''regtest'', JNum (Fin 0))]\<rparr>"

definition oracle_gates :: registry where
  "oracle_gates = \<lparr>entries =
     [(FEDERATED_HUB_KEY, oracle_gate_row), (COUNT_QUORUM_SIGNED_KEY, oracle_gate_row), (''oracle_round_time_activation.ORACLE_ROUND_TIME_ACTIVATION'', oracle_gate_row)],
     overlay = None\<rparr>"

definition demo_conf :: "(string \<times> jsval) list \<Rightarrow> oracle_conf" where
  "demo_conf admit = \<lparr>oc_network = ''regtest'', oc_gates = oracle_gates, oc_seeds = [], oc_admit = admit, oc_hasSnapshots = True,
     oc_epochStart = 0, oc_interval = 60000, oc_minSubmissions = 1, oc_leaderTimeout = 5000, oc_finalizationTimeout = 30000,
     oc_tolerance = 6, oc_finalizedMax = 1000, oc_earlyMaxRounds = 8, oc_mj = exact_lib, oc_fmt = demo_text, oc_show = demo_text,
     oc_rnd = (\<lambda>q. q), oc_hash = filter is_digit, oc_sign = (\<lambda>k t. JStr (k @ filter is_digit t)),
     oc_verify = (\<lambda>t sg k. sg = JStr (k @ filter is_digit t))\<rparr>"

lemma demo_signatures: "signatures_ok (demo_conf admit)"
  by (simp add: signatures_ok_def demo_conf_def)

definition leading_hub :: oracle_hub where
  "leading_hub = \<lparr>oh_registry = Some [(''a'', ''ka''), (''b'', ''kb'')], oh_addr = ''a'', oh_identity = Some ''ka'',
     oh_pairs = [''BTC/USD''], oh_allowUnverified = False, oh_lastFin = (\<lambda>p. Some 40)\<rparr>"

definition pair_snapshot :: snapshot where
  "pair_snapshot = \<lparr>sn_validators = Some (map (\<lambda>k. \<lparr>s_pubkey = CStr k, s_source = CStr k, s_weight = CStr ''1''\<rparr>) [''ka'', ''kb'']),
     sn_count = JNum (Fin 2), sn_truncated = False\<rparr>"

definition demo_view :: "submissions \<Rightarrow> bool \<Rightarrow> oracle_view" where
  "demo_view subs dbOk = \<lparr>ov_hub = leading_hub, ov_chain = None, ov_validatorSet = [], ov_quorumPeers = 1, ov_openPeers = 1,
     ov_submissions = [(4, subs)], ov_current = 4, ov_now = 240000, ov_weightSnapshot = Some pair_snapshot, ov_countSnapshot = Some pair_snapshot,
     ov_tip = JNum (Fin 20), ov_admitTips = Some [(''BTC'', JNum (Fin 20)), (''LTC'', JNum (Fin 30)), (''DOGE'', JNum (Fin 40))], ov_dbOk = dbOk\<rparr>"

definition demo_price :: "string \<Rightarrow> raw_price list" where
  "demo_price p = [\<lparr>rp_pair = ''BTC/USD'', rp_price = JStr p\<rparr>]"

text \<open>A frame of a peer for round 4 at height 20, with a valid signature over its payload.\<close>

definition peer_frame :: "oracle_conf \<Rightarrow> string \<Rightarrow> string \<Rightarrow> raw_price list \<Rightarrow> jsval \<Rightarrow> oracle_msg" where
  "peer_frame c addr k prices admit =
     \<lparr>om_sender = addr, om_sig = JStr k, om_round = JNum (Fin 4), om_digest = JStr (oracle_digest c 4 prices), om_prices = Some prices,
      om_height = JNum (Fin 20), om_time = JNum (Fin 240), om_sigPubkey = JStr k,
      om_sigHex = (case buildPriceV0Payload c 4 (JNum (Fin 240)) prices 20 admit of Inl e \<Rightarrow> JNull | Inr t \<Rightarrow> oc_sign c k t), om_admit = admit\<rparr>"

section \<open>A round of the admission era\<close>

definition era_conf :: oracle_conf where
  "era_conf = demo_conf [(''BTC:regtest'', JNum (Fin 0))]"

definition era_view :: oracle_view where
  "era_view = demo_view [(''b'', demo_sub ''kb'' ''40'')] True"

definition era_vote :: oracle_msg where
  "era_vote = peer_frame era_conf ''b'' ''kb'' (demo_price ''40'') (resolveRoundAdmitBlocks era_conf era_view)"

text \<open>The state once the leader has opened its round.\<close>

definition demo_weights :: stake_set where
  "demo_weights = oracleNormalizeValidators (Some pair_snapshot) True"

definition demo_object :: "raw_price list \<Rightarrow> string \<Rightarrow> jsval \<Rightarrow> oround" where
  "demo_object prices digest admit =
     \<lparr>pr_round = 4, pr_prices = prices, pr_digest = digest, pr_height = 20, pr_time = JNum (Fin 240), pr_admit = admit,
      pr_prepares = [''ka''], pr_commits = [], pr_sigs = [], pr_finalized = False, pr_commitSent = False, pr_quorum = 2,
      pr_weighted = True, pr_validators = demo_weights, pr_members = Some [''ka'', ''kb''], pr_retryMs = 0, pr_timer = LeaderTimer\<rparr>"

definition demo_watch :: "(int \<times> owatch) list" where
  "demo_watch = [(4, \<lparr>wt_height = 20, wt_time = JNum (Fin 240), wt_rearms = 0\<rparr>)]"

definition era_admit :: jsval where
  "era_admit = JObj [(''BTC'', JNum (Fin 24)), (''LTC'', JNum (Fin 47)), (''DOGE'', JNum (Fin 56))]"

definition era_open :: ostate where
  "era_open = new_oracle\<lparr>
     os_heap := [(demo_object (demo_price ''40'') ''440'' era_admit)\<lparr>pr_sigs := [(''ka'', JStr ''ka20042402040245647'')]\<rparr>],
     os_pending := [(4, 0)], os_watch := demo_watch,
     os_out := [OutPropose 4 (demo_price ''40'') ''440'' 20 (JNum (Fin 240)) [''b''] (Some (''ka'', JStr ''ka20042402040245647'')) era_admit]\<rparr>"

definition era_ready :: ostate where
  "era_ready = new_oracle\<lparr>os_watch := demo_watch,
     os_tasks := [TPropose \<lparr>ox_seat = \<lparr>se_round = 4, se_height = 20, se_time = JNum (Fin 240)\<rparr>, ox_prices = demo_price ''40'',
       ox_snapshot = Some pair_snapshot, ox_quorum = 2, ox_weighted = True, ox_members = Some [''ka'', ''kb''], ox_keys = [''b'']\<rparr>]\<rparr>"

definition era_schedule :: "event list" where
  "era_schedule = [EFinalize era_view 4 20 (JNum (Fin 240)), ETask era_view 0, ETask era_view 0]"

lemma era_gets_ready: "fold (exec era_conf) era_schedule new_oracle = era_ready"
  by code_simp

lemma era_opens: "fold (exec era_conf) [ETask era_view 0] era_ready = era_open"
  by code_simp

definition era_certified :: ostate where
  "era_certified = era_open\<lparr>
     os_heap := [(demo_object (demo_price ''40'') ''440'' era_admit)\<lparr>
        pr_prepares := [''ka'', ''kb''], pr_commits := [''ka''], pr_sigs := [(''ka'', JStr ''ka20042402040245647''), (''kb'', JStr ''kb20042402040245647'')],
        pr_finalized := True, pr_commitSent := True, pr_timer := NoTimer\<rparr>],
     os_tasks := [TStore 0 4 2 [(''ka'', JStr ''ka20042402040245647''), (''kb'', JStr ''kb20042402040245647'')] 1],
     os_out := os_out era_open @ [OutCommit 4 ''440'' (Some (''ka'', JStr ''ka20042402040245647''))]\<rparr>"

lemma era_certifies: "fold (exec era_conf) [EMessage era_view (Prepare, era_vote)] era_open = era_certified"
  by code_simp

text \<open>The round stored and announced, and the round whose three attempts to store failed.\<close>

definition era_final :: ostate where
  "era_final = fold (exec era_conf) [ETask era_view 0, ETask era_view 0] era_certified"

definition era_stalled :: ostate where
  "era_stalled = fold (exec era_conf) (replicate 5 (ETask (era_view\<lparr>ov_dbOk := False\<rparr>) 0)) era_certified"

lemma era_stores:
  "let s = era_final in os_running s \<and> map (\<lambda>r. (sr_origin r, sr_prices r)) (os_stored s) = [(Some 0, demo_price ''40'')] \<and>
     (case os_events s of [Finalized rd ps h tm am parts pf] \<Rightarrow> rd = 4 \<and> ps = demo_price ''40'' | _ \<Rightarrow> False)"
  by code_simp

lemma era_stalls:
  "let s = era_stalled in os_running s \<and> length (os_heap s) = 1 \<and> pr_timer (os_heap s ! 0) = RetryTimer \<and> os_finalized s = [] \<and>
     pr_prices (os_heap s ! 0) = demo_price ''40'' \<and> pr_round (os_heap s ! 0) = 4"
  by code_simp

lemma era_certified_reach: "oracle_reach era_conf {20} era_certified"
proof -
  have "list_all (event_ok era_conf {20}) era_schedule"
    by (simp add: era_schedule_def finalize_seat_def Let_def)
  then have "oracle_reach era_conf {20} era_ready"
    unfolding era_gets_ready [symmetric] by (rule script_reach [OF _ oracle_reach.start])
  then have "oracle_reach era_conf {20} era_open"
    unfolding era_opens [symmetric] by (rule script_reach [rotated]) simp
  then show ?thesis
    unfolding era_certifies [symmetric] by (rule script_reach [rotated]) simp
qed

lemma era_final_reach: "oracle_reach era_conf {20} era_final"
  unfolding era_final_def by (rule script_reach [OF _ era_certified_reach]) simp

lemma era_stalled_reach: "oracle_reach era_conf {20} era_stalled"
  unfolding era_stalled_def by (rule script_reach [OF _ era_certified_reach]) (simp add: numeral_eq_Suc)

lemma era_scheduled: "\<forall>h \<in> {20}. oracleEra era_conf h"
proof -
  have "oracleEra era_conf 20"
    by code_simp
  then show ?thesis
    by simp
qed

section \<open>A round of the legacy era\<close>

definition legacy_conf :: oracle_conf where
  "legacy_conf = demo_conf MIRROR_ADMISSION_ACTIVATION"

text \<open>The hub leads round 4 but has not submitted when the fallback proposes; its own submission comes after.\<close>

definition early_view :: oracle_view where
  "early_view = demo_view [(''b'', demo_sub ''kb'' ''40'')] False"

definition late_view :: "bool \<Rightarrow> oracle_view" where
  "late_view = demo_view [(''b'', demo_sub ''kb'' ''40''), (''a'', demo_sub ''ka'' ''42'')]"

definition legacy_propose :: oracle_msg where
  "legacy_propose = peer_frame legacy_conf ''b'' ''kb'' (demo_price ''40'') JNull"

definition follow_script :: "event list" where
  "follow_script = [EMessage early_view (Propose, legacy_propose), ETask early_view 0, ETask early_view 0, ETask early_view 0]"

definition lead_script :: "event list" where
  "lead_script = [EFinalize (late_view False) 4 20 (JNum (Fin 240)), ETask (late_view False) 1, ETask (late_view False) 1]"

text \<open>Three failed stores with their pauses, then the retry, then a database that works again.\<close>

definition retry_script :: "event list" where
  "retry_script = replicate 5 (ETask (late_view False) 0) @ [ETimer 1, ETask (late_view True) 0]"

text \<open>The fallback's round is certified and its store in flight; then the hub's own proposal takes the place of the round.\<close>

definition certified_object :: oround where
  "certified_object = (demo_object (demo_price ''40'') ''440'' JNull)\<lparr>pr_prepares := [''kb'', ''ka''], pr_commits := [''ka''],
     pr_sigs := [(''kb'', JStr ''kb20042402040''), (''ka'', JStr ''ka20042402040'')], pr_finalized := True, pr_commitSent := True, pr_timer := NoTimer\<rparr>"

definition own_object :: oround where
  "own_object = (demo_object (demo_price ''41'') ''441'' JNull)\<lparr>pr_sigs := [(''ka'', JStr ''ka20042402041'')]\<rparr>"

definition co_signed :: ostate where
  "co_signed = new_oracle\<lparr>os_heap := [certified_object], os_pending := [(4, 0)], os_watch := demo_watch,
     os_tasks := [TStore 0 4 2 [(''ka'', JStr ''ka20042402040''), (''kb'', JStr ''kb20042402040'')] 1],
     os_out := [OutPrepare 4 ''440'' (Some (''ka'', JStr ''ka20042402040'')), OutCommit 4 ''440'' (Some (''ka'', JStr ''ka20042402040''))]\<rparr>"

definition overwritten :: ostate where
  "overwritten = co_signed\<lparr>os_heap := [certified_object, own_object], os_pending := [(4, 1)],
     os_out := os_out co_signed @ [OutPropose 4 (demo_price ''41'') ''441'' 20 (JNum (Fin 240)) [''a'', ''b''] (Some (''ka'', JStr ''ka20042402041'')) JNull]\<rparr>"

lemma legacy_co_signs: "fold (exec legacy_conf) follow_script new_oracle = co_signed"
  by code_simp

lemma legacy_overwrites: "fold (exec legacy_conf) lead_script co_signed = overwritten"
  by code_simp

definition legacy_final :: ostate where
  "legacy_final = fold (exec legacy_conf) retry_script overwritten"

lemma legacy_stores:
  "let s = legacy_final; p = os_heap s ! 1 in
   os_running s \<and> map (\<lambda>r. (sr_origin r, sr_prices r, map fst (sr_proof r))) (os_stored s) = [(Some 1, demo_price ''41'', [''ka''])] \<and>
   \<not> oracleQuorumMet legacy_conf p (pr_commits p)"
  by code_simp

lemma overwritten_reach: "oracle_reach legacy_conf UNIV overwritten"
proof -
  have "oracle_reach legacy_conf UNIV co_signed"
    unfolding legacy_co_signs [symmetric] by (rule script_reach [OF _ oracle_reach.start]) (simp add: follow_script_def)
  then show ?thesis
    unfolding legacy_overwrites [symmetric] by (rule script_reach [rotated]) (simp add: lead_script_def)
qed

lemma legacy_final_reach: "oracle_reach legacy_conf UNIV legacy_final"
  unfolding legacy_final_def by (rule script_reach [OF _ overwritten_reach]) (simp add: retry_script_def numeral_eq_Suc)

end
