(* ===== verification/Oracle_Round_Properties.thy ===== *)
theory Oracle_Round_Properties
  imports Oracle_Demo
begin

text \<open>
  Properties of the oracle's rounds over every run of a hub (\<open>Oracle_Safety\<close>, \<open>Oracle_Demo\<close>) and of the
  functions its hubs must agree on (\<open>Oracle_Membership\<close>).
\<close>

section \<open>Every run\<close>

text \<open>
  C16: no uncertified price is stored in the admission era. Whatever messages, timers, database failures
  and restarts of awaits a running hub goes through, in any order, a consensus row of its price table has the content
  of a round object, its proof holds one verifying signature per key over the payload of that content,
  and those keys with the commits reach the round's locked quorum: the stake threshold, or the count of
  member keys. The platform's own signatures verify, and only rounds of the admission era are scheduled.
\<close>

theorem stored_round_certified:
  assumes "signatures_ok c" and "\<forall>h \<in> H. oracleEra c h" and "oracle_reach c H s" and "os_running s"
    and "r \<in> set (os_stored s)" and "sr_origin r = Some i"
  shows "i < length (os_heap s) \<and> row_of (os_heap s ! i) r \<and> distinct (map fst (sr_proof r)) \<and>
    (\<forall>k sg. (k, sg) \<in> set (sr_proof r) \<longrightarrow> (\<exists>t. round_payload c (os_heap s ! i) = Inr t \<and> oc_verify c t sg k)) \<and>
    certified c (os_heap s ! i) (pr_commits (os_heap s ! i)) (map fst (sr_proof r))"
proof -
  have "era_run c H"
    using assms(1, 2) by (auto simp: era_run_def)
  then have "run_safe c H s"
    using era_rounds.holds [OF assms(3)] by simp
  then have "i < length (os_heap s) \<and> row_of (os_heap s ! i) r \<and> backed c (os_heap s ! i) (sr_proof r)" "orounds_ok c s"
    using assms(4-6) unfolding run_safe_def certificates_ok_def by blast+
  then show ?thesis
    by (auto simp: backed_def orounds_ok_def oround_ok_def)
qed

theorem stored_round_certified_witness:
  "\<exists>r. sr_prices r = demo_price ''40'' \<and> r \<in> set (os_stored era_final) \<and> distinct (map fst (sr_proof r)) \<and>
    certified era_conf (os_heap era_final ! 0) (pr_commits (os_heap era_final ! 0)) (map fst (sr_proof r))"
proof -
  have "os_running era_final" and "map (\<lambda>r. (sr_origin r, sr_prices r)) (os_stored era_final) = [(Some 0, demo_price ''40'')]"
    using era_stores unfolding Let_def by blast+
  then obtain r where "r \<in> set (os_stored era_final)" "sr_origin r = Some 0" "sr_prices r = demo_price ''40''"
    by auto
  then show ?thesis
    using stored_round_certified [OF _ era_scheduled era_final_reach \<open>os_running era_final\<close>, of r 0] demo_signatures
    by (auto simp: era_conf_def)
qed

text \<open>
  C17: below the admission era the same promise fails. The hub co-signs the fallback's round, its
  store is in flight and the database fails; the hub's own proposal then takes the place of the round, the failing
  store arms the retry on the new round, and the retry stores it with the hub's own signature alone,
  though the round's quorum was never met.
\<close>

theorem retry_bypasses_quorum:
  "\<exists>c s r i k. signatures_ok c \<and> oracle_reach c UNIV s \<and> os_running s \<and> r \<in> set (os_stored s) \<and> sr_origin r = Some i \<and>
     map fst (sr_proof r) = [k] \<and> \<not> oracleQuorumMet c (os_heap s ! i) (pr_commits (os_heap s ! i))"
proof -
  have run: "os_running legacy_final" "\<not> oracleQuorumMet legacy_conf (os_heap legacy_final ! 1) (pr_commits (os_heap legacy_final ! 1))"
    and rows: "map (\<lambda>r. (sr_origin r, sr_prices r, map fst (sr_proof r))) (os_stored legacy_final) = [(Some 1, demo_price ''41'', [''ka''])]"
    using legacy_stores by (simp_all add: Let_def)
  from rows obtain r where "r \<in> set (os_stored legacy_final)" "sr_origin r = Some 1" "map fst (sr_proof r) = [''ka'']"
    by auto
  moreover have "signatures_ok legacy_conf"
    by (simp add: legacy_conf_def demo_signatures)
  ultimately show ?thesis
    using run legacy_final_reach
    by (intro exI [of _ legacy_conf] exI [of _ legacy_final] exI [of _ r] exI [of _ 1] exI [of _ "''ka''"]) simp
qed

lemma overwritten_payloads:
  "(case (round_payload legacy_conf certified_object, round_payload legacy_conf own_object) of
      (Inr t, Inr u) \<Rightarrow> t \<noteq> u \<and> oc_sign legacy_conf ''ka'' t = JStr ''ka20042402040'' \<and> oc_sign legacy_conf ''ka'' u = JStr ''ka20042402041''
    | _ \<Rightarrow> False)"
  by code_simp

lemma overwritten_prices:
  "price_pairs (oc_show legacy_conf) (demo_price ''40'') \<noteq> price_pairs (oc_show legacy_conf) (demo_price ''41'')"
  by code_simp

lemma payload_header:
  assumes "round_payload c p = Inr t" and "isEquivHeaderActive (CNum (pr_height p)) (oc_network c)"
  shows "\<exists>x. t = buildEquivCanonical ''XORACLE'' (show_int (pr_height p)) ''0'' x"
  using assms by (auto simp: round_payload_def buildPriceV0Payload_def Let_def split: sum.splits)

lemma demo_header: "isEquivHeaderActive (CNum 20) (oc_network legacy_conf)"
  by code_simp

text \<open>
  C18: an honest hub signs two payloads of one round. In the same run two objects of one round and one height
  exist with different prices, so their payloads differ; the hub broadcasts a PREPARE with its signature
  over the payload of the first and a PROPOSE with its signature, another one, over the payload of the second, both under the
  equivocation header of the same height and context, which is what the equivocation rule slashes.
\<close>

theorem leader_signs_twice:
  "\<exists>c s p q k t u x y. signatures_ok c \<and> oracle_reach c UNIV s \<and> os_running s \<and> {p, q} \<subseteq> set (os_heap s) \<and>
     pr_round p = pr_round q \<and> pr_height p = pr_height q \<and> price_pairs (oc_show c) (pr_prices p) \<noteq> price_pairs (oc_show c) (pr_prices q) \<and>
     round_payload c p = Inr t \<and> round_payload c q = Inr u \<and> t \<noteq> u \<and> oc_sign c k t \<noteq> oc_sign c k u \<and>
     OutPrepare (pr_round p) (pr_digest p) (Some (k, oc_sign c k t)) \<in> set (os_out s) \<and>
     (\<exists>tm ks. OutPropose (pr_round q) (pr_prices q) (pr_digest q) (pr_height q) tm ks (Some (k, oc_sign c k u)) JNull \<in> set (os_out s)) \<and>
     t = buildEquivCanonical ''XORACLE'' (show_int (pr_height p)) ''0'' x \<and> u = buildEquivCanonical ''XORACLE'' (show_int (pr_height q)) ''0'' y"
proof -
  let ?c = legacy_conf and ?p = certified_object and ?q = own_object
  obtain t u where p: "round_payload ?c ?p = Inr t" "round_payload ?c ?q = Inr u"
    and tu: "t \<noteq> u" "oc_sign ?c ''ka'' t = JStr ''ka20042402040''" "oc_sign ?c ''ka'' u = JStr ''ka20042402041''"
    using overwritten_payloads by (auto split: sum.splits)
  have fields: "pr_round ?p = 4" "pr_round ?q = 4" "pr_height ?p = 20" "pr_height ?q = 20" "pr_digest ?p = ''440''" "pr_digest ?q = ''441''"
    "pr_prices ?p = demo_price ''40''" "pr_prices ?q = demo_price ''41''"
    by (simp_all add: certified_object_def own_object_def demo_object_def)
  obtain x where x: "t = buildEquivCanonical ''XORACLE'' (show_int (pr_height ?p)) ''0'' x"
    using payload_header [OF p(1)] demo_header fields by auto
  obtain y where y: "u = buildEquivCanonical ''XORACLE'' (show_int (pr_height ?q)) ''0'' y"
    using payload_header [OF p(2)] demo_header fields by auto
  have run: "OutPrepare (pr_round ?p) (pr_digest ?p) (Some (''ka'', oc_sign ?c ''ka'' t)) \<in> set (os_out overwritten)"
    "\<exists>tm ks. OutPropose (pr_round ?q) (pr_prices ?q) (pr_digest ?q) (pr_height ?q) tm ks (Some (''ka'', oc_sign ?c ''ka'' u)) JNull \<in> set (os_out overwritten)"
    "os_running overwritten" "{?p, ?q} \<subseteq> set (os_heap overwritten)"
    unfolding fields tu by (simp_all add: overwritten_def co_signed_def new_oracle_def)
  have "oc_sign ?c ''ka'' t \<noteq> oc_sign ?c ''ka'' u" "signatures_ok ?c"
    "pr_round ?p = pr_round ?q" "pr_height ?p = pr_height ?q" "price_pairs (oc_show ?c) (pr_prices ?p) \<noteq> price_pairs (oc_show ?c) (pr_prices ?q)"
    using overwritten_prices unfolding fields tu by (simp_all add: legacy_conf_def demo_signatures)
  then show ?thesis
    using overwritten_reach p tu(1) x y run
    by (intro exI [of _ ?c] exI [of _ overwritten] exI [of _ ?p] exI [of _ ?q] exI [of _ "''ka''"] exI [of _ t] exI [of _ u] exI [of _ x] exI [of _ y] conjI)
qed

section \<open>Announcing\<close>

definition announced_ok :: "ostate \<Rightarrow> bool" where
  "announced_ok s \<longleftrightarrow>
     (\<forall>i rd. TAnnounce i rd \<in> set (os_tasks s) \<longrightarrow> pr_prices (os_heap s ! i) = [] \<or>
        (\<exists>r \<in> set (os_stored s). sr_round r = rd \<and> sr_prices r = pr_prices (os_heap s ! i))) \<and>
     (\<forall>se ps am pf. TSoloAnnounce se ps am pf \<in> set (os_tasks s) \<longrightarrow> ps = [] \<or>
        (\<exists>r \<in> set (os_stored s). sr_round r = se_round se \<and> sr_prices r = ps)) \<and>
     (\<forall>rd ps h tm am parts pf. Finalized rd ps h tm am parts pf \<in> set (os_events s) \<longrightarrow> ps = [] \<or>
        (\<exists>r \<in> set (os_stored s). sr_round r = rd \<and> sr_prices r = ps))"

lemma announced_step:
  assumes "announced_ok s" and "oracle_wf H s" and "heap_le (os_heap s) (os_heap s')" and "set (os_stored s) \<subseteq> set (os_stored s')"
    and "\<And>i rd. TAnnounce i rd \<in> set (os_tasks s') \<Longrightarrow> TAnnounce i rd \<in> set (os_tasks s) \<or>
           i < length (os_heap s) \<and> (pr_prices (os_heap s ! i) = [] \<or> (\<exists>r \<in> set (os_stored s'). sr_round r = rd \<and> sr_prices r = pr_prices (os_heap s ! i)))"
    and "\<And>se ps am pf. TSoloAnnounce se ps am pf \<in> set (os_tasks s') \<Longrightarrow> TSoloAnnounce se ps am pf \<in> set (os_tasks s) \<or>
           ps = [] \<or> (\<exists>r \<in> set (os_stored s'). sr_round r = se_round se \<and> sr_prices r = ps)"
    and "\<And>rd ps h tm am parts pf. Finalized rd ps h tm am parts pf \<in> set (os_events s') \<Longrightarrow> Finalized rd ps h tm am parts pf \<in> set (os_events s) \<or>
           ps = [] \<or> (\<exists>r \<in> set (os_stored s'). sr_round r = rd \<and> sr_prices r = ps)"
  shows "announced_ok s'"
proof -
  have same: "pr_prices (os_heap s' ! i) = pr_prices (os_heap s ! i)" if "i < length (os_heap s)" for i
    using assms(3) that by (simp add: heap_le_def round_grows_def)
  have idx: "i < length (os_heap s)" if "TAnnounce i rd \<in> set (os_tasks s)" for i rd
    using assms(2) that by (auto simp: oracle_wf_def)
  have "pr_prices (os_heap s' ! i) = [] \<or> (\<exists>r \<in> set (os_stored s'). sr_round r = rd \<and> sr_prices r = pr_prices (os_heap s' ! i))"
    if "TAnnounce i rd \<in> set (os_tasks s')" for i rd
  proof -
    have "i < length (os_heap s) \<and> (pr_prices (os_heap s ! i) = [] \<or> (\<exists>r \<in> set (os_stored s'). sr_round r = rd \<and> sr_prices r = pr_prices (os_heap s ! i)))"
      using assms(5) [OF that] assms(1, 4) idx [of i rd] unfolding announced_ok_def by blast
    then show ?thesis
      using same by simp
  qed
  moreover have "ps = [] \<or> (\<exists>r \<in> set (os_stored s'). sr_round r = se_round se \<and> sr_prices r = ps)"
    if "TSoloAnnounce se ps am pf \<in> set (os_tasks s')" for se ps am pf
    using assms(6) [OF that] assms(1, 4) unfolding announced_ok_def by blast
  moreover have "ps = [] \<or> (\<exists>r \<in> set (os_stored s'). sr_round r = rd \<and> sr_prices r = ps)"
    if "Finalized rd ps h tm am parts pf \<in> set (os_events s')" for rd ps h tm am parts pf
    using assms(7) [OF that] assms(1, 4) unfolding announced_ok_def by blast
  ultimately show ?thesis
    unfolding announced_ok_def by blast
qed

lemma announced_micro:
  assumes "oracle_micro c H s s'" and "oracle_wf H s" and "announced_ok s"
  shows "announced_ok s'"
  using assms
proof (induction rule: oracle_micro.induct)
  case (frame s s')
  have "Finalized rd ps h tm am parts pf \<in> set (os_events s)" if "Finalized rd ps h tm am parts pf \<in> set (os_events s')" for rd ps h tm am parts pf
  proof -
    have eq: "filter (\<lambda>e. \<forall>rd. e \<noteq> Skipped rd) (os_events s') = filter (\<lambda>e. \<forall>rd. e \<noteq> Skipped rd) (os_events s)"
      using frame.hyps by (simp add: same_core_def)
    have "Finalized rd ps h tm am parts pf \<in> set (filter (\<lambda>e. \<forall>rd. e \<noteq> Skipped rd) (os_events s'))"
      using that by simp
    then show ?thesis
      unfolding eq by simp
  qed
  then show ?case
    using frame.hyps by (intro announced_step [OF frame.prems(2, 1)]) (simp_all add: same_core_def)
next
  case (push t s)
  then show ?case
    by (intro announced_step [OF push.prems(2, 1)]) (auto elim: storing.elims)
next
  case (stored s xs i rd cnt pf attempt ys w)
  have i: "i < length (os_heap s)"
    using stored.prems(1) stored.hyps by (auto simp: oracle_wf_def)
  show ?case
    by (rule announced_step [OF stored.prems(2, 1)]) (use stored.hyps i in \<open>auto simp: store_row_def\<close>)
next
  case (announce s xs i rd ys)
  have "pr_prices (os_heap s ! i) = [] \<or> (\<exists>r \<in> set (os_stored s). sr_round r = rd \<and> sr_prices r = pr_prices (os_heap s ! i))"
    using announce.prems(2) announce.hyps by (simp add: announced_ok_def)
  then show ?case
    by (intro announced_step [OF announce.prems(2, 1)]) (use announce.hyps in auto)
next
  case (solo_store s xs se prices admit pf ys w)
  show ?case
    by (rule announced_step [OF solo_store.prems(2, 1)]) (use solo_store.hyps in \<open>auto simp: store_row_def\<close>)
next
  case (solo_announce s xs se prices admit pf ys parts)
  have "prices = [] \<or> (\<exists>r \<in> set (os_stored s). sr_round r = se_round se \<and> sr_prices r = prices)"
    using solo_announce.prems(2) solo_announce.hyps unfolding announced_ok_def by (metis in_set_conv_decomp)
  then show ?case
    by (intro announced_step [OF solo_announce.prems(2, 1)]) (use solo_announce.hyps in auto)
qed (erule (1) announced_step; auto simp: round_voted_def intro!: heap_le_update heap_le_update2)+

interpretation announced_rounds: oracle_run_invariant "\<lambda>c H. signatures_ok c" "\<lambda>c H. announced_ok"
  by unfold_locales (simp_all add: announced_ok_def [of new_oracle] new_oracle_def [THEN arg_cong, of os_tasks] new_oracle_def [THEN arg_cong, of os_events] announced_micro)

text \<open>
  C21: a round is announced only after it is stored. In every run, era and shutdown aside, each \<open>round:finalized\<close> event with prices, from the
  consensus path or from the single-node path, has a row of the same round and prices in the database already, so the
  publisher never signs a batch over a round the hub could lose.
\<close>

theorem announced_round_stored:
  assumes "signatures_ok c" and "oracle_reach c H s" and "Finalized rd prices h tm am parts pf \<in> set (os_events s)" and "prices \<noteq> []"
  shows "\<exists>r \<in> set (os_stored s). sr_round r = rd \<and> sr_prices r = prices"
  using announced_rounds.holds [OF assms(2, 1)] assms(3, 4) unfolding announced_ok_def by blast

theorem announced_round_stored_witness:
  "\<exists>r. r \<in> set (os_stored era_final) \<and> sr_round r = 4 \<and> sr_prices r = demo_price ''40''"
proof -
  have "signatures_ok era_conf"
    by (simp add: era_conf_def demo_signatures)
  moreover obtain h tm am parts pf where "os_events era_final = [Finalized 4 (demo_price ''40'') h tm am parts pf]"
    using era_stores by (auto simp: Let_def split: list.splits oevent.splits)
  moreover have "demo_price ''40'' \<noteq> []"
    by (simp add: demo_price_def)
  ultimately show ?thesis
    using announced_round_stored [OF _ era_final_reach, of 4 "demo_price ''40''" h tm am parts pf] by auto
qed

section \<open>Recovery\<close>

lemma ring_add_member: "0 < mx \<Longrightarrow> rd \<in> set (ring_add mx rd xs)"
  by (cases xs) (simp_all add: ring_add_def)

lemma mark_finalized_member: "0 < oc_finalizedMax c \<Longrightarrow> rd \<in> set (os_finalized (oracleMarkFinalized c rd s))"
  by (simp add: oracleMarkFinalized_def disarmRoundWatchdog_def ring_add_member Let_def)

lemma announce_effects:
  assumes "0 < oc_finalizedMax c"
  shows "rd \<in> set (os_finalized (announceCommittedRound c i rd s))" "map_of (os_pending (announceCommittedRound c i rd s)) rd = None"
    "os_stored (announceCommittedRound c i rd s) = os_stored s"
  using mark_finalized_member [OF assms, of rd s]
  by (simp_all add: announceCommittedRound_def clearRoundTracking_def disarmRoundWatchdog_def drop_pending_def oracleMarkFinalized_def map_of_js_del Let_def)

lemma announce_event:
  "\<exists>h tm am parts pf. Finalized rd (pr_prices (os_heap s ! i)) h tm am parts pf \<in> set (os_events (announceCommittedRound c i rd s))"
proof -
  have "Finalized rd (pr_prices (os_heap s ! i)) (pr_height (os_heap s ! i)) (pr_time (os_heap s ! i))
      (if nullish (pr_admit (os_heap s ! i)) then JNull else pr_admit (os_heap s ! i)) (pr_prepares (os_heap s ! i)) (sortedSignatures (os_heap s ! i))
    \<in> set (os_events (announceCommittedRound c i rd s))"
    by (simp add: announceCommittedRound_def Let_def)
  then show ?thesis
    by blast
qed

lemma last_task_step:
  "os_tasks s = ts @ [t] \<Longrightarrow> oracle_step c H s (run_task c w t (s\<lparr>os_tasks := ts\<rparr>))"
  using oracle_step.task [of "length ts" s c H w] by (simp add: drop_nth_def)

text \<open>
  C22: in every run of a hub that schedules admission-era rounds only, a round whose store failed recovers by
  itself. Once the retry timer of a round is armed, three steps suffice, the timer, one store by a database that works again and the announcement: the
  round is stored with its content, marked finalized, announced, and no longer open.
\<close>

theorem stalled_round_recovers:
  assumes "signatures_ok c" and "\<forall>h \<in> H. oracleEra c h" and "oracle_reach c H s" and "os_running s"
    and "i < length (os_heap s)" and "pr_timer (os_heap s ! i) = RetryTimer" and "pr_round (os_heap s ! i) \<notin> set (os_finalized s)"
    and "0 < oc_finalizedMax c" and "ov_dbOk (w :: oracle_view)" and "pr_prices (os_heap s ! i) \<noteq> []"
  shows "\<exists>s1 s2 s3. oracle_step c H s s1 \<and> oracle_step c H s1 s2 \<and> oracle_step c H s2 s3 \<and>
    pr_round (os_heap s ! i) \<in> set (os_finalized s3) \<and> map_of (os_pending s3) (pr_round (os_heap s ! i)) = None \<and>
    (\<exists>r. r \<in> set (os_stored s3) \<and> sr_origin r = Some i \<and> row_of (os_heap s ! i) r) \<and>
    (\<exists>h tm am parts pf. Finalized (pr_round (os_heap s ! i)) (pr_prices (os_heap s ! i)) h tm am parts pf \<in> set (os_events s3))"
proof -
  let ?p = "os_heap s ! i"
  let ?rd = "pr_round ?p"
  let ?s0 = "upd_round i (\<lambda>p. p\<lparr>pr_finalized := True\<rparr>) (upd_round i (\<lambda>p. p\<lparr>pr_timer := NoTimer\<rparr>) s)"
  have "era_run c H"
    using assms(1, 2) by (auto simp: era_run_def)
  then have "timers_ok s"
    using era_rounds.holds [OF assms(3)] assms(4) by (simp add: run_safe_def)
  then have cur: "map_of (os_pending s) ?rd = Some i" "\<not> pr_finalized ?p"
    using timers_of [OF _ assms(5)] assms(6) by (simp_all add: timer_waiting_def current_def)
  obtain cnt pf where s1: "fireTimer i s = push (TStore i ?rd cnt pf 1) ?s0"
    using assms(5-7) cur by (simp add: fireTimer_def finalize_committed Let_def)
  let ?s1 = "push (TStore i ?rd cnt pf 1) ?s0"
  let ?row = "\<lparr>sr_round = ?rd, sr_prices = pr_prices ?p, sr_count = cnt, sr_proof = pf, sr_height = (if pr_height ?p = 0 then ?rd else pr_height ?p),
     sr_time = or_now w (pr_time ?p), sr_admit = pr_admit ?p, sr_origin = Some i\<rparr>"
  let ?t0 = "?s0\<lparr>os_stored := os_stored s @ [?row]\<rparr>"
  have "?s1\<lparr>os_tasks := os_tasks s\<rparr> = ?s0"
    by (simp add: push_def upd_round_def)
  then have s2: "run_task c w (TStore i ?rd cnt pf 1) (?s1\<lparr>os_tasks := os_tasks s\<rparr>) = push (TAnnounce i ?rd) ?t0"
    using assms(5, 9, 10) by (simp add: store_attempt_def store_row_def Let_def)
  have "(push (TAnnounce i ?rd) ?t0)\<lparr>os_tasks := os_tasks s\<rparr> = ?t0"
    by (simp add: push_def upd_round_def)
  then have s3: "run_task c w (TAnnounce i ?rd) ((push (TAnnounce i ?rd) ?t0)\<lparr>os_tasks := os_tasks s\<rparr>) = announceCommittedRound c i ?rd ?t0"
    by simp
  have steps: "oracle_step c H s ?s1" "oracle_step c H ?s1 (push (TAnnounce i ?rd) ?t0)"
    "oracle_step c H (push (TAnnounce i ?rd) ?t0) (announceCommittedRound c i ?rd ?t0)"
    using oracle_step.timer [OF assms(5), of c H] last_task_step [of ?s1 "os_tasks s" "TStore i ?rd cnt pf 1" c H w]
      last_task_step [of "push (TAnnounce i ?rd) ?t0" "os_tasks s" "TAnnounce i ?rd" c H w]
    unfolding s1 s2 s3 by simp_all
  have "pr_prices (os_heap ?t0 ! i) = pr_prices ?p"
    using assms(5) by simp
  then have event: "\<exists>h tm am parts pf. Finalized ?rd (pr_prices ?p) h tm am parts pf \<in> set (os_events (announceCommittedRound c i ?rd ?t0))"
    using announce_event [where rd = ?rd and i = i and s = ?t0 and c = c] by (simp only:)
  have "?row \<in> set (os_stored (announceCommittedRound c i ?rd ?t0)) \<and> sr_origin ?row = Some i \<and> row_of ?p ?row"
    by (simp add: announce_effects(3) [OF assms(8)] row_of_def or_now_def)
  then have row: "\<exists>r. r \<in> set (os_stored (announceCommittedRound c i ?rd ?t0)) \<and> sr_origin r = Some i \<and> row_of ?p r"
    by (rule exI)
  show ?thesis
    using steps announce_effects(1, 2) [OF assms(8), where rd = ?rd and i = i and s = ?t0] row event
    by (intro exI [of _ ?s1] exI [of _ "push (TAnnounce i ?rd) ?t0"] exI [of _ "announceCommittedRound c i ?rd ?t0"] conjI)
qed

theorem stalled_round_recovers_witness:
  "\<exists>s1 s2 s3. oracle_step era_conf {20} era_stalled s1 \<and> oracle_step era_conf {20} s1 s2 \<and> oracle_step era_conf {20} s2 s3 \<and>
    4 \<in> set (os_finalized s3) \<and> (\<exists>r. r \<in> set (os_stored s3) \<and> sr_origin r = Some 0 \<and> row_of (os_heap era_stalled ! 0) r)"
proof -
  have s: "os_running era_stalled" "length (os_heap era_stalled) = 1" "pr_timer (os_heap era_stalled ! 0) = RetryTimer" "os_finalized era_stalled = []"
    "pr_prices (os_heap era_stalled ! 0) = demo_price ''40''" "pr_round (os_heap era_stalled ! 0) = 4"
    using era_stalls by (simp_all add: Let_def)
  have c: "signatures_ok era_conf" "0 < oc_finalizedMax era_conf" "ov_dbOk era_view"
    by (simp_all add: era_conf_def demo_signatures) (simp_all add: demo_conf_def era_view_def demo_view_def)
  show ?thesis
    using stalled_round_recovers [OF c(1) era_scheduled era_stalled_reach s(1), of 0 era_view] c(2, 3) s(2-6)
    by (auto simp: demo_price_def)
qed

section \<open>What a signature covers\<close>

lemma pairs_json_inj: "pairs_json ps = pairs_json qs \<Longrightarrow> ps = qs"
proof -
  have "inj (\<lambda>(a :: string, b :: string). JObj [(''pair'', JStr a), (''price'', JStr b)])"
    by (auto simp: inj_def)
  then show "pairs_json ps = pairs_json qs \<Longrightarrow> ps = qs"
    by (simp add: pairs_json_def inj_map_eq_map)
qed

lemma js_int_of_eq [simp]: "js_int_of a = js_int_of b \<longleftrightarrow> a = b"
  by (simp add: js_int_of_def)

lemma price_body_inj:
  assumes "price_body show rd tm ps h = price_body show rd' tm' ps' h'"
  shows "rd = rd' \<and> h = h' \<and> js_parseInt show tm = js_parseInt show tm' \<and> price_pairs show ps = price_pairs show ps'"
  using assms by (auto simp: price_body_def js_int_of_def dest: pairs_json_inj split: option.splits)

lemma price_body_ok:
  assumes "\<bar>rd\<bar> < 10 ^ 21" and "\<bar>h\<bar> < 10 ^ 21" and "\<And>k. js_parseInt show tm = Some k \<Longrightarrow> \<bar>k\<bar> < 10 ^ 21"
  shows "json_ok (price_body show rd tm ps h)"
proof -
  have num: "json_ok (js_int_of k)" if "\<bar>k\<bar> < 10 ^ 21" for k
    using that of_int_less_iff [of "\<bar>k\<bar>" "10 ^ 21", where 'a = rat] by (simp add: js_int_of_def int_valued_def)
  have "json_ok (case js_parseInt show tm of None \<Rightarrow> JNull | Some k \<Rightarrow> js_int_of k)"
    using assms(3) num by (simp split: option.split)
  moreover have "json_ok (pairs_json (price_pairs show ps))"
    by (auto simp: pairs_json_def list_all_iff)
  ultimately show ?thesis
    using num [OF assms(1)] num [OF assms(2)] by (simp add: price_body_def)
qed

text \<open>An object can be read back from the front of a text.\<close>

lemma object_prefix:
  assumes "json_ok (JObj ms)" and "json_ok (JObj ns)" and "stringify show (JObj ms) @ x = stringify show (JObj ns) @ y"
  shows "ms = ns \<and> x = y"
proof -
  let ?n = "2 * length (stringify show (JObj ms)) + 2 * length (stringify show (JObj ns)) + 1"
  have "p_value ?n (stringify show (JObj ms) @ x) = Some (JObj ms, x)"
    using assms(1) json_reads by (intro p_value_obj) (auto simp: list_all_iff)
  moreover have "p_value ?n (stringify show (JObj ns) @ y) = Some (JObj ns, y)"
    using assms(2) json_reads by (intro p_value_obj) (auto simp: list_all_iff)
  ultimately show ?thesis
    unfolding assms(3) by (simp only: option.inject prod.inject jsval.inject)
qed

lemma object_text_start: "\<exists>u. stringify show (JObj ms) = CHR ''{'' # u"
  by simp

lemma int_text_no_bar: "takeWhile (\<lambda>c. c \<noteq> CHR ''|'') (show_int k @ CHR ''|'' # r) = show_int k"
proof -
  have "c \<noteq> CHR ''|''" if "c \<in> set (show_nat n)" for c n
    using that show_nat_digits(1) [of n] by (auto simp: list_all_iff is_digit_def)
  then have "\<forall>c \<in> set (show_int k). c \<noteq> CHR ''|''"
    by (auto simp: show_int_def)
  then show ?thesis
    by (simp add: takeWhile_append)
qed

lemma equiv_content_inj:
  assumes "buildEquivCanonical ''XORACLE'' (show_int h) ''0'' x = buildEquivCanonical ''XORACLE'' (show_int h') ''0'' y"
  shows "x = y"
proof -
  have "show_int h @ CHR ''|'' # (''0||'' @ x) = show_int h' @ CHR ''|'' # (''0||'' @ y)"
    using assms by (simp add: buildEquivCanonical_def equivPrefix_def equivKey_def)
  moreover from this have "show_int h = show_int h'"
    using int_text_no_bar by metis
  ultimately show ?thesis
    by simp
qed

lemma equiv_text_start: "CHR ''{'' # u \<noteq> buildEquivCanonical a b d x" "buildEquivCanonical a b d x \<noteq> CHR ''{'' # u"
  by (simp_all add: buildEquivCanonical_def equivPrefix_def)

text \<open>In the admission era the field after the body tells the admission maps apart, as they are encoded.\<close>

lemma admission_field_binds:
  assumes "admissionCanonicalField show tab net h a = Inr f" and "admissionCanonicalField show tab net h a' = Inr f"
    and "isAdmissionEra show tab net h"
  shows "(nullish a \<longleftrightarrow> nullish a') \<and> (\<not> nullish a \<longrightarrow> (\<exists>s. encodeAdmitBlocks a = Some s \<and> encodeAdmitBlocks a' = Some s))"
  using assms by (auto simp: admissionCanonicalField_def admissionCanonicalValue_def split: sum.splits option.splits if_splits)

text \<open>Before it the field is empty, so the maps leave the payload and every signature over it as they are.\<close>

lemma legacy_payload_ignores_map:
  assumes "\<not> oracleEra c h"
  shows "buildPriceV0Payload c rd tm ps h a = buildPriceV0Payload c rd tm ps h a'"
  using assms by (simp add: buildPriceV0Payload_def admissionCanonicalField_def admissionCanonicalValue_def oracleEra_def)

text \<open>
  C23: a signature binds one round. Two payloads with the same text, header or not, are of the same
  round number, height, timestamp and prices (pair by pair, as texts), so a signature collected for one round
  or price table never certifies another. In the admission era they are also of the same admission map, as
  encoded, or both of none; below it the payload holds no map and binds none. Numbers are below \<open>10 ^ 21\<close>, where JSON prints integers in full.
\<close>

theorem signature_binds_round:
  assumes "buildPriceV0Payload c rd tm ps h a = Inr t" and "buildPriceV0Payload c rd' tm' ps' h' a' = Inr t"
    and "\<bar>rd\<bar> < 10 ^ 21" and "\<bar>rd'\<bar> < 10 ^ 21" and "\<bar>h\<bar> < 10 ^ 21" and "\<bar>h'\<bar> < 10 ^ 21"
    and "\<And>k. js_parseInt (oc_show c) tm = Some k \<Longrightarrow> \<bar>k\<bar> < 10 ^ 21" and "\<And>k. js_parseInt (oc_show c) tm' = Some k \<Longrightarrow> \<bar>k\<bar> < 10 ^ 21"
  shows "rd = rd' \<and> h = h' \<and> js_parseInt (oc_show c) tm = js_parseInt (oc_show c) tm' \<and>
    price_pairs (oc_show c) ps = price_pairs (oc_show c) ps' \<and>
    (oracleEra c h \<longrightarrow> (nullish a \<longleftrightarrow> nullish a') \<and>
       (\<not> nullish a \<longrightarrow> (\<exists>s. encodeAdmitBlocks a = Some s \<and> encodeAdmitBlocks a' = Some s)))"
proof -
  let ?b = "price_body (oc_show c) rd tm ps h" and ?b' = "price_body (oc_show c) rd' tm' ps' h'"
  obtain f where f: "admissionCanonicalField (oc_show c) (oc_admit c) (JStr (oc_network c)) (js_int_of h) a = Inr f"
    and t: "t = (if isEquivHeaderActive (CNum h) (oc_network c) then buildEquivCanonical ''XORACLE'' (show_int h) ''0'' (stringify (oc_show c) ?b @ f)
                 else stringify (oc_show c) ?b @ f)"
    using assms(1) by (auto simp: buildPriceV0Payload_def Let_def split: sum.splits if_splits)
  obtain f' where f': "admissionCanonicalField (oc_show c) (oc_admit c) (JStr (oc_network c)) (js_int_of h') a' = Inr f'"
    and t': "t = (if isEquivHeaderActive (CNum h') (oc_network c) then buildEquivCanonical ''XORACLE'' (show_int h') ''0'' (stringify (oc_show c) ?b' @ f')
                  else stringify (oc_show c) ?b' @ f')"
    using assms(2) by (auto simp: buildPriceV0Payload_def Let_def split: sum.splits if_splits)
  obtain ms ms' where obj: "?b = JObj ms" "?b' = JObj ms'"
    by (simp add: price_body_def)
  have head: "\<exists>u. stringify (oc_show c) ?b @ f = CHR ''{'' # u" "\<exists>u. stringify (oc_show c) ?b' @ f' = CHR ''{'' # u"
    using object_text_start [of "oc_show c" ms] object_text_start [of "oc_show c" ms'] unfolding obj by auto
  have "stringify (oc_show c) ?b @ f = stringify (oc_show c) ?b' @ f'"
  proof (cases "isEquivHeaderActive (CNum h) (oc_network c) \<longleftrightarrow> isEquivHeaderActive (CNum h') (oc_network c)")
    case True
    show ?thesis
    proof (cases "isEquivHeaderActive (CNum h) (oc_network c)")
      case act: True
      then have "buildEquivCanonical ''XORACLE'' (show_int h) ''0'' (stringify (oc_show c) ?b @ f) =
          buildEquivCanonical ''XORACLE'' (show_int h') ''0'' (stringify (oc_show c) ?b' @ f')"
        using True t t' by simp
      then show ?thesis
        by (rule equiv_content_inj)
    qed (use True t t' in simp)
  next
    case False
    then show ?thesis
      using t t' head equiv_text_start by (auto split: if_splits)
  qed
  then have "ms = ms' \<and> f = f'"
    using price_body_ok [of rd h "oc_show c" tm ps] price_body_ok [of rd' h' "oc_show c" tm' ps'] assms(3-8) unfolding obj
    by (intro object_prefix) simp_all
  then have same: "?b = ?b'" "f = f'"
    unfolding obj by simp_all
  then have "rd = rd' \<and> h = h' \<and> js_parseInt (oc_show c) tm = js_parseInt (oc_show c) tm' \<and> price_pairs (oc_show c) ps = price_pairs (oc_show c) ps'"
    using price_body_inj [of "oc_show c" rd tm ps h rd' tm' ps' h'] by blast
  moreover from this f f' same(2) have "oracleEra c h \<longrightarrow> (nullish a \<longleftrightarrow> nullish a') \<and>
      (\<not> nullish a \<longrightarrow> (\<exists>s. encodeAdmitBlocks a = Some s \<and> encodeAdmitBlocks a' = Some s))"
    using admission_field_binds unfolding oracleEra_def by blast
  ultimately show ?thesis
    by blast
qed

definition spelled_admit :: jsval where
  "spelled_admit = JObj [(''DOGE'', JStr ''56''), (''BTC'', JStr ''24''), (''LTC'', JNum (Fin 47))]"

lemma number_and_text_payload:
  "(case (buildPriceV0Payload era_conf 4 (JNum (Fin 240)) (demo_price ''40'') 20 era_admit,
          buildPriceV0Payload era_conf 4 (JStr ''240'') [\<lparr>rp_pair = ''BTC/USD'', rp_price = JNum (Fin 40)\<rparr>] 20 spelled_admit) of
      (Inr t, Inr u) \<Rightarrow> t = u | _ \<Rightarrow> False) \<and>
   js_parseInt (oc_show era_conf) (JNum (Fin 240)) = Some 240 \<and> js_parseInt (oc_show era_conf) (JStr ''240'') = Some 240 \<and> \<not> nullish era_admit"
  by code_simp

theorem signature_binds_round_witness:
  "\<exists>t s. buildPriceV0Payload era_conf 4 (JNum (Fin 240)) (demo_price ''40'') 20 era_admit = Inr t \<and>
     buildPriceV0Payload era_conf 4 (JStr ''240'') [\<lparr>rp_pair = ''BTC/USD'', rp_price = JNum (Fin 40)\<rparr>] 20 spelled_admit = Inr t \<and>
     price_pairs (oc_show era_conf) (demo_price ''40'') = price_pairs (oc_show era_conf) [\<lparr>rp_pair = ''BTC/USD'', rp_price = JNum (Fin 40)\<rparr>] \<and>
     encodeAdmitBlocks era_admit = Some s \<and> encodeAdmitBlocks spelled_admit = Some s"
proof -
  obtain t where t: "buildPriceV0Payload era_conf 4 (JNum (Fin 240)) (demo_price ''40'') 20 era_admit = Inr t"
      "buildPriceV0Payload era_conf 4 (JStr ''240'') [\<lparr>rp_pair = ''BTC/USD'', rp_price = JNum (Fin 40)\<rparr>] 20 spelled_admit = Inr t"
    using number_and_text_payload by (auto split: sum.splits)
  then show ?thesis
    using signature_binds_round [OF t] number_and_text_payload era_scheduled by simp
qed

section \<open>Members\<close>

lemma filter_members_from: "set (filter_members h ms seen subs) \<subseteq> set subs"
  by (induction h ms seen subs rule: filter_members.induct) (auto split: option.splits)

lemma filter_members_step:
  assumes "submission_key h addr sub = Some pk"
  shows "filter_members h ms seen ((addr, sub) # rest) =
    (if pk \<in> set ms \<and> pk \<notin> set seen then (addr, sub) # filter_members h ms (pk # seen) rest else filter_members h ms seen rest)"
  using assms by simp

lemma filter_members_keys:
  "distinct (map (\<lambda>(a, s). submission_key h a s) (filter_members h ms seen subs)) \<and>
   (\<lambda>(a, s). submission_key h a s) ` set (filter_members h ms seen subs) \<subseteq> Some ` (set ms - set seen)"
proof (induction subs arbitrary: seen)
  case (Cons e rest)
  let ?key = "\<lambda>(a, s). submission_key h a s"
  obtain addr sub where e: "e = (addr, sub)"
    by (cases e)
  show ?case
  proof (cases "submission_key h addr sub")
    case None
    then show ?thesis using Cons.IH [of seen] by (simp add: e)
  next
    case (Some pk)
    note IH = Cons.IH [of "pk # seen"]
    have "Some pk \<notin> ?key ` set (filter_members h ms (pk # seen) rest)"
      using IH by auto
    moreover have "Some ` (set ms - set (pk # seen)) \<subseteq> Some ` (set ms - set seen)"
      by auto
    ultimately show ?thesis
      unfolding e filter_members_step [OF Some] using Cons.IH [of seen] IH Some
      by (simp split: if_split) blast
  qed
qed simp

lemma filter_members_complete:
  "(a, s) \<in> set subs \<Longrightarrow> submission_key h a s = Some pk \<Longrightarrow> pk \<in> set ms \<Longrightarrow> pk \<notin> set seen \<Longrightarrow>
   \<exists>a' s'. (a', s') \<in> set (filter_members h ms seen subs) \<and> submission_key h a' s' = Some pk"
proof (induction subs arbitrary: seen)
  case (Cons e rest)
  obtain addr sub where e: "e = (addr, sub)"
    by (cases e)
  show ?case
  proof (cases "submission_key h addr sub")
    case None
    then show ?thesis using Cons by (auto simp: e)
  next
    case (Some k)
    show ?thesis
    proof (cases "k \<in> set ms \<and> k \<notin> set seen")
      case True
      show ?thesis
      proof (cases "k = pk")
        case eq: True
        then have "(addr, sub) \<in> set (filter_members h ms seen (e # rest))"
          unfolding e filter_members_step [OF Some] using True by simp
        then show ?thesis using Some eq by blast
      next
        case False
        then have "(a, s) \<in> set rest"
          using Cons.prems(1, 2) Some e by auto
        then show ?thesis
          unfolding e filter_members_step [OF Some] using Cons.IH [of "k # seen"] Cons.prems(2-4) False True by auto
      qed
    next
      case False
      then have "(a, s) \<in> set rest"
        using Cons.prems Some e by auto
      then show ?thesis
        unfolding e filter_members_step [OF Some] using Cons.IH [of seen] Cons.prems(2-4) False by auto
    qed
  qed
qed simp

text \<open>
  C24: one submission per member. What a round aggregates is a selection of the submissions held, with one for each member key that
  submitted anything, none for a key outside the snapshot, however many addresses a key names, so at most as
  many submissions as members.
\<close>

theorem one_submission_per_member:
  "let out = filterSubmissionsToSnapshot h subs (Some ms) in
   set out \<subseteq> set subs \<and> distinct (map (\<lambda>(a, s). submission_key h a s) out) \<and> length out \<le> card (set ms) \<and>
   {k. \<exists>a s. (a, s) \<in> set out \<and> submission_key h a s = Some k} =
   {k \<in> set ms. \<exists>a s. (a, s) \<in> set subs \<and> submission_key h a s = Some k}"
proof -
  define out where "out = filter_members h ms [] subs"
  let ?key = "\<lambda>(a, s). submission_key h a s"
  have d: "distinct (map ?key out)"
    using filter_members_keys [of h ms "[]" subs] unfolding out_def by (rule conjunct1)
  have k: "?key ` set out \<subseteq> Some ` set ms"
    using filter_members_keys [of h ms "[]" subs] unfolding out_def by simp
  have "length out = card (?key ` set out)"
    using d by (metis distinct_card length_map set_map)
  also have "\<dots> \<le> card (Some ` set ms)"
    using k by (intro card_mono) simp_all
  also have "\<dots> = card (set ms)"
    by (simp add: card_image)
  finally have len: "length out \<le> card (set ms)" .
  have sub: "set out \<subseteq> set subs"
    unfolding out_def by (rule filter_members_from)
  have "\<exists>a' s'. (a', s') \<in> set out \<and> submission_key h a' s' = Some pk" if "(a, s) \<in> set subs" "submission_key h a s = Some pk" "pk \<in> set ms" for a s pk
    using filter_members_complete [OF that, of "[]"] unfolding out_def by simp
  then have "{k. \<exists>a s. (a, s) \<in> set out \<and> submission_key h a s = Some k} = {k \<in> set ms. \<exists>a s. (a, s) \<in> set subs \<and> submission_key h a s = Some k}"
    using k sub by fastforce
  moreover have "filterSubmissionsToSnapshot h subs (Some ms) = out"
    by (simp add: filterSubmissionsToSnapshot_def out_def)
  ultimately show ?thesis
    using sub d len by (simp only: Let_def)
qed

end
