(* ===== verification/Spend_Guard.thy ===== *)
theory Spend_Guard
  imports Oracle_Prices
begin

text \<open>
  The spend policy of the hub's effectors: the guard every on-chain broadcast passes
  (\<open>src/lib/spend_guard.js\<close>), its count ceiling, its await-safe reservations and its restart
  persistence (\<open>src/providers/effector_spend/\<close>). The wall clock, the outcome of a file write and
  the answers of the file system are arguments of the operations; the store file is part of the
  state. A reservation token is an object shared with the caller, so tokens live in a table
  indexed by their number. Times and costs are the finite numbers the code computes with.
\<close>

section \<open>Count ceiling (spend\_ceiling.js)\<close>

record ceiling =
  cl_max :: int
  cl_window :: int
  cl_spends :: "rat list"
  cl_blocked :: nat

definition ceiling_disabled :: "ceiling \<Rightarrow> bool" where
  "ceiling_disabled c \<longleftrightarrow> cl_max c \<le> 0"

definition ceiling_prune :: "rat \<Rightarrow> ceiling \<Rightarrow> ceiling" where
  "ceiling_prune now c = c\<lparr>cl_spends := dropWhile (\<lambda>t. t \<le> now - of_int (cl_window c)) (cl_spends c)\<rparr>"

definition ceiling_countInWindow :: "rat \<Rightarrow> ceiling \<Rightarrow> nat \<times> ceiling" where
  "ceiling_countInWindow now c = (let c' = ceiling_prune now c in (length (cl_spends c'), c'))"

definition ceiling_allow :: "rat \<Rightarrow> ceiling \<Rightarrow> bool \<times> ceiling" where
  "ceiling_allow now c =
     (if ceiling_disabled c then (True, c)
      else (let c' = ceiling_prune now c in (int (length (cl_spends c')) < cl_max c', c')))"

definition ceiling_record :: "rat \<Rightarrow> ceiling \<Rightarrow> ceiling" where
  "ceiling_record now c =
     (if ceiling_disabled c then c
      else (let c' = ceiling_prune now c in c'\<lparr>cl_spends := cl_spends c' @ [now]\<rparr>))"

definition ceiling_reserve :: "rat \<Rightarrow> ceiling \<Rightarrow> rat option \<times> ceiling" where
  "ceiling_reserve now c =
     (if ceiling_disabled c then (None, c)
      else (let c' = ceiling_prune now c in (Some now, c'\<lparr>cl_spends := cl_spends c' @ [now]\<rparr>)))"

definition ceiling_release :: "rat option \<Rightarrow> ceiling \<Rightarrow> ceiling" where
  "ceiling_release handle c =
     (if ceiling_disabled c then c
      else (case handle of None \<Rightarrow> c | Some t \<Rightarrow> c\<lparr>cl_spends := remove_first (\<lambda>x. x = t) (cl_spends c)\<rparr>))"

definition ceiling_seedConsumed :: "rat \<Rightarrow> ceiling \<Rightarrow> ceiling" where
  "ceiling_seedConsumed now c =
     (if ceiling_disabled c then c
      else (let c' = ceiling_prune now c in
        c'\<lparr>cl_spends := cl_spends c' @ replicate (nat (cl_max c') - length (cl_spends c')) now\<rparr>))"

definition ceiling_noteBlocked :: "ceiling \<Rightarrow> ceiling" where
  "ceiling_noteBlocked c = c\<lparr>cl_blocked := cl_blocked c + 1\<rparr>"

section \<open>Configuration\<close>

text \<open>\<open>parseInt(text, 10)\<close>, None where the result is not a finite number.\<close>

definition parse_int10 :: "string \<Rightarrow> int option" where
  "parse_int10 s =
     (let (neg, u) = split_sign (dropWhile is_space s); ds = takeWhile is_digit u; n = int (digits_val 0 ds)
      in if ds = [] \<or> 2 ^ 1024 \<le> n then None else Some (if neg then - n else n))"

type_synonym settings = "string \<Rightarrow> string option"

text \<open>\<open>env[key] || cfg[key] || dflt\<close> against \<open>env[key] != null ? .. : cfg[key] != null ? .. : dflt\<close>: an empty text counts only in the second.\<close>

definition pick_truthy :: "settings \<Rightarrow> settings \<Rightarrow> string \<Rightarrow> string option" where
  "pick_truthy env cfg key =
     (case env key of Some (c # cs) \<Rightarrow> Some (c # cs) | _ \<Rightarrow> (case cfg key of Some (c # cs) \<Rightarrow> Some (c # cs) | _ \<Rightarrow> None))"

definition readInt :: "settings \<Rightarrow> settings \<Rightarrow> string \<Rightarrow> int \<Rightarrow> int" where
  "readInt env cfg key dflt =
     (case (case env key of Some s \<Rightarrow> Some s | None \<Rightarrow> cfg key) of
        None \<Rightarrow> dflt
      | Some s \<Rightarrow> (case parse_int10 s of Some v \<Rightarrow> v | None \<Rightarrow> dflt))"

definition DEFAULT_WINDOW_MS :: int where "DEFAULT_WINDOW_MS = 3600000"
definition HARD_CAP_USD_CENTS :: int where "HARD_CAP_USD_CENTS = 200000"
definition DEFAULT_EST_SPEND_USD_CENTS :: int where "DEFAULT_EST_SPEND_USD_CENTS = 100"

definition new_SpendCeiling :: "settings \<Rightarrow> settings \<Rightarrow> string \<Rightarrow> ceiling" where
  "new_SpendCeiling env cfg prefix =
     (let m = (case pick_truthy env cfg (prefix @ ''_MAX_PUBLISHES_PER_WINDOW'') of None \<Rightarrow> Some 0 | Some s \<Rightarrow> parse_int10 s);
          w = (case pick_truthy env cfg (prefix @ ''_SPEND_WINDOW_MS'') of None \<Rightarrow> Some DEFAULT_WINDOW_MS | Some s \<Rightarrow> parse_int10 s)
      in \<lparr>cl_max = (case m of None \<Rightarrow> 0 | Some v \<Rightarrow> if v < 0 then 0 else v),
          cl_window = (case w of None \<Rightarrow> DEFAULT_WINDOW_MS | Some v \<Rightarrow> if v \<le> 0 then DEFAULT_WINDOW_MS else v),
          cl_spends = [], cl_blocked = 0\<rparr>)"

section \<open>The guard\<close>

record spend =
  sp_t :: rat
  sp_cost :: rat
  sp_res :: "nat option"

record token =
  tk_handle :: "rat option"
  tk_settled :: bool

text \<open>The store file: absent, unreadable, not JSON, of another shape, or a saved state (\<open>Number()\<close> of each row's fields).\<close>

record saved =
  sv_spends :: "(jsnum \<times> jsnum) list"
  sv_paused :: bool
  sv_reason :: string

datatype store_file = NoFile | ReadError | BadJson | BadShape | Saved saved

datatype write_result = Written | Kept | Torn

record guard =
  sg_ceiling :: ceiling
  sg_window :: int
  sg_max :: int
  sg_est :: int
  sg_minBalance :: rat
  sg_spends :: "spend list"
  sg_paused :: bool
  sg_reason :: string
  sg_armed :: bool
  sg_broken :: bool
  sg_seq :: nat
  sg_tokens :: "(nat \<times> token) list"
  sg_blockedPause :: nat
  sg_blockedSpend :: nat
  sg_blockedBalance :: nat
  sg_blockedPersist :: nat
  sg_file :: store_file

definition new_SpendGuard :: "settings \<Rightarrow> settings \<Rightarrow> string \<Rightarrow> store_file \<Rightarrow> guard" where
  "new_SpendGuard env cfg prefix file =
     (let c = new_SpendCeiling env cfg prefix;
          cap0 = readInt env cfg (prefix @ ''_MAX_SPEND_USD_CENTS_PER_WINDOW'') HARD_CAP_USD_CENTS;
          cap = (if cap0 \<le> 0 then HARD_CAP_USD_CENTS else cap0);
          est0 = readInt env cfg (prefix @ ''_EST_SPEND_USD_CENTS'') DEFAULT_EST_SPEND_USD_CENTS;
          fl = (case (case env (prefix @ ''_MIN_BALANCE'') of Some s \<Rightarrow> Some s | None \<Rightarrow> cfg (prefix @ ''_MIN_BALANCE'')) of
                  None \<Rightarrow> Fin 0 | Some s \<Rightarrow> parseFloat s)
      in \<lparr>sg_ceiling = c, sg_window = cl_window c, sg_max = min cap HARD_CAP_USD_CENTS,
          sg_est = (if est0 \<le> 0 then DEFAULT_EST_SPEND_USD_CENTS else est0),
          sg_minBalance = (case fl of Fin x \<Rightarrow> if x < 0 then 0 else x | _ \<Rightarrow> 0),
          sg_spends = [], sg_paused = False, sg_reason = [], sg_armed = False, sg_broken = False, sg_seq = 0, sg_tokens = [],
          sg_blockedPause = 0, sg_blockedSpend = 0, sg_blockedBalance = 0, sg_blockedPersist = 0, sg_file = file\<rparr>)"

definition guard_prune :: "rat \<Rightarrow> guard \<Rightarrow> guard" where
  "guard_prune now g = g\<lparr>sg_spends := dropWhile (\<lambda>e. sp_t e \<le> now - of_int (sg_window g)) (sg_spends g)\<rparr>"

definition spent :: "spend list \<Rightarrow> rat" where
  "spent es = sum_list (map sp_cost es)"

definition spentInWindow :: "rat \<Rightarrow> guard \<Rightarrow> rat \<times> guard" where
  "spentInWindow now g = (let g' = guard_prune now g in (spent (sg_spends g'), g'))"

definition computeCost :: "jsval \<Rightarrow> guard \<Rightarrow> rat" where
  "computeCost cost g = (case js_Number cost of Fin c \<Rightarrow> if c \<le> 0 then of_int (sg_est g) else c | _ \<Rightarrow> of_int (sg_est g))"

section \<open>Persistence (persistence.js)\<close>

definition saved_of :: "guard \<Rightarrow> saved" where
  "saved_of g = \<lparr>sv_spends = map (\<lambda>e. (Fin (sp_t e), Fin (sp_cost e))) (sg_spends g), sv_paused = sg_paused g, sv_reason = sg_reason g\<rparr>"

text \<open>A failed write leaves the old file or a truncated one.\<close>

definition persist :: "write_result \<Rightarrow> guard \<Rightarrow> bool \<times> guard" where
  "persist wr g =
     (if \<not> sg_armed g then (True, g)
      else (case wr of
          Written \<Rightarrow> (True, g\<lparr>sg_broken := False, sg_file := Saved (saved_of g)\<rparr>)
        | Kept \<Rightarrow> (False, g\<lparr>sg_broken := True\<rparr>)
        | Torn \<Rightarrow> (False, g\<lparr>sg_broken := True, sg_file := BadJson\<rparr>)))"

definition storeUsable :: "write_result \<Rightarrow> guard \<Rightarrow> bool \<times> guard" where
  "storeUsable wr g = (if \<not> sg_armed g \<or> \<not> sg_broken g then (True, g) else persist wr g)"

datatype access = AccessOk | AccessMissing | AccessRefused

text \<open>\<open>accessSync\<close> on the directory of the store and its ancestors up to the root.\<close>

fun storeIsWritable :: "nat \<Rightarrow> access list \<Rightarrow> bool" where
  "storeIsWritable 0 dirs = False"
| "storeIsWritable (Suc hops) [] = False"
| "storeIsWritable (Suc hops) (d # dirs) =
     (case d of AccessOk \<Rightarrow> True | AccessRefused \<Rightarrow> False | AccessMissing \<Rightarrow> storeIsWritable hops dirs)"

definition seedConsumed :: "rat \<Rightarrow> guard \<Rightarrow> guard" where
  "seedConsumed now g =
     g\<lparr>sg_spends := sg_spends g @ [\<lparr>sp_t = now, sp_cost = of_int (sg_max g), sp_res = None\<rparr>],
       sg_ceiling := ceiling_seedConsumed now (sg_ceiling g)\<rparr>"

definition restorePause :: "saved \<Rightarrow> guard \<Rightarrow> guard" where
  "restorePause s g =
     (if \<not> sv_paused s \<or> sg_paused g then g
      else g\<lparr>sg_paused := True, sg_reason := (if sv_reason s = [] then ''operator pause'' else sv_reason s)\<rparr>)"

definition restore_row :: "rat \<Rightarrow> guard \<Rightarrow> jsnum \<times> jsnum \<Rightarrow> spend option" where
  "restore_row now g row =
     (case row of
        (Fin t, c) \<Rightarrow>
          if t \<le> now - of_int (sg_window g) then None
          else Some \<lparr>sp_t = (if now < t then now else t),
                     sp_cost = (case c of Fin q \<Rightarrow> if 0 < q then q else of_int (sg_est g) | _ \<Rightarrow> of_int (sg_est g)), sp_res = None\<rparr>
      | _ \<Rightarrow> None)"

definition loadState :: "rat \<Rightarrow> access list \<Rightarrow> guard \<Rightarrow> guard" where
  "loadState now dirs g =
     (case sg_file g of
        NoFile \<Rightarrow> if storeIsWritable 64 dirs then g else seedConsumed now g
      | ReadError \<Rightarrow> seedConsumed now g
      | BadJson \<Rightarrow> seedConsumed now g
      | BadShape \<Rightarrow> seedConsumed now g
      | Saved s \<Rightarrow>
          (let g1 = restorePause s g;
               rows = List.map_filter (restore_row now g1) (sv_spends s)
           in g1\<lparr>sg_spends := sort_key sp_t (sg_spends g1 @ rows),
                 sg_ceiling := fold (\<lambda>e c. ceiling_record (sp_t e) c) rows (sg_ceiling g1)\<rparr>))"

definition persistTo :: "rat \<Rightarrow> access list \<Rightarrow> write_result \<Rightarrow> guard \<Rightarrow> guard" where
  "persistTo now dirs wr g =
     (let g1 = loadState now dirs (g\<lparr>sg_armed := True\<rparr>)
      in if sg_paused g1 then snd (persist wr g1) else g1)"

section \<open>Gates (spend\_guard.js)\<close>

definition pause :: "string \<Rightarrow> write_result \<Rightarrow> guard \<Rightarrow> bool \<times> guard" where
  "pause reason wr g = persist wr (g\<lparr>sg_paused := True, sg_reason := (if reason = [] then ''operator pause'' else reason)\<rparr>)"

definition resume :: "write_result \<Rightarrow> guard \<Rightarrow> bool \<times> guard" where
  "resume wr g = persist wr (g\<lparr>sg_paused := False, sg_reason := []\<rparr>)"

datatype refusal = SpendPaused | StoreUnwritable | BalanceUnreadable | BelowFloor | CountReached | BudgetReached

text \<open>\<open>check\<close>: \<open>balance\<close> is \<open>JUndef\<close> when the caller has no balance source.\<close>

definition check :: "rat \<Rightarrow> write_result \<Rightarrow> jsval \<Rightarrow> jsval \<Rightarrow> guard \<Rightarrow> refusal option \<times> guard" where
  "check now wr balance cost g =
     (if sg_paused g then (Some SpendPaused, g\<lparr>sg_blockedPause := sg_blockedPause g + 1\<rparr>)
      else (let (usable, g1) = storeUsable wr g in
        if \<not> usable then (Some StoreUnwritable, g1\<lparr>sg_blockedPersist := sg_blockedPersist g1 + 1\<rparr>)
        else if balance = JNull then (Some BalanceUnreadable, g1\<lparr>sg_blockedBalance := sg_blockedBalance g1 + 1\<rparr>)
        else if balance \<noteq> JUndef \<and> (case js_Number balance of Fin b \<Rightarrow> b < sg_minBalance g1 | NInf \<Rightarrow> True | _ \<Rightarrow> False)
        then (Some BelowFloor, g1\<lparr>sg_blockedBalance := sg_blockedBalance g1 + 1\<rparr>)
        else (let (ok, c) = ceiling_allow now (sg_ceiling g1) in
          if \<not> ok then (Some CountReached, g1\<lparr>sg_ceiling := ceiling_noteBlocked c, sg_blockedSpend := sg_blockedSpend g1 + 1\<rparr>)
          else (let (s, g2) = spentInWindow now (g1\<lparr>sg_ceiling := c\<rparr>) in
            if of_int (sg_max g2) < s + computeCost cost g2
            then (Some BudgetReached, g2\<lparr>sg_blockedSpend := sg_blockedSpend g2 + 1\<rparr>)
            else (None, g2)))))"

definition allow :: "rat \<Rightarrow> write_result \<Rightarrow> jsval \<Rightarrow> guard \<Rightarrow> bool \<times> guard" where
  "allow now wr cost g =
     (if sg_paused g then (False, g)
      else (let (usable, g1) = storeUsable wr g in
        if \<not> usable then (False, g1)
        else (let (ok, c) = ceiling_allow now (sg_ceiling g1) in
          if \<not> ok then (False, g1\<lparr>sg_ceiling := c\<rparr>)
          else (let (s, g2) = spentInWindow now (g1\<lparr>sg_ceiling := c\<rparr>) in
            (s + computeCost cost g2 \<le> of_int (sg_max g2), g2)))))"

definition record_spend :: "rat \<Rightarrow> write_result \<Rightarrow> jsval \<Rightarrow> guard \<Rightarrow> guard" where
  "record_spend now wr cost g =
     (let g1 = guard_prune now (g\<lparr>sg_ceiling := ceiling_record now (sg_ceiling g)\<rparr>)
      in snd (persist wr (g1\<lparr>sg_spends := sg_spends g1 @ [\<lparr>sp_t = now, sp_cost = computeCost cost g1, sp_res = None\<rparr>]\<rparr>)))"

text \<open>\<open>noteBlocked\<close>, for its effect on the count ceiling; the message it builds is left out.\<close>

definition noteBlocked :: "rat \<Rightarrow> guard \<Rightarrow> guard" where
  "noteBlocked now g =
     (if sg_paused g \<or> sg_broken g then g
      else (let (ok, c) = ceiling_allow now (sg_ceiling g)
            in g\<lparr>sg_ceiling := (if ok then c else ceiling_noteBlocked c)\<rparr>))"

section \<open>Reservations (reservation.js)\<close>

definition drop_reservation :: "nat \<Rightarrow> spend list \<Rightarrow> spend list" where
  "drop_reservation n es = remove_first (\<lambda>e. sp_res e = Some n) es"

definition reserve :: "rat \<Rightarrow> write_result \<Rightarrow> jsval \<Rightarrow> guard \<Rightarrow> nat option \<times> guard" where
  "reserve now wr cost g =
     (if sg_paused g then (None, g\<lparr>sg_blockedPause := sg_blockedPause g + 1\<rparr>)
      else (let (ok, c) = ceiling_allow now (sg_ceiling g) in
        if \<not> ok then (None, g\<lparr>sg_ceiling := c, sg_blockedSpend := sg_blockedSpend g + 1\<rparr>)
        else (let k = computeCost cost g; (s, g1) = spentInWindow now (g\<lparr>sg_ceiling := c\<rparr>) in
          if of_int (sg_max g1) < s + k then (None, g1\<lparr>sg_blockedSpend := sg_blockedSpend g1 + 1\<rparr>)
          else (let n = sg_seq g1 + 1;
                    (hd, c') = ceiling_reserve now (sg_ceiling g1);
                    g2 = g1\<lparr>sg_seq := n, sg_ceiling := c',
                            sg_spends := sg_spends g1 @ [\<lparr>sp_t = now, sp_cost = k, sp_res = Some n\<rparr>]\<rparr>;
                    (durable, g3) = persist wr g2
                in if durable then (Some n, g3\<lparr>sg_tokens := js_put n \<lparr>tk_handle = hd, tk_settled = False\<rparr> (sg_tokens g3)\<rparr>)
                   else (None, g3\<lparr>sg_spends := drop_reservation n (sg_spends g3),
                                  sg_ceiling := ceiling_release hd (sg_ceiling g3),
                                  sg_tokens := js_put n \<lparr>tk_handle = hd, tk_settled = True\<rparr> (sg_tokens g3),
                                  sg_blockedPersist := sg_blockedPersist g3 + 1\<rparr>)))))"

fun reprice :: "nat \<Rightarrow> rat \<Rightarrow> spend list \<Rightarrow> spend list option" where
  "reprice n c [] = None"
| "reprice n c (e # es) = (if sp_res e = Some n then Some (e\<lparr>sp_cost := c\<rparr> # es) else map_option (\<lambda>es'. e # es') (reprice n c es))"

definition settle :: "nat \<Rightarrow> guard \<Rightarrow> guard" where
  "settle n g = (case map_of (sg_tokens g) n of None \<Rightarrow> g | Some tk \<Rightarrow> g\<lparr>sg_tokens := js_put n (tk\<lparr>tk_settled := True\<rparr>) (sg_tokens g)\<rparr>)"

text \<open>A token argument is None when \<open>reserve\<close> returned null.\<close>

definition commit :: "write_result \<Rightarrow> nat option \<Rightarrow> jsval \<Rightarrow> guard \<Rightarrow> guard" where
  "commit wr tok actualCost g =
     (case tok of
        None \<Rightarrow> g
      | Some n \<Rightarrow>
          (let g1 = settle n g in
           case js_Number actualCost of
             Fin c \<Rightarrow> if c \<le> 0 then g1
                      else (case reprice n c (sg_spends g1) of
                          None \<Rightarrow> g1
                        | Some es \<Rightarrow> snd (persist wr (g1\<lparr>sg_spends := es\<rparr>)))
           | _ \<Rightarrow> g1))"

definition release :: "write_result \<Rightarrow> nat option \<Rightarrow> guard \<Rightarrow> guard" where
  "release wr tok g =
     (case tok of
        None \<Rightarrow> g
      | Some n \<Rightarrow>
          (case map_of (sg_tokens g) n of
             None \<Rightarrow> g
           | Some tk \<Rightarrow>
               if tk_settled tk then g
               else snd (persist wr ((settle n g)\<lparr>sg_spends := drop_reservation n (sg_spends g),
                                                  sg_ceiling := ceiling_release (tk_handle tk) (sg_ceiling g)\<rparr>))))"

end
