(* ===== verification/Spend_Safety.thy ===== *)
theory Spend_Safety
  imports Spend_Guard
begin

text \<open>
  Runs of a spend guard: any interleaving of its operations by concurrent senders, with a clock
  that does not run backwards, any outcome of every file write and any price a settlement names, above the
  reserved one or below it. The run keeps two logs of the authorised spends that were not released: \<open>sr_log\<close> at the
  price last given (the reservation's, or the last settlement's) and \<open>sr_floor\<close> at the lowest price ever given. They
  are the same log in a run whose settlements never raise a price. The logs are the specification: a grant
  fits the budget at the last prices, no rolling window of the floor exceeds the budget, and a restart at any
  moment gives none of the floor back.
\<close>

section \<open>Runs\<close>

record srun =
  sr_guard :: guard
  sr_now :: rat
  sr_log :: "spend list"
  sr_floor :: "spend list"

definition log_reprice :: "nat option \<Rightarrow> jsval \<Rightarrow> spend list \<Rightarrow> spend list" where
  "log_reprice tok actual es =
     (case (tok, js_Number actual) of
        (Some n, Fin c) \<Rightarrow> if c \<le> 0 then es else (case reprice n c es of None \<Rightarrow> es | Some fs \<Rightarrow> fs)
      | _ \<Rightarrow> es)"

definition log_lower :: "nat option \<Rightarrow> jsval \<Rightarrow> spend list \<Rightarrow> spend list" where
  "log_lower tok actual es =
     (case (tok, js_Number actual) of
        (Some n, Fin c) \<Rightarrow> if c \<le> 0 then es else map (\<lambda>e. if sp_res e = Some n then e\<lparr>sp_cost := min c (sp_cost e)\<rparr> else e) es
      | _ \<Rightarrow> es)"

definition log_grant :: "nat option \<Rightarrow> rat \<Rightarrow> rat \<Rightarrow> spend list \<Rightarrow> spend list" where
  "log_grant tok now k es = (case tok of None \<Rightarrow> es | Some n \<Rightarrow> es @ [\<lparr>sp_t = now, sp_cost = k, sp_res = Some n\<rparr>])"

definition live_token :: "nat option \<Rightarrow> guard \<Rightarrow> bool" where
  "live_token tok g = (case tok of None \<Rightarrow> False | Some n \<Rightarrow> (case map_of (sg_tokens g) n of None \<Rightarrow> False | Some tk \<Rightarrow> \<not> tk_settled tk))"

inductive spend_step :: "srun \<Rightarrow> srun \<Rightarrow> bool" where
  do_reserve: "\<lbrakk>sr_now s \<le> now; reserve now wr cost (sr_guard s) = (tok, g)\<rbrakk> \<Longrightarrow>
     spend_step s \<lparr>sr_guard = g, sr_now = now, sr_log = log_grant tok now (computeCost cost (sr_guard s)) (sr_log s),
       sr_floor = log_grant tok now (computeCost cost (sr_guard s)) (sr_floor s)\<rparr>"
| do_commit: "sr_now s \<le> now \<Longrightarrow>
     spend_step s \<lparr>sr_guard = commit wr tok actual (sr_guard s), sr_now = now, sr_log = log_reprice tok actual (sr_log s),
       sr_floor = log_lower tok actual (sr_floor s)\<rparr>"
| do_release: "sr_now s \<le> now \<Longrightarrow>
     spend_step s \<lparr>sr_guard = release wr tok (sr_guard s), sr_now = now,
       sr_log = (if live_token tok (sr_guard s) then drop_reservation (the tok) (sr_log s) else sr_log s),
       sr_floor = (if live_token tok (sr_guard s) then drop_reservation (the tok) (sr_floor s) else sr_floor s)\<rparr>"
| do_check: "\<lbrakk>sr_now s \<le> now; check now wr balance cost (sr_guard s) = (r, g)\<rbrakk> \<Longrightarrow> spend_step s (s\<lparr>sr_guard := g, sr_now := now\<rparr>)"
| do_allow: "\<lbrakk>sr_now s \<le> now; allow now wr cost (sr_guard s) = (b, g)\<rbrakk> \<Longrightarrow> spend_step s (s\<lparr>sr_guard := g, sr_now := now\<rparr>)"
| do_record: "sr_now s \<le> now \<Longrightarrow> spend_step s (s\<lparr>sr_guard := record_spend now wr cost (sr_guard s), sr_now := now\<rparr>)"
| do_pause: "sr_now s \<le> now \<Longrightarrow> spend_step s (s\<lparr>sr_guard := snd (pause reason wr (sr_guard s)), sr_now := now\<rparr>)"
| do_resume: "sr_now s \<le> now \<Longrightarrow> spend_step s (s\<lparr>sr_guard := snd (resume wr (sr_guard s)), sr_now := now\<rparr>)"

text \<open>A process from its start: the configured guard, armed with its store.\<close>

definition spend_start :: "settings \<Rightarrow> settings \<Rightarrow> string \<Rightarrow> store_file \<Rightarrow> rat \<Rightarrow> access list \<Rightarrow> write_result \<Rightarrow> srun" where
  "spend_start env cfg prefix file now dirs wr =
     \<lparr>sr_guard = persistTo now dirs wr (new_SpendGuard env cfg prefix file), sr_now = now, sr_log = [], sr_floor = []\<rparr>"

section \<open>Sums of spends\<close>

definition cost_ok :: "spend list \<Rightarrow> bool" where
  "cost_ok es \<longleftrightarrow> (\<forall>e \<in> set es. 0 \<le> sp_cost e)"

lemma spent_simps [simp]: "spent [] = 0" "spent (e # es) = sp_cost e + spent es" "spent (es @ fs) = spent es + spent fs"
  by (simp_all add: spent_def)

lemma cost_ok_simps [simp]: "cost_ok []" "cost_ok (e # es) \<longleftrightarrow> 0 \<le> sp_cost e \<and> cost_ok es" "cost_ok (es @ fs) \<longleftrightarrow> cost_ok es \<and> cost_ok fs"
  by (auto simp: cost_ok_def)

lemma cost_ok_subset: "cost_ok es \<Longrightarrow> set fs \<subseteq> set es \<Longrightarrow> cost_ok fs"
  by (auto simp: cost_ok_def)

lemma spent_filter_mono: "cost_ok es \<Longrightarrow> (\<And>e. e \<in> set es \<Longrightarrow> P e \<Longrightarrow> Q e) \<Longrightarrow> spent (filter P es) \<le> spent (filter Q es)"
  by (induction es) auto

lemma spent_filter_le: "cost_ok es \<Longrightarrow> spent (filter P es) \<le> spent es"
  using spent_filter_mono [of es P "\<lambda>e. True"] by simp

lemma spent_nonneg: "cost_ok es \<Longrightarrow> 0 \<le> spent es"
  by (induction es) auto

lemma spent_mset: "mset es = mset fs \<Longrightarrow> spent es = spent fs"
  unfolding spent_def by (metis mset_map sum_mset_sum_list)

definition reserved :: "spend list \<Rightarrow> spend list" where
  "reserved es = filter (\<lambda>e. sp_res e \<noteq> None) es"

lemma reserved_simps [simp]: "reserved [] = []" "reserved (e # es) = (if sp_res e = None then reserved es else e # reserved es)"
    "reserved (es @ fs) = reserved es @ reserved fs"
  by (simp_all add: reserved_def)

lemma reserved_drop [simp]: "reserved (drop_reservation n es) = drop_reservation n (reserved es)"
  by (induction es) (auto simp: drop_reservation_def)

text \<open>Re-pricing in place; an unknown reservation changes nothing.\<close>

definition repriced :: "nat \<Rightarrow> rat \<Rightarrow> spend list \<Rightarrow> spend list" where
  "repriced n c es = (case reprice n c es of None \<Rightarrow> es | Some fs \<Rightarrow> fs)"

lemma repriced_simps [simp]: "repriced n c [] = []"
    "repriced n c (e # es) = (if sp_res e = Some n then e\<lparr>sp_cost := c\<rparr> # es else e # repriced n c es)"
  by (auto simp: repriced_def split: option.split)

lemma repriced_id: "\<forall>e \<in> set es. sp_res e \<noteq> Some n \<Longrightarrow> repriced n c es = es"
  by (induction es) auto

lemma reserved_repriced [simp]: "reserved (repriced n c es) = repriced n c (reserved es)"
  by (induction es) auto

lemma repriced_same [simp]: "map sp_t (repriced n c es) = map sp_t es" "map sp_res (repriced n c es) = map sp_res es"
  by (induction es) auto

lemma repriced_append: "distinct (map sp_res (es @ fs)) \<Longrightarrow> repriced n c (es @ fs) = repriced n c es @ repriced n c fs"
proof (induction es)
  case (Cons e es)
  then have "sp_res e = Some n \<Longrightarrow> \<forall>x \<in> set fs. sp_res x \<noteq> Some n"
    by force
  then show ?case
    using Cons by (auto simp: repriced_id)
qed simp

lemma cost_ok_repriced: "cost_ok es \<Longrightarrow> 0 \<le> c \<Longrightarrow> cost_ok (repriced n c es)"
  by (induction es) auto

lemma spent_filter_repriced:
  assumes "\<forall>e \<in> set es. sp_res e = Some n \<longrightarrow> c \<le> sp_cost e" and "\<And>e c. P (e\<lparr>sp_cost := c\<rparr>) = P e"
  shows "spent (filter P (repriced n c es)) \<le> spent (filter P es)"
  using assms by (induction es) auto

text \<open>The same spends in the same order, at prices no higher.\<close>

definition below :: "spend list \<Rightarrow> spend list \<Rightarrow> bool" where
  "below fl lg \<longleftrightarrow> list_all2 (\<lambda>f e. sp_t f = sp_t e \<and> sp_res f = sp_res e \<and> 0 \<le> sp_cost f \<and> sp_cost f \<le> sp_cost e) fl lg"

lemma below_simps [simp]: "below [] []" "below (f # fs) (e # es) \<longleftrightarrow>
    sp_t f = sp_t e \<and> sp_res f = sp_res e \<and> 0 \<le> sp_cost f \<and> sp_cost f \<le> sp_cost e \<and> below fs es"
  by (auto simp: below_def)

lemma below_refl: "cost_ok es \<Longrightarrow> below es es"
  by (auto simp: below_def cost_ok_def list_all2_same)

lemma below_snoc: "below fl lg \<Longrightarrow> 0 \<le> sp_cost e \<Longrightarrow> below (fl @ [e]) (lg @ [e])"
  by (auto simp: below_def intro: list_all2_appendI)

lemma below_induct [consumes 1, case_names nil cons]:
  assumes "below fl lg" and "P [] []"
    and "\<And>f fs e es. sp_t f = sp_t e \<Longrightarrow> sp_res f = sp_res e \<Longrightarrow> 0 \<le> sp_cost f \<Longrightarrow> sp_cost f \<le> sp_cost e \<Longrightarrow> below fs es \<Longrightarrow> P fs es \<Longrightarrow> P (f # fs) (e # es)"
  shows "P fl lg"
  using assms(1) unfolding below_def
  by (induction rule: list_all2_induct) (use assms(2, 3) in \<open>auto simp: below_def\<close>)

lemma below_spent:
  assumes "below fl lg" and "\<And>f e :: spend. sp_t f = sp_t e \<Longrightarrow> P f = P e"
  shows "spent (filter P fl) \<le> spent (filter P lg)"
  using assms(1)
proof (induction rule: below_induct)
  case (cons f fs e es)
  then show ?case
    using assms(2) [OF cons(1)] by simp
qed simp

lemma below_drop: "below fl lg \<Longrightarrow> below (drop_reservation n fl) (drop_reservation n lg)"
  by (induction rule: below_induct) (auto simp: drop_reservation_def)

lemma below_cost_ok: "below fl lg \<Longrightarrow> cost_ok fl"
  by (induction rule: below_induct) simp_all

lemma below_keys: "below fl lg \<Longrightarrow> map sp_t fl = map sp_t lg" "below fl lg \<Longrightarrow> map sp_res fl = map sp_res lg"
  by (induction rule: below_induct) simp_all

definition lowered :: "nat \<Rightarrow> rat \<Rightarrow> spend list \<Rightarrow> spend list" where
  "lowered n c es = map (\<lambda>e. if sp_res e = Some n then e\<lparr>sp_cost := min c (sp_cost e)\<rparr> else e) es"

lemma below_reprice:
  "below fl lg \<Longrightarrow> distinct (map sp_res lg) \<Longrightarrow> 0 \<le> c \<Longrightarrow> below (lowered n c fl) (repriced n c lg)"
proof (induction rule: below_induct)
  case (cons f fs e es)
  have "lowered n c fs = fs" "repriced n c es = es" if "sp_res e = Some n"
  proof -
    have "\<forall>x \<in> set es. sp_res x \<noteq> Some n"
      using cons.prems(1) that by force
    moreover from this have "\<forall>x \<in> set fs. sp_res x \<noteq> Some n"
      using below_keys(2) [OF cons.hyps(5)] by (metis (no_types) image_iff list.set_map)
    ultimately show "lowered n c fs = fs" "repriced n c es = es"
      by (auto simp: lowered_def repriced_id intro: map_idI)
  qed
  then show ?case
    using cons by (auto simp: lowered_def)
qed (simp add: lowered_def)

lemma lowered_spent: "(\<And>f e :: spend. sp_t f = sp_t e \<Longrightarrow> P f = P e) \<Longrightarrow> spent (filter P (lowered n c fl)) \<le> spent (filter P fl)"
proof -
  assume P: "\<And>f e :: spend. sp_t f = sp_t e \<Longrightarrow> P f = P e"
  have "P (e\<lparr>sp_cost := x\<rparr>) = P e" for e x
    by (rule P) simp
  then show ?thesis
    by (induction fl) (auto simp: lowered_def)
qed

lemma set_drop_reservation: "set (drop_reservation n es) \<subseteq> set es"
  unfolding drop_reservation_def by (rule set_remove_first)

lemma cost_ok_drop: "cost_ok es \<Longrightarrow> cost_ok (drop_reservation n es)"
  using cost_ok_subset set_drop_reservation by blast

lemma spent_filter_drop: "cost_ok es \<Longrightarrow> spent (filter P (drop_reservation n es)) \<le> spent (filter P es)"
  by (induction es) (auto simp: drop_reservation_def)

lemma ids_append_drop:
  "distinct (map sp_res (es @ fs)) \<Longrightarrow> drop_reservation n (es @ fs) = drop_reservation n es @ drop_reservation n fs"
proof (induction es)
  case (Cons e es)
  then have "sp_res e = Some n \<Longrightarrow> \<forall>x \<in> set fs. sp_res x \<noteq> Some n"
    by force
  then show ?case
    using Cons by (auto simp: drop_reservation_def remove_first_id)
qed (simp add: drop_reservation_def)

section \<open>The store\<close>

text \<open>What the rows of a saved state stand for when they are folded back in, before the window cuts them off.\<close>

definition saved_rows :: "int \<Rightarrow> saved \<Rightarrow> spend list" where
  "saved_rows est s = List.map_filter (\<lambda>(t, c). case t of
       Fin q \<Rightarrow> Some \<lparr>sp_t = q, sp_cost = (case c of Fin k \<Rightarrow> if 0 < k then k else of_int est | _ \<Rightarrow> of_int est), sp_res = None\<rparr>
     | _ \<Rightarrow> None) (sv_spends s)"

lemma spent_restored:
  "spent (List.map_filter (restore_row now g) (sv_spends s)) =
   spent (filter (\<lambda>e. now - of_int (sg_window g) < sp_t e) (saved_rows (sg_est g) s))"
proof -
  have "spent (List.map_filter (restore_row now g) rows) = spent (filter (\<lambda>e. now - of_int (sg_window g) < sp_t e)
      (List.map_filter (\<lambda>(t, c). case t of
         Fin q \<Rightarrow> Some \<lparr>sp_t = q, sp_cost = (case c of Fin k \<Rightarrow> if 0 < k then k else of_int (sg_est g) | _ \<Rightarrow> of_int (sg_est g)), sp_res = None\<rparr>
       | _ \<Rightarrow> None) rows))" for rows
    by (induction rows) (auto simp: List.map_filter_simps restore_row_def split: jsnum.splits)
  then show ?thesis
    by (simp add: saved_rows_def)
qed

lemma saved_rows_cover:
  assumes "cost_ok (sg_spends g)" and "0 \<le> est"
  shows "spent (filter (\<lambda>e. X < sp_t e) (sg_spends g)) \<le> spent (filter (\<lambda>e. X < sp_t e) (saved_rows est (saved_of g)))"
proof -
  have "cost_ok es \<Longrightarrow> spent (filter (\<lambda>e. X < sp_t e) es) \<le> spent (filter (\<lambda>e. X < sp_t e)
      (List.map_filter (\<lambda>(t, c). case t of
         Fin q \<Rightarrow> Some \<lparr>sp_t = q, sp_cost = (case c of Fin k \<Rightarrow> if 0 < k then k else of_int est | _ \<Rightarrow> of_int est), sp_res = None\<rparr>
       | _ \<Rightarrow> None) (map (\<lambda>e. (Fin (sp_t e), Fin (sp_cost e))) es)))" for es
    using assms(2) by (induction es) (auto simp: List.map_filter_simps)
  then show ?thesis
    using assms(1) by (simp add: saved_rows_def saved_of_def)
qed

section \<open>The invariant\<close>

definition guard_ok :: "guard \<Rightarrow> bool" where
  "guard_ok g \<longleftrightarrow> 0 < sg_window g \<and> 0 < sg_max g \<and> sg_max g \<le> HARD_CAP_USD_CENTS \<and> 0 < sg_est g \<and> sg_armed g \<and> cost_ok (sg_spends g)"

definition in_window :: "rat \<Rightarrow> rat \<Rightarrow> spend \<Rightarrow> bool" where
  "in_window W T e \<longleftrightarrow> T - W < sp_t e \<and> sp_t e \<le> T"

text \<open>What the store file keeps for a restart.\<close>

definition covers :: "guard \<Rightarrow> rat \<Rightarrow> spend list \<Rightarrow> bool" where
  "covers g now fl \<longleftrightarrow> (sg_file g = NoFile \<longrightarrow> fl = []) \<and>
     (\<forall>s X. sg_file g = Saved s \<and> now - of_int (sg_window g) \<le> X \<longrightarrow>
        spent (filter (\<lambda>e. X < sp_t e) fl) \<le> spent (filter (\<lambda>e. X < sp_t e) (saved_rows (sg_est g) s)))"

text \<open>The guard holds the log, up to what its window has dropped; the budget bounds every window of the floor.\<close>

definition log_ok :: "guard \<Rightarrow> rat \<Rightarrow> spend list \<Rightarrow> bool" where
  "log_ok g now lg \<longleftrightarrow> cost_ok lg \<and> (\<forall>e \<in> set lg. sp_t e \<le> now) \<and> distinct (map sp_res lg) \<and> (\<forall>e \<in> set lg. \<exists>n \<le> sg_seq g. sp_res e = Some n) \<and>
     (\<exists>pre. lg = pre @ reserved (sg_spends g) \<and> (\<forall>e \<in> set pre. sp_t e \<le> now - of_int (sg_window g)))"

definition budgeted :: "guard \<Rightarrow> spend list \<Rightarrow> bool" where
  "budgeted g fl \<longleftrightarrow> (\<forall>T. spent (filter (in_window (of_int (sg_window g)) T) fl) \<le> of_int (sg_max g))"

definition linv :: "guard \<Rightarrow> rat \<Rightarrow> spend list \<Rightarrow> spend list \<Rightarrow> bool" where
  "linv g now fl lg \<longleftrightarrow> guard_ok g \<and> log_ok g now lg \<and> below fl lg \<and> budgeted g fl \<and> covers g now fl"

lemma linv_cong:
  assumes "linv g now fl lg" and "sg_window g' = sg_window g" "sg_max g' = sg_max g" "sg_est g' = sg_est g" "sg_armed g' = sg_armed g"
    "sg_seq g' = sg_seq g" "sg_spends g' = sg_spends g" "sg_file g' = sg_file g"
  shows "linv g' now fl lg"
  using assms(1) unfolding linv_def guard_ok_def log_ok_def covers_def budgeted_def assms(2-8) .

lemma log_okE:
  assumes "log_ok g now lg"
  obtains pre where "cost_ok lg" "\<forall>e \<in> set lg. sp_t e \<le> now" "distinct (map sp_res lg)" "\<forall>e \<in> set lg. \<exists>n \<le> sg_seq g. sp_res e = Some n"
    "lg = pre @ reserved (sg_spends g)" "\<forall>e \<in> set pre. sp_t e \<le> now - of_int (sg_window g)"
  using assms unfolding log_ok_def by blast

lemma log_okI:
  assumes "cost_ok lg" "\<forall>e \<in> set lg. sp_t e \<le> now" "distinct (map sp_res lg)" "\<forall>e \<in> set lg. \<exists>n \<le> sg_seq g. sp_res e = Some n"
    "lg = pre @ reserved (sg_spends g)" "\<forall>e \<in> set pre. sp_t e \<le> now - of_int (sg_window g)"
  shows "log_ok g now lg"
  unfolding log_ok_def using assms by blast

text \<open>The log inside the current window is held by the guard.\<close>

lemma log_live:
  assumes "cost_ok (sg_spends g)" and "log_ok g now lg" and "now - of_int (sg_window g) \<le> X"
  shows "spent (filter (\<lambda>e. X < sp_t e) lg) \<le> spent (filter (\<lambda>e. X < sp_t e) (sg_spends g))"
proof -
  obtain pre where lg: "lg = pre @ reserved (sg_spends g)" "\<forall>e \<in> set pre. sp_t e \<le> now - of_int (sg_window g)"
    using assms(2) by (rule log_okE)
  have "filter (\<lambda>e. X < sp_t e) lg = filter (\<lambda>e. sp_res e \<noteq> None \<and> X < sp_t e) (sg_spends g)"
    using lg(2) assms(3) by (auto simp: lg(1) reserved_def filter_empty_conv conj_commute)
  also have "spent \<dots> \<le> spent (filter (\<lambda>e. X < sp_t e) (sg_spends g))"
    using assms(1) by (rule spent_filter_mono) simp
  finally show ?thesis .
qed

lemma linv_time:
  assumes "linv g now fl lg" and "now \<le> now'"
  shows "linv g now' fl lg"
proof -
  have log: "log_ok g now lg"
    using assms(1) by (simp add: linv_def)
  obtain pre where pre: "lg = pre @ reserved (sg_spends g)" "\<forall>e \<in> set pre. sp_t e \<le> now - of_int (sg_window g)"
    and le: "\<forall>e \<in> set lg. sp_t e \<le> now"
    using log by (rule log_okE)
  have "\<forall>e \<in> set pre. sp_t e \<le> now' - of_int (sg_window g)" "\<forall>e \<in> set lg. sp_t e \<le> now'"
    using pre(2) le assms(2) by force+
  then have "log_ok g now' lg"
    using log pre(1) unfolding log_ok_def by blast
  moreover have "covers g now' fl"
    using assms by (auto simp: linv_def covers_def)
  ultimately show ?thesis
    using assms(1) by (simp add: linv_def)
qed

lemma linv_prune:
  assumes "linv g now fl lg"
  shows "linv (guard_prune now g) now fl lg"
proof -
  let ?D = "\<lambda>e. sp_t e \<le> now - of_int (sg_window g)"
  obtain pre where lg: "lg = pre @ reserved (sg_spends g)" "\<forall>e \<in> set pre. ?D e"
    using assms by (auto simp: linv_def log_ok_def)
  have "sg_spends g = takeWhile ?D (sg_spends g) @ dropWhile ?D (sg_spends g)"
    by simp
  then have "reserved (sg_spends g) = reserved (takeWhile ?D (sg_spends g)) @ reserved (dropWhile ?D (sg_spends g))"
    by (metis reserved_simps(3))
  moreover have "\<forall>e \<in> set (reserved (takeWhile ?D (sg_spends g))). ?D e"
    by (auto simp: reserved_def dest: set_takeWhileD)
  ultimately have "\<exists>pre. lg = pre @ reserved (dropWhile ?D (sg_spends g)) \<and> (\<forall>e \<in> set pre. ?D e)"
    using lg by (intro exI [of _ "pre @ reserved (takeWhile ?D (sg_spends g))"]) auto
  moreover have "cost_ok (sg_spends g) \<Longrightarrow> cost_ok (dropWhile ?D (sg_spends g))"
    by (auto simp: cost_ok_def dest: set_dropWhileD)
  ultimately show ?thesis
    using assms unfolding linv_def guard_ok_def log_ok_def guard_prune_def covers_def budgeted_def by simp
qed

text \<open>The file after a write: the state of the guard, the old content, or a truncated text.\<close>

lemma written_linv:
  assumes "guard_ok g" and "log_ok g now lg" and "below fl lg" and "budgeted g fl"
  shows "linv (g\<lparr>sg_broken := False, sg_file := Saved (saved_of g)\<rparr>) now fl lg"
proof -
  have ok: "cost_ok (sg_spends g)" "0 \<le> sg_est g"
    using assms(1) by (auto simp: guard_ok_def)
  have "spent (filter (\<lambda>e. X < sp_t e) fl) \<le> spent (filter (\<lambda>e. X < sp_t e) (saved_rows (sg_est g) (saved_of g)))"
    if "now - of_int (sg_window g) \<le> X" for X
  proof -
    have "spent (filter (\<lambda>e. X < sp_t e) fl) \<le> spent (filter (\<lambda>e. X < sp_t e) lg)"
      using assms(3) by (rule below_spent) simp
    also have "\<dots> \<le> spent (filter (\<lambda>e. X < sp_t e) (sg_spends g))"
      using ok(1) assms(2) that by (rule log_live)
    also have "\<dots> \<le> spent (filter (\<lambda>e. X < sp_t e) (saved_rows (sg_est g) (saved_of g)))"
      using ok by (rule saved_rows_cover)
    finally show ?thesis .
  qed
  then show ?thesis
    using assms by (simp add: linv_def guard_ok_def log_ok_def covers_def budgeted_def)
qed

lemma linv_persist:
  assumes "linv g now fl lg" and "persist wr g = (b, g')"
  shows "linv g' now fl lg"
proof -
  have "linv (g\<lparr>sg_broken := False, sg_file := Saved (saved_of g)\<rparr>) now fl lg"
    using assms(1) by (intro written_linv) (simp_all add: linv_def)
  moreover have "linv (g\<lparr>sg_broken := True\<rparr>) now fl lg" "linv (g\<lparr>sg_broken := True, sg_file := BadJson\<rparr>) now fl lg"
    using assms(1) by (simp_all add: linv_def guard_ok_def log_ok_def covers_def budgeted_def)
  ultimately show ?thesis
    using assms by (auto simp: persist_def split: if_splits write_result.splits)
qed

section \<open>Granting, releasing, settling\<close>

lemma log_ok_grant:
  assumes lg: "log_ok g now lg" and k: "0 \<le> k"
    and e: "e = \<lparr>sp_t = now, sp_cost = k, sp_res = Some (Suc (sg_seq g))\<rparr>"
    and g': "sg_window g' = sg_window g" "sg_seq g' = Suc (sg_seq g)" "sg_spends g' = sg_spends g @ [e]"
  shows "log_ok g' now (lg @ [e])"
proof -
  obtain pre where a: "cost_ok lg" "\<forall>e \<in> set lg. sp_t e \<le> now" "distinct (map sp_res lg)" "\<forall>e \<in> set lg. \<exists>n \<le> sg_seq g. sp_res e = Some n"
      "lg = pre @ reserved (sg_spends g)" "\<forall>e \<in> set pre. sp_t e \<le> now - of_int (sg_window g)"
    using lg by (rule log_okE)
  have new: "sp_res e \<notin> sp_res ` set lg"
    using a(4) by (auto simp: e)
  have "\<forall>x \<in> set (lg @ [e]). \<exists>n \<le> sg_seq g'. sp_res x = Some n"
    using a(4) by (auto simp: e g' intro: le_SucI)
  moreover have "lg @ [e] = pre @ reserved (sg_spends g')"
    by (simp add: a(5) g' e)
  moreover have "cost_ok (lg @ [e])" "\<forall>x \<in> set (lg @ [e]). sp_t x \<le> now" "distinct (map sp_res (lg @ [e]))"
    using a(1-3) k(1) new by (auto simp: e)
  ultimately show ?thesis
    using a(6) by (intro log_okI [where pre = pre]) (simp_all only: g'(1) simp_thms)
qed

text \<open>What a window that ends now or later holds is what the guard counted when it granted.\<close>

lemma window_counted:
  assumes ok: "cost_ok (sg_spends g)" "log_ok g now lg" and T: "now \<le> T"
  shows "spent (filter (in_window (of_int (sg_window g)) T) lg) \<le> spent (sg_spends g)"
proof -
  have "spent (filter (in_window (of_int (sg_window g)) T) lg) \<le> spent (filter (\<lambda>e. T - of_int (sg_window g) < sp_t e) lg)"
    using ok(2) by (intro spent_filter_mono) (auto simp: log_ok_def in_window_def)
  also have "\<dots> \<le> spent (filter (\<lambda>e. T - of_int (sg_window g) < sp_t e) (sg_spends g))"
    using ok T by (intro log_live) simp_all
  also have "\<dots> \<le> spent (sg_spends g)"
    using ok(1) by (rule spent_filter_le)
  finally show ?thesis .
qed

lemma budgeted_grant:
  assumes ok: "cost_ok (sg_spends g)" and lg: "log_ok g now lg" and b: "below fl lg" "budgeted g fl"
    and k: "spent (sg_spends g) + k \<le> of_int (sg_max g)" and e: "sp_t e = now" "sp_cost e = k"
    and g': "sg_window g' = sg_window g" "sg_max g' = sg_max g"
  shows "budgeted g' (fl @ [e])"
  unfolding budgeted_def g'
proof
  fix T
  let ?W = "of_int (sg_window g) :: rat"
  show "spent (filter (in_window ?W T) (fl @ [e])) \<le> of_int (sg_max g)"
  proof (cases "in_window ?W T e")
    case True
    then have "now \<le> T"
      by (simp add: in_window_def e)
    have "spent (filter (in_window ?W T) fl) \<le> spent (filter (in_window ?W T) lg)"
      using b(1) by (rule below_spent) (simp add: in_window_def)
    also have "\<dots> \<le> spent (sg_spends g)"
      using ok lg \<open>now \<le> T\<close> by (rule window_counted)
    finally show ?thesis
      using k True by (simp add: e(2))
  next
    case False
    then show ?thesis
      using b(2) by (simp add: budgeted_def)
  qed
qed

text \<open>An operation that drops spends from the logs or gives them other prices, together with the spends the log ends with.\<close>

lemma linv_edit:
  assumes inv: "linv g now fl lg" and ok: "cost_ok es" "cost_ok lg'" "distinct (map sp_res lg')" "below fl' lg'"
    and same: "\<forall>e \<in> set lg'. \<exists>x \<in> set lg. sp_t e = sp_t x \<and> sp_res e = sp_res x"
    and suffix: "\<And>pre. lg = pre @ reserved (sg_spends g) \<Longrightarrow> \<exists>pre'. lg' = pre' @ reserved es \<and> (\<forall>e \<in> set pre'. \<exists>x \<in> set pre. sp_t e = sp_t x)"
    and less: "\<And>P. (\<And>f e :: spend. sp_t f = sp_t e \<Longrightarrow> P f = P e) \<Longrightarrow> spent (filter P fl') \<le> spent (filter P fl)"
  shows "linv (g\<lparr>sg_spends := es\<rparr>) now fl' lg'"
proof -
  let ?W = "of_int (sg_window g) :: rat"
  have lg: "log_ok g now lg" and cov: "covers g now fl" and bud: "budgeted g fl" and bel: "below fl lg"
    using inv by (auto simp: linv_def)
  obtain pre where a: "\<forall>e \<in> set lg. sp_t e \<le> now" "\<forall>e \<in> set lg. \<exists>n \<le> sg_seq g. sp_res e = Some n"
      "lg = pre @ reserved (sg_spends g)" "\<forall>e \<in> set pre. sp_t e \<le> now - ?W"
    using lg by (rule log_okE)
  obtain pre' where p: "lg' = pre' @ reserved es" "\<forall>e \<in> set pre'. \<exists>x \<in> set pre. sp_t e = sp_t x"
    using suffix [OF a(3)] by blast
  have "log_ok (g\<lparr>sg_spends := es\<rparr>) now lg'"
  proof (rule log_okI [where pre = pre'])
    show "\<forall>e \<in> set lg'. sp_t e \<le> now"
      using same a(1) by force
    show "\<forall>e \<in> set lg'. \<exists>n \<le> sg_seq (g\<lparr>sg_spends := es\<rparr>). sp_res e = Some n"
      using same a(2) by force
    show "\<forall>e \<in> set pre'. sp_t e \<le> now - of_int (sg_window (g\<lparr>sg_spends := es\<rparr>))"
      using p(2) a(4) by force
  qed (use ok p(1) in simp_all)
  moreover have "budgeted (g\<lparr>sg_spends := es\<rparr>) fl'"
    using bud less [of "in_window ?W _"] by (auto simp: budgeted_def in_window_def intro: order_trans)
  moreover have "covers (g\<lparr>sg_spends := es\<rparr>) now fl'"
  proof -
    have "fl' = []" if "fl = []"
    proof -
      have "lg = []"
        using below_keys(1) [OF bel] that by simp
      then have "lg' = []"
        using same by (cases lg') auto
      then show ?thesis
        using below_keys(1) [OF ok(4)] by simp
    qed
    then show ?thesis
      using cov less [of "\<lambda>e. _ < sp_t e"] by (fastforce simp: covers_def intro: order_trans)
  qed
  ultimately show ?thesis
    using inv ok(1, 4) by (simp add: linv_def guard_ok_def)
qed

lemma distinct_drop: "distinct (map sp_res es) \<Longrightarrow> distinct (map sp_res (drop_reservation n es))"
  unfolding drop_reservation_def by (induction es) (auto dest: set_remove_first [THEN subsetD])

lemma linv_release:
  assumes inv: "linv g now fl lg"
  shows "linv (g\<lparr>sg_spends := drop_reservation n (sg_spends g)\<rparr>) now (drop_reservation n fl) (drop_reservation n lg)"
proof -
  have ok: "cost_ok (sg_spends g)" "cost_ok lg" "distinct (map sp_res lg)" "below fl lg"
    using inv by (auto simp: linv_def guard_ok_def log_ok_def)
  show ?thesis
  proof (rule linv_edit [OF inv cost_ok_drop [OF ok(1)] cost_ok_drop [OF ok(2)] distinct_drop [OF ok(3)] below_drop [OF ok(4)]])
    show "\<forall>e \<in> set (drop_reservation n lg). \<exists>x \<in> set lg. sp_t e = sp_t x \<and> sp_res e = sp_res x"
      using set_drop_reservation by blast
    show "\<exists>pre'. drop_reservation n lg = pre' @ reserved (drop_reservation n (sg_spends g)) \<and> (\<forall>e \<in> set pre'. \<exists>x \<in> set pre. sp_t e = sp_t x)"
      if "lg = pre @ reserved (sg_spends g)" for pre
      using ids_append_drop [of pre "reserved (sg_spends g)" n] ok(3) set_drop_reservation that
      by (intro exI [of _ "drop_reservation n pre"]) (simp, blast)
  qed (rule spent_filter_drop [OF below_cost_ok [OF ok(4)]])
qed

lemma linv_reprice:
  assumes inv: "linv g now fl lg" and c: "0 \<le> c"
  shows "linv (g\<lparr>sg_spends := repriced n c (sg_spends g)\<rparr>) now (lowered n c fl) (repriced n c lg)"
proof -
  have ok: "cost_ok (sg_spends g)" "cost_ok lg" "distinct (map sp_res lg)" "below fl lg"
    using inv by (auto simp: linv_def guard_ok_def log_ok_def)
  have same: "\<forall>e \<in> set (repriced n c es). \<exists>x \<in> set es. sp_t e = sp_t x \<and> sp_res e = sp_res x" for es
    by (induction es) auto
  show ?thesis
  proof (rule linv_edit [OF inv cost_ok_repriced [OF ok(1) c(1)] cost_ok_repriced [OF ok(2) c(1)] _ below_reprice [OF ok(4, 3) c] same])
    show "distinct (map sp_res (repriced n c lg))"
      using ok(3) by simp
    show "\<exists>pre'. repriced n c lg = pre' @ reserved (repriced n c (sg_spends g)) \<and> (\<forall>e \<in> set pre'. \<exists>x \<in> set pre. sp_t e = sp_t x)"
      if "lg = pre @ reserved (sg_spends g)" for pre
      using repriced_append [of pre "reserved (sg_spends g)" n c] ok(3) same [of pre] that
      by (intro exI [of _ "repriced n c pre"]) (simp, blast)
  qed (rule lowered_spent)
qed

lemma linv_unlogged:
  assumes "linv g now fl lg" and "0 \<le> sp_cost e" and "sp_res e = None"
  shows "linv (g\<lparr>sg_spends := sg_spends g @ [e]\<rparr>) now fl lg"
  using assms unfolding linv_def guard_ok_def log_ok_def covers_def budgeted_def by simp

section \<open>Every operation keeps the invariant\<close>

lemma computeCost_nonneg: "guard_ok g \<Longrightarrow> 0 \<le> computeCost cost g"
  by (auto simp: computeCost_def guard_ok_def split: jsnum.split)

lemma computeCost_est: "sg_est g' = sg_est g \<Longrightarrow> computeCost cost g' = computeCost cost g"
  unfolding computeCost_def by (simp only:)

lemma guard_prune_fields [simp]:
  "sg_window (guard_prune now g) = sg_window g" "sg_max (guard_prune now g) = sg_max g" "sg_est (guard_prune now g) = sg_est g"
  "sg_seq (guard_prune now g) = sg_seq g" "sg_armed (guard_prune now g) = sg_armed g" "sg_file (guard_prune now g) = sg_file g"
  by (simp_all add: guard_prune_def)

lemma linv_ceiling: "linv g now fl lg \<Longrightarrow> linv (g\<lparr>sg_ceiling := c\<rparr>) now fl lg"
  by (erule linv_cong) simp_all

text \<open>The part of \<open>reserve\<close> after its gates: consume the budget and write it down, or roll back.\<close>

lemma linv_grant:
  assumes inv: "linv g now fl lg" and k: "k = computeCost cost g" "spent (sg_spends g) + k \<le> of_int (sg_max g)"
    and g2: "g2 = g\<lparr>sg_seq := Suc (sg_seq g), sg_ceiling := c, sg_spends := sg_spends g @ [e]\<rparr>"
    and e: "e = \<lparr>sp_t = now, sp_cost = k, sp_res = Some (Suc (sg_seq g))\<rparr>"
  shows "linv (g2\<lparr>sg_broken := False, sg_file := Saved (saved_of g2)\<rparr>) now (fl @ [e]) (lg @ [e])"
    and "file = sg_file g \<or> file = BadJson \<Longrightarrow> linv (g\<lparr>sg_seq := Suc (sg_seq g), sg_file := file\<rparr>) now fl lg"
    and "drop_reservation (Suc (sg_seq g)) (sg_spends g @ [e]) = sg_spends g"
proof -
  have ok: "guard_ok g" "log_ok g now lg" and cov: "covers g now fl" and bud: "budgeted g fl" and bel: "below fl lg"
    using inv by (auto simp: linv_def)
  have cost: "cost_ok (sg_spends g)" "0 \<le> k"
    using ok(1) computeCost_nonneg k(1) by (auto simp: guard_ok_def)
  have "guard_ok g2"
    using ok(1) cost by (simp add: guard_ok_def g2 e)
  moreover have "log_ok g2 now (lg @ [e])"
    using log_ok_grant [OF ok(2) cost(2) e, of g2] by (simp add: g2)
  moreover have "below (fl @ [e]) (lg @ [e])"
    using bel cost(2) by (intro below_snoc) (simp_all add: e)
  moreover have "budgeted g2 (fl @ [e])"
    using budgeted_grant [OF cost(1) ok(2) bel bud k(2), of e g2] by (simp add: g2 e)
  ultimately show "linv (g2\<lparr>sg_broken := False, sg_file := Saved (saved_of g2)\<rparr>) now (fl @ [e]) (lg @ [e])"
    by (rule written_linv)
  have ids: "\<forall>x \<in> set lg. \<exists>n \<le> sg_seq g. sp_res x = Some n" and "set (reserved (sg_spends g)) \<subseteq> set lg"
    using ok(2) by (auto elim!: log_okE)
  then have ids': "\<forall>x \<in> set lg. \<exists>n \<le> Suc (sg_seq g). sp_res x = Some n" and "\<forall>x \<in> set (sg_spends g). sp_res x \<noteq> Some (Suc (sg_seq g))"
    by (meson le_SucI, fastforce simp: reserved_def)
  then show "drop_reservation (Suc (sg_seq g)) (sg_spends g @ [e]) = sg_spends g"
    unfolding drop_reservation_def by (intro remove_first_snoc) (simp_all add: e)
  have "log_ok (g\<lparr>sg_seq := Suc (sg_seq g), sg_file := file\<rparr>) now lg"
    using ok(2) ids' unfolding log_ok_def by simp
  then show "linv (g\<lparr>sg_seq := Suc (sg_seq g), sg_file := file\<rparr>) now fl lg" if "file = sg_file g \<or> file = BadJson"
    using ok(1) cov bud bel that by (auto simp: linv_def guard_ok_def covers_def budgeted_def)
qed

lemma persist_cases:
  assumes "sg_armed g"
  shows "persist wr g = (True, g\<lparr>sg_broken := False, sg_file := Saved (saved_of g)\<rparr>) \<or>
    (\<exists>f. (f = sg_file g \<or> f = BadJson) \<and> persist wr g = (False, g\<lparr>sg_broken := True, sg_file := f\<rparr>))"
proof (cases wr)
  case Kept
  then have "persist wr g = (False, g\<lparr>sg_broken := True, sg_file := sg_file g\<rparr>)"
    using assms by (simp add: persist_def)
  then show ?thesis
    by blast
next
  case Torn
  then show ?thesis
    using assms by (auto simp: persist_def)
qed (use assms in \<open>simp add: persist_def\<close>)

lemma linv_reserve:
  assumes inv: "linv g now fl lg" and res: "reserve now wr cost g = (tok, g')"
  shows "linv g' now (log_grant tok now (computeCost cost g) fl) (log_grant tok now (computeCost cost g) lg)"
proof (cases "sg_paused g")
  case True
  then show ?thesis
    using res inv by (auto simp: reserve_def log_grant_def elim!: linv_cong)
next
  case False
  obtain ok c where ok: "ceiling_allow now (sg_ceiling g) = (ok, c)"
    by fastforce
  define gp where "gp = guard_prune now (g\<lparr>sg_ceiling := c\<rparr>)"
  have gp: "linv gp now fl lg" "computeCost cost gp = computeCost cost g" "sg_armed gp"
  proof -
    show "linv gp now fl lg"
      unfolding gp_def by (rule linv_prune [OF linv_ceiling [OF inv]])
    then show "sg_armed gp"
      by (simp add: linv_def guard_ok_def)
    show "computeCost cost gp = computeCost cost g"
      by (rule computeCost_est) (simp add: gp_def)
  qed
  show ?thesis
  proof (cases "ok \<and> spent (sg_spends gp) + computeCost cost gp \<le> of_int (sg_max gp)")
    case False
    then have "tok = None \<and> (g' = g\<lparr>sg_ceiling := c, sg_blockedSpend := sg_blockedSpend g + 1\<rparr> \<or> g' = gp\<lparr>sg_blockedSpend := sg_blockedSpend gp + 1\<rparr>)"
      using res \<open>\<not> sg_paused g\<close> gp(2) by (auto simp: reserve_def ok spentInWindow_def Let_def simp flip: gp_def split: if_splits)
    then show ?thesis
      using linv_cong [OF inv, of g'] linv_cong [OF gp(1), of g'] by (auto simp: log_grant_def)
  next
    case True
    obtain hd c' where hd: "ceiling_reserve now (sg_ceiling gp) = (hd, c')"
      by fastforce
    define e where "e = \<lparr>sp_t = now, sp_cost = computeCost cost gp, sp_res = Some (Suc (sg_seq gp))\<rparr>"
    define g2 where "g2 = gp\<lparr>sg_seq := Suc (sg_seq gp), sg_ceiling := c', sg_spends := sg_spends gp @ [e]\<rparr>"
    note grant = linv_grant [OF gp(1) refl conjunct2 [OF True] g2_def e_def]
    have r: "reserve now wr cost g = (let (durable, g3) = persist wr g2 in
        if durable then (Some (Suc (sg_seq gp)), g3\<lparr>sg_tokens := js_put (Suc (sg_seq gp)) \<lparr>tk_handle = hd, tk_settled = False\<rparr> (sg_tokens g3)\<rparr>)
        else (None, g3\<lparr>sg_spends := drop_reservation (Suc (sg_seq gp)) (sg_spends g3), sg_ceiling := ceiling_release hd (sg_ceiling g3),
          sg_tokens := js_put (Suc (sg_seq gp)) \<lparr>tk_handle = hd, tk_settled = True\<rparr> (sg_tokens g3), sg_blockedPersist := sg_blockedPersist g3 + 1\<rparr>))"
    proof -
      have "sg_max gp = sg_max g"
        by (simp add: gp_def)
      then show ?thesis
        using \<open>\<not> sg_paused g\<close> True gp(2) by (simp add: reserve_def ok spentInWindow_def Let_def hd g2_def e_def flip: gp_def)
    qed
    have "sg_armed g2"
      using gp(3) by (simp add: g2_def)
    moreover have "sg_file g2 = sg_file gp"
      by (simp add: g2_def)
    ultimately consider "persist wr g2 = (True, g2\<lparr>sg_broken := False, sg_file := Saved (saved_of g2)\<rparr>)"
      | f where "persist wr g2 = (False, g2\<lparr>sg_broken := True, sg_file := f\<rparr>)" "f = sg_file gp \<or> f = BadJson"
      using persist_cases by metis
    then show ?thesis
    proof cases
      case 1
      then show ?thesis
        using res grant(1) gp(2) unfolding r by (auto simp: e_def log_grant_def elim!: linv_cong)
    next
      case 2
      have "sg_spends g' = sg_spends gp" "tok = None" "sg_file g' = f" "sg_seq g' = Suc (sg_seq gp)"
          "sg_window g' = sg_window gp" "sg_max g' = sg_max gp" "sg_est g' = sg_est gp" "sg_armed g' = sg_armed gp"
        using res grant(3) unfolding r 2(1) by (auto simp: g2_def)
      then show ?thesis
        using grant(2) [OF 2(2)] by (auto simp: log_grant_def elim!: linv_cong)
    qed
  qed
qed

text \<open>What the guard grants fits the budget next to everything authorised in the window, at the last prices.\<close>

lemma reserve_fits:
  assumes inv: "linv g now fl lg" and res: "reserve now wr cost g = (Some n, g')"
  shows "spent (filter (in_window (of_int (sg_window g)) now) lg) + computeCost cost g \<le> of_int (sg_max g)"
proof -
  obtain ok c where ok: "ceiling_allow now (sg_ceiling g) = (ok, c)"
    by fastforce
  define gp where "gp = guard_prune now (g\<lparr>sg_ceiling := c\<rparr>)"
  have gp: "linv gp now fl lg"
    unfolding gp_def by (rule linv_prune [OF linv_ceiling [OF inv]])
  have "sg_max gp = sg_max g" "sg_window gp = sg_window g"
    by (simp_all add: gp_def)
  moreover have "spent (sg_spends gp) + computeCost cost g \<le> of_int (sg_max gp)"
    using res by (auto simp: reserve_def ok spentInWindow_def Let_def simp flip: gp_def split: if_splits)
  moreover have "spent (filter (in_window (of_int (sg_window gp)) now) lg) \<le> spent (sg_spends gp)"
    using gp by (intro window_counted) (auto simp: linv_def guard_ok_def)
  ultimately show ?thesis
    by simp
qed

lemma linv_storeUsable: "linv g now fl lg \<Longrightarrow> storeUsable wr g = (b, g') \<Longrightarrow> linv g' now fl lg"
  using linv_persist by (auto simp: storeUsable_def split: if_splits)

lemma linv_gates:
  assumes "linv g now fl lg"
  shows "linv (snd (spentInWindow now (g\<lparr>sg_ceiling := c\<rparr>))) now fl lg"
  using linv_prune [OF linv_ceiling [OF assms]] by (simp add: spentInWindow_def Let_def)

lemma linv_check:
  assumes inv: "linv g now fl lg" and res: "check now wr balance cost g = (r, g')"
  shows "linv g' now fl lg"
proof (cases "sg_paused g")
  case True
  then show ?thesis
    using res linv_cong [OF inv, of g'] by (auto simp: check_def)
next
  case False
  obtain u g1 where u: "storeUsable wr g = (u, g1)"
    by fastforce
  obtain ok c where c: "ceiling_allow now (sg_ceiling g1) = (ok, c)"
    by fastforce
  obtain t g2 where g2: "spentInWindow now (g1\<lparr>sg_ceiling := c\<rparr>) = (t, g2)"
    by fastforce
  have 1: "linv g1 now fl lg"
    using inv u by (rule linv_storeUsable)
  have 2: "linv g2 now fl lg"
    using linv_gates [OF 1, of c] by (simp add: g2)
  show ?thesis
    using res False linv_cong [OF 1, of g'] linv_cong [OF 2, of g'] 2 unfolding check_def u c g2 Let_def prod.case by (auto split: if_splits)
qed

lemma linv_allow:
  assumes inv: "linv g now fl lg" and res: "allow now wr cost g = (b, g')"
  shows "linv g' now fl lg"
proof (cases "sg_paused g")
  case True
  then show ?thesis
    using res inv by (auto simp: allow_def)
next
  case False
  obtain u g1 where u: "storeUsable wr g = (u, g1)"
    by fastforce
  obtain ok c where c: "ceiling_allow now (sg_ceiling g1) = (ok, c)"
    by fastforce
  obtain t g2 where g2: "spentInWindow now (g1\<lparr>sg_ceiling := c\<rparr>) = (t, g2)"
    by fastforce
  have 1: "linv g1 now fl lg"
    using inv u by (rule linv_storeUsable)
  have 2: "linv g2 now fl lg"
    using linv_gates [OF 1, of c] by (simp add: g2)
  show ?thesis
    using res False 1 2 linv_ceiling [OF 1] unfolding allow_def u c g2 Let_def prod.case by (auto split: if_splits)
qed

lemma linv_record: "linv g now fl lg \<Longrightarrow> linv (record_spend now wr cost g) now fl lg"
proof -
  assume inv: "linv g now fl lg"
  define g1 where "g1 = guard_prune now (g\<lparr>sg_ceiling := ceiling_record now (sg_ceiling g)\<rparr>)"
  have "linv g1 now fl lg"
    unfolding g1_def by (rule linv_prune [OF linv_ceiling [OF inv]])
  moreover from this have "0 \<le> computeCost cost g1"
    by (intro computeCost_nonneg) (simp add: linv_def)
  ultimately have "linv (g1\<lparr>sg_spends := sg_spends g1 @ [\<lparr>sp_t = now, sp_cost = computeCost cost g1, sp_res = None\<rparr>]\<rparr>) now fl lg"
    by (intro linv_unlogged) simp_all
  then show ?thesis
    unfolding record_spend_def g1_def [symmetric] Let_def by (rule linv_persist) (rule prod.collapse [symmetric])
qed

lemma linv_pause: "linv g now fl lg \<Longrightarrow> linv (snd (pause reason wr g)) now fl lg" "linv g now fl lg \<Longrightarrow> linv (snd (resume wr g)) now fl lg"
proof -
  assume inv: "linv g now fl lg"
  have "linv (g\<lparr>sg_paused := p, sg_reason := r\<rparr>) now fl lg" for p r
    using inv by (rule linv_cong) simp_all
  then show "linv (snd (pause reason wr g)) now fl lg" "linv (snd (resume wr g)) now fl lg"
    unfolding pause_def resume_def using linv_persist prod.collapse [symmetric] by blast+
qed

lemma linv_settle: "linv g now fl lg \<Longrightarrow> linv (settle n g) now fl lg"
  by (auto simp: settle_def elim!: linv_cong split: option.split)

lemma settle_spends [simp]: "sg_spends (settle n g) = sg_spends g"
  by (simp add: settle_def split: option.split)

lemma linv_commit:
  assumes inv: "linv g now fl lg"
  shows "linv (commit wr tok actual g) now (log_lower tok actual fl) (log_reprice tok actual lg)"
proof (cases tok)
  case None
  then show ?thesis
    using inv by (simp add: commit_def log_reprice_def log_lower_def)
next
  case (Some n)
  have s: "linv (settle n g) now fl lg"
    using inv by (rule linv_settle)
  show ?thesis
  proof (cases "\<exists>c. js_Number actual = Fin c \<and> 0 < c")
    case True
    then obtain c where c: "js_Number actual = Fin c" "0 < c"
      by blast
    have "linv ((settle n g)\<lparr>sg_spends := repriced n c (sg_spends g)\<rparr>) now (lowered n c fl) (repriced n c lg)"
      using linv_reprice [OF s, of c n] c by simp
    moreover have "log_reprice tok actual lg = repriced n c lg" "log_lower tok actual fl = lowered n c fl"
      using c by (simp_all add: log_reprice_def log_lower_def Some repriced_def lowered_def)
    ultimately have inv': "linv ((settle n g)\<lparr>sg_spends := repriced n c (sg_spends g)\<rparr>) now (log_lower tok actual fl) (log_reprice tok actual lg)"
      by simp
    show ?thesis
    proof (cases "reprice n c (sg_spends g)")
      case None
      then have "commit wr tok actual g = settle n g" "(settle n g)\<lparr>sg_spends := repriced n c (sg_spends g)\<rparr> = settle n g"
        using c settle_spends [of n g] by (simp_all add: commit_def Some repriced_def)
      then show ?thesis
        using inv' by simp
    next
      case (Some es)
      then have "commit wr tok actual g = snd (persist wr ((settle n g)\<lparr>sg_spends := repriced n c (sg_spends g)\<rparr>))"
        using c \<open>tok = Some n\<close> by (simp add: commit_def repriced_def)
      then show ?thesis
        using linv_persist [OF inv' surjective_pairing] by simp
    qed
  next
    case False
    then have "commit wr tok actual g = settle n g" "log_reprice tok actual lg = lg" "log_lower tok actual fl = fl"
      by (auto simp: commit_def log_reprice_def log_lower_def Some Let_def not_less split: jsnum.split)
    then show ?thesis
      using s by simp
  qed
qed

lemma linv_release_op:
  assumes inv: "linv g now fl lg"
  shows "linv (release wr tok g) now (if live_token tok g then drop_reservation (the tok) fl else fl)
    (if live_token tok g then drop_reservation (the tok) lg else lg)"
proof (cases "live_token tok g")
  case False
  then show ?thesis
    using inv by (auto simp: release_def live_token_def split: option.splits)
next
  case True
  then obtain n tk where n: "tok = Some n" "map_of (sg_tokens g) n = Some tk" "\<not> tk_settled tk"
    by (auto simp: live_token_def split: option.splits)
  let ?g = "(settle n g)\<lparr>sg_spends := drop_reservation n (sg_spends g), sg_ceiling := ceiling_release (tk_handle tk) (sg_ceiling g)\<rparr>"
  have "linv ((settle n g)\<lparr>sg_spends := drop_reservation n (sg_spends g)\<rparr>) now (drop_reservation n fl) (drop_reservation n lg)"
    using linv_release [OF linv_settle [OF inv], of n n] by simp
  then have "linv ?g now (drop_reservation n fl) (drop_reservation n lg)"
    by (rule linv_cong) simp_all
  moreover have "release wr tok g = snd (persist wr ?g)"
    using n by (simp add: release_def)
  ultimately show ?thesis
    using linv_persist [OF _ surjective_pairing, of ?g now "drop_reservation n fl" "drop_reservation n lg" wr] True n(1) by simp
qed

lemma spend_step_inv:
  assumes "spend_step s s'" and "linv (sr_guard s) (sr_now s) (sr_floor s) (sr_log s)"
  shows "linv (sr_guard s') (sr_now s') (sr_floor s') (sr_log s')"
  using assms
proof (induction rule: spend_step.induct)
  case (do_reserve s now wr cost tok g)
  then show ?case
    using linv_reserve [OF linv_time] by simp
next
  case (do_commit s now tok actual wr)
  then show ?case
    using linv_commit [OF linv_time] by simp
next
  case (do_release s now wr tok)
  then show ?case
    using linv_release_op [OF linv_time [OF do_release(2,1)]] by simp
next
  case (do_check s now wr balance cost r g)
  then show ?case
    using linv_check [OF linv_time] by simp
next
  case (do_allow s now wr cost b g)
  then show ?case
    using linv_allow [OF linv_time] by simp
next
  case (do_record s now wr cost)
  then show ?case
    using linv_record [OF linv_time] by simp
next
  case (do_pause s now reason wr)
  then show ?case
    using linv_pause(1) [OF linv_time] by simp
next
  case (do_resume s now wr)
  then show ?case
    using linv_pause(2) [OF linv_time] by simp
qed

section \<open>The start\<close>

lemma new_guard_fields:
  "0 < sg_window (new_SpendGuard env cfg prefix file)" "0 < sg_max (new_SpendGuard env cfg prefix file)"
  "sg_max (new_SpendGuard env cfg prefix file) \<le> HARD_CAP_USD_CENTS" "0 < sg_est (new_SpendGuard env cfg prefix file)"
  "0 \<le> sg_minBalance (new_SpendGuard env cfg prefix file)" "0 \<le> cl_max (sg_ceiling (new_SpendGuard env cfg prefix file))"
  by (auto simp: new_SpendGuard_def new_SpendCeiling_def Let_def HARD_CAP_USD_CENTS_def DEFAULT_EST_SPEND_USD_CENTS_def DEFAULT_WINDOW_MS_def
      split: option.split jsnum.split)

lemma restored_rows_ok:
  assumes "0 < sg_est g"
  shows "cost_ok (List.map_filter (restore_row now g) rows)" and "reserved (List.map_filter (restore_row now g) rows) = []"
  using assms by (induction rows) (auto simp: List.map_filter_simps restore_row_def split: jsnum.splits)

lemma saved_rows_ok: "0 < est \<Longrightarrow> cost_ok (saved_rows est s)"
  by (auto simp: cost_ok_def saved_rows_def List.map_filter_def split: jsnum.splits)

lemma sort_spends [simp]: "cost_ok (sort_key sp_t es) = cost_ok es" "reserved (sort_key sp_t es) = [] \<longleftrightarrow> reserved es = []"
  by (simp_all add: cost_ok_def reserved_def filter_empty_conv)

lemma restorePause_fields [simp]:
  "sg_window (restorePause s g) = sg_window g" "sg_max (restorePause s g) = sg_max g" "sg_est (restorePause s g) = sg_est g"
  "sg_armed (restorePause s g) = sg_armed g" "sg_spends (restorePause s g) = sg_spends g" "sg_file (restorePause s g) = sg_file g"
  by (simp_all add: restorePause_def)

lemma loadState_fields:
  assumes "0 < sg_est g" and "0 \<le> sg_max g" and "cost_ok (sg_spends g)" and "reserved (sg_spends g) = []"
  shows "sg_window (loadState now dirs g) = sg_window g" "sg_max (loadState now dirs g) = sg_max g" "sg_est (loadState now dirs g) = sg_est g"
    "sg_armed (loadState now dirs g) = sg_armed g" "cost_ok (sg_spends (loadState now dirs g))" "reserved (sg_spends (loadState now dirs g)) = []"
  using assms restored_rows_ok [of "restorePause _ g"]
  by (cases "sg_file g"; simp add: loadState_def seedConsumed_def Let_def)+

lemma linv_start: "linv (sr_guard (spend_start env cfg prefix file now dirs wr)) now [] []"
proof -
  define g where "g = (new_SpendGuard env cfg prefix file)\<lparr>sg_armed := True\<rparr>"
  have g: "0 < sg_window g" "0 < sg_max g" "sg_max g \<le> HARD_CAP_USD_CENTS" "0 < sg_est g" "sg_armed g" "sg_spends g = []"
    using new_guard_fields(1-4) by (auto simp: g_def new_SpendGuard_def Let_def)
  have "0 \<le> spent (filter P (saved_rows (sg_est g) s))" for P s
    using saved_rows_ok [OF g(4), of s] by (intro spent_nonneg) (simp add: cost_ok_def)
  then have "linv (loadState now dirs g) now [] []"
    using g loadState_fields [of g now dirs] by (simp add: linv_def guard_ok_def log_ok_def covers_def budgeted_def)
  then show ?thesis
    using linv_persist [OF _ surjective_pairing] by (simp add: spend_start_def persistTo_def Let_def flip: g_def)
qed

definition spend_run :: "srun \<Rightarrow> srun \<Rightarrow> bool" where
  "spend_run = spend_step\<^sup>*\<^sup>*"

lemma spend_run_inv:
  assumes "spend_run (spend_start env cfg prefix file now0 dirs wr) s"
  shows "linv (sr_guard s) (sr_now s) (sr_floor s) (sr_log s)"
  using assms unfolding spend_run_def
proof (induction rule: rtranclp_induct)
  case base
  then show ?case
    using linv_start by (simp add: spend_start_def)
next
  case (step y z)
  then show ?case
    using spend_step_inv by blast
qed

text \<open>The configuration of a guard never changes after construction.\<close>

definition same_config :: "guard \<Rightarrow> guard \<Rightarrow> bool" where
  "same_config g g' \<longleftrightarrow> sg_window g' = sg_window g \<and> sg_max g' = sg_max g \<and> sg_est g' = sg_est g"

lemma same_config_refl [simp]: "same_config g g"
  by (simp add: same_config_def)

lemma same_config_trans: "same_config g g1 \<Longrightarrow> same_config g1 g2 \<Longrightarrow> same_config g g2"
  by (simp add: same_config_def)

lemma persist_config: "same_config g (snd (persist wr g))"
  by (simp add: persist_def same_config_def split: write_result.split)

lemma prune_config: "same_config g (snd (spentInWindow now (g\<lparr>sg_ceiling := c\<rparr>)))"
  by (simp add: spentInWindow_def same_config_def Let_def)

lemma settle_config: "same_config g (settle n g)"
  by (simp add: settle_def same_config_def split: option.split)

lemma storeUsable_config: "same_config g (snd (storeUsable wr g))"
  by (simp add: storeUsable_def persist_config)

lemma reserve_config: "same_config g (snd (reserve now wr cost g))"
proof -
  obtain ok c where c: "ceiling_allow now (sg_ceiling g) = (ok, c)" by fastforce
  obtain t g1 where g1: "spentInWindow now (g\<lparr>sg_ceiling := c\<rparr>) = (t, g1)" by fastforce
  obtain hd c' where c': "ceiling_reserve now (sg_ceiling g1) = (hd, c')" by fastforce
  let ?g2 = "g1\<lparr>sg_seq := sg_seq g1 + 1, sg_ceiling := c', sg_spends := sg_spends g1 @ [\<lparr>sp_t = now, sp_cost = computeCost cost g, sp_res = Some (sg_seq g1 + 1)\<rparr>]\<rparr>"
  obtain d g3 where g3: "persist wr ?g2 = (d, g3)" by fastforce
  have "same_config g g1"
    using prune_config [of g now c] by (simp add: g1)
  moreover have "same_config ?g2 g3"
    using persist_config [of ?g2 wr] by (simp only: g3 snd_conv)
  ultimately show ?thesis
    unfolding reserve_def Let_def c g1 c' g3 prod.case by (auto simp: same_config_def)
qed

lemma check_config: "same_config g (snd (check now wr balance cost g))"
proof -
  obtain u g1 where u: "storeUsable wr g = (u, g1)" by fastforce
  obtain ok c where c: "ceiling_allow now (sg_ceiling g1) = (ok, c)" by fastforce
  obtain t g2 where g2: "spentInWindow now (g1\<lparr>sg_ceiling := c\<rparr>) = (t, g2)" by fastforce
  have "same_config g g1" "same_config g1 g2"
    using storeUsable_config [of g wr] prune_config [of g1 now c] by (simp_all add: u g2)
  then show ?thesis
    unfolding check_def Let_def u c g2 prod.case by (auto simp: same_config_def)
qed

lemma allow_config: "same_config g (snd (allow now wr cost g))"
proof -
  obtain u g1 where u: "storeUsable wr g = (u, g1)" by fastforce
  obtain ok c where c: "ceiling_allow now (sg_ceiling g1) = (ok, c)" by fastforce
  obtain t g2 where g2: "spentInWindow now (g1\<lparr>sg_ceiling := c\<rparr>) = (t, g2)" by fastforce
  have "same_config g g1" "same_config g1 g2"
    using storeUsable_config [of g wr] prune_config [of g1 now c] by (simp_all add: u g2)
  then show ?thesis
    unfolding allow_def Let_def u c g2 prod.case by (auto simp: same_config_def)
qed

lemma commit_config: "same_config g (commit wr tok actual g)"
proof (cases tok)
  case (Some n)
  have "same_config g ((settle n g)\<lparr>sg_spends := es\<rparr>)" for es
    using settle_config [of g n] by (simp add: same_config_def)
  then have "same_config g (snd (persist wr ((settle n g)\<lparr>sg_spends := es\<rparr>)))" for es
    using persist_config same_config_trans by blast
  then show ?thesis
    using settle_config by (simp add: commit_def Some Let_def split: jsnum.split option.split)
qed (simp add: commit_def)

lemma release_config: "same_config g (release wr tok g)"
proof -
  have "same_config g ((settle n g)\<lparr>sg_spends := es, sg_ceiling := c\<rparr>)" for n es c
    using settle_config [of g n] by (simp add: same_config_def)
  then have "same_config g (snd (persist wr ((settle n g)\<lparr>sg_spends := es, sg_ceiling := c\<rparr>)))" for n es c
    using persist_config same_config_trans by blast
  then show ?thesis
    by (simp add: release_def split: option.split)
qed

lemma other_config: "same_config g (record_spend now wr cost g)" "same_config g (snd (pause reason wr g))" "same_config g (snd (resume wr g))"
proof -
  have "same_config g h \<Longrightarrow> same_config g (snd (persist wr h))" for h
    using persist_config same_config_trans by blast
  then show "same_config g (record_spend now wr cost g)" "same_config g (snd (pause reason wr g))" "same_config g (snd (resume wr g))"
    by (simp_all add: record_spend_def pause_def resume_def Let_def same_config_def)
qed

lemma spend_step_config: "spend_step s s' \<Longrightarrow> same_config (sr_guard s) (sr_guard s')"
proof (induction rule: spend_step.induct)
  case (do_reserve s now wr cost tok g)
  then show ?case using reserve_config [of "sr_guard s" now wr cost] by simp
next
  case (do_check s now wr balance cost r g)
  then show ?case using check_config [of "sr_guard s" now wr balance cost] by simp
next
  case (do_allow s now wr cost b g)
  then show ?case using allow_config [of "sr_guard s" now wr cost] by simp
qed (simp_all add: commit_config release_config other_config)

lemma loadState_config: "same_config g (loadState now dirs g)"
  by (simp add: loadState_def seedConsumed_def same_config_def Let_def split: store_file.split)

lemma persistTo_config: "same_config g (persistTo now dirs wr g)"
proof -
  have "same_config g (loadState now dirs (g\<lparr>sg_armed := True\<rparr>))"
    using loadState_config [of "g\<lparr>sg_armed := True\<rparr>" now dirs] by (simp add: same_config_def)
  then show ?thesis
    using persist_config same_config_trans by (auto simp: persistTo_def Let_def)
qed

lemma new_guard_config: "same_config (new_SpendGuard env cfg prefix f) (new_SpendGuard env cfg prefix f')"
  by (simp add: same_config_def new_SpendGuard_def Let_def)

lemma spend_run_config:
  assumes "spend_run (spend_start env cfg prefix file now0 dirs wr) s"
  shows "same_config (new_SpendGuard env cfg prefix f) (sr_guard s)"
  using assms unfolding spend_run_def
proof (induction rule: rtranclp_induct)
  case base
  show ?case
    using same_config_trans [OF new_guard_config persistTo_config] by (simp add: spend_start_def)
next
  case (step y z)
  then show ?case
    using spend_step_config same_config_trans by blast
qed

section \<open>Restart\<close>

lemma restored_live:
  assumes "sg_file n = Saved sv" and "sg_spends n = []" and "0 < sg_window n"
  shows "\<forall>e \<in> set (sg_spends (loadState now dirs n)). now - of_int (sg_window n) < sp_t e"
    and "spent (sg_spends (loadState now dirs n)) = spent (filter (\<lambda>e. now - of_int (sg_window n) < sp_t e) (saved_rows (sg_est n) sv))"
proof -
  let ?rows = "List.map_filter (restore_row now (restorePause sv n)) (sv_spends sv)"
  have spends: "sg_spends (loadState now dirs n) = sort_key sp_t ?rows"
    using assms(1,2) by (simp add: loadState_def Let_def)
  have "\<forall>e \<in> set ?rows. now - of_int (sg_window n) < sp_t e"
    using assms(3) by (auto simp: List.map_filter_def restore_row_def split: jsnum.splits)
  then show "\<forall>e \<in> set (sg_spends (loadState now dirs n)). now - of_int (sg_window n) < sp_t e"
    by (simp add: spends)
  have "spent (sg_spends (loadState now dirs n)) = spent ?rows"
    by (intro spent_mset) (simp add: spends)
  then show "spent (sg_spends (loadState now dirs n)) = spent (filter (\<lambda>e. now - of_int (sg_window n) < sp_t e) (saved_rows (sg_est n) sv))"
    by (simp add: spent_restored)
qed

text \<open>A fresh guard that loads the store of a guard with the invariant counts at least the log of that guard.\<close>

lemma loadState_covers:
  assumes inv: "linv g now fl lg" and n: "same_config g n" "sg_spends n = []" "sg_file n = sg_file g"
  shows "spent (filter (in_window (of_int (sg_window g)) now) fl) \<le>
    spent (dropWhile (\<lambda>e. sp_t e \<le> now - of_int (sg_window g)) (sg_spends (loadState now dirs n)))"
proof -
  let ?W = "of_int (sg_window g) :: rat"
  have cfg: "sg_window n = sg_window g" "sg_max n = sg_max g" "sg_est n = sg_est g"
    using n(1) by (simp_all add: same_config_def)
  have cov: "covers g now fl" and ok: "guard_ok g" and cost: "cost_ok fl"
    and budget: "spent (filter (in_window ?W now) fl) \<le> of_int (sg_max g)"
    using inv below_cost_ok by (auto simp: linv_def budgeted_def)
  show ?thesis
  proof (cases "sg_file g")
    case NoFile
    then have "fl = []"
      using cov by (simp add: covers_def)
    have "cost_ok (sg_spends (loadState now dirs n))"
      using loadState_fields(5) [of n] cfg n(2) ok by (simp add: guard_ok_def)
    then have "cost_ok (dropWhile (\<lambda>e. sp_t e \<le> now - ?W) (sg_spends (loadState now dirs n)))"
      by (rule cost_ok_subset) (auto dest: set_dropWhileD)
    then show ?thesis
      using spent_nonneg \<open>fl = []\<close> by simp
  next
    case (Saved sv)
    have "spent (filter (in_window ?W now) fl) \<le> spent (filter (\<lambda>e. now - ?W < sp_t e) fl)"
      using cost by (rule spent_filter_mono) (simp add: in_window_def)
    also have "\<dots> \<le> spent (filter (\<lambda>e. now - ?W < sp_t e) (saved_rows (sg_est g) sv))"
      using cov Saved by (simp add: covers_def)
    also have "\<dots> = spent (sg_spends (loadState now dirs n))"
      using restored_live(2) [of n sv] Saved n(2,3) cfg ok by (simp add: guard_ok_def)
    also have "sg_spends (loadState now dirs n) = dropWhile (\<lambda>e. sp_t e \<le> now - ?W) (sg_spends (loadState now dirs n))"
      using restored_live(1) [of n sv now dirs] Saved n(2,3) cfg ok
      by (cases "sg_spends (loadState now dirs n)") (auto simp: guard_ok_def)
    finally show ?thesis .
  qed (use budget n cfg ok in \<open>auto simp: loadState_def seedConsumed_def guard_ok_def\<close>)
qed

section \<open>Properties\<close>

text \<open>
  C12: the guard spends within its budget, while the clock does not run backwards. Whatever the configuration, the
  store, the outcome of every file write, the interleaving of the senders and the prices settlements name: a
  reservation is granted only if it fits the budget next to every authorised spend of the window that ends then, each
  at its last price; in every window of the configured length, before or after, the authorised spends cost at most the
  budget at the lowest price each was reserved or settled at, so only a settlement above that price can put a window
  over the budget; and the budget is never more than 200000 cents.
\<close>

theorem rolling_window_budget:
  assumes "spend_run (spend_start env cfg prefix file now0 dirs wr) s"
  shows "(\<forall>now wr' cost n g. sr_now s \<le> now \<longrightarrow> reserve now wr' cost (sr_guard s) = (Some n, g) \<longrightarrow>
      spent (filter (in_window (of_int (sg_window (sr_guard s))) now) (sr_log s)) + computeCost cost (sr_guard s) \<le> of_int (sg_max (sr_guard s))) \<and>
    (\<forall>T. spent (filter (in_window (of_int (sg_window (sr_guard s))) T) (sr_floor s)) \<le> of_int (sg_max (sr_guard s))) \<and>
    map sp_res (sr_floor s) = map sp_res (sr_log s) \<and> sg_max (sr_guard s) \<le> HARD_CAP_USD_CENTS"
proof -
  have inv: "linv (sr_guard s) (sr_now s) (sr_floor s) (sr_log s)"
    using assms by (rule spend_run_inv)
  then show ?thesis
    using reserve_fits [OF linv_time [OF inv]] below_keys(2) by (auto simp: linv_def guard_ok_def budgeted_def)
qed

text \<open>
  C13: a restart gives nothing back, while the clock does not run backwards. A process that is stopped at any moment of any
  run, after any failed or torn write, and started again later with the same configuration counts every
  authorised spend of its last window against the new process's budget, at least at the lowest price it was reserved or
  settled at. (A settlement above that price whose write failed is forgotten.)
\<close>

theorem restart_never_refunds:
  assumes run: "spend_run (spend_start env cfg prefix file now0 dirs wr) s" and later: "sr_now s \<le> now"
  shows "spent (filter (in_window (of_int (sg_window (sr_guard s))) now) (sr_floor s)) \<le>
    fst (spentInWindow now (sr_guard (spend_start env cfg prefix (sg_file (sr_guard s)) now dirs' wr')))"
proof -
  let ?new = "(new_SpendGuard env cfg prefix (sg_file (sr_guard s)))\<lparr>sg_armed := True\<rparr>"
  let ?g = "loadState now dirs' ?new"
  have "same_config (new_SpendGuard env cfg prefix (sg_file (sr_guard s))) (sr_guard s)"
    using run by (rule spend_run_config)
  then have new: "same_config (sr_guard s) ?new" "sg_spends ?new = []" "sg_file ?new = sg_file (sr_guard s)"
    by (simp_all add: same_config_def new_SpendGuard_def Let_def)
  have "spent (filter (in_window (of_int (sg_window (sr_guard s))) now) (sr_floor s)) \<le>
      spent (dropWhile (\<lambda>e. sp_t e \<le> now - of_int (sg_window (sr_guard s))) (sg_spends ?g))"
    using loadState_covers [OF linv_time [OF spend_run_inv [OF run] later] new] .
  moreover have "sg_spends (sr_guard (spend_start env cfg prefix (sg_file (sr_guard s)) now dirs' wr')) = sg_spends ?g"
      "sg_window (sr_guard (spend_start env cfg prefix (sg_file (sr_guard s)) now dirs' wr')) = sg_window (sr_guard s)"
    using loadState_config [of ?new now dirs'] persist_config [of ?g wr'] new(1)
    by (auto simp: spend_start_def persistTo_def Let_def persist_def same_config_def split: write_result.splits)
  ultimately show ?thesis
    by (simp add: spentInWindow_def guard_prune_def Let_def)
qed

text \<open>Runs of the demonstration: a default configuration with a count ceiling of two, from an empty store.\<close>

definition demo_cfg :: settings where
  "demo_cfg = (\<lambda>k. None)(''ANCHOR_MAX_PUBLISHES_PER_WINDOW'' \<mapsto> ''2'')"

definition demo_start :: srun where
  "demo_start = spend_start (\<lambda>k. None) demo_cfg ''ANCHOR'' NoFile 10 [AccessOk] Written"

lemma parse_two: "parse_int10 ''2'' = Some 2"
  by (simp add: parse_int10_def text_eval Let_def)

definition demo_guard :: guard where
  "demo_guard =
     \<lparr>sg_ceiling = \<lparr>cl_max = 2, cl_window = 3600000, cl_spends = [], cl_blocked = 0\<rparr>, sg_window = 3600000, sg_max = 200000, sg_est = 100,
      sg_minBalance = 0, sg_spends = [], sg_paused = False, sg_reason = [], sg_armed = True, sg_broken = False, sg_seq = 0, sg_tokens = [],
      sg_blockedPause = 0, sg_blockedSpend = 0, sg_blockedBalance = 0, sg_blockedPersist = 0, sg_file = NoFile\<rparr>"

lemma demo_start_eq: "demo_start = \<lparr>sr_guard = demo_guard, sr_now = 10, sr_log = [], sr_floor = []\<rparr>"
  by (simp add: demo_start_def spend_start_def demo_guard_def new_SpendGuard_def new_SpendCeiling_def pick_truthy_def readInt_def
      demo_cfg_def parse_two persistTo_def loadState_def Let_def HARD_CAP_USD_CENTS_def DEFAULT_EST_SPEND_USD_CENTS_def
      DEFAULT_WINDOW_MS_def numeral_eq_Suc)

text \<open>A spend reserved at 150 cents and settled at an invoice of 180, whose write fails.\<close>

definition demo_reserved :: srun where
  "demo_reserved =
     \<lparr>sr_guard = snd (reserve 20 Written (JNum (Fin 150)) demo_guard), sr_now = 20,
      sr_log = [\<lparr>sp_t = 20, sp_cost = 150, sp_res = Some 1\<rparr>], sr_floor = [\<lparr>sp_t = 20, sp_cost = 150, sp_res = Some 1\<rparr>]\<rparr>"

definition demo_settled :: srun where
  "demo_settled =
     \<lparr>sr_guard = commit Kept (Some 1) (JNum (Fin 180)) (sr_guard demo_reserved), sr_now = 25,
      sr_log = [\<lparr>sp_t = 20, sp_cost = 180, sp_res = Some 1\<rparr>], sr_floor = [\<lparr>sp_t = 20, sp_cost = 150, sp_res = Some 1\<rparr>]\<rparr>"

lemma demo_token: "fst (reserve 20 Written (JNum (Fin 150)) demo_guard) = Some 1" "computeCost (JNum (Fin 150)) demo_guard = 150"
  by code_simp+

lemma demo_spend_run: "spend_run demo_start demo_settled"
proof -
  have "spend_step demo_start \<lparr>sr_guard = snd (reserve 20 Written (JNum (Fin 150)) demo_guard), sr_now = 20,
      sr_log = log_grant (fst (reserve 20 Written (JNum (Fin 150)) demo_guard)) 20 (computeCost (JNum (Fin 150)) (sr_guard demo_start)) (sr_log demo_start),
      sr_floor = log_grant (fst (reserve 20 Written (JNum (Fin 150)) demo_guard)) 20 (computeCost (JNum (Fin 150)) (sr_guard demo_start)) (sr_floor demo_start)\<rparr>"
    by (rule do_reserve) (simp_all add: demo_start_eq)
  also have "\<dots> = demo_reserved"
    by (simp add: demo_reserved_def demo_start_eq demo_token log_grant_def)
  finally have "spend_step demo_start demo_reserved" .
  moreover have "spend_step demo_reserved demo_settled"
    using do_commit [of demo_reserved 25 Kept "Some 1" "JNum (Fin 180)"]
    by (simp add: demo_settled_def demo_reserved_def log_reprice_def log_lower_def)
  ultimately show ?thesis
    unfolding spend_run_def by (meson r_into_rtranclp rtranclp_trans)
qed

lemma demo_log: "sg_window (sr_guard demo_settled) = 3600000" "sg_max (sr_guard demo_settled) = 200000"
    "fst (reserve 30 Written (JNum (Fin 500)) (sr_guard demo_settled)) = Some 2" "computeCost (JNum (Fin 500)) (sr_guard demo_settled) = 500"
  by code_simp+

theorem rolling_window_budget_witness:
  "spent (filter (in_window 3600000 30) (sr_log demo_settled)) + 500 \<le> 200000 \<and>
   spent (filter (in_window 3600000 20) (sr_floor demo_settled)) \<le> 200000 \<and> sr_floor demo_settled \<noteq> []"
proof -
  obtain g where g: "reserve 30 Written (JNum (Fin 500)) (sr_guard demo_settled) = (Some 2, g)"
    using demo_log(3) by (metis prod.collapse)
  have now: "sr_now demo_settled \<le> 30"
    by (simp add: demo_settled_def)
  note inv = rolling_window_budget [of "\<lambda>k. None" demo_cfg "''ANCHOR''" NoFile 10 "[AccessOk]" Written demo_settled]
  have "spent (filter (in_window 3600000 30) (sr_log demo_settled)) + 500 \<le> 200000 \<and>
      spent (filter (in_window 3600000 20) (sr_floor demo_settled)) \<le> 200000"
    using inv demo_spend_run now g unfolding demo_start_def demo_log by (metis demo_log of_int_numeral)
  then show ?thesis
    by (simp add: demo_settled_def)
qed

theorem restart_never_refunds_witness:
  "spent (filter (in_window 3600000 30) (sr_floor demo_settled)) \<le>
    fst (spentInWindow 30 (sr_guard (spend_start (\<lambda>k. None) demo_cfg ''ANCHOR'' (sg_file (sr_guard demo_settled)) 30 [] Kept)))"
proof -
  have "sr_now demo_settled \<le> 30"
    by (simp add: demo_settled_def)
  then show ?thesis
    using restart_never_refunds [of "\<lambda>k. None" demo_cfg "''ANCHOR''" NoFile 10 "[AccessOk]" Written demo_settled 30 "[]" Kept]
      demo_spend_run by (simp add: demo_start_def demo_log)
qed

end
