(* ===== verification/Spend_Gates.thy ===== *)
theory Spend_Gates
  imports Spend_Safety
begin

text \<open>
  What the single operations of the spend guard decide: the unified pre-send gate
  (\<open>check\<close> of \<open>src/lib/spend_guard.js\<close>), the operator pause across restarts and the settling of
  reservation tokens (\<open>src/providers/effector_spend/\<close>).
\<close>

section \<open>Gates\<close>

text \<open>The balance gate as the comment of \<open>check\<close> describes it, for a balance that is a number.\<close>

definition floor_passed :: "jsval \<Rightarrow> guard \<Rightarrow> bool" where
  "floor_passed balance g \<longleftrightarrow>
     balance = JUndef \<or> balance \<noteq> JNull \<and>
       (case js_Number balance of Fin b \<Rightarrow> sg_minBalance g \<le> b | NInf \<Rightarrow> False | _ \<Rightarrow> True)"

definition count_left :: "rat \<Rightarrow> guard \<Rightarrow> bool" where
  "count_left now g \<longleftrightarrow>
     cl_max (sg_ceiling g) \<le> 0 \<or>
     int (length (dropWhile (\<lambda>t. t \<le> now - of_int (cl_window (sg_ceiling g))) (cl_spends (sg_ceiling g)))) < cl_max (sg_ceiling g)"

definition budget_left :: "rat \<Rightarrow> jsval \<Rightarrow> guard \<Rightarrow> bool" where
  "budget_left now cost g \<longleftrightarrow> fst (spentInWindow now g) + computeCost cost g \<le> of_int (sg_max g)"

lemma ceiling_allow_count: "fst (ceiling_allow now (sg_ceiling g)) \<longleftrightarrow> count_left now g"
  by (simp add: ceiling_allow_def count_left_def ceiling_disabled_def ceiling_prune_def Let_def)

lemma storeUsable_fields:
  "sg_minBalance (snd (storeUsable wr g)) = sg_minBalance g" "sg_max (snd (storeUsable wr g)) = sg_max g"
  "sg_spends (snd (storeUsable wr g)) = sg_spends g" "sg_ceiling (snd (storeUsable wr g)) = sg_ceiling g"
  "sg_window (snd (storeUsable wr g)) = sg_window g" "sg_est (snd (storeUsable wr g)) = sg_est g"
  by (cases wr; simp add: storeUsable_def persist_def)+

lemma storeUsable_fst: "fst (storeUsable wr g) \<longleftrightarrow> \<not> sg_armed g \<or> \<not> sg_broken g \<or> wr = Written"
  by (cases wr) (auto simp: storeUsable_def persist_def)

lemma budget_left_store: "budget_left now cost (snd (storeUsable wr g)) = budget_left now cost g"
  by (simp add: budget_left_def spentInWindow_def guard_prune_def computeCost_def storeUsable_fields Let_def split: jsnum.split)

lemma count_left_store: "count_left now (snd (storeUsable wr g)) = count_left now g"
  by (simp add: count_left_def storeUsable_fields)

lemma floor_passed_store: "floor_passed balance (snd (storeUsable wr g)) = floor_passed balance g"
  by (simp add: floor_passed_def storeUsable_fields split: jsnum.split)

lemma budget_left_ceiling: "budget_left now cost (g\<lparr>sg_ceiling := c\<rparr>) = budget_left now cost g"
  by (simp add: budget_left_def spentInWindow_def guard_prune_def computeCost_def Let_def split: jsnum.split)

lemma computeCost_pruned: "computeCost cost (snd (spentInWindow now g)) = computeCost cost g" "sg_max (snd (spentInWindow now g)) = sg_max g"
  by (simp_all add: spentInWindow_def guard_prune_def computeCost_def Let_def split: jsnum.split)

lemma floor_gate:
  "(balance = JNull \<or> balance \<noteq> JUndef \<and> (case js_Number balance of Fin b \<Rightarrow> b < sg_minBalance g | NInf \<Rightarrow> True | _ \<Rightarrow> False)) \<longleftrightarrow>
    \<not> floor_passed balance g"
  by (cases "js_Number balance") (auto simp: floor_passed_def)

lemma check_grants:
  "fst (check now wr balance cost g) = None \<longleftrightarrow>
     \<not> sg_paused g \<and> fst (storeUsable wr g) \<and> floor_passed balance g \<and> count_left now g \<and> budget_left now cost g"
proof -
  obtain u g1 where u: "storeUsable wr g = (u, g1)"
    by fastforce
  then have g1: "g1 = snd (storeUsable wr g)" and fu: "fst (storeUsable wr g) = u"
    by simp_all
  obtain ok c where ok: "ceiling_allow now (sg_ceiling g1) = (ok, c)"
    by fastforce
  then have okc: "ok \<longleftrightarrow> count_left now g"
    using ceiling_allow_count [of now g1] count_left_store g1 by simp
  obtain s g2 where s: "spentInWindow now (g1\<lparr>sg_ceiling := c\<rparr>) = (s, g2)"
    by fastforce
  have "budget_left now cost g \<longleftrightarrow> budget_left now cost (g1\<lparr>sg_ceiling := c\<rparr>)"
    using budget_left_store budget_left_ceiling g1 by simp
  also have "\<dots> \<longleftrightarrow> s + computeCost cost g2 \<le> of_int (sg_max g2)"
    using s computeCost_pruned [where now = now and g = "g1\<lparr>sg_ceiling := c\<rparr>"] by (simp add: budget_left_def)
  finally have budget: "budget_left now cost g \<longleftrightarrow> s + computeCost cost g2 \<le> of_int (sg_max g2)" .
  have floor: "floor_passed balance g = floor_passed balance g1"
    by (simp add: g1 floor_passed_store)
  show ?thesis
    unfolding floor fu budget okc [symmetric] using floor_gate [of balance g1]
    by (auto simp: check_def u ok s Let_def not_less)
qed

section \<open>Restart and settling\<close>

lemma paused_refuses:
  assumes "sg_paused g"
  shows "fst (check now wr balance cost g) = Some SpendPaused" "\<not> fst (allow now wr cost g)" "fst (reserve now wr cost g) = None"
  using assms by (simp_all add: check_def allow_def reserve_def)

lemma persistTo_paused:
  assumes "sg_file g = Saved sv" and "sv_paused sv"
  shows "sg_paused (persistTo now dirs wr g)"
proof -
  have "sg_paused (loadState now dirs (g\<lparr>sg_armed := True\<rparr>))"
    using assms by (simp add: loadState_def restorePause_def Let_def)
  then show ?thesis
    by (cases wr) (simp_all add: persistTo_def persist_def Let_def)
qed

lemma settled_release: "map_of (sg_tokens g) n = Some tk \<Longrightarrow> tk_settled tk \<Longrightarrow> release wr (Some n) g = g"
  by (simp add: release_def)

lemma tokens_persist [simp]: "sg_tokens (snd (persist wr g)) = sg_tokens g"
  by (cases wr) (simp_all add: persist_def)

lemma settle_settled: "map_of (sg_tokens g) n = Some tk \<Longrightarrow> map_of (sg_tokens (settle n g)) n = Some (tk\<lparr>tk_settled := True\<rparr>)"
  by (simp add: settle_def)

lemma commit_tokens: "sg_tokens (commit wr (Some n) actual g) = sg_tokens (settle n g)"
  by (simp add: commit_def Let_def split: jsnum.split option.split)

section \<open>Properties\<close>

text \<open>
  what the pre-send gate grants. A send passes exactly when the effector is not paused, the
  spend store is in order (or accepts a write again), the balance is not below the floor, the count
  ceiling has a slot left in the live window, and the cost fits into what is left of the budget.
\<close>

theorem check_decides:
  "fst (check now wr balance cost g) = None \<longleftrightarrow>
     \<not> sg_paused g \<and> (sg_armed g \<and> sg_broken g \<longrightarrow> wr = Written) \<and> floor_passed balance g \<and> count_left now g \<and>
     fst (spentInWindow now g) + computeCost cost g \<le> of_int (sg_max g)"
  by (auto simp: check_grants storeUsable_fst budget_left_def)

theorem check_decides_witness:
  "fst (check 20 Kept (JNum (Fin (1 / 2))) (JNum (Fin 200000)) demo_guard) = None \<and>
   fst (spentInWindow 20 demo_guard) + computeCost (JNum (Fin 200000)) demo_guard \<le> 200000"
proof -
  have "\<not> sg_paused demo_guard" "sg_armed demo_guard" "\<not> sg_broken demo_guard"
    "floor_passed (JNum (Fin (1 / 2))) demo_guard" "count_left 20 demo_guard"
    "fst (spentInWindow 20 demo_guard) + computeCost (JNum (Fin 200000)) demo_guard \<le> 200000"
    "sg_max demo_guard = 200000"
    by code_simp+
  then show ?thesis
    using check_decides [of 20 Kept "JNum (Fin (1 / 2))" "JNum (Fin 200000)" demo_guard] by simp
qed

text \<open>
  a balance that is not a number is no balance. A value that \<open>Number()\<close> reads as NaN (a text, an
  object) is compared with the floor and never found below it: the gate answers as if the caller had
  wired no balance source, whatever the floor is.
\<close>

theorem unreadable_balance_passes_floor:
  assumes "js_Number balance = NaN" and "balance \<noteq> JNull"
  shows "check now wr balance cost g = check now wr JUndef cost g"
  using assms by (simp add: check_def split: prod.split)

theorem unreadable_balance_passes_floor_witness:
  "js_Number (JStr ''unavailable'') = NaN \<and>
   check 20 Written (JStr ''unavailable'') JUndef demo_guard = check 20 Written JUndef JUndef demo_guard"
proof -
  have "js_Number (JStr ''unavailable'') = NaN"
    by code_simp
  then show ?thesis
    using unreadable_balance_passes_floor [of "JStr ''unavailable''" 20 Written JUndef demo_guard] by simp
qed

text \<open>
  a pause survives a restart. When \<open>pause\<close> reports that it is durable on a guard armed with a
  store, a process started from that store is paused under any configuration, and all three gates
  refuse every send.
\<close>

theorem durable_pause_survives_restart:
  assumes "sg_armed g" and "pause reason wr g = (True, g')"
    and "g'' = persistTo now dirs wr' (new_SpendGuard env cfg prefix (sg_file g'))"
  shows "sg_paused g'' \<and> fst (check t w balance cost g'') = Some SpendPaused \<and> \<not> fst (allow t w cost g'') \<and> fst (reserve t w cost g'') = None"
proof -
  have "\<exists>sv. sg_file g' = Saved sv \<and> sv_paused sv"
    using assms(1,2) by (cases wr) (auto simp: pause_def persist_def saved_of_def)
  then have "sg_paused g''"
    unfolding assms(3) by (auto intro: persistTo_paused simp: new_SpendGuard_def Let_def)
  then show ?thesis
    using paused_refuses by simp
qed

theorem durable_pause_survives_restart_witness:
  "sg_paused (persistTo 50 [] Kept (new_SpendGuard (\<lambda>k. None) demo_cfg ''ANCHOR'' (sg_file (snd (pause ''audit'' Written demo_guard)))))"
proof -
  have "sg_armed demo_guard"
    by code_simp
  moreover have "pause ''audit'' Written demo_guard = (True, snd (pause ''audit'' Written demo_guard))"
    by (simp add: pause_def persist_def)
  ultimately show ?thesis
    using durable_pause_survives_restart [of demo_guard "''audit''" Written _ _ 50 "[]" Kept "\<lambda>k. None" demo_cfg "''ANCHOR''"] by blast
qed

text \<open>
  a token is settled once. After a commit or a release of a token that \<open>reserve\<close> issued, a later
  release of the same token changes nothing, whatever the outcome of the writes.
\<close>

theorem tokens_settle_once:
  assumes "map_of (sg_tokens g) n = Some tk"
  shows "release wr' (Some n) (commit wr (Some n) actual g) = commit wr (Some n) actual g \<and>
    release wr' (Some n) (release wr (Some n) g) = release wr (Some n) g"
proof -
  have tokens: "map_of (sg_tokens (settle n g)) n = Some (tk\<lparr>tk_settled := True\<rparr>)"
    using assms by (rule settle_settled)
  then have "map_of (sg_tokens (commit wr (Some n) actual g)) n = Some (tk\<lparr>tk_settled := True\<rparr>)"
    by (simp add: commit_tokens)
  then have "release wr' (Some n) (commit wr (Some n) actual g) = commit wr (Some n) actual g"
    by (rule settled_release) simp
  moreover have "release wr' (Some n) (release wr (Some n) g) = release wr (Some n) g"
  proof (cases "tk_settled tk")
    case True
    then show ?thesis
      using assms settled_release by metis
  next
    case False
    then have "map_of (sg_tokens (release wr (Some n) g)) n = Some (tk\<lparr>tk_settled := True\<rparr>)"
      using assms tokens by (simp add: release_def)
    then show ?thesis
      by (rule settled_release) simp
  qed
  ultimately show ?thesis
    by blast
qed

theorem tokens_settle_once_witness:
  "release Kept (Some 1) (commit Written (Some 1) (JNum (Fin 120)) (sr_guard demo_reserved)) = commit Written (Some 1) (JNum (Fin 120)) (sr_guard demo_reserved)"
proof -
  have "map_option tk_settled (map_of (sg_tokens (sr_guard demo_reserved)) 1) = Some False"
    unfolding demo_reserved_def by code_simp
  then obtain tk where "map_of (sg_tokens (sr_guard demo_reserved)) 1 = Some tk"
    by auto
  then show ?thesis
    using tokens_settle_once [of "sr_guard demo_reserved" 1 tk Kept Written "JNum (Fin 120)"] by blast
qed

end
