(* ===== verification/Broadcast_Guard.thy ===== *)
theory Broadcast_Guard
  imports Spend_Safety Json_Text
begin

text \<open>
  The money path every effector shares (\<open>src/lib/guards/idempotent_broadcast.js\<close> and
  \<open>src/lib/guards/two_phase_guard.js\<close>): what a failed send proves, the keys already
  broadcast, and the wrapper that gates a send by the spend guard and settles its reservation.
  What was thrown is a JavaScript value; its properties are read as data properties. The wrapper is
  two operations, up to the awaited send and from its outcome on.
\<close>

section \<open>Classifying a failed send\<close>

definition ENCODER_TRANSPORT_FALLBACK :: string where "ENCODER_TRANSPORT_FALLBACK = ''Transaction broadcast failed''"
definition TX_ALREADY_IN_CHAIN :: string where "TX_ALREADY_IN_CHAIN = ''TX_ALREADY_IN_CHAIN''"
definition NODE_REJECTED_CODE :: rat where "NODE_REJECTED_CODE = - 32010"
definition NODE_REJECTED :: string where "NODE_REJECTED = ''NODE_REJECTED''"
definition RPC_ERROR :: string where "RPC_ERROR = ''Encoder RPC error''"

definition isAlreadyKnownTx :: "jsval \<Rightarrow> bool" where
  "isAlreadyKnownTx e \<longleftrightarrow>
     truthy e \<and> truthy (js_prop e ''rpcData'') \<and> js_prop (js_prop e ''rpcData'') ''reason'' = JStr TX_ALREADY_IN_CHAIN"

text \<open>\<open>e.response && Number(e.response.status) < 500\<close>, and the same with \<open>>= 500\<close>.\<close>

definition answered_below_500 :: "jsval \<Rightarrow> bool" where
  "answered_below_500 e \<longleftrightarrow>
     truthy (js_prop e ''response'') \<and>
     (case js_Number (js_prop (js_prop e ''response'') ''status'') of Fin q \<Rightarrow> q < 500 | NInf \<Rightarrow> True | _ \<Rightarrow> False)"

definition answered_from_500 :: "jsval \<Rightarrow> bool" where
  "answered_from_500 e \<longleftrightarrow>
     truthy (js_prop e ''response'') \<and>
     (case js_Number (js_prop (js_prop e ''response'') ''status'') of Fin q \<Rightarrow> 500 \<le> q | PInf \<Rightarrow> True | _ \<Rightarrow> False)"

definition isNodeRejectedTx :: "jsval \<Rightarrow> bool" where
  "isNodeRejectedTx e \<longleftrightarrow>
     truthy e \<and> js_Number (js_prop e ''rpcCode'') = Fin NODE_REJECTED_CODE \<and>
     truthy (js_prop e ''rpcData'') \<and> js_prop (js_prop e ''rpcData'') ''reason'' = JStr NODE_REJECTED \<and> \<not> answered_from_500 e"

definition or_text :: "(rat \<Rightarrow> string) \<Rightarrow> jsval \<Rightarrow> string" where
  "or_text show v = (if truthy v then js_String show v else [])"

definition never_connected :: "(rat \<Rightarrow> string) \<Rightarrow> jsval \<Rightarrow> bool" where
  "never_connected show e \<longleftrightarrow> or_text show (js_prop e ''code'') \<in> {''ECONNREFUSED'', ''ENOTFOUND'', ''EAI_AGAIN''}"

definition isAmbiguousSendError :: "(rat \<Rightarrow> string) \<Rightarrow> jsval \<Rightarrow> bool" where
  "isAmbiguousSendError show e =
     (if \<not> truthy e then False
      else if truthy (js_prop e ''fundsCommitted'') then True
      else if isAlreadyKnownTx e then True
      else if js_prop e ''neverSent'' = JBool True then False
      else if isNodeRejectedTx e then False
      else (let message = or_text show (js_prop e ''message'') in
        if message = RPC_ERROR @ '': '' @ ENCODER_TRANSPORT_FALLBACK \<and> \<not> answered_below_500 e then True
        else if take (length RPC_ERROR) message = RPC_ERROR then False
        else if answered_below_500 e then False
        else if never_connected show e then False
        else True))"

definition isNeverSentError :: "(rat \<Rightarrow> string) \<Rightarrow> jsval \<Rightarrow> bool" where
  "isNeverSentError show e =
     (if \<not> truthy e then False
      else if truthy (js_prop e ''fundsCommitted'') then False
      else if isAlreadyKnownTx e then False
      else if js_prop e ''neverSent'' = JBool True then True
      else if answered_below_500 e then True
      else never_connected show e)"

section \<open>Results and records\<close>

text \<open>\<open>requireBroadcastTxid\<close>: \<open>Inl\<close> is the error it throws.\<close>

definition missing_txid :: "string \<Rightarrow> jsval" where
  "missing_txid who =
     JObj [(''message'', JStr ((if who = [] then ''broadcast'' else who) @
             '': broadcast reported success but returned no txid, so whether the transaction reached the node is unknown'')),
           (''missingTxid'', JBool True)]"

definition requireBroadcastTxid :: "jsval \<Rightarrow> string \<Rightarrow> jsval + jsval" where
  "requireBroadcastTxid result who =
     (case result of
        JStr s \<Rightarrow> if trim s \<noteq> [] then Inr (JObj [(''txid'', JStr (trim s))]) else Inl (missing_txid who)
      | _ \<Rightarrow> (case js_prop result ''txid'' of
          JStr t \<Rightarrow> if trim t \<noteq> [] then Inr result else Inl (missing_txid who)
        | _ \<Rightarrow> Inl (missing_txid who)))"

definition REVEAL_FIELDS :: "string list" where
  "REVEAL_FIELDS = [''phase1Txid'', ''revealTxid'', ''revealTxHex'']"

definition revealFields :: "jsval \<Rightarrow> (string \<times> string) list" where
  "revealFields e = List.map_filter (\<lambda>k. case js_prop e k of JStr s \<Rightarrow> if s = [] then None else Some (k, s) | _ \<Rightarrow> None) REVEAL_FIELDS"

text \<open>\<open>assertSingleTxEncoding\<close> (two\_phase\_guard.js): whether the encoder's answer is refused.\<close>

definition assertSingleTxEncoding :: "(rat \<Rightarrow> string) \<Rightarrow> jsval \<Rightarrow> bool" where
  "assertSingleTxEncoding show psbtResult =
     (case psbtResult of
        JObj ms \<Rightarrow> \<not> (to_upper (or_text show (js_prop psbtResult ''encoding'')) \<in> {''P2SH'', ''P2WSH''} \<or>
                     truthy (js_prop psbtResult ''revealPsbt'') \<or>
                     (case js_prop psbtResult ''carrierScripts'' of JArr xs \<Rightarrow> xs \<noteq> [] | _ \<Rightarrow> False))
      | _ \<Rightarrow> True)"

section \<open>At most once\<close>

type_synonym tracker = "string list"

definition amo_has :: "(rat \<Rightarrow> string) \<Rightarrow> jsval \<Rightarrow> tracker \<Rightarrow> bool" where
  "amo_has show key t \<longleftrightarrow> js_String show key \<in> set t"

definition amo_mark :: "(rat \<Rightarrow> string) \<Rightarrow> jsval \<Rightarrow> tracker \<Rightarrow> tracker" where
  "amo_mark show key t = js_add (js_String show key) t"

definition amo_delete :: "(rat \<Rightarrow> string) \<Rightarrow> jsval \<Rightarrow> tracker \<Rightarrow> bool \<times> tracker" where
  "amo_delete show key t = (amo_has show key t, filter (\<lambda>k. k \<noteq> js_String show key) t)"

record money_path =
  mp_tracker :: "tracker option"
  mp_guard :: "guard option"

record send_request =
  rq_key :: jsval
  rq_balance :: jsval
  rq_cost :: jsval
  rq_tag :: string

datatype begun = Duplicate | GateRefused refusal | NotReserved | Sending "nat option"

text \<open>
  Up to the awaited \<open>send()\<close>: the at-most-once test, the gate for the wallet floor, the reservation. The clock
  and the outcome of the store's writes at each of the three are arguments.
\<close>

definition broadcastOnce_begin ::
  "(rat \<Rightarrow> string) \<Rightarrow> rat \<Rightarrow> write_result \<Rightarrow> write_result \<Rightarrow> send_request \<Rightarrow> money_path \<Rightarrow> begun \<times> money_path" where
  "broadcastOnce_begin show now wr wr' rq mp =
     (if (case mp_tracker mp of None \<Rightarrow> False | Some t \<Rightarrow> \<not> nullish (rq_key rq) \<and> amo_has show (rq_key rq) t) then (Duplicate, mp)
      else (case mp_guard mp of
          None \<Rightarrow> (Sending None, mp)
        | Some g \<Rightarrow>
            (let (refused, g1) = check now wr (rq_balance rq) (rq_cost rq) g in
             case refused of
               Some r \<Rightarrow> (GateRefused r, mp\<lparr>mp_guard := Some g1\<rparr>)
             | None \<Rightarrow>
                 (let (tok, g2) = reserve now wr' (rq_cost rq) g1 in
                  case tok of
                    None \<Rightarrow> (NotReserved, mp\<lparr>mp_guard := Some (noteBlocked now g2)\<rparr>)
                  | Some n \<Rightarrow> (Sending (Some n), mp\<lparr>mp_guard := Some g2\<rparr>)))))"

datatype outcome = Returned jsval | Threw jsval

text \<open>Tagging what was thrown; on a value that is no object the assignment itself throws.\<close>

definition tag_error :: "string \<Rightarrow> jsval \<Rightarrow> jsval" where
  "tag_error tag e =
     (case e of
        JObj ms \<Rightarrow> JObj (js_put tag (JBool True) ms)
      | JArr xs \<Rightarrow> e
      | _ \<Rightarrow> JObj [(''name'', JStr ''TypeError'')])"

definition broadcastOnce_end ::
  "(rat \<Rightarrow> string) \<Rightarrow> write_result \<Rightarrow> send_request \<Rightarrow> nat option \<Rightarrow> outcome \<Rightarrow> money_path \<Rightarrow> outcome \<times> money_path" where
  "broadcastOnce_end show wr rq tok out mp =
     (case out of
        Threw e \<Rightarrow>
          (let ambiguous = isAmbiguousSendError show e;
               mp' = mp\<lparr>mp_guard := map_option (if ambiguous then commit wr tok JUndef else release wr tok) (mp_guard mp)\<rparr>
           in (Threw (if rq_tag rq \<noteq> [] \<and> ambiguous then tag_error (rq_tag rq) e else e), mp'))
      | Returned v \<Rightarrow>
          (Returned (if truthy v then v else JObj []),
           mp\<lparr>mp_tracker := (if nullish (rq_key rq) then mp_tracker mp else map_option (amo_mark show (rq_key rq)) (mp_tracker mp)),
              mp_guard := map_option (commit wr tok JUndef) (mp_guard mp)\<rparr>))"

section \<open>What the classes mean\<close>

text \<open>
  the two classes of failed sends. A failure that moved funds or whose transaction the node
  holds is ambiguous and never counts as not sent. Every failure proven not sent is safe to
  retry, with one exception: the encoder's sanitised transport text on an error that carries a never-connected
  code and no answer below 500 is in both classes.
\<close>

theorem never_sent_and_ambiguous:
  "isNeverSentError show e \<and> isAmbiguousSendError show e \<longleftrightarrow>
     truthy e \<and> \<not> truthy (js_prop e ''fundsCommitted'') \<and> \<not> isAlreadyKnownTx e \<and> js_prop e ''neverSent'' \<noteq> JBool True \<and>
     \<not> isNodeRejectedTx e \<and> \<not> answered_below_500 e \<and> never_connected show e \<and>
     or_text show (js_prop e ''message'') = ''Encoder RPC error: Transaction broadcast failed''"
proof -
  have fallback: "RPC_ERROR @ '': '' @ ENCODER_TRANSPORT_FALLBACK = ''Encoder RPC error: Transaction broadcast failed''"
    by (simp add: RPC_ERROR_def ENCODER_TRANSPORT_FALLBACK_def)
  show ?thesis
    unfolding isNeverSentError_def isAmbiguousSendError_def fallback Let_def by auto
qed

section \<open>Runs of the money path\<close>

text \<open>
  Any number of calls in flight over one guard and one tracker. The run keeps every call that reached
  its send, with what is known of it: still in flight, landed, possibly landed, or proven not to have moved money.
\<close>

datatype call_state = InFlight | Landed | MayHaveLanded | NotSent

record sent_call =
  sc_rq :: send_request
  sc_t :: rat
  sc_cost :: rat
  sc_token :: nat
  sc_state :: call_state

record money_run =
  mr_guard :: guard
  mr_tracker :: tracker
  mr_now :: rat
  mr_calls :: "sent_call list"

abbreviation path_of :: "money_run \<Rightarrow> money_path" where
  "path_of r \<equiv> \<lparr>mp_tracker = Some (mr_tracker r), mp_guard = Some (mr_guard r)\<rparr>"

definition outcome_state :: "(rat \<Rightarrow> string) \<Rightarrow> outcome \<Rightarrow> call_state" where
  "outcome_state show out =
     (case out of Returned v \<Rightarrow> Landed | Threw e \<Rightarrow> if isAmbiguousSendError show e then MayHaveLanded else NotSent)"

inductive money_step :: "(rat \<Rightarrow> string) \<Rightarrow> money_run \<Rightarrow> money_run \<Rightarrow> bool" for "show" where
  call_sent: "\<lbrakk>mr_now r \<le> now; broadcastOnce_begin show now wr wr' rq (path_of r) = (Sending (Some n), mp);
      mp = \<lparr>mp_tracker = Some t, mp_guard = Some g\<rparr>\<rbrakk> \<Longrightarrow>
    money_step show r \<lparr>mr_guard = g, mr_tracker = t, mr_now = now,
      mr_calls = mr_calls r @ [\<lparr>sc_rq = rq, sc_t = now, sc_cost = computeCost (rq_cost rq) (mr_guard r), sc_token = n, sc_state = InFlight\<rparr>]\<rparr>"
| call_skipped: "\<lbrakk>mr_now r \<le> now; broadcastOnce_begin show now wr wr' rq (path_of r) = (b, mp); \<forall>tok. b \<noteq> Sending tok;
      mp = \<lparr>mp_tracker = Some t, mp_guard = Some g\<rparr>\<rbrakk> \<Longrightarrow>
    money_step show r (r\<lparr>mr_guard := g, mr_tracker := t, mr_now := now\<rparr>)"
| call_ended: "\<lbrakk>mr_now r \<le> now; i < length (mr_calls r); sc_state (mr_calls r ! i) = InFlight;
      broadcastOnce_end show wr (sc_rq (mr_calls r ! i)) (Some (sc_token (mr_calls r ! i))) out (path_of r) = (out', mp);
      mp = \<lparr>mp_tracker = Some t, mp_guard = Some g\<rparr>\<rbrakk> \<Longrightarrow>
    money_step show r \<lparr>mr_guard = g, mr_tracker = t, mr_now = now,
      mr_calls = (mr_calls r)[i := (mr_calls r ! i)\<lparr>sc_state := outcome_state show out\<rparr>]\<rparr>"
| operator_pause: "mr_now r \<le> now \<Longrightarrow> money_step show r (r\<lparr>mr_guard := snd (pause reason wr (mr_guard r)), mr_now := now\<rparr>)"
| operator_resume: "mr_now r \<le> now \<Longrightarrow> money_step show r (r\<lparr>mr_guard := snd (resume wr (mr_guard r)), mr_now := now\<rparr>)"

definition money_start :: "settings \<Rightarrow> settings \<Rightarrow> string \<Rightarrow> store_file \<Rightarrow> rat \<Rightarrow> access list \<Rightarrow> write_result \<Rightarrow> money_run" where
  "money_start env cfg prefix file now dirs wr =
     \<lparr>mr_guard = persistTo now dirs wr (new_SpendGuard env cfg prefix file), mr_tracker = [], mr_now = now, mr_calls = []\<rparr>"

definition spend_of :: "sent_call \<Rightarrow> spend" where
  "spend_of c = \<lparr>sp_t = sc_t c, sp_cost = sc_cost c, sp_res = Some (sc_token c)\<rparr>"

definition may_have_moved :: "sent_call \<Rightarrow> bool" where
  "may_have_moved c \<longleftrightarrow> sc_state c \<noteq> NotSent"

definition moved_log :: "sent_call list \<Rightarrow> spend list" where
  "moved_log cs = map spend_of (filter may_have_moved cs)"

lemma moved_log_append: "moved_log (cs @ ds) = moved_log cs @ moved_log ds"
  by (simp add: moved_log_def)

lemma moved_log_keep: "i < length cs \<Longrightarrow> may_have_moved (cs ! i) \<Longrightarrow> s \<noteq> NotSent \<Longrightarrow> moved_log (cs[i := (cs ! i)\<lparr>sc_state := s\<rparr>]) = moved_log cs"
proof (induction cs arbitrary: i)
  case (Cons c cs)
  then show ?case
    by (cases i) (simp_all add: moved_log_def may_have_moved_def spend_of_def)
qed simp

lemma moved_log_drop:
  assumes "i < length cs" "may_have_moved (cs ! i)" "distinct (map sp_res (moved_log cs))"
  shows "moved_log (cs[i := (cs ! i)\<lparr>sc_state := NotSent\<rparr>]) = drop_reservation (sc_token (cs ! i)) (moved_log cs)"
  using assms
proof (induction cs arbitrary: i)
  case (Cons c cs)
  show ?case
  proof (cases i)
    case 0
    then show ?thesis
      using Cons.prems by (simp add: moved_log_def may_have_moved_def spend_of_def drop_reservation_def)
  next
    case (Suc j)
    then have IH: "moved_log (cs[j := (cs ! j)\<lparr>sc_state := NotSent\<rparr>]) = drop_reservation (sc_token (cs ! j)) (moved_log cs)"
      using Cons.prems by (intro Cons.IH) (auto simp: moved_log_def split: if_splits)
    have "sc_token c \<noteq> sc_token (cs ! j)" if "may_have_moved c"
    proof -
      have "spend_of (cs ! j) \<in> set (moved_log cs)"
        using Cons.prems Suc by (auto simp: moved_log_def)
      then show ?thesis
        using Cons.prems(3) that by (force simp: moved_log_def spend_of_def)
    qed
    then show ?thesis
      using IH Suc by (cases "may_have_moved c") (simp_all add: moved_log_def drop_reservation_def spend_of_def)
  qed
qed simp

definition money_ok :: "(rat \<Rightarrow> string) \<Rightarrow> money_run \<Rightarrow> bool" where
  "money_ok show r \<longleftrightarrow>
     linv (mr_guard r) (mr_now r) (moved_log (mr_calls r)) (moved_log (mr_calls r)) \<and>
     (\<forall>c \<in> set (mr_calls r). sc_token c \<le> sg_seq (mr_guard r) \<and> (sc_state c = InFlight \<longrightarrow> live_token (Some (sc_token c)) (mr_guard r)) \<and>
        (sc_state c = Landed \<and> \<not> nullish (rq_key (sc_rq c)) \<longrightarrow> amo_has show (rq_key (sc_rq c)) (mr_tracker r)))"

section \<open>Tokens\<close>

lemma persist_tokens [simp]: "sg_tokens (snd (persist wr g)) = sg_tokens g" "sg_seq (snd (persist wr g)) = sg_seq g"
  by (cases wr; simp add: persist_def)+

lemma check_tokens: "sg_tokens (snd (check now wr balance cost g)) = sg_tokens g" "sg_seq (snd (check now wr balance cost g)) = sg_seq g"
proof -
  have "sg_tokens (snd (storeUsable wr g)) = sg_tokens g" "sg_seq (snd (storeUsable wr g)) = sg_seq g"
    by (simp_all add: storeUsable_def)
  then show "sg_tokens (snd (check now wr balance cost g)) = sg_tokens g" "sg_seq (snd (check now wr balance cost g)) = sg_seq g"
    by (auto simp: check_def spentInWindow_def guard_prune_def Let_def split: prod.split)
qed

lemma reserve_tokens:
  assumes "reserve now wr cost g = (tok, g')"
  shows "sg_seq g \<le> sg_seq g'" "m \<le> sg_seq g \<Longrightarrow> map_of (sg_tokens g') m = map_of (sg_tokens g) m"
    "tok = Some n \<Longrightarrow> n \<le> sg_seq g' \<and> live_token (Some n) g'"
proof -
  obtain ok c where c: "ceiling_allow now (sg_ceiling g) = (ok, c)" by fastforce
  define g1 where "g1 = guard_prune now (g\<lparr>sg_ceiling := c\<rparr>)"
  have g1: "sg_tokens g1 = sg_tokens g" "sg_seq g1 = sg_seq g"
    by (simp_all add: g1_def guard_prune_def)
  obtain hd c' where c': "ceiling_reserve now (sg_ceiling g1) = (hd, c')" by fastforce
  define g2 where "g2 = g1\<lparr>sg_seq := sg_seq g1 + 1, sg_ceiling := c',
      sg_spends := sg_spends g1 @ [\<lparr>sp_t = now, sp_cost = computeCost cost g, sp_res = Some (sg_seq g1 + 1)\<rparr>]\<rparr>"
  obtain d g3 where g3: "persist wr g2 = (d, g3)" by fastforce
  then have t3: "sg_tokens g3 = sg_tokens g" "sg_seq g3 = Suc (sg_seq g)"
    using persist_tokens [of wr g2] g1 by (simp_all add: g2_def)
  note r = assms [unfolded reserve_def Let_def c spentInWindow_def prod.case, folded g1_def, unfolded c' prod.case, folded g2_def, unfolded g3 prod.case]
  show "sg_seq g \<le> sg_seq g'" "m \<le> sg_seq g \<Longrightarrow> map_of (sg_tokens g') m = map_of (sg_tokens g) m"
    "tok = Some n \<Longrightarrow> n \<le> sg_seq g' \<and> live_token (Some n) g'"
    using r t3 g1 by (auto simp: live_token_def map_of_js_put split: if_splits)
qed

lemma live_cong: "map_of (sg_tokens g') n = map_of (sg_tokens g) n \<Longrightarrow> live_token (Some n) g' = live_token (Some n) g"
  by (simp add: live_token_def)

lemma settle_tokens: "m \<noteq> n \<Longrightarrow> map_of (sg_tokens (settle n g)) m = map_of (sg_tokens g) m" "sg_seq (settle n g) = sg_seq g"
  by (simp_all add: settle_def map_of_js_put split: option.split)

lemma end_tokens:
  "m \<noteq> n \<Longrightarrow> map_of (sg_tokens (commit wr (Some n) JUndef g)) m = map_of (sg_tokens g) m"
  "m \<noteq> n \<Longrightarrow> map_of (sg_tokens (release wr (Some n) g)) m = map_of (sg_tokens g) m"
  "sg_seq (commit wr (Some n) JUndef g) = sg_seq g" "sg_seq (release wr (Some n) g) = sg_seq g"
  by (simp_all add: commit_def release_def settle_tokens split: option.split)

lemma pause_tokens:
  "sg_tokens (snd (pause reason wr g)) = sg_tokens g" "sg_seq (snd (pause reason wr g)) = sg_seq g"
  "sg_tokens (snd (resume wr g)) = sg_tokens g" "sg_seq (snd (resume wr g)) = sg_seq g"
  by (simp_all add: pause_def resume_def)

lemma noteBlocked_guard: "\<exists>c. noteBlocked now g = g\<lparr>sg_ceiling := c\<rparr>"
proof (cases "sg_paused g \<or> sg_broken g")
  case True
  then show ?thesis
    by (intro exI [of _ "sg_ceiling g"]) (auto simp: noteBlocked_def)
next
  case False
  then show ?thesis
    by (auto simp: noteBlocked_def split: prod.split)
qed

section \<open>The invariant of the money path\<close>

lemma money_okI:
  assumes "linv g now (moved_log cs) (moved_log cs)" "money_ok show r" "cs = mr_calls r" "sg_seq (mr_guard r) \<le> sg_seq g"
    and "\<And>m. m \<le> sg_seq (mr_guard r) \<Longrightarrow> map_of (sg_tokens g) m = map_of (sg_tokens (mr_guard r)) m"
    and "t = mr_tracker r"
  shows "money_ok show \<lparr>mr_guard = g, mr_tracker = t, mr_now = now, mr_calls = cs\<rparr>"
  using assms by (auto simp: money_ok_def live_token_def)

lemma begin_ok:
  assumes ok: "money_ok show r" and now: "mr_now r \<le> now"
    and b: "broadcastOnce_begin show now wr wr' rq (path_of r) = (b, \<lparr>mp_tracker = Some t, mp_guard = Some g\<rparr>)"
  shows "t = mr_tracker r" "sg_seq (mr_guard r) \<le> sg_seq g"
    "m \<le> sg_seq (mr_guard r) \<Longrightarrow> map_of (sg_tokens g) m = map_of (sg_tokens (mr_guard r)) m"
    "\<forall>tok. b \<noteq> Sending tok \<Longrightarrow> linv g now (moved_log (mr_calls r)) (moved_log (mr_calls r))"
    "b = Sending (Some n) \<Longrightarrow> linv g now (moved_log (mr_calls r) @ [\<lparr>sp_t = now, sp_cost = computeCost (rq_cost rq) (mr_guard r), sp_res = Some n\<rparr>])
      (moved_log (mr_calls r) @ [\<lparr>sp_t = now, sp_cost = computeCost (rq_cost rq) (mr_guard r), sp_res = Some n\<rparr>]) \<and> n \<le> sg_seq g \<and> live_token (Some n) g"
proof -
  let ?g = "mr_guard r" and ?lg = "moved_log (mr_calls r)"
  have inv: "linv ?g now ?lg ?lg"
    using ok now linv_time by (auto simp: money_ok_def)
  obtain ref g1 where g1: "check now wr (rq_balance rq) (rq_cost rq) ?g = (ref, g1)" by fastforce
  have 1: "linv g1 now ?lg ?lg"
    using inv g1 by (rule linv_check)
  have t1: "sg_tokens g1 = sg_tokens ?g" "sg_seq g1 = sg_seq ?g"
    using check_tokens [of now wr "rq_balance rq" "rq_cost rq" ?g] by (simp_all add: g1)
  have c1: "computeCost (rq_cost rq) g1 = computeCost (rq_cost rq) ?g"
    using check_config [of ?g now wr "rq_balance rq" "rq_cost rq"] by (intro computeCost_est) (simp add: g1 same_config_def)
  obtain tok g2 where g2: "reserve now wr' (rq_cost rq) g1 = (tok, g2)" by fastforce
  note 2 = linv_reserve [OF 1 g2] and t2 = reserve_tokens [OF g2]
  obtain c where nb: "noteBlocked now g2 = g2\<lparr>sg_ceiling := c\<rparr>"
    using noteBlocked_guard by blast
  have cases: "b = Duplicate \<and> g = ?g \<or> (\<exists>x. b = GateRefused x \<and> g = g1) \<or> b = NotReserved \<and> tok = None \<and> g = g2\<lparr>sg_ceiling := c\<rparr> \<or>
      (\<exists>n. b = Sending (Some n) \<and> tok = Some n \<and> g = g2)" and t: "t = mr_tracker r"
    using b by (auto simp: broadcastOnce_begin_def g1 g2 nb split: if_splits option.splits)
  show "t = mr_tracker r"
    by (rule t)
  show "sg_seq (mr_guard r) \<le> sg_seq g"
    using cases t1 t2(1) by auto
  show "map_of (sg_tokens g) m = map_of (sg_tokens (mr_guard r)) m" if "m \<le> sg_seq (mr_guard r)"
    using cases t1 t2(2) [of m] that by auto
  show "linv g now (moved_log (mr_calls r)) (moved_log (mr_calls r))" if "\<forall>tok. b \<noteq> Sending tok"
    using cases that inv 1 2 linv_ceiling [of g2 now ?lg ?lg c] by (auto simp: log_grant_def)
  show "linv g now (moved_log (mr_calls r) @ [\<lparr>sp_t = now, sp_cost = computeCost (rq_cost rq) (mr_guard r), sp_res = Some n\<rparr>])
        (moved_log (mr_calls r) @ [\<lparr>sp_t = now, sp_cost = computeCost (rq_cost rq) (mr_guard r), sp_res = Some n\<rparr>]) \<and>
      n \<le> sg_seq g \<and> live_token (Some n) g" if "b = Sending (Some n)"
    using cases that 2 t2(3) [of n] c1 by (auto simp: log_grant_def)
qed

lemma end_linv:
  assumes inv: "linv g now (moved_log cs) (moved_log cs)" and i: "i < length cs" "sc_state (cs ! i) = InFlight"
    and live: "live_token (Some (sc_token (cs ! i))) g"
    and b: "broadcastOnce_end show wr rq (Some (sc_token (cs ! i))) out \<lparr>mp_tracker = Some t0, mp_guard = Some g\<rparr> =
      (out', \<lparr>mp_tracker = Some t, mp_guard = Some g'\<rparr>)"
  shows "linv g' now (moved_log (cs[i := (cs ! i)\<lparr>sc_state := outcome_state show out\<rparr>]))
    (moved_log (cs[i := (cs ! i)\<lparr>sc_state := outcome_state show out\<rparr>]))"
proof -
  let ?n = "sc_token (cs ! i)"
  have moved: "may_have_moved (cs ! i)"
    using i(2) by (simp add: may_have_moved_def)
  have "linv (commit wr (Some ?n) JUndef g) now (moved_log cs) (moved_log cs)"
    using linv_commit [OF inv, of wr "Some ?n" JUndef] by (simp add: log_reprice_def log_lower_def)
  moreover have "linv (release wr (Some ?n) g) now (drop_reservation ?n (moved_log cs)) (drop_reservation ?n (moved_log cs))"
    using linv_release_op [OF inv, of wr "Some ?n"] live by simp
  moreover have "distinct (map sp_res (moved_log cs))"
    using inv by (simp add: linv_def log_ok_def)
  ultimately show ?thesis
    using b moved_log_keep [OF i(1) moved] moved_log_drop [OF i(1) moved]
    by (auto simp: broadcastOnce_end_def outcome_state_def Let_def split: outcome.splits if_splits)
qed

lemma end_fields:
  assumes "broadcastOnce_end show wr rq (Some n) out \<lparr>mp_tracker = Some t0, mp_guard = Some g\<rparr> =
      (out', \<lparr>mp_tracker = Some t, mp_guard = Some g'\<rparr>)"
  shows "sg_seq g' = sg_seq g" "m \<noteq> n \<Longrightarrow> map_of (sg_tokens g') m = map_of (sg_tokens g) m" "set t0 \<subseteq> set t"
    "outcome_state show out = Landed \<Longrightarrow> \<not> nullish (rq_key rq) \<Longrightarrow> amo_has show (rq_key rq) t" "outcome_state show out \<noteq> InFlight"
  using assms
  by (auto simp: broadcastOnce_end_def outcome_state_def amo_mark_def amo_has_def end_tokens Let_def split: outcome.splits if_splits)

lemma distinct_tokens:
  assumes "distinct (map sp_res (moved_log cs))" "i < length cs" "j < length cs" "i \<noteq> j" "may_have_moved (cs ! i)" "may_have_moved (cs ! j)"
  shows "sc_token (cs ! i) \<noteq> sc_token (cs ! j)"
  using assms
proof (induction cs arbitrary: i j)
  case (Cons c cs)
  have head: "sc_token c \<noteq> sc_token (cs ! k)" if "may_have_moved c" "k < length cs" "may_have_moved (cs ! k)" for k
  proof -
    have "spend_of (cs ! k) \<in> set (moved_log cs)"
      using that by (auto simp: moved_log_def)
    then show ?thesis
      using Cons.prems(1) that by (force simp: moved_log_def spend_of_def)
  qed
  have tail: "distinct (map sp_res (moved_log cs))"
    using Cons.prems(1) by (auto simp: moved_log_def split: if_splits)
  show ?case
  proof (cases i)
    case 0
    then show ?thesis
      using Cons.prems head by (cases j) auto
  next
    case i: (Suc i')
    show ?thesis
    proof (cases j)
      case 0
      then show ?thesis
        using Cons.prems head [of i', THEN not_sym] i by simp
    next
      case (Suc j')
      then show ?thesis
        using Cons.IH [OF tail, of i' j'] Cons.prems i by simp
    qed
  qed
qed simp

lemma money_step_ok:
  assumes "money_step show r r'" and ok: "money_ok show r"
  shows "money_ok show r'"
  using assms(1)
proof cases
  case (call_sent now wr wr' rq n mp t g)
  note b = begin_ok [OF ok call_sent(2) call_sent(3) [unfolded call_sent(4)]]
  have "\<forall>c \<in> set (mr_calls r). sc_token c \<le> sg_seq g \<and> (sc_state c = InFlight \<longrightarrow> live_token (Some (sc_token c)) g) \<and>
      (sc_state c = Landed \<and> \<not> nullish (rq_key (sc_rq c)) \<longrightarrow> amo_has show (rq_key (sc_rq c)) t)"
    using ok b(1,2,3) by (auto simp: money_ok_def live_token_def)
  then show ?thesis
    unfolding call_sent(1) using b(5) by (simp add: money_ok_def moved_log_append) (simp add: moved_log_def may_have_moved_def spend_of_def)
next
  case (call_skipped now wr wr' rq b mp t g)
  note b = begin_ok [OF ok call_skipped(2) call_skipped(3) [unfolded call_skipped(5)]]
  have "money_ok show \<lparr>mr_guard = g, mr_tracker = t, mr_now = now, mr_calls = mr_calls r\<rparr>"
    using b call_skipped(4) by (intro money_okI [OF _ ok]) auto
  then show ?thesis
    by (simp add: call_skipped(1) money_ok_def)
next
  case (call_ended now i wr out out' mp t g)
  let ?c = "mr_calls r ! i"
  have inv: "linv (mr_guard r) now (moved_log (mr_calls r)) (moved_log (mr_calls r))"
    using ok call_ended(2) linv_time by (auto simp: money_ok_def)
  have live: "live_token (Some (sc_token ?c)) (mr_guard r)" "sc_token ?c \<le> sg_seq (mr_guard r)"
    using ok call_ended(3,4) by (auto simp: money_ok_def)
  note e = call_ended(5) [unfolded call_ended(6)]
  note f = end_fields [OF e]
  have lin: "linv g now (moved_log ((mr_calls r)[i := ?c\<lparr>sc_state := outcome_state show out\<rparr>]))
      (moved_log ((mr_calls r)[i := ?c\<lparr>sc_state := outcome_state show out\<rparr>]))"
    using end_linv [OF inv call_ended(3,4) live(1) e] .
  have dist: "distinct (map sp_res (moved_log (mr_calls r)))"
    using inv by (simp add: linv_def log_ok_def)
  have "sc_token c \<le> sg_seq g \<and> (sc_state c = InFlight \<longrightarrow> live_token (Some (sc_token c)) g) \<and>
      (sc_state c = Landed \<and> \<not> nullish (rq_key (sc_rq c)) \<longrightarrow> amo_has show (rq_key (sc_rq c)) t)"
    if c: "c \<in> set ((mr_calls r)[i := ?c\<lparr>sc_state := outcome_state show out\<rparr>])" for c
  proof -
    obtain j where j: "j < length (mr_calls r)" "c = (mr_calls r)[i := ?c\<lparr>sc_state := outcome_state show out\<rparr>] ! j"
      using c by (auto simp: in_set_conv_nth)
    show ?thesis
    proof (cases "j = i")
      case True
      then show ?thesis
        using j f(1,4,5) live(2) by simp
    next
      case False
      then have c: "c = mr_calls r ! j"
        using j by simp
      have "sc_token c \<noteq> sc_token ?c" if "sc_state c = InFlight"
        using distinct_tokens [OF dist j(1) call_ended(3) False] that call_ended(4) by (simp add: c may_have_moved_def)
      then show ?thesis
        using ok c j(1) f(1,2,3) by (auto simp: money_ok_def live_token_def amo_has_def)
    qed
  qed
  then show ?thesis
    using lin by (simp add: call_ended(1) money_ok_def)
next
  case (operator_pause now reason wr)
  have "money_ok show \<lparr>mr_guard = snd (pause reason wr (mr_guard r)), mr_tracker = mr_tracker r, mr_now = now, mr_calls = mr_calls r\<rparr>"
    using ok linv_pause(1) [OF linv_time] operator_pause(2) by (intro money_okI [OF _ ok]) (auto simp: pause_tokens money_ok_def)
  then show ?thesis
    by (simp add: operator_pause(1) money_ok_def)
next
  case (operator_resume now wr)
  have "money_ok show \<lparr>mr_guard = snd (resume wr (mr_guard r)), mr_tracker = mr_tracker r, mr_now = now, mr_calls = mr_calls r\<rparr>"
    using ok linv_pause(2) [OF linv_time] operator_resume(2) by (intro money_okI [OF _ ok]) (auto simp: pause_tokens money_ok_def)
  then show ?thesis
    by (simp add: operator_resume(1) money_ok_def)
qed

lemma money_run_ok:
  assumes "(money_step show)\<^sup>*\<^sup>* (money_start env cfg prefix file now0 dirs wr) r"
  shows "money_ok show r"
  using assms
proof (induction rule: rtranclp_induct)
  case base
  then show ?case
    using linv_start by (simp add: money_ok_def money_start_def spend_start_def moved_log_def)
next
  case (step y z)
  then show ?case
    using money_step_ok by blast
qed

section \<open>Properties\<close>

text \<open>
  C14: the money path never overspends, while the clock does not run backwards. Whatever calls are in flight together, in whatever order and way their
  sends end, and whatever becomes of the store's writes, the calls that moved money or may have done so (in
  flight, landed, or failed ambiguously) cost at most the budget in every rolling window, and the budget is
  never more than 200000 cents. Only a send that is classified as not ambiguous gives its reservation back.
\<close>

theorem money_path_within_budget:
  assumes "(money_step show)\<^sup>*\<^sup>* (money_start env cfg prefix file now0 dirs wr) r"
  shows "spent (filter (in_window (of_int (sg_window (mr_guard r))) T) (map spend_of (filter may_have_moved (mr_calls r)))) \<le>
      of_int (sg_max (mr_guard r)) \<and> sg_max (mr_guard r) \<le> HARD_CAP_USD_CENTS"
  using money_run_ok [OF assms] by (auto simp: money_ok_def linv_def guard_ok_def moved_log_def budgeted_def)

text \<open>
  C15: what landed is not sent again. In every run, once a call with a key has landed (its send returned), a later call with
  the same key is answered as a duplicate and changes nothing. Calls that are already in flight with that key are
  not held back, and a send that failed ambiguously does not mark its key: it stays in the budget, but a later call may
  send again.
\<close>

theorem landed_key_not_resent:
  assumes "(money_step show)\<^sup>*\<^sup>* (money_start env cfg prefix file now0 dirs wr) r"
    and "c \<in> set (mr_calls r)" "sc_state c = Landed" "\<not> nullish (rq_key (sc_rq c))" "\<not> nullish (rq_key rq)"
    and "js_String show (rq_key rq) = js_String show (rq_key (sc_rq c))"
  shows "broadcastOnce_begin show now w w' rq (path_of r) = (Duplicate, path_of r)"
  using money_run_ok [OF assms(1)] assms(2-) by (auto simp: money_ok_def broadcastOnce_begin_def amo_has_def)

section \<open>Demonstration\<close>

text \<open>Two calls with one key in flight together: the first lands, the second times out.\<close>

definition demo_rq :: send_request where
  "demo_rq = \<lparr>rq_key = JStr ''r1'', rq_balance = JUndef, rq_cost = JNum (Fin 150), rq_tag = ''ambiguous''\<rparr>"

definition no_show :: "rat \<Rightarrow> string" where
  "no_show q = []"

definition demo_path0 :: money_path where
  "demo_path0 = \<lparr>mp_tracker = Some [], mp_guard = Some demo_guard\<rparr>"

definition demo_path1 :: money_path where
  "demo_path1 = snd (broadcastOnce_begin no_show 20 Written Written demo_rq demo_path0)"

definition demo_path2 :: money_path where
  "demo_path2 = snd (broadcastOnce_begin no_show 30 Written Written demo_rq demo_path1)"

definition demo_path3 :: money_path where
  "demo_path3 = snd (broadcastOnce_end no_show Written demo_rq (Some 1) (Returned (JStr ''tx'')) demo_path2)"

definition demo_path4 :: money_path where
  "demo_path4 = snd (broadcastOnce_end no_show Written demo_rq (Some 2) (Threw (JObj [(''message'', JStr ''timeout'')])) demo_path3)"

definition run_at :: "money_path \<Rightarrow> rat \<Rightarrow> (nat \<times> rat \<times> call_state) list \<Rightarrow> money_run" where
  "run_at mp now cs =
     \<lparr>mr_guard = the (mp_guard mp), mr_tracker = the (mp_tracker mp), mr_now = now,
      mr_calls = map (\<lambda>(n, t, s). \<lparr>sc_rq = demo_rq, sc_t = t, sc_cost = 150, sc_token = n, sc_state = s\<rparr>) cs\<rparr>"

lemma demo_begins:
  "fst (broadcastOnce_begin no_show 20 Written Written demo_rq demo_path0) = Sending (Some 1)"
  "fst (broadcastOnce_begin no_show 30 Written Written demo_rq demo_path1) = Sending (Some 2)"
  "computeCost (rq_cost demo_rq) (the (mp_guard demo_path1)) = 150"
  "computeCost (rq_cost demo_rq) demo_guard = 150"
  by code_simp+

lemma demo_present:
  "mp_guard demo_path1 \<noteq> None" "mp_guard demo_path2 \<noteq> None" "mp_guard demo_path3 \<noteq> None" "mp_guard demo_path4 \<noteq> None"
  "mp_tracker demo_path1 \<noteq> None" "mp_tracker demo_path2 \<noteq> None" "mp_tracker demo_path3 \<noteq> None" "mp_tracker demo_path4 \<noteq> None"
  by code_simp+

lemma path_whole: "mp_guard mp \<noteq> None \<Longrightarrow> mp_tracker mp \<noteq> None \<Longrightarrow> \<lparr>mp_tracker = Some (the (mp_tracker mp)), mp_guard = Some (the (mp_guard mp))\<rparr> = mp"
  by (cases mp) auto

lemma send_step:
  assumes "mp_guard mp \<noteq> None" "mp_tracker mp \<noteq> None" "t \<le> now" "mp' = snd (broadcastOnce_begin no_show now Written Written demo_rq mp)"
    and "fst (broadcastOnce_begin no_show now Written Written demo_rq mp) = Sending (Some n)" "mp_guard mp' \<noteq> None" "mp_tracker mp' \<noteq> None"
    and "computeCost (rq_cost demo_rq) (the (mp_guard mp)) = 150"
  shows "money_step no_show (run_at mp t cs) (run_at mp' now (cs @ [(n, now, InFlight)]))"
proof -
  have "broadcastOnce_begin no_show now Written Written demo_rq (path_of (run_at mp t cs)) = (Sending (Some n), mp')"
    using path_whole [OF assms(1,2)] assms(4,5) by (simp add: run_at_def prod_eq_iff)
  note call_sent [OF _ this path_whole [OF assms(6,7), symmetric]]
  then show ?thesis
    using assms(3,8) by (simp add: run_at_def)
qed

lemma end_step:
  assumes "mp_guard mp \<noteq> None" "mp_tracker mp \<noteq> None" "t \<le> now" "i < length cs" "cs ! i = (n, t0, InFlight)"
    and "mp' = snd (broadcastOnce_end no_show Written demo_rq (Some n) out mp)" "mp_guard mp' \<noteq> None" "mp_tracker mp' \<noteq> None"
  shows "money_step no_show (run_at mp t cs) (run_at mp' now (cs[i := (n, t0, outcome_state no_show out)]))"
proof -
  have "broadcastOnce_end no_show Written demo_rq (Some n) out (path_of (run_at mp t cs)) =
      (fst (broadcastOnce_end no_show Written demo_rq (Some n) out mp), mp')"
    using path_whole [OF assms(1,2)] assms(6) by (simp add: run_at_def)
  then have "money_step no_show (run_at mp t cs) \<lparr>mr_guard = the (mp_guard mp'), mr_tracker = the (mp_tracker mp'), mr_now = now,
      mr_calls = (mr_calls (run_at mp t cs))[i := (mr_calls (run_at mp t cs) ! i)\<lparr>sc_state := outcome_state no_show out\<rparr>]\<rparr>"
    using assms(3,4,5) by (intro call_ended [OF _ _ _ _ path_whole [OF assms(7,8), symmetric]]) (simp_all add: run_at_def)
  then show ?thesis
    using assms(4,5) by (simp add: run_at_def map_update)
qed

definition demo_money :: money_run where
  "demo_money = run_at demo_path4 50 [(1, 20, Landed), (2, 30, MayHaveLanded)]"

lemma demo_outcomes: "outcome_state no_show (Returned (JStr ''tx'')) = Landed"
    "outcome_state no_show (Threw (JObj [(''message'', JStr ''timeout'')])) = MayHaveLanded"
  by code_simp+

lemma demo_money_run: "(money_step no_show)\<^sup>*\<^sup>* (money_start (\<lambda>k. None) demo_cfg ''ANCHOR'' NoFile 10 [AccessOk] Written) demo_money"
proof -
  have start: "money_start (\<lambda>k. None) demo_cfg ''ANCHOR'' NoFile 10 [AccessOk] Written = run_at demo_path0 10 []"
    using demo_start_eq by (simp add: money_start_def demo_start_def spend_start_def run_at_def demo_path0_def)
  have 1: "money_step no_show (run_at demo_path0 10 []) (run_at demo_path1 20 [(1, 20, InFlight)])"
    using send_step [of demo_path0 10 20 demo_path1 1 "[]"] demo_begins demo_present
    by (simp add: demo_path1_def) (simp add: demo_path0_def)
  have 2: "money_step no_show (run_at demo_path1 20 [(1, 20, InFlight)]) (run_at demo_path2 30 [(1, 20, InFlight), (2, 30, InFlight)])"
    using send_step [of demo_path1 20 30 demo_path2 2 "[(1, 20, InFlight)]"] demo_begins demo_present
    by (simp add: demo_path2_def)
  have 3: "money_step no_show (run_at demo_path2 30 [(1, 20, InFlight), (2, 30, InFlight)])
      (run_at demo_path3 40 [(1, 20, Landed), (2, 30, InFlight)])"
    using end_step [of demo_path2 30 40 0 "[(1, 20, InFlight), (2, 30, InFlight)]" 1 20 demo_path3 "Returned (JStr ''tx'')"] demo_present demo_outcomes
    by (simp add: demo_path3_def)
  have 4: "money_step no_show (run_at demo_path3 40 [(1, 20, Landed), (2, 30, InFlight)]) demo_money"
    using end_step [of demo_path3 40 50 1 "[(1, 20, Landed), (2, 30, InFlight)]" 2 30 demo_path4 "Threw (JObj [(''message'', JStr ''timeout'')])"]
      demo_present demo_outcomes by (simp add: demo_path4_def demo_money_def)
  show ?thesis
    unfolding start using 1 2 3 4 by (meson rtranclp.rtrancl_into_rtrancl rtranclp.rtrancl_refl)
qed

lemma demo_money_guard: "sg_window (mr_guard demo_money) = 3600000" "sg_max (mr_guard demo_money) = 200000"
  by code_simp+

theorem money_path_within_budget_witness:
  "spent (filter (in_window 3600000 50) (map spend_of (filter may_have_moved (mr_calls demo_money)))) \<le> 200000 \<and>
   length (filter may_have_moved (mr_calls demo_money)) = 2"
  using money_path_within_budget [OF demo_money_run, of 50]
  by (simp add: demo_money_guard) (simp add: demo_money_def run_at_def may_have_moved_def)

theorem landed_key_not_resent_witness:
  "broadcastOnce_begin no_show 60 Written Written demo_rq (path_of demo_money) = (Duplicate, path_of demo_money)"
proof (rule landed_key_not_resent [OF demo_money_run])
  show "mr_calls demo_money ! 0 \<in> set (mr_calls demo_money)" "sc_state (mr_calls demo_money ! 0) = Landed"
      "\<not> nullish (rq_key (sc_rq (mr_calls demo_money ! 0)))" "\<not> nullish (rq_key demo_rq)"
      "js_String no_show (rq_key demo_rq) = js_String no_show (rq_key (sc_rq (mr_calls demo_money ! 0)))"
    by (simp_all add: demo_money_def run_at_def nullish_def demo_rq_def)
qed

end
