(* ===== verification/Wire_Codec.thy ===== *)
theory Wire_Codec
  imports Json_Text "HOL-Library.Word"
begin

text \<open>
  The byte codecs of the ATTEST batch wire (\<open>src/lib/attest_batch_wire/primitives.js\<close>): canonical
  base64 and the CRC32 of a body. A buffer is its bytes as characters. Base64 has exactly one
  accepted spelling of every buffer, and a checksum changes with every single altered byte.
\<close>

unbundle bit_operations_syntax

section \<open>Base64\<close>

definition b64_char :: "nat \<Rightarrow> char" where
  "b64_char i =
     (if i < 26 then char_of (65 + i)
      else if i < 52 then char_of (71 + i)
      else if i < 62 then char_of (i - 4)
      else if i = 62 then CHR ''+'' else CHR ''/'')"

definition b64_index :: "char \<Rightarrow> nat option" where
  "b64_index c = (let n = (of_char c :: nat) in
     if 65 \<le> n \<and> n \<le> 90 then Some (n - 65)
     else if 97 \<le> n \<and> n \<le> 122 then Some (n - 71)
     else if 48 \<le> n \<and> n \<le> 57 then Some (n + 4)
     else if n = 43 then Some 62
     else if n = 47 then Some 63 else None)"

definition is_b64 :: "char \<Rightarrow> bool" where
  "is_b64 c \<longleftrightarrow> b64_index c \<noteq> None"

text \<open>\<open>Buffer.toString('base64')\<close>.\<close>

fun b64_encode :: "string \<Rightarrow> string" where
  "b64_encode [] = []"
| "b64_encode [a] =
     (let x = of_char a in [b64_char (x div 4), b64_char (x mod 4 * 16), CHR ''='', CHR ''=''])"
| "b64_encode [a, b] =
     (let x = of_char a; y = of_char b in [b64_char (x div 4), b64_char (x mod 4 * 16 + y div 16), b64_char (y mod 16 * 4), CHR ''=''])"
| "b64_encode (a # b # c # r) =
     (let x = of_char a; y = of_char b; z = of_char c in
      b64_char (x div 4) # b64_char (x mod 4 * 16 + y div 16) # b64_char (y mod 16 * 4 + z div 64) # b64_char (z mod 64) # b64_encode r)"

definition b64_sextet :: "char \<Rightarrow> nat" where
  "b64_sextet c = (case b64_index c of Some i \<Rightarrow> i | None \<Rightarrow> 0)"

text \<open>\<open>Buffer.from(text, 'base64')\<close> on whole quanta of the alphabet with at most two pads at the end.\<close>

fun b64_decode :: "string \<Rightarrow> string" where
  "b64_decode (p # q # r # s # t) =
     (let w = b64_sextet p; x = b64_sextet q; y = b64_sextet r; z = b64_sextet s;
          b1 = char_of (w * 4 + x div 16); b2 = char_of (x mod 16 * 16 + y div 4); b3 = char_of (y mod 4 * 64 + z)
      in if r = CHR ''='' then [b1]
         else if s = CHR ''='' then [b1, b2]
         else b1 # b2 # b3 # b64_decode t)"
| "b64_decode s = []"

text \<open>The pattern \<open>/^[A-Za-z0-9+/]+={0,2}$/\<close>.\<close>

definition CANONICAL_BASE64 :: "string \<Rightarrow> bool" where
  "CANONICAL_BASE64 s \<longleftrightarrow> takeWhile is_b64 s \<noteq> [] \<and> dropWhile is_b64 s \<in> {[], ''='', ''==''}"

definition decodeCanonicalBase64 :: "string \<Rightarrow> string option" where
  "decodeCanonicalBase64 field =
     (if field = [] then None
      else if length field mod 4 \<noteq> 0 then None
      else if \<not> CANONICAL_BASE64 field then None
      else (let buf = b64_decode field in
        if buf = [] then None
        else if b64_encode buf \<noteq> field then None
        else Some buf))"

section \<open>CRC32\<close>

definition crc_shift :: "32 word \<Rightarrow> 32 word" where
  "crc_shift c = (if bit c 0 then 0xEDB88320 XOR drop_bit 1 c else drop_bit 1 c)"

definition crc_byte :: "32 word \<Rightarrow> char \<Rightarrow> 32 word" where
  "crc_byte crc b = drop_bit 8 crc XOR (crc_shift ^^ 8) ((crc XOR of_char b) AND 0xFF)"

definition crc32 :: "string \<Rightarrow> 32 word" where
  "crc32 buf = foldl crc_byte 0xFFFFFFFF buf XOR 0xFFFFFFFF"

text \<open>\<open>toString(16).padStart(8, '0')\<close>.\<close>

fun hex_text :: "nat \<Rightarrow> nat \<Rightarrow> string" where
  "hex_text 0 n = []"
| "hex_text (Suc w) n = hex_text w (n div 16) @ [hex_digit (n mod 16)]"

text \<open>The class \<open>[0-9a-f]\<close>.\<close>

definition is_hex :: "char \<Rightarrow> bool" where
  "is_hex c \<longleftrightarrow> 48 \<le> (of_char c :: nat) \<and> (of_char c :: nat) \<le> 57 \<or> 97 \<le> (of_char c :: nat) \<and> (of_char c :: nat) \<le> 102"

definition crc32Hex :: "string \<Rightarrow> string" where
  "crc32Hex buf = hex_text 8 (unat (crc32 buf))"

section \<open>Base64 has one spelling\<close>

lemma b64_index_char: "i < 64 \<Longrightarrow> b64_index (b64_char i) = Some i"
  by (auto simp: b64_index_def b64_char_def Let_def)

lemma b64_sextet_char: "i < 64 \<Longrightarrow> b64_sextet (b64_char i) = i"
  by (simp add: b64_sextet_def b64_index_char)

lemma b64_char_not_pad: "i < 64 \<Longrightarrow> b64_char i \<noteq> CHR ''=''"
  using b64_index_char [of i] by (auto simp: b64_index_def [of "CHR ''=''"] Let_def)

lemma byte_less: "(of_char c :: nat) < 256"
  by (rule nat_of_char_less_256)

lemma sextets:
  fixes x y z :: nat
  assumes "x < 256" "y < 256" "z < 256"
  shows "x div 4 < 64" "x mod 4 * 16 < 64" "x mod 4 * 16 + y div 16 < 64" "y mod 16 * 4 < 64" "y mod 16 * 4 + z div 64 < 64" "z mod 64 < 64"
  using assms by linarith+

lemma place:
  fixes a k m :: nat
  assumes "k < m"
  shows "(a * m + k) div m = a" "(a * m + k) mod m = k"
  using assms by simp_all

lemma join_sextets:
  fixes x y z :: nat
  assumes "y < 256" "z < 256"
  shows "x div 4 * 4 + (x mod 4 * 16) div 16 = x"
    "x div 4 * 4 + (x mod 4 * 16 + y div 16) div 16 = x"
    "(x mod 4 * 16 + y div 16) mod 16 * 16 + (y mod 16 * 4) div 4 = y"
    "(x mod 4 * 16 + y div 16) mod 16 * 16 + (y mod 16 * 4 + z div 64) div 4 = y"
    "(y mod 16 * 4 + z div 64) mod 4 * 64 + z mod 64 = z"
proof -
  have b: "y div 16 < 16" "z div 64 < 4"
    using assms by auto
  show "x div 4 * 4 + (x mod 4 * 16) div 16 = x"
    by simp
  show "x div 4 * 4 + (x mod 4 * 16 + y div 16) div 16 = x"
    by (simp only: place [OF b(1)] div_mult_mod_eq)
  show "(x mod 4 * 16 + y div 16) mod 16 * 16 + (y mod 16 * 4) div 4 = y"
    by (simp only: place [OF b(1)] nonzero_mult_div_cancel_right) simp
  show "(x mod 4 * 16 + y div 16) mod 16 * 16 + (y mod 16 * 4 + z div 64) div 4 = y"
    by (simp only: place [OF b(1)] place [OF b(2)] div_mult_mod_eq)
  show "(y mod 16 * 4 + z div 64) mod 4 * 64 + z mod 64 = z"
    by (simp only: place [OF b(2)] div_mult_mod_eq)
qed

text \<open>Decoding of one quantum of alphabet characters.\<close>

lemma b64_decode_quantum:
  assumes "i < 64" "j < 64" "k < 64" "l < 64"
  shows "b64_decode (b64_char i # b64_char j # b64_char k # b64_char l # t) =
      char_of (i * 4 + j div 16) # char_of (j mod 16 * 16 + k div 4) # char_of (k mod 4 * 64 + l) # b64_decode t"
    "b64_decode [b64_char i, b64_char j, b64_char k, CHR ''=''] = [char_of (i * 4 + j div 16), char_of (j mod 16 * 16 + k div 4)]"
    "b64_decode [b64_char i, b64_char j, CHR ''='', CHR ''=''] = [char_of (i * 4 + j div 16)]"
  using assms by (simp_all add: Let_def b64_sextet_char b64_char_not_pad)

lemma b64_roundtrip: "b64_decode (b64_encode b) = b"
proof (induction b rule: b64_encode.induct)
  case (2 a)
  note x = sextets [OF byte_less [of a] byte_less [of a] byte_less [of a]]
  show ?case
    unfolding b64_encode.simps Let_def b64_decode_quantum(3) [OF x(1,2,1,1)] join_sextets [OF byte_less [of a] byte_less [of a]] by simp
next
  case (3 a b)
  note x = sextets [OF byte_less [of a] byte_less [of b] byte_less [of a]]
  show ?case
    unfolding b64_encode.simps Let_def b64_decode_quantum(2) [OF x(1,3,4,1)] join_sextets [OF byte_less [of b] byte_less [of a]] by simp
next
  case (4 a b c r)
  note x = sextets [OF byte_less [of a] byte_less [of b] byte_less [of c]]
  show ?case
    unfolding b64_encode.simps Let_def b64_decode_quantum(1) [OF x(1,3,5,6)] join_sextets [OF byte_less [of b] byte_less [of c]]
    using 4 by simp
qed simp

lemma is_b64_char: "i < 64 \<Longrightarrow> is_b64 (b64_char i)"
  by (simp add: is_b64_def b64_index_char)

lemma is_b64_pad: "\<not> is_b64 CHR ''=''"
  by (simp add: is_b64_def b64_index_def)

lemma b64_encode_shape:
  "length (b64_encode b) = 4 * ((length b + 2) div 3) \<and> (b \<noteq> [] \<longrightarrow> takeWhile is_b64 (b64_encode b) \<noteq> []) \<and>
   dropWhile is_b64 (b64_encode b) \<in> {[], ''='', ''==''}"
proof (induction b rule: b64_encode.induct)
  case (2 a)
  then show ?case
    using sextets [of "of_char a" 0 0] byte_less by (simp add: Let_def is_b64_char is_b64_pad)
next
  case (3 a b)
  then show ?case
    using sextets [of "of_char a" "of_char b" 0] byte_less by (simp add: Let_def is_b64_char is_b64_pad)
next
  case (4 a b c r)
  then show ?case
    using sextets [of "of_char a" "of_char b" "of_char c"] byte_less div_add_self2 [of 3 "length r + 2"]
    by (simp add: Let_def is_b64_char add.commute)
qed simp

lemma b64_encode_canonical: "b \<noteq> [] \<Longrightarrow> CANONICAL_BASE64 (b64_encode b)"
  using b64_encode_shape [of b] by (simp add: CANONICAL_BASE64_def)

lemma length_b64_encode: "length (b64_encode b) = 4 * ((length b + 2) div 3)"
  using b64_encode_shape by blast

text \<open>A text is accepted exactly when it is the encoding of the buffer it is read as.\<close>

lemma decodeCanonicalBase64_iff: "decodeCanonicalBase64 s = Some b \<longleftrightarrow> b \<noteq> [] \<and> s = b64_encode b"
proof
  assume "b \<noteq> [] \<and> s = b64_encode b"
  moreover from this have "s \<noteq> []"
    using b64_roundtrip [of b] by auto
  ultimately show "decodeCanonicalBase64 s = Some b"
    using b64_encode_canonical [of b] by (simp add: decodeCanonicalBase64_def length_b64_encode b64_roundtrip)
qed (auto simp: decodeCanonicalBase64_def Let_def split: if_splits)

section \<open>The checksum sees every altered byte\<close>

lemma crc_shift_bit: "i < 32 \<Longrightarrow> bit (crc_shift c) i = ((bit (0xEDB88320 :: 32 word) i \<and> bit c 0) \<noteq> bit c (Suc i))"
  by (auto simp: crc_shift_def bit_xor_iff bit_drop_bit_eq)

text \<open>The loop is linear over exclusive or, and its polynomial has the top bit, so it loses nothing.\<close>

lemma crc_shift_xor: "crc_shift (x XOR y) = crc_shift x XOR crc_shift y"
  by (rule bit_word_eqI) (auto simp: crc_shift_bit bit_xor_iff)

lemma crc_top_bit: "bit (0xEDB88320 :: 32 word) 31"
  by (simp add: bit_numeral_rec)

lemma crc_shift_inj: "crc_shift x = crc_shift y \<Longrightarrow> x = y"
proof -
  assume eq: "crc_shift x = crc_shift y"
  have top: "\<not> bit w 32" for w :: "32 word"
    using bit_imp_le_length [of w 32] by auto
  have zero: "bit x 0 = bit y 0"
    using arg_cong [OF eq, of "\<lambda>w. bit w 31"] by (simp add: crc_shift_bit crc_top_bit top)
  have "bit x (Suc i) = bit y (Suc i)" if "i < 32" for i
    using arg_cong [OF eq, of "\<lambda>w. bit w i"] that zero by (auto simp: crc_shift_bit)
  then have "bit x n = bit y n" if "n < 32" for n
    using zero that by (cases n) auto
  then show ?thesis
    by (intro bit_word_eqI) simp
qed

lemma crc_shifts_xor: "(crc_shift ^^ n) (x XOR y) = (crc_shift ^^ n) x XOR (crc_shift ^^ n) y"
  by (induction n) (simp_all add: crc_shift_xor)

lemma crc_shifts_inj: "(crc_shift ^^ n) x = (crc_shift ^^ n) y \<Longrightarrow> x = y"
  by (induction n) (auto dest: crc_shift_inj)

lemma crc_shifts_high: "\<forall>i < n. \<not> bit x i \<Longrightarrow> (crc_shift ^^ n) x = drop_bit n x"
proof (induction n arbitrary: x)
  case (Suc n)
  then have "crc_shift x = drop_bit 1 x"
    by (simp add: crc_shift_def)
  moreover have "(crc_shift ^^ n) (drop_bit 1 x) = drop_bit n (drop_bit 1 x)"
    using Suc by (intro Suc.IH) (simp add: bit_drop_bit_eq)
  ultimately show ?case
    by (simp add: funpow_Suc_right del: funpow.simps)
qed simp

lemma bit_of_byte: "bit (of_char b :: 32 word) i \<Longrightarrow> i < 8"
  by (cases b) (auto simp: of_char_def bit_horner_sum_bit_iff simp del: horner_sum_simps)

text \<open>The table step of a byte is eight steps of the shift register on the whole word.\<close>

lemma crc_byte_register: "crc_byte crc b = (crc_shift ^^ 8) (crc XOR of_char b)"
proof -
  let ?x = "crc XOR of_char b :: 32 word"
  have split: "?x = (?x AND NOT 0xFF) XOR (?x AND 0xFF)"
    by (rule bit_word_eqI) (auto simp: bit_simps)
  have mask: "(0xFF :: 32 word) = mask 8"
    by (simp add: mask_numeral)
  have "(crc_shift ^^ 8) (?x AND NOT 0xFF) = drop_bit 8 (?x AND NOT 0xFF)"
    by (rule crc_shifts_high) (simp add: mask bit_simps)
  also have "\<dots> = drop_bit 8 crc"
    by (rule bit_word_eqI) (auto simp: mask bit_simps dest: bit_of_byte bit_imp_le_length)
  finally show ?thesis
    using crc_shifts_xor [of 8 "?x AND NOT 0xFF" "?x AND 0xFF"] split by (simp add: crc_byte_def)
qed

lemma byte_inj: "(of_char a :: 32 word) = of_char b \<Longrightarrow> a = b"
proof (cases a, cases b)
  fix x0 x1 x2 x3 x4 x5 x6 x7 y0 y1 y2 y3 y4 y5 y6 y7
  assume ab: "a = Char x0 x1 x2 x3 x4 x5 x6 x7" "b = Char y0 y1 y2 y3 y4 y5 y6 y7" and eq: "(of_char a :: 32 word) = of_char b"
  have "[x0, x1, x2, x3, x4, x5, x6, x7] ! i = [y0, y1, y2, y3, y4, y5, y6, y7] ! i" if "i < 8" for i
    using arg_cong [OF eq, of "\<lambda>w. bit w i"] that by (simp add: ab of_char_def bit_horner_sum_bit_iff del: horner_sum_simps)
  then have "[x0, x1, x2, x3, x4, x5, x6, x7] = [y0, y1, y2, y3, y4, y5, y6, y7]"
    by (intro nth_equalityI) simp_all
  then show ?thesis
    by (simp add: ab)
qed

lemma crc_byte_inj: "crc_byte c a = crc_byte c b \<Longrightarrow> a = b" "crc_byte c a = crc_byte d a \<Longrightarrow> c = d"
proof -
  assume "crc_byte c a = crc_byte c b"
  then have "c XOR of_char a = c XOR of_char b"
    unfolding crc_byte_register by (rule crc_shifts_inj)
  then have "c XOR (c XOR of_char a) = c XOR (c XOR of_char b)"
    by simp
  then show "a = b"
    by (intro byte_inj) (simp flip: xor.assoc)
next
  assume "crc_byte c a = crc_byte d a"
  then have "c XOR of_char a = d XOR of_char a"
    unfolding crc_byte_register by (rule crc_shifts_inj)
  then have "(c XOR of_char a) XOR of_char a = (d XOR of_char a) XOR of_char a"
    by simp
  then show "c = d"
    by (simp add: xor.assoc)
qed

lemma crc_fold_inj: "foldl crc_byte c s = foldl crc_byte d s \<Longrightarrow> c = d"
  by (induction s arbitrary: c d) (auto dest: crc_byte_inj(2))

lemma hex_digit_inj: "m < 16 \<Longrightarrow> n < 16 \<Longrightarrow> hex_digit m = hex_digit n \<Longrightarrow> m = n"
  by (metis hex_val_digit option.inject)

lemma hex_text_inj: "m < 16 ^ w \<Longrightarrow> n < 16 ^ w \<Longrightarrow> hex_text w m = hex_text w n \<Longrightarrow> m = n"
proof (induction w arbitrary: m n)
  case (Suc w)
  have "m div 16 < 16 ^ w" "n div 16 < 16 ^ w"
    using Suc.prems(1,2) by (intro less_mult_imp_div_less; simp add: mult.commute)+
  moreover have "hex_text w (m div 16) = hex_text w (n div 16)" and low: "hex_digit (m mod 16) = hex_digit (n mod 16)"
    using Suc.prems(3) by simp_all
  ultimately have "m div 16 = n div 16"
    by (intro Suc.IH)
  moreover have "m mod 16 = n mod 16"
    using low by (intro hex_digit_inj) simp_all
  ultimately show ?case
    by (metis div_mult_mod_eq)
qed simp

lemma is_hex_digit: "n < 16 \<Longrightarrow> is_hex (hex_digit n)"
  by (auto simp: is_hex_def hex_digit_def)

lemma hex_text_format: "length (hex_text w n) = w" "list_all is_hex (hex_text w n)"
  by (induction w arbitrary: n) (simp_all add: is_hex_digit)

lemma crc32_altered:
  assumes "a \<noteq> b"
  shows "crc32Hex (pre @ a # post) \<noteq> crc32Hex (pre @ b # post)"
proof
  have small: "unat w < 16 ^ 8" for w :: "32 word"
  proof -
    have "unat w < 2 ^ LENGTH(32)"
      by (rule unsigned_less)
    then show ?thesis
      by simp
  qed
  assume "crc32Hex (pre @ a # post) = crc32Hex (pre @ b # post)"
  then have "unat (crc32 (pre @ a # post)) = unat (crc32 (pre @ b # post))"
    unfolding crc32Hex_def by (rule hex_text_inj [OF small small])
  then have "crc32 (pre @ a # post) = crc32 (pre @ b # post)"
    by (simp only: word_unat_eq_iff)
  then have "(foldl crc_byte 0xFFFFFFFF (pre @ a # post) XOR 0xFFFFFFFF) XOR 0xFFFFFFFF =
      (foldl crc_byte 0xFFFFFFFF (pre @ b # post) XOR 0xFFFFFFFF) XOR 0xFFFFFFFF"
    by (simp only: crc32_def)
  then have "foldl crc_byte (crc_byte (foldl crc_byte 0xFFFFFFFF pre) a) post = foldl crc_byte (crc_byte (foldl crc_byte 0xFFFFFFFF pre) b) post"
    by (simp add: xor.assoc)
  then have "crc_byte (foldl crc_byte 0xFFFFFFFF pre) a = crc_byte (foldl crc_byte 0xFFFFFFFF pre) b"
    by (rule crc_fold_inj)
  with assms show False
    using crc_byte_inj(1) by blast
qed

end
