(* ===== verification/Attest_Wire.thy ===== *)
theory Attest_Wire
  imports Wire_Codec
begin

text \<open>
  The ATTEST batch wire (\<open>src/lib/attest_batch_wire.js\<close> and \<open>src/lib/attest_batch_wire/\<close>): a window of
  attestation responses is serialised, deflated, base64-encoded and split over one head (v5) and
  continuations (v6); a reader parses the wires, checks coverage, inflates under the caps and holds the
  body against its head. The compressor, the SHA-256 digest and the text of a non-integral number
  come with the platform and are arguments. The era predicate is the caller's, as in the source.
  A refusal is its reason; the diagnostic detail the source attaches is left out.
\<close>

section \<open>Constants and refusals (constants.js)\<close>

definition ATTEST_BATCH_WIRE_MAX_BYTES :: nat where "ATTEST_BATCH_WIRE_MAX_BYTES = 8189"
definition ATTEST_BATCH_MAX_INFLATED_BYTES :: nat where "ATTEST_BATCH_MAX_INFLATED_BYTES = 1048576"
definition ATTEST_BATCH_MAX_ROWS :: nat where "ATTEST_BATCH_MAX_ROWS = 256"
definition ATTEST_BATCH_MAX_CHUNKS :: nat where "ATTEST_BATCH_MAX_CHUNKS = 256"
definition ATTEST_BATCH_MAX_INFLATE_RATIO :: nat where "ATTEST_BATCH_MAX_INFLATE_RATIO = 150"

definition ATTEST_BATCH_LEGACY_ROW_FIELDS :: "string list" where
  "ATTEST_BATCH_LEGACY_ROW_FIELDS =
     [''network'', ''request_id'', ''request_action_index'', ''request_block_index'', ''provider_id'', ''status'', ''response_payload'',
      ''response_hash'', ''meta'', ''effective_time'', ''signer_pubkeys'', ''signatures'', ''widen'']"

definition ATTEST_BATCH_ADMISSION_ROW_FIELDS :: "string list" where
  "ATTEST_BATCH_ADMISSION_ROW_FIELDS =
     [''network'', ''request_id'', ''request_action_index'', ''request_block_index'', ''provider_id'', ''status'', ''response_payload'',
      ''response_hash'', ''meta'', ''effective_time'', ''admit_block_btc'', ''signer_pubkeys'', ''signatures'', ''widen'']"

datatype wire_fail =
    STRUCTURE | BATCH_KEY | CRC_FORMAT | CHUNK_INDEX | TOTAL_CHUNKS | COVERAGE | BASE64 | RATIO_CAP | SIZE_CAP
  | INFLATE | NOT_UTF8 | CRC_MISMATCH | BODY_JSON | ROW_COUNT | ROW_FIELD | OVERSIZE

fun fail_reason :: "wire_fail \<Rightarrow> string" where
  "fail_reason STRUCTURE = ''structure''"
| "fail_reason BATCH_KEY = ''batch-key''"
| "fail_reason CRC_FORMAT = ''crc32-format''"
| "fail_reason CHUNK_INDEX = ''chunk-index''"
| "fail_reason TOTAL_CHUNKS = ''total-chunks''"
| "fail_reason COVERAGE = ''chunk-coverage''"
| "fail_reason BASE64 = ''non-canonical-base64''"
| "fail_reason RATIO_CAP = ''ratio-cap''"
| "fail_reason SIZE_CAP = ''size-cap''"
| "fail_reason INFLATE = ''inflate-failed''"
| "fail_reason NOT_UTF8 = ''non-utf8''"
| "fail_reason CRC_MISMATCH = ''crc32-mismatch''"
| "fail_reason BODY_JSON = ''body-json''"
| "fail_reason ROW_COUNT = ''row-count''"
| "fail_reason ROW_FIELD = ''row-field''"
| "fail_reason OVERSIZE = ''oversize-body''"

definition fail_status :: "wire_fail \<Rightarrow> string" where
  "fail_status r = ''invalid: ATTEST_BATCH ('' @ fail_reason r @ '')''"

text \<open>The patterns \<open>/^[0-9a-f]{64}$/\<close>, \<open>/^[0-9a-f]{8}$/\<close> and \<open>/^(0|[1-9][0-9]*)$/\<close>.\<close>

definition HEX_n :: "nat \<Rightarrow> string \<Rightarrow> bool" where
  "HEX_n k s \<longleftrightarrow> length s = k \<and> list_all is_hex s"

definition UINT :: "string \<Rightarrow> bool" where
  "UINT s \<longleftrightarrow> s = ''0'' \<or> s \<noteq> [] \<and> list_all is_digit s \<and> hd s \<noteq> CHR ''0''"

section \<open>Shared pieces (primitives.js)\<close>

datatype inflate_result = Inflated string | TooLarge | InflateError

record platform =
  pf_sha256 :: "string \<Rightarrow> string"
  pf_deflate :: "string \<Rightarrow> string"
  pf_inflate :: "nat \<Rightarrow> string \<Rightarrow> inflate_result"
  pf_show :: "rat \<Rightarrow> string"

type_synonym era = "string \<Rightarrow> jsnum \<Rightarrow> bool"
type_synonym wire_row = "(string \<times> jsval) list"

text \<open>A window as the publisher hands it over; \<open>aw_rows\<close> is None when \<open>rows\<close> is not an array.\<close>

record attest_window =
  aw_network :: string
  aw_start :: int
  aw_end :: int
  aw_count :: int
  aw_height :: int
  aw_rows :: "wire_row list option"
  aw_sigs :: "(string \<times> string) list"

definition key_preimage :: "string \<Rightarrow> string \<Rightarrow> string \<Rightarrow> string" where
  "key_preimage network start end = ''ATTESTBATCH:'' @ network @ '':'' @ start @ '':'' @ end"

definition computeBatchKey :: "platform \<Rightarrow> string \<Rightarrow> jsnum \<Rightarrow> jsnum \<Rightarrow> string" where
  "computeBatchKey pf network ws we =
     pf_sha256 pf (key_preimage network (js_String (pf_show pf) (JNum ws)) (js_String (pf_show pf) (JNum we)))"

definition attestBatchRowFields :: "string \<Rightarrow> jsnum \<Rightarrow> era \<Rightarrow> string list" where
  "attestBatchRowFields network height admissionEra =
     (if admissionEra network height then ATTEST_BATCH_ADMISSION_ROW_FIELDS else ATTEST_BATCH_LEGACY_ROW_FIELDS)"

definition field_of :: "(string \<times> jsval) list \<Rightarrow> string \<Rightarrow> jsval" where
  "field_of ms f = (case map_of ms f of None \<Rightarrow> JUndef | Some v \<Rightarrow> v)"

definition normalizeBatchRow :: "string list \<Rightarrow> wire_row \<Rightarrow> wire_row" where
  "normalizeBatchRow flds r = map (\<lambda>f. (f, if field_of r f = JUndef then JNull else field_of r f)) flds"

definition normalizeBatchRows :: "attest_window \<Rightarrow> string list \<Rightarrow> jsval list" where
  "normalizeBatchRows w flds = map (\<lambda>r. JObj (normalizeBatchRow flds r)) (case aw_rows w of None \<Rightarrow> [] | Some rs \<Rightarrow> rs)"

abbreviation js_int :: "int \<Rightarrow> jsnum" where
  "js_int k \<equiv> Fin (of_int k)"

definition windowRowFields :: "attest_window \<Rightarrow> era \<Rightarrow> string list" where
  "windowRowFields w admissionEra = attestBatchRowFields (aw_network w) (js_int (aw_height w)) admissionEra"

definition batchHeaderObject :: "attest_window \<Rightarrow> (string \<times> jsval) list" where
  "batchHeaderObject w =
     [(''network'', JStr (aw_network w)), (''window_start'', JNum (js_int (aw_start w))), (''window_end'', JNum (js_int (aw_end w))),
      (''row_count'', JNum (js_int (aw_count w))), (''btc_block_height'', JNum (js_int (aw_height w)))]"

definition signed_value :: "attest_window \<Rightarrow> era \<Rightarrow> (string \<times> jsval) list" where
  "signed_value w admissionEra =
     batchHeaderObject w @ [(''rows'', JArr (normalizeBatchRows w (windowRowFields w admissionEra)))]"

definition buildAttestBatchCanonical :: "platform \<Rightarrow> attest_window \<Rightarrow> era \<Rightarrow> string" where
  "buildAttestBatchCanonical pf w admissionEra = stringify (pf_show pf) (JObj (signed_value w admissionEra))"

definition sig_entry :: "string \<times> string \<Rightarrow> jsval" where
  "sig_entry s = JObj [(''pubkey'', JStr (to_lower (fst s))), (''sig'', JStr (to_lower (snd s)))]"

definition body_value :: "attest_window \<Rightarrow> era \<Rightarrow> (string \<times> jsval) list" where
  "body_value w admissionEra = signed_value w admissionEra @ [(''sigs'', JArr (map sig_entry (aw_sigs w)))]"

definition buildAttestBatchBody :: "platform \<Rightarrow> attest_window \<Rightarrow> era \<Rightarrow> string" where
  "buildAttestBatchBody pf w admissionEra = stringify (pf_show pf) (JObj (body_value w admissionEra))"

section \<open>Encoder (attest\_batch\_wire.js)\<close>

definition int_text :: "platform \<Rightarrow> int \<Rightarrow> string" where
  "int_text pf k = num_text (pf_show pf) (of_int k)"

definition headPrefix :: "platform \<Rightarrow> attest_window \<Rightarrow> string \<Rightarrow> string \<Rightarrow> nat \<Rightarrow> string" where
  "headPrefix pf w batchKey crc tot =
     ''ATTEST|5|'' @ batchKey @ ''|'' @ aw_network w @ ''|'' @ int_text pf (aw_start w) @ ''|'' @ int_text pf (aw_end w) @ ''|'' @
     int_text pf (aw_count w) @ ''|'' @ int_text pf (aw_height w) @ ''|'' @ crc @ ''|'' @ show_nat tot @ ''|''"

definition continuationPrefix :: "string \<Rightarrow> nat \<Rightarrow> nat \<Rightarrow> string \<Rightarrow> string" where
  "continuationPrefix batchKey chunkIndex tot crc =
     ''ATTEST|6|'' @ batchKey @ ''|'' @ show_nat chunkIndex @ ''|'' @ show_nat tot @ ''|'' @ crc @ ''|''"

text \<open>
  The smallest chunk count whose prefixes leave room for the payload, from \<open>Suc k\<close> up; None when a
  prefix alone fills the wire. Every round of the loop that goes on has room for one character more.
\<close>

function chunk_count :: "(nat \<Rightarrow> int) \<Rightarrow> (nat \<Rightarrow> int) \<Rightarrow> nat \<Rightarrow> nat \<Rightarrow> nat option" where
  "chunk_count headCap contCap len k =
     (let tot = Suc k in
      if headCap tot \<le> 0 \<or> (1 < tot \<and> contCap tot \<le> 0) then None
      else if int len \<le> headCap tot + int k * contCap tot then Some tot
      else chunk_count headCap contCap len (Suc k))"
  by pat_completeness auto
termination
proof (relation "measure (\<lambda>(headCap, contCap, len, k). len - k)")
  fix headCap contCap :: "nat \<Rightarrow> int" and len k tot :: nat
  assume "tot = Suc k" "\<not> (headCap tot \<le> 0 \<or> (1 < tot \<and> contCap tot \<le> 0))" "\<not> int len \<le> headCap tot + int k * contCap tot"
  moreover from this have "int k \<le> int k * contCap tot"
    by (cases k) (auto simp: mult_le_cancel_left1)
  ultimately have "int k < int len"
    by auto
  then show "((headCap, contCap, len, Suc k), headCap, contCap, len, k) \<in> measure (\<lambda>(headCap, contCap, len, k). len - k)"
    by simp
qed simp

declare chunk_count.simps [simp del]

record encoded =
  en_key :: string
  en_crc :: string
  en_total :: nat
  en_wires :: "string list"
  en_body :: string
  en_inflated :: nat
  en_compressed :: nat

definition headCap :: "platform \<Rightarrow> attest_window \<Rightarrow> string \<Rightarrow> string \<Rightarrow> nat \<Rightarrow> int" where
  "headCap pf w batchKey crc tot = int ATTEST_BATCH_WIRE_MAX_BYTES - int (length (headPrefix pf w batchKey crc tot))"

definition contCap :: "string \<Rightarrow> string \<Rightarrow> nat \<Rightarrow> int" where
  "contCap batchKey crc tot = int ATTEST_BATCH_WIRE_MAX_BYTES - int (length (continuationPrefix batchKey (tot - 1) tot crc))"

definition slice :: "int \<Rightarrow> int \<Rightarrow> string \<Rightarrow> string" where
  "slice i j s = take (nat (j - i)) (drop (nat i) s)"

definition encodeAttestBatch :: "platform \<Rightarrow> attest_window \<Rightarrow> era \<Rightarrow> wire_fail + encoded" where
  "encodeAttestBatch pf w admissionEra =
     (case aw_rows w of
        None \<Rightarrow> Inl STRUCTURE
      | Some rows \<Rightarrow>
          if ATTEST_BATCH_MAX_ROWS < length rows then Inl ROW_COUNT
          else if aw_count w \<noteq> int (length rows) then Inl ROW_COUNT
          else (let body = buildAttestBatchBody pf w admissionEra in
            if ATTEST_BATCH_MAX_INFLATED_BYTES < length body then Inl OVERSIZE
            else (let batchKey = computeBatchKey pf (aw_network w) (js_int (aw_start w)) (js_int (aw_end w));
                      crc = crc32Hex body;
                      b64 = b64_encode (pf_deflate pf body);
                      hc = headCap pf w batchKey crc; cc = contCap batchKey crc
                  in case chunk_count hc cc (length b64) 0 of
                       None \<Rightarrow> Inl OVERSIZE
                     | Some tot \<Rightarrow>
                         Inr \<lparr>en_key = batchKey, en_crc = crc, en_total = tot,
                              en_wires = (headPrefix pf w batchKey crc tot @ slice 0 (hc tot) b64) #
                                map (\<lambda>i. continuationPrefix batchKey i tot crc @
                                         slice (hc tot + int (i - 1) * cc tot) (hc tot + int i * cc tot) b64) [1..<tot],
                              en_body = body, en_inflated = length body, en_compressed = length b64\<rparr>)))"

section \<open>Parsers (parse.js)\<close>

definition param :: "string list \<Rightarrow> nat \<Rightarrow> string" where
  "param params i = (if i < length params then params ! i else [])"

fun js_gt :: "jsnum \<Rightarrow> jsnum \<Rightarrow> bool" where
  "js_gt (Fin a) (Fin b) = (b < a)"
| "js_gt PInf (Fin b) = True"
| "js_gt PInf NInf = True"
| "js_gt (Fin a) NInf = True"
| "js_gt _ _ = False"

record batch_head =
  bh_key :: string
  bh_network :: string
  bh_start :: jsnum
  bh_end :: jsnum
  bh_count :: jsnum
  bh_height :: jsnum
  bh_crc :: string
  bh_total :: jsnum
  bh_chunk :: string

definition parseAttestBatchHead :: "platform \<Rightarrow> string list \<Rightarrow> wire_fail + batch_head" where
  "parseAttestBatchHead pf params =
     (let batchKey = to_lower (param params 1); network = param params 2;
          windowStart = js_Number_text (param params 3); windowEnd = js_Number_text (param params 4);
          rowCount = js_Number_text (param params 5); height = js_Number_text (param params 6);
          crc = to_lower (param params 7); tot = js_Number_text (param params 8); chunk = param params 9
      in if \<not> HEX_n 64 batchKey then Inl BATCH_KEY
         else if text_length network = 0 \<or> 20 < text_length network then Inl STRUCTURE
         else if \<not> (UINT (param params 3) \<and> UINT (param params 4) \<and> UINT (param params 5) \<and> UINT (param params 6)) then Inl STRUCTURE
         else if js_gt windowStart windowEnd then Inl STRUCTURE
         else if js_gt rowCount (Fin (of_nat ATTEST_BATCH_MAX_ROWS)) then Inl ROW_COUNT
         else if \<not> HEX_n 8 crc then Inl CRC_FORMAT
         else if \<not> UINT (param params 8) then Inl TOTAL_CHUNKS
         else if js_gt (Fin 1) tot \<or> js_gt tot (Fin (of_nat ATTEST_BATCH_MAX_CHUNKS)) then Inl TOTAL_CHUNKS
         else if chunk = [] \<or> \<not> CANONICAL_BASE64 chunk then Inl BASE64
         else if computeBatchKey pf network windowStart windowEnd \<noteq> batchKey then Inl BATCH_KEY
         else Inr \<lparr>bh_key = batchKey, bh_network = network, bh_start = windowStart, bh_end = windowEnd, bh_count = rowCount,
                   bh_height = height, bh_crc = crc, bh_total = tot, bh_chunk = chunk\<rparr>)"

record continuation =
  ct_key :: string
  ct_index :: jsnum
  ct_total :: jsnum
  ct_crc :: string
  ct_chunk :: string

definition parseAttestBatchContinuation :: "string list \<Rightarrow> wire_fail + continuation" where
  "parseAttestBatchContinuation params =
     (let batchKey = to_lower (param params 1); idx = js_Number_text (param params 2); tot = js_Number_text (param params 3);
          crc = to_lower (param params 4); chunk = param params 5
      in if \<not> HEX_n 64 batchKey then Inl BATCH_KEY
         else if \<not> UINT (param params 2) then Inl CHUNK_INDEX
         else if \<not> UINT (param params 3) then Inl TOTAL_CHUNKS
         else if js_gt (Fin 2) tot \<or> js_gt tot (Fin (of_nat ATTEST_BATCH_MAX_CHUNKS)) then Inl TOTAL_CHUNKS
         else if js_gt (Fin 1) idx \<or> \<not> js_gt tot idx then Inl CHUNK_INDEX
         else if \<not> HEX_n 8 crc then Inl CRC_FORMAT
         else if chunk = [] \<or> \<not> CANONICAL_BASE64 chunk then Inl BASE64
         else Inr \<lparr>ct_key = batchKey, ct_index = idx, ct_total = tot, ct_crc = crc, ct_chunk = chunk\<rparr>)"

section \<open>Reassembly (reassemble.js)\<close>

text \<open>A stored chunk row.\<close>

record chunk_row =
  ck_index :: jsval
  ck_b64 :: string
  ck_action :: jsval

definition slot_of :: "rat \<Rightarrow> chunk_row \<Rightarrow> int option" where
  "slot_of tot c =
     (case js_Number (ck_index c) of
        Fin q \<Rightarrow> if int_valued q \<and> 1 \<le> q \<and> q < tot then Some \<lfloor>q\<rfloor> else None
      | _ \<Rightarrow> None)"

text \<open>Whether a row displaces the held one: a finite action index below the held one's, or the held one has none.\<close>

definition displaces :: "chunk_row \<Rightarrow> chunk_row \<Rightarrow> bool" where
  "displaces c held =
     (case js_Number (ck_action c) of
        Fin b \<Rightarrow> (case js_Number (ck_action held) of Fin a \<Rightarrow> b < a | _ \<Rightarrow> True)
      | _ \<Rightarrow> False)"

definition cover_step :: "rat \<Rightarrow> chunk_row \<Rightarrow> (int \<times> chunk_row) list \<Rightarrow> (int \<times> chunk_row) list" where
  "cover_step tot c bySlot =
     (case slot_of tot c of
        None \<Rightarrow> bySlot
      | Some idx \<Rightarrow>
          (case map_of bySlot idx of
             None \<Rightarrow> js_put idx c bySlot
           | Some held \<Rightarrow> if displaces c held then js_put idx c bySlot else bySlot))"

definition attestChunkCoverage :: "chunk_row list \<Rightarrow> jsnum \<Rightarrow> chunk_row list option" where
  "attestChunkCoverage chunks totalChunks =
     (case totalChunks of
        Fin tot \<Rightarrow>
          if \<not> int_valued tot \<or> tot < 1 then None
          else (let bySlot = fold (cover_step tot) chunks [] in those (map (map_of bySlot) [1..\<lfloor>tot\<rfloor> - 1]))
      | _ \<Rightarrow> None)"

definition concatenateBatchChunks :: "batch_head \<Rightarrow> chunk_row list \<Rightarrow> wire_fail + string" where
  "concatenateBatchChunks head chunks =
     (if js_gt (bh_total head) (Fin 1)
      then (case attestChunkCoverage chunks (bh_total head) of
          None \<Rightarrow> Inl COVERAGE
        | Some ordered \<Rightarrow> Inr (bh_chunk head @ concat (map ck_b64 ordered)))
      else Inr (bh_chunk head))"

definition inflateBatchBody :: "platform \<Rightarrow> string \<Rightarrow> wire_fail + (string \<times> string)" where
  "inflateBatchBody pf b64 =
     (case decodeCanonicalBase64 b64 of
        None \<Rightarrow> Inl BASE64
      | Some compressed \<Rightarrow>
          (let ratioCap = length compressed * ATTEST_BATCH_MAX_INFLATE_RATIO;
               outputCap = min ATTEST_BATCH_MAX_INFLATED_BYTES ratioCap;
               bindingReason = (if ratioCap \<le> ATTEST_BATCH_MAX_INFLATED_BYTES then RATIO_CAP else SIZE_CAP)
           in case pf_inflate pf outputCap compressed of
                TooLarge \<Rightarrow> Inl bindingReason
              | InflateError \<Rightarrow> Inl INFLATE
              | Inflated inflated \<Rightarrow> if inflated = [] then Inl INFLATE else Inr (compressed, inflated)))"

definition decodeBatchBody :: "batch_head \<Rightarrow> string \<Rightarrow> wire_fail + (string \<times> jsval) list" where
  "decodeBatchBody head inflated =
     (if \<not> utf8_valid inflated then Inl NOT_UTF8
      else if crc32Hex inflated \<noteq> bh_crc head then Inl CRC_MISMATCH
      else (case JSON_parse inflated of
          Some (JObj ms) \<Rightarrow>
            (case (field_of ms ''rows'', field_of ms ''sigs'') of
               (JArr rows, JArr sigs) \<Rightarrow> if ATTEST_BATCH_MAX_ROWS < length rows then Inl ROW_COUNT else Inr ms
             | _ \<Rightarrow> Inl STRUCTURE)
        | _ \<Rightarrow> Inl BODY_JSON))"

fun num_neq :: "jsnum \<Rightarrow> jsnum \<Rightarrow> bool" where
  "num_neq NaN y = True"
| "num_neq x y = (x \<noteq> y)"

definition elements :: "jsval \<Rightarrow> jsval list" where
  "elements v = (case v of JArr xs \<Rightarrow> xs | _ \<Rightarrow> [])"

definition row_complete :: "string list \<Rightarrow> jsval \<Rightarrow> bool" where
  "row_complete flds r = (case r of JObj ms \<Rightarrow> list_all (\<lambda>f. f \<in> fst ` set ms) flds | _ \<Rightarrow> False)"

definition or_empty :: "platform \<Rightarrow> jsval \<Rightarrow> string" where
  "or_empty pf v = (if truthy v then js_String (pf_show pf) v else [])"

definition sig_complete :: "platform \<Rightarrow> jsval \<Rightarrow> bool" where
  "sig_complete pf s =
     (case s of
        JObj ms \<Rightarrow> HEX_n 64 (to_lower (or_empty pf (field_of ms ''pubkey''))) \<and> HEX_n 128 (to_lower (or_empty pf (field_of ms ''sig'')))
      | _ \<Rightarrow> False)"

definition checkBodyAgainstHead :: "platform \<Rightarrow> batch_head \<Rightarrow> (string \<times> jsval) list \<Rightarrow> era \<Rightarrow> wire_fail option" where
  "checkBodyAgainstHead pf head ms admissionEra =
     (if js_String (pf_show pf) (field_of ms ''network'') \<noteq> bh_network head \<or>
         num_neq (js_Number (field_of ms ''window_start'')) (bh_start head) \<or> num_neq (js_Number (field_of ms ''window_end'')) (bh_end head) \<or>
         num_neq (js_Number (field_of ms ''btc_block_height'')) (bh_height head) \<or> num_neq (js_Number (field_of ms ''row_count'')) (bh_count head)
      then Some STRUCTURE
      else if num_neq (js_Number (field_of ms ''row_count'')) (Fin (of_nat (length (elements (field_of ms ''rows''))))) then Some ROW_COUNT
      else (let flds = attestBatchRowFields (bh_network head) (bh_height head) admissionEra in
        if \<not> list_all (row_complete flds) (elements (field_of ms ''rows'')) then Some ROW_FIELD
        else if \<not> list_all (sig_complete pf) (elements (field_of ms ''sigs'')) then Some ROW_FIELD
        else None))"

record reassembled =
  ra_batch :: "(string \<times> jsval) list"
  ra_inflated :: nat
  ra_compressed :: nat

definition reassembleAttestBatch :: "platform \<Rightarrow> wire_fail + batch_head \<Rightarrow> chunk_row list \<Rightarrow> era \<Rightarrow> wire_fail + reassembled" where
  "reassembleAttestBatch pf ho chunks admissionEra =
     (case ho of
        Inl e \<Rightarrow> Inl STRUCTURE
      | Inr head \<Rightarrow>
          (case concatenateBatchChunks head chunks of
             Inl e \<Rightarrow> Inl e
           | Inr b64 \<Rightarrow>
               (case inflateBatchBody pf b64 of
                  Inl e \<Rightarrow> Inl e
                | Inr (compressed, inflated) \<Rightarrow>
                    (case decodeBatchBody head inflated of
                       Inl e \<Rightarrow> Inl e
                     | Inr ms \<Rightarrow>
                         (case checkBodyAgainstHead pf head ms admissionEra of
                            Some e \<Rightarrow> Inl e
                          | None \<Rightarrow> Inr \<lparr>ra_batch = ms, ra_inflated = length inflated, ra_compressed = length compressed\<rparr>)))))"

end
