(* ===== verification/Attest_Roundtrip.thy ===== *)
theory Attest_Roundtrip
  imports Attest_Wire
begin

text \<open>
  Lemmas on the ATTEST batch wire: what is relied on of the platform, the split of a payload over
  wires, the parsers on what the encoder emits, chunk coverage, and the body on its way through inflate,
  checksum, JSON and the check against its head.
\<close>

section \<open>The platform\<close>

text \<open>What is relied on of the platform: digests are 64 hexadecimal characters, and inflating undoes deflating up to the output bound.\<close>

definition platform_ok :: "platform \<Rightarrow> bool" where
  "platform_ok pf \<longleftrightarrow>
     (\<forall>s. HEX_n 64 (pf_sha256 pf s)) \<and> (\<forall>b. pf_deflate pf b \<noteq> []) \<and>
     (\<forall>b cap. pf_inflate pf cap (pf_deflate pf b) = (if length b \<le> cap then Inflated b else TooLarge))"

text \<open>The documented bound of zlib on the size of its output (\<open>deflateBound\<close>, raw stream).\<close>

definition deflate_bounded :: "platform \<Rightarrow> bool" where
  "deflate_bounded pf \<longleftrightarrow>
     (\<forall>b. length (pf_deflate pf b) \<le> length b + length b div 4096 + length b div 16384 + length b div 33554432 + 7)"

section \<open>Splitting an action\<close>

fun split_on :: "char \<Rightarrow> string \<Rightarrow> string list" where
  "split_on d [] = [[]]"
| "split_on d (c # cs) =
     (if c = d then [] # split_on d cs
      else (case split_on d cs of [] \<Rightarrow> [[c]] | x # xs \<Rightarrow> (c # x) # xs))"

text \<open>The parameters of an action text: everything after the action name, VERSION first.\<close>

definition wire_params :: "string \<Rightarrow> string list" where
  "wire_params w = tl (split_on CHR ''|'' w)"

lemma split_on_field: "d \<notin> set x \<Longrightarrow> split_on d (x @ d # y) = x # split_on d y"
  by (induction x) auto

lemma split_on_last: "d \<notin> set x \<Longrightarrow> split_on d x = [x]"
  by (induction x) auto

section \<open>Numbers on the wire\<close>

lemma UINT_show: "UINT (show_nat n)"
proof (cases "n = 0")
  case True
  then show ?thesis
    by (simp add: UINT_def show_nat.simps [of 0] char_of_eq_iff)
next
  case False
  then show ?thesis
    using show_nat_digits(1,2) [of n] show_nat_hd [of n] by (simp add: UINT_def)
qed

lemma Number_show:
  assumes "n < 10 ^ 21"
  shows "js_Number_text (show_nat n) = Fin (of_nat n)"
proof -
  have "\<bar>int n\<bar> < 10 ^ 21"
    using assms by (metis abs_of_nat of_nat_less_iff of_nat_numeral of_nat_power)
  then show ?thesis
    using digits_Number [OF show_nat_digits(1,2), of n] clip_small [of "int n"] by (simp add: show_nat_digits(3))
qed

lemma int_text_show: "0 \<le> k \<Longrightarrow> k < 10 ^ 21 \<Longrightarrow> int_text pf k = show_nat (nat k)"
proof -
  assume k: "0 \<le> k" "k < 10 ^ 21"
  then have "\<bar>of_int k :: rat\<bar> < 10 ^ 21"
    by (metis abs_of_nonneg of_int_0_le_iff of_int_less_iff of_int_numeral of_int_power)
  then show ?thesis
    using k by (simp add: int_text_def num_text_def show_int_def)
qed

lemma show_nat_chars: "c \<in> set (show_nat n) \<Longrightarrow> is_digit c"
  using show_nat_digits(1) [of n] by (simp add: list_all_iff)

lemma bar_not_shown [simp]: "CHR ''|'' \<notin> set (show_nat n)"
  using show_nat_chars by (fastforce simp: is_digit_def)

lemma hex_chars: "HEX_n k s \<Longrightarrow> CHR ''|'' \<notin> set s" "HEX_n k s \<Longrightarrow> to_lower s = s"
proof -
  assume h: "HEX_n k s"
  then show "CHR ''|'' \<notin> set s"
    by (auto simp: HEX_n_def list_all_iff is_hex_def)
  have "lower_char c = c" if "is_hex c" for c
    using that by (auto simp: is_hex_def lower_char_def)
  then show "to_lower s = s"
    using h by (simp add: HEX_n_def list_all_iff to_lower_def map_idI)
qed

lemma crc_hex: "HEX_n 8 (crc32Hex body)"
  by (simp add: HEX_n_def crc32Hex_def hex_text_format)

lemma show_nat_length_mono: "m \<le> n \<Longrightarrow> length (show_nat m) \<le> length (show_nat n)"
proof (induction n arbitrary: m rule: show_nat.induct)
  case (1 n)
  show ?case
  proof (cases "m < 10")
    case True
    have "show_nat n \<noteq> []"
      by (rule show_nat_digits(2))
    then show ?thesis
      using True by (simp add: show_nat_length Suc_le_eq)
  next
    case False
    then have "length (show_nat (m div 10)) \<le> length (show_nat (n div 10))"
      using 1 by (simp add: div_le_mono)
    then show ?thesis
      using False 1 by (subst show_nat.simps, subst (2) show_nat.simps) simp
  qed
qed

section \<open>Chunks\<close>

lemma chunk_count_Some:
  assumes "chunk_count hc cc len k = Some t"
  shows "k < t" "0 < hc t" "1 < t \<Longrightarrow> 0 < cc t" "int len \<le> hc t + int (t - 1) * cc t"
    "k < m \<Longrightarrow> m < t \<Longrightarrow> 0 < hc m \<and> hc m + int (m - 1) * cc m < int len"
  using assms
proof (induction hc cc len k rule: chunk_count.induct)
  case (1 hc cc len k)
  note step = chunk_count.simps [of hc cc len k]
  {
    case 1
    then show ?case
      using "1.IH"(1) by (fastforce simp: step Let_def split: if_splits)
  next
    case 2
    then show ?case
      using "1.IH"(2) by (fastforce simp: step Let_def split: if_splits)
  next
    case 3
    then show ?case
      using "1.IH"(3) by (fastforce simp: step Let_def split: if_splits)
  next
    case 4
    then show ?case
      using "1.IH"(4) by (fastforce simp: step Let_def split: if_splits)
  next
    case 5
    show ?case
    proof (cases "m = Suc k")
      case True
      then show ?thesis
        using 5 by (auto simp: step Let_def split: if_splits)
    next
      case False
      then show ?thesis
        using 5 "1.IH"(5) by (fastforce simp: step Let_def split: if_splits)
    qed
  }
qed

lemma pieces_concat: "concat (map (\<lambda>i. take c (drop (h + i * c) b)) [0..<m]) = take (m * c) (drop h b)"
proof (induction m)
  case (Suc m)
  have "take (Suc m * c) (drop h b) = take (m * c) (drop h b) @ take c (drop (m * c) (drop h b))"
    by (subst take_add [symmetric]) (simp add: add.commute)
  then show ?case
    using Suc by (simp add: add.commute)
qed simp

text \<open>The payload of wire \<open>i\<close> of an encoded batch.\<close>

definition piece :: "int \<Rightarrow> int \<Rightarrow> string \<Rightarrow> nat \<Rightarrow> string" where
  "piece h c b i = (if i = 0 then slice 0 h b else slice (h + int (i - 1) * c) (h + int i * c) b)"

lemma piece_simps:
  assumes "0 < h" "1 < t \<Longrightarrow> 0 < c" "i < t"
  shows "piece h c b i = (if i = 0 then take (nat h) b else take (nat c) (drop (nat h + (i - 1) * nat c) b))"
proof (cases i)
  case (Suc j)
  then have "0 < c"
    using assms by auto
  then have "nat (h + int j * c) = nat h + j * nat c"
    using assms(1) by (simp add: nat_add_distrib nat_mult_distrib)
  moreover have "h + int (Suc j) * c - (h + int j * c) = c"
    by (simp add: algebra_simps)
  ultimately show ?thesis
    using Suc by (simp add: piece_def slice_def)
qed (simp add: piece_def slice_def)

lemma pieces_join:
  assumes "0 < h" "1 < t \<Longrightarrow> 0 < c" "0 < t" "int (length b) \<le> h + int (t - 1) * c"
  shows "piece h c b 0 @ concat (map (piece h c b) [1..<t]) = b"
proof -
  obtain m where t: "t = Suc m"
    using assms(3) by (cases t) auto
  have "map (piece h c b) [1..<t] = map (\<lambda>i. piece h c b (Suc i)) [0..<m]"
    unfolding t One_nat_def map_Suc_upt [symmetric] by (simp add: comp_def)
  also have "\<dots> = map (\<lambda>i. take (nat c) (drop (nat h + i * nat c) b)) [0..<m]"
    using piece_simps [OF assms(1,2), of t] by (intro map_cong) (simp_all add: t)
  finally have "map (piece h c b) [1..<t] = map (\<lambda>i. take (nat c) (drop (nat h + i * nat c) b)) [0..<m]" .
  then have "concat (map (piece h c b) [1..<t]) = take (m * nat c) (drop (nat h) b)"
    using pieces_concat [of "nat c" "nat h" b m] by simp
  moreover have "length b \<le> nat h + m * nat c"
  proof (cases m)
    case 0
    then show ?thesis
      using assms by (simp add: t)
  next
    case (Suc n)
    then have "0 < c"
      using assms(2) by (simp add: t)
    then have "h + int m * c = int (nat h + m * nat c)"
      using assms(1) by simp
    then show ?thesis
      using assms(4) unfolding t diff_Suc_1 by linarith
  qed
  ultimately show ?thesis
    using piece_simps [of h t c 0 b] assms by simp
qed

lemma piece_nonempty:
  assumes "0 < h" "1 < t \<Longrightarrow> 0 < c" "i < t" "b \<noteq> []" "1 < t \<Longrightarrow> h + int (t - 2) * c < int (length b)"
  shows "piece h c b i \<noteq> []"
proof (cases i)
  case (Suc j)
  then have c: "0 < c" and "h + int (t - 2) * c < int (length b)"
    using assms by auto
  moreover have "int j * c \<le> int (t - 2) * c"
    using assms(3) Suc c by (intro mult_right_mono) auto
  moreover have "int (nat h + j * nat c) = h + int j * c"
    using assms(1) c by simp
  ultimately have "nat h + j * nat c < length b"
    by linarith
  then show ?thesis
    using piece_simps [OF assms(1,2,3)] Suc c by simp
qed (use piece_simps [OF assms(1,2,3)] assms in simp)

lemma piece_length:
  assumes "0 < h" "1 < t \<Longrightarrow> 0 < c" "i < t"
  shows "int (length (piece h c b i)) \<le> (if i = 0 then h else c)"
  using piece_simps [OF assms, of b] assms by auto

text \<open>A piece of a padded text that is not only padding is itself well-formed for the per-chunk test.\<close>

lemma infix_canonical:
  assumes "list_all is_b64 a" "p \<in> {[], ''='', ''==''}" "x \<noteq> []" "x \<notin> {''='', ''==''}" "x = take n (drop m (a @ p))"
  shows "CANONICAL_BASE64 x"
proof -
  define y where "y = take n (drop m a)"
  define z where "z = take (n - length (drop m a)) (drop (m - length a) p)"
  have x: "x = y @ z"
    using assms(5) by (simp add: y_def z_def)
  have y: "list_all is_b64 y"
    using assms(1) by (auto simp: y_def list_all_iff dest!: in_set_takeD in_set_dropD)
  have z: "z \<in> {[], ''='', ''==''}"
    using assms(2) by (auto simp: z_def take_Cons' drop_Cons')
  have "y \<noteq> []"
    using x z assms(3,4) by auto
  then show ?thesis
    using z takeWhile_all [OF y] by (auto simp: CANONICAL_BASE64_def x takeWhile_append dropWhile_append is_b64_pad)
qed

lemma b64_shape: obtains a p where "b64_encode b = a @ p" "list_all is_b64 a" "p \<in> {[], ''='', ''==''}"
  using b64_encode_shape [of b] that [of "takeWhile is_b64 (b64_encode b)" "dropWhile is_b64 (b64_encode b)"]
  by (auto simp: list_all_iff dest: set_takeWhileD)

lemma b64_encode_Nil: "b64_encode b = [] \<longleftrightarrow> b = []"
  using length_b64_encode [of b] by (cases b) (auto simp: div_greater_zero_iff simp flip: length_greater_0_conv)

section \<open>What the encoder emits\<close>

definition b64_of :: "platform \<Rightarrow> encoded \<Rightarrow> string" where
  "b64_of pf e = b64_encode (pf_deflate pf (en_body e))"

definition wire_prefix :: "platform \<Rightarrow> attest_window \<Rightarrow> encoded \<Rightarrow> nat \<Rightarrow> string" where
  "wire_prefix pf w e i =
     (if i = 0 then headPrefix pf w (en_key e) (en_crc e) (en_total e) else continuationPrefix (en_key e) i (en_total e) (en_crc e))"

definition payload :: "platform \<Rightarrow> attest_window \<Rightarrow> encoded \<Rightarrow> nat \<Rightarrow> string" where
  "payload pf w e = piece (headCap pf w (en_key e) (en_crc e) (en_total e)) (contCap (en_key e) (en_crc e) (en_total e)) (b64_of pf e)"

lemma encode_inv:
  assumes "encodeAttestBatch pf w era = Inr e"
  obtains rows where "aw_rows w = Some rows" "length rows \<le> ATTEST_BATCH_MAX_ROWS" "aw_count w = int (length rows)"
    "en_body e = buildAttestBatchBody pf w era" "length (en_body e) \<le> ATTEST_BATCH_MAX_INFLATED_BYTES"
    "en_key e = computeBatchKey pf (aw_network w) (js_int (aw_start w)) (js_int (aw_end w))" "en_crc e = crc32Hex (en_body e)"
    "chunk_count (headCap pf w (en_key e) (en_crc e)) (contCap (en_key e) (en_crc e)) (length (b64_of pf e)) 0 = Some (en_total e)"
    "en_wires e = (wire_prefix pf w e 0 @ payload pf w e 0) # map (\<lambda>i. wire_prefix pf w e i @ payload pf w e i) [1..<en_total e]"
proof -
  obtain rows where rows: "aw_rows w = Some rows"
    using assms by (auto simp: encodeAttestBatch_def split: option.splits)
  show ?thesis
  proof (rule that [OF rows])
    show "en_wires e = (wire_prefix pf w e 0 @ payload pf w e 0) # map (\<lambda>i. wire_prefix pf w e i @ payload pf w e i) [1..<en_total e]"
      using assms rows
      by (auto simp: encodeAttestBatch_def Let_def b64_of_def wire_prefix_def payload_def piece_def split: if_splits option.splits intro!: map_cong)
  qed (use assms rows in \<open>auto simp: encodeAttestBatch_def Let_def b64_of_def split: if_splits option.splits\<close>)
qed

lemma encode_facts:
  assumes "encodeAttestBatch pf w era = Inr e"
  shows "en_key e = computeBatchKey pf (aw_network w) (js_int (aw_start w)) (js_int (aw_end w))" "en_crc e = crc32Hex (en_body e)"
    "0 \<le> aw_count w" "aw_count w \<le> 256" "en_body e = buildAttestBatchBody pf w era" "length (en_body e) \<le> ATTEST_BATCH_MAX_INFLATED_BYTES"
  by (rule encode_inv [OF assms]; simp add: ATTEST_BATCH_MAX_ROWS_def)+

lemma prefix_growth:
  assumes "m \<le> n"
  shows "headCap pf w key crc n \<le> headCap pf w key crc m" "contCap key crc n \<le> contCap key crc m"
  using show_nat_length_mono [OF assms] show_nat_length_mono [OF diff_le_mono [OF assms, of 1]]
  by (simp_all add: headCap_def contCap_def headPrefix_def continuationPrefix_def)

text \<open>The shape of every split the encoder makes: no empty wire, nothing lost, nothing over the limit.\<close>

lemma payload_facts:
  assumes e: "encodeAttestBatch pf w era = Inr e" and pf: "platform_ok pf"
  shows "0 < en_total e" "length (en_wires e) = en_total e"
    "i < en_total e \<Longrightarrow> en_wires e ! i = wire_prefix pf w e i @ payload pf w e i"
    "i < en_total e \<Longrightarrow> payload pf w e i \<noteq> []"
    "payload pf w e 0 @ concat (map (payload pf w e) [1..<en_total e]) = b64_of pf e"
proof -
  let ?hc = "headCap pf w (en_key e) (en_crc e)" and ?cc = "contCap (en_key e) (en_crc e)" and ?t = "en_total e"
  obtain rows where count: "chunk_count ?hc ?cc (length (b64_of pf e)) 0 = Some ?t"
    and wires: "en_wires e = (wire_prefix pf w e 0 @ payload pf w e 0) # map (\<lambda>i. wire_prefix pf w e i @ payload pf w e i) [1..<?t]"
    using encode_inv [OF e] by metis
  note c = chunk_count_Some [OF count]
  show t: "0 < ?t"
    using c(1) .
  show "length (en_wires e) = ?t"
    using t by (simp add: wires)
  show "en_wires e ! i = wire_prefix pf w e i @ payload pf w e i" if "i < ?t"
    using that nth_upt [of 1 "i - 1" ?t] by (cases i) (simp_all add: wires)
  have "b64_of pf e \<noteq> []"
    using pf by (simp add: b64_of_def platform_ok_def b64_encode_Nil)
  moreover have "?hc ?t + int (?t - 2) * ?cc ?t < int (length (b64_of pf e))" if "1 < ?t"
  proof -
    have "int (?t - 2) * ?cc ?t \<le> int (?t - 2) * ?cc (?t - 1)"
      using prefix_growth(2) [of "?t - 1" ?t] by (intro mult_left_mono) auto
    then show ?thesis
      using c(5) [of "?t - 1"] that prefix_growth(1) [of "?t - 1" ?t pf w "en_key e" "en_crc e"] by (simp add: numeral_2_eq_2)
  qed
  ultimately show "payload pf w e i \<noteq> []" if "i < ?t"
    unfolding payload_def by (intro piece_nonempty [OF c(2) c(3) that]) auto
  show "payload pf w e 0 @ concat (map (payload pf w e) [1..<?t]) = b64_of pf e"
    unfolding payload_def by (rule pieces_join [OF c(2) c(3) t c(4)])
qed

section \<open>Reading the wires\<close>

definition window_ok :: "attest_window \<Rightarrow> bool" where
  "window_ok w \<longleftrightarrow>
     CHR ''|'' \<notin> set (aw_network w) \<and> 0 < text_length (aw_network w) \<and> text_length (aw_network w) \<le> 20 \<and> utf8_valid (aw_network w) \<and>
     0 \<le> aw_start w \<and> aw_start w \<le> aw_end w \<and> aw_end w < 10 ^ 21 \<and> 0 \<le> aw_height w \<and> aw_height w < 10 ^ 21 \<and>
     (\<forall>rows. aw_rows w = Some rows \<longrightarrow> (\<forall>r \<in> set rows. \<forall>(k, v) \<in> set r. v = JUndef \<or> json_ok v \<and> texts_valid v)) \<and>
     (\<forall>(pk, sg) \<in> set (aw_sigs w). HEX_n 64 (to_lower pk) \<and> HEX_n 128 (to_lower sg))"

lemma window_numbers:
  assumes "window_ok w"
  shows "0 \<le> aw_start w" "aw_start w < 10 ^ 21" "0 \<le> aw_end w" "aw_end w < 10 ^ 21" "0 \<le> aw_height w" "aw_height w < 10 ^ 21"
  using assms unfolding window_ok_def by linarith+

text \<open>No wire carries padding only.\<close>

definition no_bare_padding :: "encoded \<Rightarrow> bool" where
  "no_bare_padding e \<longleftrightarrow> (\<forall>x \<in> set (en_wires e). last (wire_params x) \<notin> {''='', ''==''})"

lemma bar_not_b64: "CHR ''|'' \<notin> set (b64_encode b)"
proof -
  obtain a p where "b64_encode b = a @ p" "list_all is_b64 a" "p \<in> {[], ''='', ''==''}"
    by (rule b64_shape)
  then show ?thesis
    by (auto simp: list_all_iff is_b64_def b64_index_def Let_def)
qed

lemma set_piece: "set (piece h c b i) \<subseteq> set b"
  by (auto simp: piece_def slice_def dest!: in_set_takeD in_set_dropD)

lemma payload_clean: "CHR ''|'' \<notin> set (payload pf w e i)"
  using set_piece bar_not_b64 unfolding payload_def b64_of_def by blast

lemma key_hex: "platform_ok pf \<Longrightarrow> HEX_n 64 (computeBatchKey pf network x y)"
  by (simp add: platform_ok_def computeBatchKey_def)

lemma head_params:
  assumes e: "encodeAttestBatch pf w era = Inr e" and pf: "platform_ok pf" and w: "window_ok w"
  shows "wire_params (en_wires e ! 0) =
    [''5'', en_key e, aw_network w, show_nat (nat (aw_start w)), show_nat (nat (aw_end w)), show_nat (nat (aw_count w)),
     show_nat (nat (aw_height w)), en_crc e, show_nat (en_total e), payload pf w e 0]"
proof -
  note f = encode_facts [OF e]
  have texts: "int_text pf (aw_start w) = show_nat (nat (aw_start w))" "int_text pf (aw_end w) = show_nat (nat (aw_end w))"
    "int_text pf (aw_height w) = show_nat (nat (aw_height w))" "int_text pf (aw_count w) = show_nat (nat (aw_count w))"
    using window_numbers [OF w] f(3,4) by (simp_all add: int_text_show)
  have clean: "CHR ''|'' \<notin> set (en_key e)" "CHR ''|'' \<notin> set (en_crc e)" "CHR ''|'' \<notin> set (aw_network w)"
    using hex_chars(1) [OF key_hex [OF pf]] hex_chars(1) [OF crc_hex] w f(1,2) by (simp_all add: window_ok_def)
  have "en_wires e ! 0 = ''ATTEST'' @ CHR ''|'' # ''5'' @ CHR ''|'' # en_key e @ CHR ''|'' # aw_network w @ CHR ''|'' #
      show_nat (nat (aw_start w)) @ CHR ''|'' # show_nat (nat (aw_end w)) @ CHR ''|'' # show_nat (nat (aw_count w)) @ CHR ''|'' #
      show_nat (nat (aw_height w)) @ CHR ''|'' # en_crc e @ CHR ''|'' # show_nat (en_total e) @ CHR ''|'' # payload pf w e 0"
    using payload_facts(1,3) [OF e pf] by (simp add: wire_prefix_def headPrefix_def texts)
  then show ?thesis
    by (simp add: wire_params_def split_on_field split_on_last clean payload_clean)
qed

lemma continuation_params:
  assumes e: "encodeAttestBatch pf w era = Inr e" and pf: "platform_ok pf" and i: "0 < i" "i < en_total e"
  shows "wire_params (en_wires e ! i) = [''6'', en_key e, show_nat i, show_nat (en_total e), en_crc e, payload pf w e i]"
proof -
  have clean: "CHR ''|'' \<notin> set (en_key e)" "CHR ''|'' \<notin> set (en_crc e)"
    using hex_chars(1) [OF key_hex [OF pf]] hex_chars(1) [OF crc_hex] encode_facts(1,2) [OF e] by simp_all
  have "en_wires e ! i = ''ATTEST'' @ CHR ''|'' # ''6'' @ CHR ''|'' # en_key e @ CHR ''|'' # show_nat i @ CHR ''|'' # show_nat (en_total e) @ CHR ''|'' #
      en_crc e @ CHR ''|'' # payload pf w e i"
    using payload_facts(3) [OF e pf i(2)] i by (simp add: wire_prefix_def continuationPrefix_def)
  then show ?thesis
    by (simp add: wire_params_def split_on_field split_on_last clean payload_clean)
qed

lemma payload_canonical:
  assumes "payload pf w e i \<noteq> []" "payload pf w e i \<notin> {''='', ''==''}"
  shows "CANONICAL_BASE64 (payload pf w e i)"
proof -
  obtain a p where b: "b64_of pf e = a @ p" "list_all is_b64 a" "p \<in> {[], ''='', ''==''}"
    unfolding b64_of_def by (rule b64_shape)
  have "\<exists>n m. payload pf w e i = take n (drop m (a @ p))"
    unfolding payload_def piece_def slice_def b(1) [symmetric] by (cases "i = 0") (simp_all, metis drop0, blast)
  then show ?thesis
    using infix_canonical [OF b(2,3) assms] by blast
qed

definition head_of :: "platform \<Rightarrow> attest_window \<Rightarrow> encoded \<Rightarrow> batch_head" where
  "head_of pf w e =
     \<lparr>bh_key = en_key e, bh_network = aw_network w, bh_start = js_int (aw_start w), bh_end = js_int (aw_end w), bh_count = js_int (aw_count w),
      bh_height = js_int (aw_height w), bh_crc = en_crc e, bh_total = Fin (of_nat (en_total e)), bh_chunk = payload pf w e 0\<rparr>"

lemma Number_int: "0 \<le> k \<Longrightarrow> k < 10 ^ 21 \<Longrightarrow> js_Number_text (show_nat (nat k)) = js_int k"
proof -
  assume k: "0 \<le> k" "k < 10 ^ 21"
  then have "nat k < 10 ^ 21"
    by (simp add: nat_less_iff)
  then show ?thesis
    using k Number_show [of "nat k"] by simp
qed

lemma head_parsed:
  assumes e: "encodeAttestBatch pf w era = Inr e" and pf: "platform_ok pf" and w: "window_ok w"
    and "no_bare_padding e" "en_total e \<le> ATTEST_BATCH_MAX_CHUNKS"
  shows "parseAttestBatchHead pf (wire_params (en_wires e ! 0)) = Inr (head_of pf w e)"
proof -
  note f = encode_facts [OF e] and n = window_numbers [OF w]
  have t: "0 < en_total e"
    by (rule payload_facts(1) [OF e pf])
  have "en_wires e ! 0 \<in> set (en_wires e)"
    using payload_facts(1,2) [OF e pf] by (intro nth_mem) simp
  then have "CANONICAL_BASE64 (payload pf w e 0)" "payload pf w e 0 \<noteq> []"
    using assms(4) payload_facts(4) [OF e pf t] head_params [OF e pf w] by (auto simp: no_bare_padding_def intro!: payload_canonical)
  moreover have "HEX_n 64 (en_key e)" "HEX_n 8 (en_crc e)"
    using key_hex [OF pf] crc_hex f(1,2) by simp_all
  moreover have "js_Number_text (show_nat (nat (aw_count w))) = js_int (aw_count w)"
    "js_Number_text (show_nat (nat (aw_start w))) = js_int (aw_start w)" "js_Number_text (show_nat (nat (aw_end w))) = js_int (aw_end w)"
    "js_Number_text (show_nat (nat (aw_height w))) = js_int (aw_height w)"
    using n f(3,4) by (simp_all add: Number_int)
  moreover have "js_Number_text (show_nat (en_total e)) = Fin (of_nat (en_total e))"
    using assms(5) by (intro Number_show) (simp add: ATTEST_BATCH_MAX_CHUNKS_def)
  moreover have "aw_start w \<le> aw_end w" "0 < text_length (aw_network w)" "text_length (aw_network w) \<le> 20"
    using w by (simp_all add: window_ok_def)
  ultimately show ?thesis
    using f(1,4) t assms(5) unfolding head_params [OF e pf w] head_of_def
    by (simp add: parseAttestBatchHead_def Let_def param_def hex_chars UINT_show ATTEST_BATCH_MAX_ROWS_def ATTEST_BATCH_MAX_CHUNKS_def)
qed

lemma continuation_parsed:
  assumes e: "encodeAttestBatch pf w era = Inr e" and pf: "platform_ok pf"
    and "no_bare_padding e" "en_total e \<le> ATTEST_BATCH_MAX_CHUNKS" and i: "0 < i" "i < en_total e"
  shows "parseAttestBatchContinuation (wire_params (en_wires e ! i)) =
    Inr \<lparr>ct_key = en_key e, ct_index = Fin (of_nat i), ct_total = Fin (of_nat (en_total e)), ct_crc = en_crc e, ct_chunk = payload pf w e i\<rparr>"
proof -
  have "en_wires e ! i \<in> set (en_wires e)"
    using payload_facts(2) [OF e pf] i by (intro nth_mem) simp
  then have "CANONICAL_BASE64 (payload pf w e i)" "payload pf w e i \<noteq> []"
    using assms(3) payload_facts(4) [OF e pf i(2)] continuation_params [OF e pf i] by (auto simp: no_bare_padding_def intro!: payload_canonical)
  moreover have "HEX_n 64 (en_key e)" "HEX_n 8 (en_crc e)"
    using key_hex [OF pf] crc_hex encode_facts(1,2) [OF e] by simp_all
  moreover have "js_Number_text (show_nat i) = Fin (of_nat i)" "js_Number_text (show_nat (en_total e)) = Fin (of_nat (en_total e))"
    using assms(4) i by (auto simp: ATTEST_BATCH_MAX_CHUNKS_def intro!: Number_show)
  ultimately show ?thesis
    using i assms(4) unfolding continuation_params [OF e pf i]
    by (simp add: parseAttestBatchContinuation_def Let_def param_def hex_chars UINT_show ATTEST_BATCH_MAX_CHUNKS_def)
qed

section \<open>Coverage\<close>

definition better :: "rat \<Rightarrow> int \<Rightarrow> chunk_row \<Rightarrow> chunk_row option \<Rightarrow> chunk_row option" where
  "better tot i c held =
     (if slot_of tot c = Some i then (case held of None \<Rightarrow> Some c | Some h \<Rightarrow> if displaces c h then Some c else held) else held)"

lemma cover_lookup: "map_of (fold (cover_step tot) cs m) i = fold (better tot i) cs (map_of m i)"
proof (induction cs arbitrary: m)
  case (Cons c cs)
  have "map_of (cover_step tot c m) i = better tot i c (map_of m i)"
    by (auto simp: cover_step_def better_def map_of_js_put split: option.split)
  then show ?case
    using Cons by simp
qed simp

lemma better_filter: "fold (better tot i) cs h = fold (better tot i) (filter (\<lambda>c. slot_of tot c = Some i) cs) h"
  by (induction cs arbitrary: h) (auto simp: better_def)

definition slot_row :: "rat \<Rightarrow> chunk_row list \<Rightarrow> int \<Rightarrow> chunk_row option" where
  "slot_row tot cs i = fold (better tot i) cs None"

lemma coverage_slots:
  "attestChunkCoverage cs (Fin tot) = (if \<not> int_valued tot \<or> tot < 1 then None else those (map (slot_row tot cs) [1..\<lfloor>tot\<rfloor> - 1]))"
proof -
  have "map_of (fold (cover_step tot) cs []) = slot_row tot cs"
    by (rule ext) (simp add: cover_lookup slot_row_def)
  then show ?thesis
    by (simp add: attestChunkCoverage_def Let_def)
qed

lemma those_Some: "those (map (\<lambda>i. Some (f i)) xs) = Some (map f xs)"
  by (induction xs) auto

lemma upto_upt: "0 < t \<Longrightarrow> [1..int t - 1] = map int [1..<t]"
proof (induction t)
  case (Suc t)
  then show ?case
    by (cases t) (simp_all add: upto_rec2 [of 1])
qed simp

text \<open>One row per slot covers, in whatever order the rows are read.\<close>

lemma coverage_exact:
  assumes "0 < t" and rows: "mset cs = mset (map crow [1..<t])" and idx: "\<And>i. ck_index (crow i) = JNum (Fin (of_nat i))"
  shows "attestChunkCoverage cs (Fin (of_nat t)) = Some (map crow [1..<t])"
proof -
  have slot: "slot_of (of_nat t) (crow j) = (if 0 < j \<and> j < t then Some (int j) else None)" for j
    by (simp add: slot_of_def idx)
  have "slot_row (of_nat t) cs (int i) = Some (crow i)" if "i \<in> set [1..<t]" for i
  proof -
    have "mset (filter (\<lambda>c. slot_of (of_nat t) c = Some (int i)) cs) = mset (filter (\<lambda>c. slot_of (of_nat t) c = Some (int i)) (map crow [1..<t]))"
      by (simp add: rows)
    also have "filter (\<lambda>c. slot_of (of_nat t) c = Some (int i)) (map crow [1..<t]) = map crow (filter (\<lambda>j. j = i) [1..<t])"
      unfolding filter_map comp_def slot by (intro arg_cong [of _ _ "map crow"] filter_cong) auto
    also have "filter (\<lambda>j. j = i) [1..<t] = [i]"
      using that by (induction t) (auto split: if_splits)
    finally have "filter (\<lambda>c. slot_of (of_nat t) c = Some (int i)) cs = [crow i]"
      by (simp del: mset_filter)
    then show ?thesis
      using that by (subst slot_row_def, subst better_filter) (simp add: better_def slot)
  qed
  then have "map (slot_row (of_nat t) cs) [1..int t - 1] = map (\<lambda>i. Some (crow i)) [1..<t]"
    using assms(1) by (simp add: upto_upt)
  then show ?thesis
    using assms(1) by (simp add: coverage_slots those_Some)
qed

section \<open>The body\<close>

lemma json_ok_row:
  assumes "\<forall>(k, v) \<in> set r. v = JUndef \<or> json_ok v \<and> texts_valid v" and "distinct flds" and "\<forall>f \<in> set flds. utf8_valid f"
  shows "json_ok (JObj (normalizeBatchRow flds r)) \<and> texts_valid (JObj (normalizeBatchRow flds r))"
proof -
  have "json_ok v \<and> texts_valid v" if "v = (if field_of r f = JUndef then JNull else field_of r f)" for f v
    using that assms(1) by (auto simp: field_of_def split: option.splits if_splits dest!: map_of_SomeD)
  then show ?thesis
    using assms(2,3) by (auto simp: normalizeBatchRow_def list_all_iff comp_def)
qed

lemma row_fields_ok: "distinct (attestBatchRowFields n h era)" "\<forall>f \<in> set (attestBatchRowFields n h era). utf8_valid f"
proof -
  have "distinct ATTEST_BATCH_LEGACY_ROW_FIELDS" "distinct ATTEST_BATCH_ADMISSION_ROW_FIELDS"
    by (simp_all add: ATTEST_BATCH_LEGACY_ROW_FIELDS_def ATTEST_BATCH_ADMISSION_ROW_FIELDS_def)
  then show "distinct (attestBatchRowFields n h era)"
    by (simp add: attestBatchRowFields_def)
  have "\<forall>f \<in> set (ATTEST_BATCH_LEGACY_ROW_FIELDS @ ATTEST_BATCH_ADMISSION_ROW_FIELDS). \<forall>c \<in> set f. (of_char c :: nat) < 128"
    unfolding ATTEST_BATCH_LEGACY_ROW_FIELDS_def ATTEST_BATCH_ADMISSION_ROW_FIELDS_def by simp
  then show "\<forall>f \<in> set (attestBatchRowFields n h era). utf8_valid f"
    by (auto simp: attestBatchRowFields_def intro!: utf8_valid_ascii)
qed

lemma hex_text_valid: "HEX_n k s \<Longrightarrow> utf8_valid s"
  by (rule utf8_valid_ascii) (auto simp: HEX_n_def list_all_iff is_hex_def)

lemma body_json_ok:
  assumes w: "window_ok w" and rows: "aw_rows w = Some rows" and count: "0 \<le> aw_count w" "aw_count w \<le> 256"
  shows "json_ok (JObj (body_value w era))" "texts_valid (JObj (body_value w era))"
proof -
  note n = window_numbers [OF w]
  have num: "json_ok (JNum (js_int k))" if "0 \<le> k" "k < 10 ^ 21" for k
  proof -
    have "\<bar>of_int k :: rat\<bar> < 10 ^ 21"
      using that by (metis abs_of_nonneg of_int_0_le_iff of_int_less_iff of_int_numeral of_int_power)
    then show ?thesis
      by simp
  qed
  have "\<forall>r \<in> set rows. json_ok (JObj (normalizeBatchRow (windowRowFields w era) r)) \<and> texts_valid (JObj (normalizeBatchRow (windowRowFields w era) r))"
    using w rows unfolding windowRowFields_def by (intro ballI json_ok_row row_fields_ok) (auto simp: window_ok_def)
  moreover have "json_ok (sig_entry s) \<and> texts_valid (sig_entry s)" if "s \<in> set (aw_sigs w)" for s
    using w that hex_text_valid by (fastforce simp: sig_entry_def window_ok_def utf8_valid_ascii)
  moreover have "utf8_valid (aw_network w)"
    using w by (simp add: window_ok_def)
  moreover have "json_ok (JNum (js_int (aw_count w)))"
    using count by (intro num) simp_all
  ultimately show "json_ok (JObj (body_value w era))" "texts_valid (JObj (body_value w era))"
    using num [OF n(1,2)] num [OF n(3,4)] num [OF n(5,6)]
    by (simp_all add: body_value_def signed_value_def batchHeaderObject_def normalizeBatchRows_def rows list_all_iff utf8_valid_ascii)
qed

lemma body_fields:
  "field_of (body_value w era) ''network'' = JStr (aw_network w)" "field_of (body_value w era) ''window_start'' = JNum (js_int (aw_start w))"
  "field_of (body_value w era) ''window_end'' = JNum (js_int (aw_end w))" "field_of (body_value w era) ''row_count'' = JNum (js_int (aw_count w))"
  "field_of (body_value w era) ''btc_block_height'' = JNum (js_int (aw_height w))"
  "field_of (body_value w era) ''rows'' = JArr (normalizeBatchRows w (windowRowFields w era))"
  "field_of (body_value w era) ''sigs'' = JArr (map sig_entry (aw_sigs w))"
  by (simp_all add: field_of_def body_value_def signed_value_def batchHeaderObject_def)

lemma or_empty_text: "or_empty pf (JStr t) = t"
  by (simp add: or_empty_def)

lemma body_checked:
  assumes w: "window_ok w" and rows: "aw_rows w = Some rows" "aw_count w = int (length rows)"
  shows "checkBodyAgainstHead pf (head_of pf w e) (body_value w era) era = None"
proof -
  have "row_complete (windowRowFields w era) (JObj (normalizeBatchRow (windowRowFields w era) r))" for r
    by (auto simp: row_complete_def normalizeBatchRow_def list_all_iff image_iff)
  moreover have "sig_complete pf (sig_entry s)" if "s \<in> set (aw_sigs w)" for s
  proof -
    have "HEX_n 64 (to_lower (fst s))" "HEX_n 128 (to_lower (snd s))"
      using w that by (auto simp: window_ok_def)
    then show ?thesis
      by (simp add: sig_complete_def sig_entry_def field_of_def or_empty_text)
  qed
  ultimately show ?thesis
    by (simp add: checkBodyAgainstHead_def body_fields head_of_def elements_def normalizeBatchRows_def rows list_all_iff
        flip: windowRowFields_def)
qed

lemma body_decoded:
  assumes w: "window_ok w" and e: "encodeAttestBatch pf w era = Inr e"
  shows "decodeBatchBody (head_of pf w e) (en_body e) = Inr (body_value w era)"
proof -
  obtain rows where rows: "aw_rows w = Some rows" "length rows \<le> ATTEST_BATCH_MAX_ROWS"
    by (rule encode_inv [OF e]) blast
  note f = encode_facts [OF e]
  note ok = body_json_ok [OF w rows(1) f(3,4), of era]
  have "utf8_valid (en_body e)" "JSON_parse (en_body e) = Some (JObj (body_value w era))"
    using utf8_valid_stringify [OF ok] JSON_roundtrip [OF ok(1)] by (simp_all only: f(5) buildAttestBatchBody_def)
  then show ?thesis
    using rows f(2) by (simp add: decodeBatchBody_def head_of_def body_fields normalizeBatchRows_def)
qed

text \<open>The rows a reader stores for the continuations of a batch.\<close>

definition stored_chunk :: "(nat \<Rightarrow> jsval) \<Rightarrow> encoded \<Rightarrow> nat \<Rightarrow> chunk_row" where
  "stored_chunk act e i =
     (case parseAttestBatchContinuation (wire_params (en_wires e ! i)) of
        Inr c \<Rightarrow> \<lparr>ck_index = JNum (ct_index c), ck_b64 = ct_chunk c, ck_action = act i\<rparr>
      | Inl r \<Rightarrow> \<lparr>ck_index = JNull, ck_b64 = [], ck_action = act i\<rparr>)"

lemma chunks_joined:
  assumes e: "encodeAttestBatch pf w era = Inr e" and pf: "platform_ok pf"
    and pad: "no_bare_padding e" and small: "en_total e \<le> ATTEST_BATCH_MAX_CHUNKS"
    and rows: "mset chunks = mset (map (stored_chunk act e) [1..<en_total e])"
  shows "concatenateBatchChunks (head_of pf w e) chunks = Inr (b64_of pf e)"
proof -
  let ?row = "\<lambda>i. \<lparr>ck_index = JNum (Fin (of_nat i)), ck_b64 = payload pf w e i, ck_action = act i\<rparr>"
  have t: "0 < en_total e"
    by (rule payload_facts(1) [OF e pf])
  have "map (stored_chunk act e) [1..<en_total e] = map ?row [1..<en_total e]"
    using continuation_parsed [OF e pf pad small] by (intro map_cong) (auto simp: stored_chunk_def)
  then have "mset chunks = mset (map ?row [1..<en_total e])"
    using rows by (simp only:)
  then have "attestChunkCoverage chunks (Fin (of_nat (en_total e))) = Some (map ?row [1..<en_total e])"
    by (rule coverage_exact [OF t]) simp
  then show ?thesis
    using payload_facts(5) [OF e pf] t
    by (cases "en_total e = 1") (auto simp: concatenateBatchChunks_def head_of_def comp_def)
qed

lemma body_inflated:
  assumes pf: "platform_ok pf" and "b \<noteq> []" "length b \<le> ATTEST_BATCH_MAX_INFLATED_BYTES"
  shows "inflateBatchBody pf (b64_encode (pf_deflate pf b)) =
    (if length b \<le> length (pf_deflate pf b) * ATTEST_BATCH_MAX_INFLATE_RATIO then Inr (pf_deflate pf b, b) else Inl RATIO_CAP)"
proof -
  have "decodeCanonicalBase64 (b64_encode (pf_deflate pf b)) = Some (pf_deflate pf b)"
    using pf by (simp add: decodeCanonicalBase64_iff platform_ok_def)
  then show ?thesis
    using assms by (auto simp: inflateBatchBody_def Let_def platform_ok_def)
qed

lemma body_nonempty: "buildAttestBatchBody pf w era \<noteq> []"
  by (simp add: buildAttestBatchBody_def)

end
