(* ===== verification/Attest_Properties.thy ===== *)
theory Attest_Properties
  imports Attest_Roundtrip
begin

text \<open>
  What the ATTEST batch wire promises: a window that was encoded comes back unchanged from its
  wires, in whatever order they are read; the encoder stays within the wire and chunk limits the readers enforce; a
  reader accepts only what is consistent; and the two ways an encoded batch can still be refused.
\<close>

section \<open>Demonstration\<close>

text \<open>
  A platform that stores what it is given behind one marker byte, except for one body, which it
  compresses to a given buffer.
\<close>

definition toy_platform :: "string \<Rightarrow> string \<Rightarrow> platform" where
  "toy_platform special packed =
     \<lparr>pf_sha256 = (\<lambda>s. replicate 64 CHR ''0''),
      pf_deflate = (\<lambda>b. if b = special then CHR ''S'' # packed else CHR ''X'' # b),
      pf_inflate = (\<lambda>cap c. case c of
          [] \<Rightarrow> InflateError
        | m # b \<Rightarrow> if m = CHR ''S'' \<and> b = packed then (if length special \<le> cap then Inflated special else TooLarge)
            else if m = CHR ''X'' then (if length b \<le> cap then Inflated b else TooLarge) else InflateError),
      pf_show = (\<lambda>q. [])\<rparr>"

lemma toy_ok: "platform_ok (toy_platform special packed)"
  by (simp add: platform_ok_def toy_platform_def HEX_n_def is_hex_def list_all_iff)

definition demo_window :: attest_window where
  "demo_window =
     \<lparr>aw_network = ''regtest'', aw_start = 0, aw_end = 360000, aw_count = 1, aw_height = 7,
      aw_rows = Some [[(''request_id'', JStr ''r1''), (''widen'', JNum (Fin 0))]], aw_sigs = []\<rparr>"

definition no_era :: era where
  "no_era = (\<lambda>n h. False)"

lemma demo_window_ok: "window_ok demo_window"
  by (simp add: window_ok_def demo_window_def text_length_def utf8_valid_ascii)

definition demo_body :: string where
  "demo_body = buildAttestBatchBody (toy_platform [] []) demo_window no_era"

lemma demo_body_eq: "buildAttestBatchBody (toy_platform special packed) demo_window no_era = demo_body"
  by (simp only: demo_body_def buildAttestBatchBody_def) (simp add: toy_platform_def)

lemma small_text: "0 \<le> k \<Longrightarrow> k < 10 ^ 21 \<Longrightarrow> num_text show (of_int k) = show_nat (nat k)"
  using int_text_show [of k "\<lparr>pf_sha256 = id, pf_deflate = id, pf_inflate = undefined, pf_show = show\<rparr>"] by (simp add: int_text_def)

lemma demo_numbers: "num_text show 0 = ''0''" "num_text show 360000 = ''360000''" "num_text show 1 = ''1''" "num_text show 7 = ''7''"
  using small_text [of 0 "show"] small_text [of 360000 "show"] small_text [of 1 "show"] small_text [of 7 "show"]
  by (simp_all add: show_nat.simps char_of_eq_iff take_bit_eq_mod)

lemma demo_body_length: "length demo_body = 364"
  unfolding demo_body_def buildAttestBatchBody_def
  by (simp add: body_value_def signed_value_def batchHeaderObject_def demo_window_def normalizeBatchRows_def normalizeBatchRow_def
      windowRowFields_def attestBatchRowFields_def no_era_def ATTEST_BATCH_LEGACY_ROW_FIELDS_def field_of_def demo_numbers quote_def escape_char_def)

definition demo_encoded :: "string \<Rightarrow> string \<Rightarrow> encoded" where
  "demo_encoded special packed = projr (encodeAttestBatch (toy_platform special packed) demo_window no_era)"

lemma demo_caps:
  assumes "key = replicate 64 CHR ''0''" "length crc = 8" "0 < k" "k < 10"
  shows "headCap (toy_platform special packed) demo_window key crc k = 8083" "contCap key crc k = 8102"
proof -
  have k: "length (show_nat k) = 1" "length (show_nat (k - Suc 0)) = 1"
    using assms(3,4) by (simp_all add: show_nat_length)
  then show "contCap key crc k = 8102"
    using assms(1,2) by (simp add: contCap_def continuationPrefix_def ATTEST_BATCH_WIRE_MAX_BYTES_def)
  show "headCap (toy_platform special packed) demo_window key crc k = 8083"
    using k assms(1,2) demo_numbers
    by (simp add: headCap_def headPrefix_def ATTEST_BATCH_WIRE_MAX_BYTES_def demo_window_def int_text_def)
qed

lemma demo_encodes:
  assumes len: "length (b64_encode (pf_deflate (toy_platform special packed) demo_body)) \<le> 16185"
  shows "encodeAttestBatch (toy_platform special packed) demo_window no_era = Inr (demo_encoded special packed)"
    "en_total (demo_encoded special packed) = (if length (b64_encode (pf_deflate (toy_platform special packed) demo_body)) \<le> 8083 then 1 else 2)"
    "en_body (demo_encoded special packed) = demo_body"
proof -
  let ?pf = "toy_platform special packed"
  let ?key = "computeBatchKey ?pf (aw_network demo_window) (js_int (aw_start demo_window)) (js_int (aw_end demo_window))"
  have key: "?key = replicate 64 CHR ''0''"
    by (simp add: computeBatchKey_def toy_platform_def)
  have crc: "length (crc32Hex demo_body) = 8"
    using crc_hex by (simp add: HEX_n_def)
  have "chunk_count (headCap ?pf demo_window ?key (crc32Hex demo_body)) (contCap ?key (crc32Hex demo_body))
      (length (b64_encode (pf_deflate ?pf demo_body))) 0 = Some (if length (b64_encode (pf_deflate ?pf demo_body)) \<le> 8083 then 1 else 2)"
    using len demo_caps [OF key crc] by (simp add: chunk_count.simps [of _ _ _ 0] chunk_count.simps [of _ _ _ "Suc 0"] Let_def)
  moreover have "aw_rows demo_window \<noteq> None" "length (the (aw_rows demo_window)) = 1" "aw_count demo_window = 1"
    by (simp_all add: demo_window_def)
  ultimately have "\<exists>e. encodeAttestBatch ?pf demo_window no_era = Inr e \<and> en_body e = demo_body \<and>
      en_total e = (if length (b64_encode (pf_deflate ?pf demo_body)) \<le> 8083 then 1 else 2)"
    using demo_body_length
    by (auto simp: encodeAttestBatch_def Let_def demo_body_eq ATTEST_BATCH_MAX_ROWS_def ATTEST_BATCH_MAX_INFLATED_BYTES_def)
  then show "encodeAttestBatch ?pf demo_window no_era = Inr (demo_encoded special packed)"
      "en_total (demo_encoded special packed) = (if length (b64_encode (pf_deflate ?pf demo_body)) \<le> 8083 then 1 else 2)"
      "en_body (demo_encoded special packed) = demo_body"
    by (auto simp: demo_encoded_def)
qed

lemma single_wire_no_padding:
  assumes e: "encodeAttestBatch pf w era = Inr e" and pf: "platform_ok pf" and w: "window_ok w" and one: "en_total e = 1"
  shows "no_bare_padding e"
proof -
  have wires: "en_wires e = [en_wires e ! 0]"
    using payload_facts(2) [OF e pf] one by (cases "en_wires e") auto
  have whole: "payload pf w e 0 = b64_of pf e"
    using payload_facts(5) [OF e pf] one by simp
  have "length (b64_of pf e) mod 4 = 0"
    by (simp add: b64_of_def length_b64_encode)
  then have "length (b64_of pf e) \<noteq> 1" "length (b64_of pf e) \<noteq> 2"
    by presburger+
  then have "payload pf w e 0 \<notin> {''='', ''==''}"
    unfolding whole by auto
  then show ?thesis
    using head_params [OF e pf w] by (subst no_bare_padding_def, subst wires) simp
qed

lemma demo_single:
  shows "encodeAttestBatch (toy_platform [] []) demo_window no_era = Inr (demo_encoded [] [])" "en_total (demo_encoded [] []) = 1"
    "en_body (demo_encoded [] []) = demo_body" "pf_deflate (toy_platform [] []) demo_body = CHR ''X'' # demo_body"
    "no_bare_padding (demo_encoded [] [])"
proof -
  show packed: "pf_deflate (toy_platform [] []) demo_body = CHR ''X'' # demo_body"
    using demo_body_length by (auto simp: toy_platform_def)
  then have len: "length (b64_encode (pf_deflate (toy_platform [] []) demo_body)) \<le> 8083"
    by (simp add: length_b64_encode demo_body_length)
  then have "length (b64_encode (pf_deflate (toy_platform [] []) demo_body)) \<le> 16185"
    by simp
  note d = demo_encodes [OF this]
  show "encodeAttestBatch (toy_platform [] []) demo_window no_era = Inr (demo_encoded [] [])" "en_body (demo_encoded [] []) = demo_body"
    using d by simp_all
  show "en_total (demo_encoded [] []) = 1"
    using d(2) len by simp
  then show "no_bare_padding (demo_encoded [] [])"
    by (rule single_wire_no_padding [OF d(1) toy_ok demo_window_ok])
qed

section \<open>Round trip\<close>

lemma head_reassembles:
  assumes "platform_ok pf" "window_ok w" "encodeAttestBatch pf w era = Inr e"
    and "length (en_body e) \<le> length (pf_deflate pf (en_body e)) * ATTEST_BATCH_MAX_INFLATE_RATIO"
    and "no_bare_padding e" "en_total e \<le> ATTEST_BATCH_MAX_CHUNKS"
    and "mset chunks = mset (map (stored_chunk act e) [1..<en_total e])"
  shows "reassembleAttestBatch pf (Inr (head_of pf w e)) chunks era =
    Inr \<lparr>ra_batch = body_value w era, ra_inflated = length (en_body e), ra_compressed = length (pf_deflate pf (en_body e))\<rparr>"
proof -
  obtain rows where rows: "aw_rows w = Some rows" "aw_count w = int (length rows)"
    by (rule encode_inv [OF assms(3)]) blast
  have "inflateBatchBody pf (b64_of pf e) = Inr (pf_deflate pf (en_body e), en_body e)"
    using body_inflated [OF assms(1), of "en_body e"] assms(4) encode_facts(5,6) [OF assms(3)] body_nonempty by (simp add: b64_of_def)
  then show ?thesis
    using chunks_joined [OF assms(3,1,5,6,7)] body_decoded [OF assms(2,3)] body_checked [OF assms(2) rows]
    by (simp add: reassembleAttestBatch_def)
qed

text \<open>
  C25: a batch survives the wire. When the encoder accepts a well-formed window, a reader parses the
  head and every continuation, and from the stored chunks in any order and with any action
  indexes reassembles exactly the body that was encoded, provided the body is not compressed past the
  inflate ratio the readers allow, no wire carries bare padding and the chunks are at most 256.
\<close>

theorem attest_batch_roundtrip:
  assumes "platform_ok pf" "window_ok w" "encodeAttestBatch pf w era = Inr e"
    and "length (en_body e) \<le> length (pf_deflate pf (en_body e)) * ATTEST_BATCH_MAX_INFLATE_RATIO"
    and "no_bare_padding e" "en_total e \<le> ATTEST_BATCH_MAX_CHUNKS"
    and "mset chunks = mset (map (stored_chunk act e) [1..<en_total e])"
  shows "reassembleAttestBatch pf (parseAttestBatchHead pf (wire_params (en_wires e ! 0))) chunks era =
    Inr \<lparr>ra_batch = body_value w era, ra_inflated = length (en_body e), ra_compressed = length (pf_deflate pf (en_body e))\<rparr>"
  using head_reassembles [OF assms] head_parsed [OF assms(3,1,2,5,6)] by simp

theorem attest_batch_roundtrip_witness:
  "reassembleAttestBatch (toy_platform [] []) (parseAttestBatchHead (toy_platform [] []) (wire_params (en_wires (demo_encoded [] []) ! 0))) [] no_era =
    Inr \<lparr>ra_batch = body_value demo_window no_era, ra_inflated = 364, ra_compressed = 365\<rparr>"
  using attest_batch_roundtrip [OF toy_ok demo_window_ok demo_single(1) _ demo_single(5), of "[]" "\<lambda>i. JUndef"] demo_single
  by (simp add: demo_body_length ATTEST_BATCH_MAX_INFLATE_RATIO_def ATTEST_BATCH_MAX_CHUNKS_def)

section \<open>Limits of the encoder\<close>

lemma wire_within:
  assumes e: "encodeAttestBatch pf w era = Inr e" and pf: "platform_ok pf" and x: "x \<in> set (en_wires e)"
  shows "length x \<le> ATTEST_BATCH_WIRE_MAX_BYTES"
proof -
  let ?hc = "headCap pf w (en_key e) (en_crc e)" and ?cc = "contCap (en_key e) (en_crc e)" and ?t = "en_total e"
  obtain i where i: "i < ?t" "x = wire_prefix pf w e i @ payload pf w e i"
    using x payload_facts(2,3) [OF e pf] by (auto simp: in_set_conv_nth)
  have "chunk_count ?hc ?cc (length (b64_of pf e)) 0 = Some ?t"
    by (rule encode_inv [OF e]) blast
  note c = chunk_count_Some [OF this]
  have "int (length (payload pf w e i)) \<le> (if i = 0 then ?hc ?t else ?cc ?t)"
    unfolding payload_def by (rule piece_length [OF c(2) c(3) i(1)])
  moreover have "length (show_nat i) \<le> length (show_nat (?t - 1))"
    using i(1) by (intro show_nat_length_mono) simp
  ultimately show ?thesis
    unfolding i(2) by (auto simp: wire_prefix_def headCap_def contCap_def continuationPrefix_def split: if_splits)
qed

lemma show_nat_174: "length (show_nat 174) = 3" "length (show_nat 173) = 3"
  by (simp_all add: show_nat.simps)

lemma b64_bound:
  assumes "deflate_bounded pf" "length b \<le> ATTEST_BATCH_MAX_INFLATED_BYTES"
  shows "length (b64_encode (pf_deflate pf b)) \<le> 1398540"
proof -
  let ?n = "length b"
  have n: "?n \<le> 1048576"
    using assms(2) by (simp add: ATTEST_BATCH_MAX_INFLATED_BYTES_def)
  have "length (pf_deflate pf b) \<le> ?n + ?n div 4096 + ?n div 16384 + ?n div 33554432 + 7"
    using assms(1) by (simp add: deflate_bounded_def)
  moreover have "?n div 4096 \<le> 256" "?n div 16384 \<le> 64" "?n div 33554432 \<le> 0"
    using n by (simp_all add: div_le_mono [THEN order_trans] less_eq_div_iff_mult_less_eq)
  ultimately have "length (pf_deflate pf b) \<le> 1048903"
    using n by linarith
  then have "(length (pf_deflate pf b) + 2) div 3 \<le> (1048903 + 2) div 3"
    by (intro div_le_mono) simp
  then show ?thesis
    by (simp add: length_b64_encode)
qed

lemma chunks_within:
  assumes e: "encodeAttestBatch pf w era = Inr e" and pf: "platform_ok pf" and small: "deflate_bounded pf"
  shows "en_total e \<le> 174"
proof (rule ccontr)
  let ?hc = "headCap pf w (en_key e) (en_crc e)" and ?cc = "contCap (en_key e) (en_crc e)"
  assume "\<not> en_total e \<le> 174"
  moreover have "chunk_count ?hc ?cc (length (b64_of pf e)) 0 = Some (en_total e)"
    by (rule encode_inv [OF e]) blast
  ultimately have short: "0 < ?hc 174" "?hc 174 + 173 * ?cc 174 < int (length (b64_of pf e))"
    using chunk_count_Some(5) [of ?hc ?cc _ 0 "en_total e" 174] by auto
  have "length (en_key e) = 64" "length (en_crc e) = 8"
    using key_hex [OF pf] crc_hex encode_facts(1,2) [OF e] by (simp_all add: HEX_n_def)
  then have "?cc 174 = 8098"
    by (simp add: contCap_def continuationPrefix_def ATTEST_BATCH_WIRE_MAX_BYTES_def show_nat_174)
  moreover have "length (b64_of pf e) \<le> 1398540"
    unfolding b64_of_def by (rule b64_bound [OF small encode_facts(6) [OF e]])
  ultimately show False
    using short by simp
qed

text \<open>
  the encoder stays within what the readers accept. Over a compressor within zlib's documented size
  bound, every wire of an encoded batch fits the ledger's action limit and there are at most 174 of them, so
  the readers' cap of 256 chunks is never met by an honest batch.
\<close>

theorem encoder_within_limits:
  assumes "platform_ok pf" "deflate_bounded pf" "encodeAttestBatch pf w era = Inr e"
  shows "length (en_wires e) = en_total e \<and> 0 < en_total e \<and> en_total e \<le> 174 \<and> 174 < ATTEST_BATCH_MAX_CHUNKS \<and>
    list_all (\<lambda>x. length x \<le> ATTEST_BATCH_WIRE_MAX_BYTES) (en_wires e)"
  using payload_facts(1,2) [OF assms(3,1)] chunks_within [OF assms(3,1,2)] wire_within [OF assms(3,1)]
  by (simp add: ATTEST_BATCH_MAX_CHUNKS_def list_all_iff)

theorem encoder_within_limits_witness:
  "length (en_wires (demo_encoded [] [])) = en_total (demo_encoded [] []) \<and> 0 < en_total (demo_encoded [] []) \<and>
   en_total (demo_encoded [] []) \<le> 174 \<and> 174 < ATTEST_BATCH_MAX_CHUNKS \<and>
   list_all (\<lambda>x. length x \<le> ATTEST_BATCH_WIRE_MAX_BYTES) (en_wires (demo_encoded [] []))"
  by (rule encoder_within_limits [OF toy_ok _ demo_single(1)]) (simp add: deflate_bounded_def toy_platform_def)

section \<open>The search for a chunk count ends\<close>

lemma chunk_count_found:
  assumes "k < T" "\<And>m. k < m \<Longrightarrow> m \<le> T \<Longrightarrow> 0 < hc m \<and> 0 < cc m" "int len \<le> hc T + int (T - 1) * cc T"
  shows "\<exists>t \<le> T. chunk_count hc cc len k = Some t"
  using assms
proof (induction hc cc len k rule: chunk_count.induct)
  case (1 hc cc len k)
  show ?case
  proof (cases "int len \<le> hc (Suc k) + int k * cc (Suc k)")
    case True
    then have "chunk_count hc cc len k = Some (Suc k)"
      using "1.prems"(1) "1.prems"(2) [of "Suc k"] by (simp add: chunk_count.simps [of _ _ _ k])
    then show ?thesis
      using "1.prems"(1) by auto
  next
    case False
    have room: "0 < hc (Suc k)" "0 < cc (Suc k)"
      using "1.prems"(1) "1.prems"(2) [of "Suc k"] by simp_all
    have "Suc k < T"
      using False "1.prems"(1,3) by (cases "Suc k = T") auto
    moreover have "chunk_count hc cc len k = chunk_count hc cc len (Suc k)"
      using False "1.prems"(1) "1.prems"(2) [of "Suc k"] by (simp add: chunk_count.simps [of _ _ _ k])
    ultimately show ?thesis
      using "1.IH" [of "Suc k"] "1.prems"(2,3) room False by simp
  qed
qed

lemma show_nat_length_le: "n < 10 ^ k \<Longrightarrow> 0 < k \<Longrightarrow> length (show_nat n) \<le> k"
proof (induction n arbitrary: k rule: show_nat.induct)
  case (1 n)
  show ?case
  proof (cases "n < 10")
    case True
    then show ?thesis
      using 1 by (simp add: show_nat_length)
  next
    case False
    then obtain j where j: "k = Suc j" "0 < j"
      using 1 by (cases k; cases "k - 1") auto
    then have "n div 10 < 10 ^ j"
      using 1 by (simp add: less_mult_imp_div_less mult.commute)
    then have "length (show_nat (n div 10)) \<le> j"
      using 1 False j by simp
    then show ?thesis
      using False j by (subst show_nat.simps) simp
  qed
qed

lemma int_text_length: "0 \<le> k \<Longrightarrow> k < 10 ^ 21 \<Longrightarrow> length (int_text pf k) \<le> 21"
  using show_nat_length_le [of "nat k" 21] by (simp add: int_text_show nat_less_iff)

lemma caps_positive:
  assumes "length key = 64" "length crc = 8" "window_ok w" "0 \<le> aw_count w" "aw_count w \<le> 256" "length (aw_network w) \<le> 7000" "m \<le> 174"
  shows "0 < headCap pf w key crc m" "0 < contCap key crc m"
proof -
  have shown: "length (show_nat m) \<le> 3" "length (show_nat (m - Suc 0)) \<le> 3"
    using assms(7) by (auto intro!: show_nat_length_le)
  then show "0 < contCap key crc m"
    using assms by (simp add: contCap_def continuationPrefix_def ATTEST_BATCH_WIRE_MAX_BYTES_def)
  note n = window_numbers [OF assms(3)]
  have "length (int_text pf (aw_start w)) \<le> 21" "length (int_text pf (aw_end w)) \<le> 21" "length (int_text pf (aw_height w)) \<le> 21"
    "length (int_text pf (aw_count w)) \<le> 21"
    using n assms(4,5) by (simp_all add: int_text_length)
  then show "0 < headCap pf w key crc m"
    using shown assms by (simp add: headCap_def headPrefix_def ATTEST_BATCH_WIRE_MAX_BYTES_def)
qed

text \<open>
  C27: the encoder always answers, and for every window within the caps it answers with wires: the loop that looks for
  the chunk count ends at one of at most 174 chunks. A well-formed window is refused exactly when its rows are no
  array, more than 256 or not as many as announced, or its body is over the inflated size cap.
\<close>

theorem encoder_accepts_within_caps:
  assumes "platform_ok pf" "deflate_bounded pf" "window_ok w" "length (aw_network w) \<le> 7000"
  shows "(\<exists>e. encodeAttestBatch pf w era = Inr e \<and> en_total e \<le> 174) \<longleftrightarrow>
    (\<exists>rows. aw_rows w = Some rows \<and> length rows \<le> ATTEST_BATCH_MAX_ROWS \<and> aw_count w = int (length rows) \<and>
       length (buildAttestBatchBody pf w era) \<le> ATTEST_BATCH_MAX_INFLATED_BYTES)" (is "?L \<longleftrightarrow> ?R")
proof
  assume ?L
  then obtain e where e: "encodeAttestBatch pf w era = Inr e"
    by blast
  show ?R
    by (rule encode_inv [OF e]) auto
next
  assume ?R
  then obtain rows where rows: "aw_rows w = Some rows" "length rows \<le> ATTEST_BATCH_MAX_ROWS" "aw_count w = int (length rows)"
    and body: "length (buildAttestBatchBody pf w era) \<le> ATTEST_BATCH_MAX_INFLATED_BYTES"
    by blast
  let ?key = "computeBatchKey pf (aw_network w) (js_int (aw_start w)) (js_int (aw_end w))" and ?crc = "crc32Hex (buildAttestBatchBody pf w era)"
  have len: "length ?key = 64" "length ?crc = 8" "0 \<le> aw_count w" "aw_count w \<le> 256"
    using key_hex [OF assms(1)] crc_hex rows(2,3) by (simp_all add: HEX_n_def ATTEST_BATCH_MAX_ROWS_def)
  note pos = caps_positive [OF len(1,2) assms(3) len(3,4) assms(4)]
  have "length (b64_encode (pf_deflate pf (buildAttestBatchBody pf w era))) \<le> 1398540"
    using b64_bound [OF assms(2) body] .
  moreover have "contCap ?key ?crc 174 = 8098"
    using len by (simp add: contCap_def continuationPrefix_def ATTEST_BATCH_WIRE_MAX_BYTES_def show_nat_174)
  ultimately have "int (length (b64_encode (pf_deflate pf (buildAttestBatchBody pf w era))))
      \<le> headCap pf w ?key ?crc 174 + int (174 - 1) * contCap ?key ?crc 174"
    using pos(1) [where pf = pf and m = 174] by simp
  then have "\<exists>t \<le> 174. chunk_count (headCap pf w ?key ?crc) (contCap ?key ?crc)
      (length (b64_encode (pf_deflate pf (buildAttestBatchBody pf w era)))) 0 = Some t"
    using pos by (intro chunk_count_found) auto
  then show ?L
    using rows body by (auto simp: encodeAttestBatch_def Let_def not_less)
qed

theorem encoder_accepts_within_caps_witness:
  "\<exists>e. encodeAttestBatch (toy_platform [] []) demo_window no_era = Inr e \<and> en_total e \<le> 174"
proof (rule encoder_accepts_within_caps [OF toy_ok _ demo_window_ok, THEN iffD2])
  show "deflate_bounded (toy_platform [] [])"
    by (simp add: deflate_bounded_def toy_platform_def)
qed (auto simp: demo_window_def ATTEST_BATCH_MAX_ROWS_def ATTEST_BATCH_MAX_INFLATED_BYTES_def demo_body_length
    demo_body_eq [unfolded demo_window_def])

section \<open>Batches that are emitted and refused\<close>

text \<open>
  C38: the encoder does not look at the compression ratio the readers enforce. A batch whose body is more than
  150 times its compressed form is emitted, parsed and complete, and every reader refuses it with the ratio cap.
\<close>

theorem overcompressed_batch_refused:
  assumes "platform_ok pf" "window_ok w" "encodeAttestBatch pf w era = Inr e"
    and "length (pf_deflate pf (en_body e)) * ATTEST_BATCH_MAX_INFLATE_RATIO < length (en_body e)"
    and "no_bare_padding e" "en_total e \<le> ATTEST_BATCH_MAX_CHUNKS"
    and "mset chunks = mset (map (stored_chunk act e) [1..<en_total e])"
  shows "reassembleAttestBatch pf (parseAttestBatchHead pf (wire_params (en_wires e ! 0))) chunks era = Inl RATIO_CAP"
proof -
  have "inflateBatchBody pf (b64_of pf e) = Inl RATIO_CAP"
    using body_inflated [OF assms(1), of "en_body e"] assms(4) encode_facts(5,6) [OF assms(3)] body_nonempty by (simp add: b64_of_def)
  then show ?thesis
    using head_parsed [OF assms(3,1,2,5,6)] chunks_joined [OF assms(3,1,5,6,7)] by (simp add: reassembleAttestBatch_def)
qed

theorem overcompressed_batch_refused_witness:
  "encodeAttestBatch (toy_platform demo_body []) demo_window no_era = Inr (demo_encoded demo_body []) \<and>
   reassembleAttestBatch (toy_platform demo_body [])
     (parseAttestBatchHead (toy_platform demo_body []) (wire_params (en_wires (demo_encoded demo_body []) ! 0))) [] no_era = Inl RATIO_CAP"
proof -
  have packed: "pf_deflate (toy_platform demo_body []) demo_body = ''S''"
    by (simp add: toy_platform_def)
  then have len: "length (b64_encode (pf_deflate (toy_platform demo_body []) demo_body)) = 4"
    by (simp add: length_b64_encode)
  then have "length (b64_encode (pf_deflate (toy_platform demo_body []) demo_body)) \<le> 16185"
    by simp
  note d = demo_encodes [OF this]
  have one: "en_total (demo_encoded demo_body []) = 1"
    using d(2) len by simp
  show ?thesis
  proof (rule conjI [OF d(1)], rule overcompressed_batch_refused [OF toy_ok demo_window_ok d(1)])
    show "no_bare_padding (demo_encoded demo_body [])"
      using single_wire_no_padding [OF d(1) toy_ok demo_window_ok one] .
    show "mset [] = mset (map (stored_chunk (\<lambda>i. JUndef) (demo_encoded demo_body [])) [1..<en_total (demo_encoded demo_body [])])"
      by (simp add: one)
  qed (simp_all add: d(3) one packed demo_body_length ATTEST_BATCH_MAX_INFLATE_RATIO_def ATTEST_BATCH_MAX_CHUNKS_def)
qed

text \<open>
  the split can leave the padding of the base64 text alone on the last wire. Such a continuation is
  refused by every reader's per-chunk pattern, which asks for a character of the alphabet, so the batch never
  reassembles.
\<close>

theorem bare_padding_wire_refused:
  assumes "platform_ok pf" "encodeAttestBatch pf w era = Inr e" "en_total e \<le> ATTEST_BATCH_MAX_CHUNKS"
    and "0 < i" "i < en_total e" "last (wire_params (en_wires e ! i)) \<in> {''='', ''==''}"
  shows "parseAttestBatchContinuation (wire_params (en_wires e ! i)) = Inl BASE64"
proof -
  have "payload pf w e i \<in> {''='', ''==''}"
    using assms(6) by (simp add: continuation_params [OF assms(2,1,4,5)])
  then have "\<not> CANONICAL_BASE64 (payload pf w e i)"
    by (auto simp: CANONICAL_BASE64_def is_b64_pad)
  moreover have "HEX_n 64 (en_key e)" "HEX_n 8 (en_crc e)"
    using key_hex [OF assms(1)] crc_hex encode_facts(1,2) [OF assms(2)] by simp_all
  moreover have "js_Number_text (show_nat i) = Fin (of_nat i)" "js_Number_text (show_nat (en_total e)) = Fin (of_nat (en_total e))"
    using assms(3,4,5) by (auto simp: ATTEST_BATCH_MAX_CHUNKS_def intro!: Number_show)
  ultimately show ?thesis
    using assms(3,4,5) unfolding continuation_params [OF assms(2,1,4,5)]
    by (simp add: parseAttestBatchContinuation_def Let_def param_def hex_chars UINT_show ATTEST_BATCH_MAX_CHUNKS_def)
qed

lemma b64_last_pad: "length b mod 3 = 2 \<Longrightarrow> last (b64_encode b) = CHR ''=''"
proof (induction b rule: b64_encode.induct)
  case (4 a b c r)
  then have "length r mod 3 = 2"
    by (simp add: mod_Suc split: if_splits)
  moreover from this have "b64_encode r \<noteq> []"
    by (auto simp: b64_encode_Nil)
  ultimately show ?case
    using 4 by (simp add: Let_def)
qed (simp_all add: Let_def)

lemma last_payload:
  assumes e: "encodeAttestBatch pf w era = Inr e" and pf: "platform_ok pf" and two: "en_total e = 2"
    and len: "int (length (b64_of pf e)) = headCap pf w (en_key e) (en_crc e) 2 + 1"
  shows "payload pf w e 1 = [last (b64_of pf e)]"
proof -
  let ?h = "headCap pf w (en_key e) (en_crc e) 2" and ?c = "contCap (en_key e) (en_crc e) 2"
  have "chunk_count (headCap pf w (en_key e) (en_crc e)) (contCap (en_key e) (en_crc e)) (length (b64_of pf e)) 0 = Some 2"
    unfolding two [symmetric] by (rule encode_inv [OF e]) blast
  note c = chunk_count_Some [OF this]
  have "payload pf w e 1 = take (nat ?c) (drop (nat ?h) (b64_of pf e))"
    using piece_simps [OF c(2), of 2 ?c 1] c(3) by (simp add: payload_def two)
  moreover have "drop (nat ?h) (b64_of pf e) = [last (b64_of pf e)]"
    using len c(2) by (cases "b64_of pf e" rule: rev_cases) auto
  ultimately show ?thesis
    using c(3) by (cases "nat ?c") auto
qed

theorem bare_padding_wire_refused_witness:
  "parseAttestBatchContinuation (wire_params (en_wires (demo_encoded demo_body (replicate 6061 CHR ''A'')) ! 1)) = Inl BASE64"
proof -
  let ?tail = "replicate 6061 CHR ''A''"
  let ?pf = "toy_platform demo_body ?tail" and ?e = "demo_encoded demo_body (replicate 6061 CHR ''A'')"
  have packed: "pf_deflate ?pf demo_body = CHR ''S'' # ?tail"
    by (simp add: toy_platform_def)
  then have len: "length (b64_encode (pf_deflate ?pf demo_body)) = 8084"
    by (simp add: length_b64_encode)
  then have "length (b64_encode (pf_deflate ?pf demo_body)) \<le> 16185"
    by simp
  note d = demo_encodes [OF this]
  have two: "en_total ?e = 2"
    using d(2) len by simp
  have "en_key ?e = replicate 64 CHR ''0''" "length (en_crc ?e) = 8"
    using crc_hex [of "en_body ?e"] encode_facts(1,2) [OF d(1)] by (simp_all add: HEX_n_def computeBatchKey_def toy_platform_def)
  then have "headCap ?pf demo_window (en_key ?e) (en_crc ?e) 2 = 8083"
    by (rule demo_caps) simp_all
  then have "payload ?pf demo_window ?e 1 = ''=''"
    using last_payload [OF d(1) toy_ok two] b64_last_pad [of "CHR ''S'' # ?tail"] len by (simp add: b64_of_def d(3) packed)
  then show ?thesis
    using continuation_params [OF d(1) toy_ok, of 1] two
    by (intro bare_padding_wire_refused [OF toy_ok d(1)]) (simp_all add: ATTEST_BATCH_MAX_CHUNKS_def)
qed

section \<open>What readers accept\<close>

lemma slot_row_least:
  assumes "\<forall>c \<in> set cs. slot_of tot c = Some i \<longrightarrow> js_Number (ck_action c) = Fin (act c)"
  shows "(slot_row tot cs i = None \<longleftrightarrow> (\<forall>c \<in> set cs. slot_of tot c \<noteq> Some i)) \<and>
    (\<forall>r. slot_row tot cs i = Some r \<longrightarrow> r \<in> set cs \<and> slot_of tot r = Some i \<and> (\<forall>c \<in> set cs. slot_of tot c = Some i \<longrightarrow> act r \<le> act c))"
  using assms
proof (induction cs rule: rev_induct)
  case (snoc c cs)
  then have IH: "slot_row tot cs i = None \<longleftrightarrow> (\<forall>c \<in> set cs. slot_of tot c \<noteq> Some i)"
    "\<And>r. slot_row tot cs i = Some r \<Longrightarrow> r \<in> set cs \<and> slot_of tot r = Some i \<and> (\<forall>c \<in> set cs. slot_of tot c = Some i \<longrightarrow> act r \<le> act c)"
    by auto
  have step: "slot_row tot (cs @ [c]) i = better tot i c (slot_row tot cs i)"
    by (simp add: slot_row_def)
  show ?case
  proof (cases "slot_row tot cs i")
    case None
    then show ?thesis
      using IH(1) by (auto simp: step better_def)
  next
    case (Some h)
    moreover from this have "js_Number (ck_action h) = Fin (act h)"
      using IH(2) snoc.prems by auto
    moreover have "slot_of tot c = Some i \<Longrightarrow> js_Number (ck_action c) = Fin (act c)"
      using snoc.prems by simp
    ultimately show ?thesis
      using IH(2) [OF Some] by (auto simp: step better_def displaces_def intro: order_trans)
  qed
qed (simp add: slot_row_def)

text \<open>
  which chunks a reader takes does not depend on the order its database returns them in. When the rows of
  one slot have finite, pairwise different action indexes, two readings of the same set of rows give the same
  coverage, whatever their order and repetitions.
\<close>

theorem coverage_order_invariant:
  assumes "set cs = set ds" and "\<forall>c \<in> set cs. js_Number (ck_action c) = Fin (act c)"
    and "\<forall>c \<in> set cs. \<forall>d \<in> set cs. js_Number (ck_index c) = js_Number (ck_index d) \<and> act c = act d \<longrightarrow> c = d"
  shows "attestChunkCoverage cs n = attestChunkCoverage ds n"
proof -
  have "slot_row tot cs i = slot_row tot ds i" for tot i
  proof -
    have same: "c = d" if "c \<in> set cs" "d \<in> set cs" "slot_of tot c = Some i" "slot_of tot d = Some i" "act c = act d" for c d
    proof -
      have "js_Number (ck_index c) = js_Number (ck_index d)"
        using that(3,4) by (auto simp: slot_of_def int_valued_def split: jsnum.splits if_splits)
      then show ?thesis
        using assms(3) that by blast
    qed
    have "\<forall>c \<in> set cs. slot_of tot c = Some i \<longrightarrow> js_Number (ck_action c) = Fin (act c)"
      using assms(2) by blast
    note c = slot_row_least [OF this] and d = slot_row_least [OF this [unfolded assms(1)]]
    show ?thesis
    proof (cases "slot_row tot cs i")
      case None
      then show ?thesis
        using c d assms(1) by simp
    next
      case (Some x)
      then obtain y where y: "slot_row tot ds i = Some y"
        using c d assms(1) by (cases "slot_row tot ds i") blast+
      have x_least: "x \<in> set cs" "slot_of tot x = Some i" "\<forall>z \<in> set cs. slot_of tot z = Some i \<longrightarrow> act x \<le> act z"
        using c Some by blast+
      have y_least: "y \<in> set cs" "slot_of tot y = Some i" "\<forall>z \<in> set cs. slot_of tot z = Some i \<longrightarrow> act y \<le> act z"
        using d y assms(1) by blast+
      have "act x \<le> act y" "act y \<le> act x"
        using x_least y_least by blast+
      then have "act x = act y"
        by (rule antisym)
      then have "x = y"
        by (rule same [OF x_least(1) y_least(1) x_least(2) y_least(2)])
      then show ?thesis
        using Some y by simp
    qed
  qed
  then have "slot_row tot cs = slot_row tot ds" for tot
    by (rule ext)
  then show ?thesis
    by (cases n) (simp_all add: coverage_slots, simp_all add: attestChunkCoverage_def)
qed

definition demo_row :: "nat \<Rightarrow> nat \<Rightarrow> chunk_row" where
  "demo_row i a = \<lparr>ck_index = JNum (Fin (of_nat i)), ck_b64 = show_nat a, ck_action = JNum (Fin (of_nat a))\<rparr>"

theorem coverage_order_invariant_witness:
  "attestChunkCoverage [demo_row 1 7, demo_row 2 5, demo_row 1 3] (Fin 3) =
   attestChunkCoverage [demo_row 1 3, demo_row 1 7, demo_row 2 5, demo_row 2 5] (Fin 3)"
  by (rule coverage_order_invariant [where act = "\<lambda>c. case ck_action c of JNum (Fin q) \<Rightarrow> q | _ \<Rightarrow> 0"]) (auto simp: demo_row_def)

text \<open>
  C26: what an accepted batch guarantees. Over an inflater that respects its output bound, a reassembled batch
  comes from a text within the size and ratio caps whose CRC32 is the one of the head; it is the object that
  text spells; its network, window, height and row count are those of the head; and it has that many rows, at most
  256, each with every field of its era, and only well-formed signatures.
\<close>

theorem accepted_batch_consistent:
  assumes "\<forall>cap c b. pf_inflate pf cap c = Inflated b \<longrightarrow> length b \<le> cap"
    and "reassembleAttestBatch pf (Inr head) chunks era = Inr r"
  shows "\<exists>body rows sigs. JSON_parse body = Some (JObj (ra_batch r)) \<and> crc32Hex body = bh_crc head \<and> utf8_valid body \<and>
      length body = ra_inflated r \<and> 0 < ra_inflated r \<and> ra_inflated r \<le> 1048576 \<and> ra_inflated r \<le> 150 * ra_compressed r \<and>
      field_of (ra_batch r) ''rows'' = JArr rows \<and> field_of (ra_batch r) ''sigs'' = JArr sigs \<and>
      length rows \<le> 256 \<and> bh_count head = Fin (of_nat (length rows)) \<and>
      js_Number (field_of (ra_batch r) ''window_start'') = bh_start head \<and> js_Number (field_of (ra_batch r) ''window_end'') = bh_end head \<and>
      js_Number (field_of (ra_batch r) ''btc_block_height'') = bh_height head \<and>
      js_String (pf_show pf) (field_of (ra_batch r) ''network'') = bh_network head \<and>
      list_all (row_complete (attestBatchRowFields (bh_network head) (bh_height head) era)) rows \<and> list_all (sig_complete pf) sigs"
proof -
  obtain b64 compressed body where inf: "inflateBatchBody pf b64 = Inr (compressed, body)"
    and dec: "decodeBatchBody head body = Inr (ra_batch r)" and chk: "checkBodyAgainstHead pf head (ra_batch r) era = None"
    and sizes: "ra_inflated r = length body" "ra_compressed r = length compressed"
    using assms(2) by (auto simp: reassembleAttestBatch_def split: sum.splits option.splits)
  have "pf_inflate pf (min ATTEST_BATCH_MAX_INFLATED_BYTES (length compressed * ATTEST_BATCH_MAX_INFLATE_RATIO)) compressed = Inflated body"
    "body \<noteq> []"
    using inf by (auto simp: inflateBatchBody_def Let_def split: option.splits inflate_result.splits if_splits)
  then have caps: "0 < length body" "length body \<le> 1048576" "length body \<le> 150 * length compressed"
    using assms(1) by (fastforce simp: ATTEST_BATCH_MAX_INFLATED_BYTES_def ATTEST_BATCH_MAX_INFLATE_RATIO_def)+
  obtain rows sigs where body: "utf8_valid body" "crc32Hex body = bh_crc head" "JSON_parse body = Some (JObj (ra_batch r))"
    "field_of (ra_batch r) ''rows'' = JArr rows" "field_of (ra_batch r) ''sigs'' = JArr sigs" "length rows \<le> 256"
    using dec by (auto simp: decodeBatchBody_def ATTEST_BATCH_MAX_ROWS_def split: if_splits option.splits jsval.splits)
  have eq: "x = y" if "\<not> num_neq x y" for x y
    using that by (cases x) auto
  have "bh_count head = Fin (of_nat (length rows))"
    "js_Number (field_of (ra_batch r) ''window_start'') = bh_start head" "js_Number (field_of (ra_batch r) ''window_end'') = bh_end head"
    "js_Number (field_of (ra_batch r) ''btc_block_height'') = bh_height head"
    "js_String (pf_show pf) (field_of (ra_batch r) ''network'') = bh_network head"
    "list_all (row_complete (attestBatchRowFields (bh_network head) (bh_height head) era)) rows" "list_all (sig_complete pf) sigs"
    using chk eq body(4,5) by (auto simp: checkBodyAgainstHead_def Let_def elements_def split: if_splits dest!: eq)
  then show ?thesis
    using caps sizes body by metis
qed

theorem accepted_batch_consistent_witness:
  "\<exists>body rows. JSON_parse body = Some (JObj (body_value demo_window no_era)) \<and> length body = 364 \<and>
     crc32Hex body = en_crc (demo_encoded [] []) \<and> field_of (body_value demo_window no_era) ''rows'' = JArr rows \<and> length rows = 1"
proof -
  let ?pf = "toy_platform [] []" and ?r = "\<lparr>ra_batch = body_value demo_window no_era, ra_inflated = 364, ra_compressed = 365\<rparr>"
  have "\<forall>cap c b. pf_inflate ?pf cap c = Inflated b \<longrightarrow> length b \<le> cap"
    by (auto simp: toy_platform_def split: list.splits if_splits)
  moreover have "reassembleAttestBatch ?pf (Inr (head_of ?pf demo_window (demo_encoded [] []))) [] no_era = Inr ?r"
    using head_reassembles [OF toy_ok demo_window_ok demo_single(1) _ demo_single(5), of "[]" "\<lambda>i. JUndef"] demo_single
    by (simp add: demo_body_length ATTEST_BATCH_MAX_INFLATE_RATIO_def ATTEST_BATCH_MAX_CHUNKS_def)
  ultimately show ?thesis
    by (rule accepted_batch_consistent [THEN ex_forward]) (auto simp: head_of_def demo_window_def)
qed

text \<open>
  C28: no single byte of an accepted body can be altered unnoticed: whatever byte of an accepted body text is
  replaced, the reader refuses it, as not UTF-8 or on its CRC32, before it parses it.
\<close>

theorem altered_body_refused:
  assumes "decodeBatchBody head (pre @ a # post) = Inr ms" "a \<noteq> b"
  shows "decodeBatchBody head (pre @ b # post) \<in> {Inl NOT_UTF8, Inl CRC_MISMATCH}"
proof -
  have "crc32Hex (pre @ a # post) = bh_crc head"
    using assms(1) by (auto simp: decodeBatchBody_def split: if_splits)
  then have "crc32Hex (pre @ b # post) \<noteq> bh_crc head"
    using crc32_altered [OF assms(2), of pre post] by simp
  then show ?thesis
    by (simp add: decodeBatchBody_def)
qed

theorem altered_body_refused_witness:
  "decodeBatchBody (head_of (toy_platform [] []) demo_window (demo_encoded [] [])) (CHR ''['' # tl demo_body) \<in> {Inl NOT_UTF8, Inl CRC_MISMATCH}"
proof -
  have "demo_body = CHR ''{'' # tl demo_body"
    by (simp add: demo_body_def buildAttestBatchBody_def)
  then have "decodeBatchBody (head_of (toy_platform [] []) demo_window (demo_encoded [] [])) ([] @ CHR ''{'' # tl demo_body) =
      Inr (body_value demo_window no_era)"
    using body_decoded [OF demo_window_ok demo_single(1)] by (simp add: demo_single(3))
  then show ?thesis
    using altered_body_refused [where pre = "[]" and b = "CHR ''[''"] by simp
qed

end
