(* ===== verification/Admission_Properties.thy ===== *)
theory Admission_Properties
  imports Admission
begin

text \<open>
  Properties of admission by height: the signed text of an admission map determines the map, the
  map survives storage in columns, a leader's stamp passes a follower's bound exactly when
  their tips are close enough, the consumer's wait covers every row it may have to read, and a frozen
  tip cannot be kept fresh by asking again.
\<close>

section \<open>Digit texts and separators\<close>

lemma char_of_digit: "is_digit c \<Longrightarrow> char_of (48 + digit_val c) = c \<and> digit_val c < 10"
  by (auto simp: is_digit_def digit_val_def)

lemma char_48: "char_of (48 :: nat) = CHR ''0''"
  by code_simp

lemma digit_val_0: "is_digit c \<Longrightarrow> digit_val c = 0 \<longleftrightarrow> c = CHR ''0''"
  using char_of_digit [of c] char_48 by (auto simp: digit_val_def)

lemma digits_pos: "list_all is_digit ds \<Longrightarrow> ds \<noteq> [] \<Longrightarrow> hd ds \<noteq> CHR ''0'' \<Longrightarrow> 0 < digits_val 0 ds"
proof (induction ds rule: rev_induct)
  case (snoc c xs)
  then show ?case
    using digit_val_0 [of c] by (cases "xs = []") (auto simp: digits_val_snoc)
qed simp

lemma show_digits: "list_all is_digit ds \<Longrightarrow> ds \<noteq> [] \<Longrightarrow> hd ds \<noteq> CHR ''0'' \<Longrightarrow> show_nat (digits_val 0 ds) = ds"
proof (induction ds rule: rev_induct)
  case (snoc c xs)
  have c: "char_of (48 + digit_val c) = c" "digit_val c < 10"
    using snoc.prems(1) char_of_digit by auto
  show ?case
  proof (cases "xs = []")
    case True
    then show ?thesis
      using c by (simp add: digits_val_snoc show_nat.simps [of "digit_val c"])
  next
    case False
    then have "0 < digits_val 0 xs" "show_nat (digits_val 0 xs) = xs"
      using snoc digits_pos [of xs] by auto
    then show ?thesis
      using c by (simp add: digits_val_snoc show_nat.simps [of "10 * digits_val 0 xs + digit_val c"])
  qed
qed simp

lemma show_nat_0: "show_nat 0 = ''0''"
  by (simp add: show_nat.simps [of 0] char_48)

lemma canonical_height_iff: "canonical_height s \<longleftrightarrow> s = show_nat (digits_val 0 s)"
proof
  assume "canonical_height s"
  then show "s = show_nat (digits_val 0 s)"
    using show_digits [of s] by (auto simp: canonical_height_def show_nat_0 digit_val_def)
next
  assume s: "s = show_nat (digits_val 0 s)"
  show "canonical_height s"
  proof (cases "digits_val 0 s = 0")
    case True
    then show ?thesis
      using s by (simp add: canonical_height_def show_nat_0)
  next
    case False
    then show ?thesis
      using show_nat_digits [of "digits_val 0 s"] show_nat_hd [of "digits_val 0 s"] s by (simp add: canonical_height_def)
  qed
qed

lemma split_on_step: "d \<notin> set x \<Longrightarrow> Gate_Registry.split_on d acc (x @ d # y) = (rev acc @ x) # Gate_Registry.split_on d [] y"
  by (induction x arbitrary: acc) auto

lemma split_on_end: "d \<notin> set x \<Longrightarrow> Gate_Registry.split_on d acc x = [rev acc @ x]"
  by (induction x arbitrary: acc) auto

lemma split_on_nonempty: "Gate_Registry.split_on d acc s \<noteq> []"
  by (induction s arbitrary: acc) auto

lemma join_split_on: "join [d] (Gate_Registry.split_on d acc s) = rev acc @ s"
proof (induction s arbitrary: acc)
  case (Cons c cs)
  show ?case
    using Cons [of "[]"] Cons [of "c # acc"] split_on_nonempty [of d "[]" cs]
    by (cases "Gate_Registry.split_on d [] cs") auto
qed simp

lemma split_on_join: "ps \<noteq> [] \<Longrightarrow> \<forall>p \<in> set ps. d \<notin> set p \<Longrightarrow> Gate_Registry.split_on d [] (join [d] ps) = ps"
proof (induction ps)
  case (Cons p ps)
  then show ?case
    by (cases ps) (auto simp: split_on_step split_on_end)
qed simp

section \<open>The signed text of an admission map\<close>

definition admit_entry :: "string \<times> jsval \<Rightarrow> bool" where
  "admit_entry kv \<longleftrightarrow> chain_code (fst kv) \<and> (case snd kv of JNum (Fin q) \<Rightarrow> safe_integer q \<and> 0 \<le> q | _ \<Rightarrow> False)"

text \<open>An admission map as \<open>decodeAdmitBlocks\<close> returns it: at least one chain, codes in strict ASCII order.\<close>

definition canonical_map :: "(string \<times> jsval) list \<Rightarrow> bool" where
  "canonical_map m \<longleftrightarrow> m \<noteq> [] \<and> list_all admit_entry m \<and> sorted_wrt (<) (map fst m)"

definition entry_text :: "string \<times> jsval \<Rightarrow> string" where
  "entry_text kv = fst kv @ '':'' @ (case snd kv of JNum (Fin q) \<Rightarrow> show_nat (nat \<lfloor>q\<rfloor>) | _ \<Rightarrow> [])"

lemma admit_entryE:
  assumes "admit_entry kv"
  obtains c n where "kv = (c, JNum (Fin (of_nat n)))" "chain_code c" "of_nat n \<le> MAX_SAFE_INTEGER"
proof -
  obtain q where q: "snd kv = JNum (Fin q)" "safe_integer q" "0 \<le> q" "chain_code (fst kv)"
    using assms by (auto simp: admit_entry_def split: jsval.splits jsnum.splits)
  then obtain k where "q = of_int k" "0 \<le> k"
    by (auto simp: safe_integer_def elim: int_valuedE)
  then have "q = of_nat (nat k)"
    by simp
  then show ?thesis
    using that [of "fst kv" "nat k"] q by (cases kv) (auto simp: safe_integer_def)
qed

lemma admit_entry_nat: "admit_entry (c, JNum (Fin (of_nat n))) \<longleftrightarrow> chain_code c \<and> of_nat n \<le> MAX_SAFE_INTEGER"
  by (simp add: admit_entry_def safe_integer_def)

lemma entry_text_nat: "entry_text (c, JNum (Fin (of_nat n))) = c @ CHR '':'' # show_nat n"
  by (simp add: entry_text_def)

lemma code_chars: "chain_code c \<Longrightarrow> CHR '':'' \<notin> set c \<and> CHR '','' \<notin> set c"
  by (auto simp: chain_code_def list_all_iff is_code_char_def Let_def)

lemma digits_chars: "CHR '','' \<notin> set (show_nat n)"
  using show_nat_digits(1) [of n] by (auto simp: list_all_iff is_digit_def)

lemma entry_text_comma: "admit_entry kv \<Longrightarrow> CHR '','' \<notin> set (entry_text kv)"
  by (elim admit_entryE) (simp add: entry_text_nat code_chars digits_chars)

lemma encode_entry_text: "admit_entry kv \<Longrightarrow> encode_entry kv = Some (entry_text kv)"
  by (elim admit_entryE)
    (simp add: encode_entry_def spell_height_def safe_integer_def entry_text_nat show_int_def canonical_height_iff show_nat_digits(3))

lemma decode_entry_iff: "decode_entry p = Some (c, n) \<longleftrightarrow> chain_code c \<and> p = c @ CHR '':'' # show_nat n"
proof
  assume d: "decode_entry p = Some (c, n)"
  then obtain x ds where dw: "dropWhile (\<lambda>c. c \<noteq> CHR '':'') p = x # ds"
    by (auto simp: decode_entry_def split: list.splits)
  then have x: "x = CHR '':''"
    using hd_dropWhile [of "\<lambda>c. c \<noteq> CHR '':''" p] by auto
  have "c = takeWhile (\<lambda>c. c \<noteq> CHR '':'') p" "chain_code c" "ds = show_nat n"
    using d dw canonical_height_iff [of ds] by (auto simp: decode_entry_def Let_def split: if_splits)
  then show "chain_code c \<and> p = c @ CHR '':'' # show_nat n"
    using takeWhile_dropWhile_id [of "\<lambda>c. c \<noteq> CHR '':''" p] dw x by simp
next
  assume p: "chain_code c \<and> p = c @ CHR '':'' # show_nat n"
  then have nc: "\<forall>x \<in> set c. x \<noteq> CHR '':''"
    using code_chars by auto
  then have "takeWhile (\<lambda>c. c \<noteq> CHR '':'') p = c" "dropWhile (\<lambda>c. c \<noteq> CHR '':'') p = CHR '':'' # show_nat n"
    using p by (simp_all add: takeWhile_append2 dropWhile_append2)
  then show "decode_entry p = Some (c, n)"
    using p by (simp add: decode_entry_def canonical_height_iff show_nat_digits(3))
qed

lemma decode_parts_iff:
  "decode_parts prev ps = Some m \<longleftrightarrow>
     list_all admit_entry m \<and> sorted_wrt (<) (map fst m) \<and> (\<forall>p kv. prev = Some p \<longrightarrow> kv \<in> set m \<longrightarrow> p < fst kv) \<and> ps = map entry_text m"
proof (induction ps arbitrary: prev m)
  case (Cons p ps)
  show ?case
  proof
    assume "decode_parts prev (p # ps) = Some m"
    then obtain c n m' where e: "decode_entry p = Some (c, n)" "\<not> (prev \<noteq> None \<and> \<not> the prev < c)" "of_nat n \<le> MAX_SAFE_INTEGER"
        "m = (c, JNum (Fin (of_nat n))) # m'" "decode_parts (Some c) ps = Some m'"
      by (auto split: option.splits if_splits)
    then show "list_all admit_entry m \<and> sorted_wrt (<) (map fst m) \<and> (\<forall>p kv. prev = Some p \<longrightarrow> kv \<in> set m \<longrightarrow> p < fst kv)
        \<and> p # ps = map entry_text m"
      using Cons [of "Some c" m'] by (auto simp: decode_entry_iff admit_entry_nat entry_text_nat dest: less_trans)
  next
    assume r: "list_all admit_entry m \<and> sorted_wrt (<) (map fst m) \<and> (\<forall>p kv. prev = Some p \<longrightarrow> kv \<in> set m \<longrightarrow> p < fst kv)
        \<and> p # ps = map entry_text m"
    then obtain kv m' where m: "m = kv # m'" "admit_entry kv" "p = entry_text kv"
      by (cases m) auto
    then obtain c n where kv: "kv = (c, JNum (Fin (of_nat n)))" "chain_code c" "of_nat n \<le> MAX_SAFE_INTEGER"
      by (elim admit_entryE)
    have "decode_parts (Some c) ps = Some m'"
      using Cons [of "Some c" m'] r m kv by auto
    moreover have "decode_entry p = Some (c, n)"
      using m kv by (simp add: decode_entry_iff entry_text_nat)
    ultimately show "decode_parts prev (p # ps) = Some m"
      using r m kv by (cases prev) auto
  qed
qed auto

lemma encode_unfold:
  "m \<noteq> [] \<Longrightarrow> encodeAdmitBlocks (JObj m) = map_option (join '','') (those (map encode_entry (sort_key fst m)))"
  by (simp add: encodeAdmitBlocks_def own_entries_def split: list.split)

lemma encode_canonical:
  assumes "canonical_map m"
  shows "encodeAdmitBlocks (JObj m) = Some (join '','' (map entry_text m))"
proof -
  have "sorted (map fst m)"
    using assms by (simp add: canonical_map_def strict_sorted_imp_sorted)
  then have "sort_key fst m = m"
    by (rule sort_key_id_if_sorted)
  moreover have "list_all admit_entry xs \<Longrightarrow> those (map encode_entry xs) = Some (map entry_text xs)" for xs
    by (induction xs) (auto simp: encode_entry_text)
  moreover have "encodeAdmitBlocks (JObj m) = map_option (join '','') (those (map encode_entry (sort_key fst m)))"
    using assms by (simp add: encode_unfold canonical_map_def)
  ultimately show ?thesis
    using assms by (simp add: canonical_map_def)
qed

lemma admit_map_encodes:
  assumes d: "decodeAdmitBlocks f = Some m"
  shows "canonical_map m \<and> encodeAdmitBlocks (JObj m) = Some f"
proof -
  have f: "decode_parts None (Gate_Registry.split_on CHR '','' [] f) = Some m"
    using d by (simp add: decodeAdmitBlocks_def split: if_splits)
  then have m: "list_all admit_entry m" "sorted_wrt (<) (map fst m)" "Gate_Registry.split_on CHR '','' [] f = map entry_text m"
    by (simp_all add: decode_parts_iff)
  then have "canonical_map m"
    using split_on_nonempty [of "CHR '',''" "[]" f] by (auto simp: canonical_map_def)
  then show ?thesis
    using encode_canonical m(3) join_split_on [of "CHR '',''" "[]" f] by simp
qed

lemma admit_map_decodes:
  assumes m: "canonical_map m \<and> encodeAdmitBlocks (JObj m) = Some f"
  shows "decodeAdmitBlocks f = Some m"
proof -
  have f: "f = join '','' (map entry_text m)"
    using m encode_canonical [of m] by simp
  have "Gate_Registry.split_on CHR '','' [] f = map entry_text m"
    unfolding f using m entry_text_comma by (intro split_on_join) (auto simp: canonical_map_def list_all_iff)
  moreover have "f \<noteq> []"
    using m f by (cases m rule: list.exhaust; cases "tl m") (auto simp: canonical_map_def entry_text_def)
  ultimately show ?thesis
    using m by (simp add: decodeAdmitBlocks_def decode_parts_iff canonical_map_def)
qed

text \<open>
  C29: decoding inverts encoding. A text decodes to an admission map exactly when the map
  is in canonical form (a chain at least, codes of the closed vocabulary in strict order, heights non-negative
  safe integers) and the text is its encoding; every other text is refused.
\<close>

theorem admit_map_roundtrip:
  "decodeAdmitBlocks f = Some m \<longleftrightarrow> canonical_map m \<and> encodeAdmitBlocks (JObj m) = Some f"
  using admit_map_decodes admit_map_encodes by blast

section \<open>One text, one map\<close>

definition numeric_map :: "(string \<times> jsval) list \<Rightarrow> bool" where
  "numeric_map m \<longleftrightarrow> list_all (\<lambda>kv. case snd kv of JNum x \<Rightarrow> True | _ \<Rightarrow> False) m"

lemma encode_entry_number:
  assumes "encode_entry kv = Some t" and "snd kv = JNum x"
  shows "admit_entry kv"
proof -
  obtain q where q: "x = Fin q" "safe_integer q" "chain_code (fst kv)" "canonical_height (show_int \<lfloor>q\<rfloor>)"
    using assms by (cases x) (auto simp: encode_entry_def spell_height_def split: if_splits)
  then have "\<not> \<lfloor>q\<rfloor> < 0"
    by (auto simp: show_int_def canonical_height_def is_digit_def)
  then show ?thesis
    using q assms(2) by (simp add: admit_entry_def)
qed

lemma those_all: "those xs = Some ys \<Longrightarrow> x \<in> set xs \<Longrightarrow> \<exists>y. x = Some y"
  by (induction xs arbitrary: ys) (auto split: option.splits)

lemma map_of_sort_key:
  assumes "distinct (map fst m)"
  shows "map_of (sort_key fst m) = map_of m" "sorted_wrt (<) (map fst (sort_key fst m))"
proof -
  have d: "distinct (map fst (sort_key fst m))"
    using assms by (simp add: distinct_map)
  then show "map_of (sort_key fst m) = map_of m"
    using assms by (simp add: map_of_inject_set)
  show "sorted_wrt (<) (map fst (sort_key fst m))"
    using d by (simp add: strict_sorted_iff)
qed

lemma encode_order: "encodeAdmitBlocks (JObj (sort_key fst m)) = encodeAdmitBlocks (JObj m)"
proof (cases "m = []")
  case False
  have "sort_key fst (sort_key fst m) = sort_key fst m"
    by (intro sort_key_id_if_sorted) simp
  moreover have "sort_key fst m \<noteq> []"
    using False set_sort [of fst m] by (metis set_empty)
  ultimately show ?thesis
    using False by (simp add: encode_unfold)
qed simp

lemma encode_sorted:
  assumes "distinct (map fst m)" and "numeric_map m" and "encodeAdmitBlocks (JObj m) = Some f"
  shows "canonical_map (sort_key fst m) \<and> encodeAdmitBlocks (JObj (sort_key fst m)) = Some f"
proof -
  have ne: "m \<noteq> []"
    using assms(3) by (auto simp: encodeAdmitBlocks_def own_entries_def)
  then have nes: "sort_key fst m \<noteq> []"
    using set_sort [of fst m] by (metis set_empty)
  obtain ts where ts: "those (map encode_entry (sort_key fst m)) = Some ts"
    using encode_unfold [OF ne] assms(3) by (cases "those (map encode_entry (sort_key fst m))") simp_all
  have "admit_entry kv" if kv: "kv \<in> set (sort_key fst m)" for kv
  proof -
    obtain t where "encode_entry kv = Some t"
      using those_all [OF ts, of "encode_entry kv"] kv by auto
    moreover obtain x where "snd kv = JNum x"
      using assms(2) kv by (cases "snd kv") (auto simp: numeric_map_def list_all_iff)
    ultimately show ?thesis
      by (rule encode_entry_number)
  qed
  then have "canonical_map (sort_key fst m)"
    using nes map_of_sort_key(2) [OF assms(1)] by (simp add: canonical_map_def list_all_iff)
  then show ?thesis
    using assms(3) by (simp add: encode_order)
qed

text \<open>
  one quorum's signatures stand for one map. Two maps of numeric heights with the same signed
  text give every chain the same admission height, in whatever order their members were written.
\<close>

theorem signed_map_determined:
  assumes "distinct (map fst a)" and "distinct (map fst b)" and "numeric_map a" and "numeric_map b"
    and "encodeAdmitBlocks (JObj a) = Some f" and "encodeAdmitBlocks (JObj b) = Some f"
  shows "map_of a = map_of b"
proof -
  have "decodeAdmitBlocks f = Some (sort_key fst a)" "decodeAdmitBlocks f = Some (sort_key fst b)"
    using encode_sorted assms by (simp_all add: admit_map_decodes)
  then show ?thesis
    using map_of_sort_key(1) assms(1, 2) by (metis option.inject)
qed

definition two_chains :: "(string \<times> jsval) list" where
  "two_chains = [(''LTC'', JNum (Fin 7)), (''BTC'', JNum (Fin 5))]"

theorem signed_map_determined_witness:
  "encodeAdmitBlocks (JObj two_chains) = Some ''BTC:5,LTC:7'' \<and> map_of two_chains = map_of (rev two_chains)"
proof -
  have "encodeAdmitBlocks (JObj two_chains) = Some ''BTC:5,LTC:7''" "encodeAdmitBlocks (JObj (rev two_chains)) = Some ''BTC:5,LTC:7''"
    by code_simp+
  then show ?thesis
    using signed_map_determined [of two_chains "rev two_chains" "''BTC:5,LTC:7''"] by (simp add: two_chains_def numeric_map_def)
qed

section \<open>Columns\<close>

definition put_known :: "(string \<times> jsval) list \<Rightarrow> string \<Rightarrow> (string \<times> jsval) list \<Rightarrow> (string \<times> jsval) list" where
  "put_known m c acc = (case map_of m c of None \<Rightarrow> acc | Some v \<Rightarrow> js_put c v acc)"

lemma map_of_put_known:
  "map_of (fold (put_known m) cs acc) c = (if c \<in> set cs \<and> map_of m c \<noteq> None then map_of m c else map_of acc c)"
  by (induction cs arbitrary: acc) (auto simp: put_known_def map_of_js_put split: option.splits)

lemma distinct_put_known: "distinct (map fst acc) \<Longrightarrow> distinct (map fst (fold (put_known m) cs acc))"
  by (induction cs arbitrary: acc) (auto simp: put_known_def js_put_ok split: option.splits)

lemma canonical_lookup:
  assumes "canonical_map m" and "map_of m c = Some v"
  obtains n where "v = JNum (Fin (of_nat n))" "of_nat n \<le> MAX_SAFE_INTEGER"
proof -
  have "admit_entry (c, v)"
    using assms map_of_SomeD by (fastforce simp: canonical_map_def list_all_iff)
  then show ?thesis
    using that by (auto elim: admit_entryE)
qed

lemma columns_loop_known:
  assumes "canonical_map m"
    and "\<forall>c \<in> set cs. js_prop row (column_of c) = (case map_of m c of None \<Rightarrow> JNull | Some v \<Rightarrow> v)"
  shows "columns_loop row cs acc = Some (fold (put_known m) cs acc)"
  using assms(2)
proof (induction cs arbitrary: acc)
  case (Cons c cs)
  show ?case
  proof (cases "map_of m c")
    case None
    then show ?thesis
      using Cons by (simp add: nullish_def put_known_def)
  next
    case (Some v)
    then obtain n where "v = JNum (Fin (of_nat n))" "of_nat n \<le> MAX_SAFE_INTEGER"
      using canonical_lookup [OF assms(1)] by blast
    then show ?thesis
      using Cons Some by (simp add: nullish_def put_known_def safe_integer_def)
  qed
qed simp

lemma column_names [simp]:
  "column_of ''BTC'' = ''admit_block_btc''" "column_of ''LTC'' = ''admit_block_ltc''" "column_of ''DOGE'' = ''admit_block_doge''"
  by (code_simp, code_simp, code_simp)

lemma stored_columns:
  assumes "canonical_map m" and "c \<in> set ADMIT_COLUMN_CHAINS"
  shows "map_of (admitBlocksToColumns (JObj m)) (column_of c) = Some (case map_of m c of None \<Rightarrow> JNull | Some v \<Rightarrow> v)"
proof -
  have v: "(let v = js_prop (JObj m) c in if nullish v then JNull else JNum (js_Number v)) = (case map_of m c of None \<Rightarrow> JNull | Some v \<Rightarrow> v)" for c
  proof (cases "map_of m c")
    case (Some v)
    then obtain n where "v = JNum (Fin (of_nat n))"
      using canonical_lookup [OF assms(1)] by blast
    then show ?thesis
      using Some by (simp add: js_prop_def nullish_def)
  qed (simp add: js_prop_def nullish_def)
  show ?thesis
    using assms(2) unfolding admitBlocksToColumns_def v ADMIT_COLUMN_CHAINS_def by auto
qed

lemma columns_read_back:
  assumes "canonical_map m" and "fst ` set m \<subseteq> set ADMIT_COLUMN_CHAINS"
    and "\<forall>c \<in> set ADMIT_COLUMN_CHAINS. js_prop row (column_of c) = (case map_of m c of None \<Rightarrow> JNull | Some v \<Rightarrow> v)"
  obtains m' where "columnsAdmitBlocks row = Some (JObj m')" "map_of m' = map_of m" "distinct (map fst m')"
proof -
  let ?m' = "fold (put_known m) ADMIT_COLUMN_CHAINS []"
  have eq: "map_of ?m' = map_of m"
  proof
    fix c
    have "map_of m c \<noteq> None \<longrightarrow> c \<in> set ADMIT_COLUMN_CHAINS"
      using assms(2) by (auto simp: map_of_eq_None_iff)
    then show "map_of ?m' c = map_of m c"
      by (auto simp: map_of_put_known)
  qed
  moreover have "m \<noteq> []"
    using assms(1) by (simp add: canonical_map_def)
  ultimately have "?m' \<noteq> []"
    by (metis map_of_eq_empty_iff)
  moreover have "columnsAdmitBlocks row = map_option (\<lambda>m. if m = [] then JNull else JObj m) (Some ?m')"
    using columns_loop_known [OF assms(1, 3)] by (simp add: columnsAdmitBlocks_def)
  ultimately have "columnsAdmitBlocks row = Some (JObj ?m')"
    by simp
  then show ?thesis
    using that eq distinct_put_known [of "[]"] by simp
qed

lemma strict_sorted_unique:
  assumes "sorted_wrt (<) (map fst a)" and "sorted_wrt (<) (map fst b)" and "map_of a = (map_of b :: 'k :: linorder \<rightharpoonup> 'v)"
  shows "a = b"
proof -
  have d: "distinct (map fst a)" "distinct (map fst b)"
    using assms by (simp_all add: strict_sorted_iff)
  then have "set a = set b"
    using assms(3) by (simp add: map_of_inject_set)
  then have "map fst a = map fst b"
    using strict_sorted_equal [OF assms(1, 2)] by simp
  moreover have "x = map (\<lambda>k. (k, the (map_of x k))) (map fst x)" if "distinct (map fst x)" for x :: "('k \<times> 'v) list"
    using that by (auto simp: comp_def intro!: map_idI [symmetric])
  ultimately show ?thesis
    using d assms(3) by metis
qed

text \<open>
  an admission map survives storage. The columns a signed map is stored in read back as a map with
  the same heights, and a row that carries both the map and the columns stored from it is accepted
  with that map.
\<close>

theorem map_survives_columns:
  assumes "canonical_map m" and "fst ` set m \<subseteq> set ADMIT_COLUMN_CHAINS"
  shows "rowAdmitBlocks (JObj ((''admit_blocks'', JObj m) # admitBlocksToColumns (JObj m))) = Some (JObj m) \<and>
    (\<exists>m'. rowAdmitBlocks (JObj (admitBlocksToColumns (JObj m))) = Some (JObj m') \<and> map_of m' = map_of m)"
proof -
  let ?cols = "admitBlocksToColumns (JObj m)"
  let ?both = "JObj ((''admit_blocks'', JObj m) # ?cols)"
  have cols: "\<forall>c \<in> set ADMIT_COLUMN_CHAINS. js_prop (JObj ?cols) (column_of c) = (case map_of m c of None \<Rightarrow> JNull | Some v \<Rightarrow> v)"
    using stored_columns [OF assms(1)] by (simp add: js_prop_def)
  then obtain m1 where m1: "columnsAdmitBlocks (JObj ?cols) = Some (JObj m1)" "map_of m1 = map_of m"
    using columns_read_back [OF assms] by blast
  have "\<forall>c \<in> set ADMIT_COLUMN_CHAINS. js_prop ?both (column_of c) = (case map_of m c of None \<Rightarrow> JNull | Some v \<Rightarrow> v)"
    using cols by (auto simp: js_prop_def column_of_def)
  then obtain m2 where m2: "columnsAdmitBlocks ?both = Some (JObj m2)" "map_of m2 = map_of m" "distinct (map fst m2)"
    using columns_read_back [OF assms] by blast
  have "sort_key fst m2 = m"
    using strict_sorted_unique [of "sort_key fst m2" m] map_of_sort_key [OF m2(3)] m2(2) assms(1) by (simp add: canonical_map_def)
  then have "encodeAdmitBlocks (JObj m2) = encodeAdmitBlocks (JObj m)"
    by (metis encode_order)
  then have "rowAdmitBlocks ?both = Some (JObj m)"
    using m2 encode_canonical [OF assms(1)] by (simp add: rowAdmitBlocks_def js_prop_def)
  moreover have "js_prop (JObj ?cols) ''admit_blocks'' = JUndef"
    by (simp add: js_prop_def admitBlocksToColumns_def ADMIT_COLUMN_CHAINS_def)
  then have "rowAdmitBlocks (JObj ?cols) = Some (JObj m1)"
    using m1 by (simp add: rowAdmitBlocks_def)
  ultimately show ?thesis
    using m1 by blast
qed

theorem map_survives_columns_witness:
  "rowAdmitBlocks (JObj ((''admit_blocks'', JObj (rev two_chains)) # admitBlocksToColumns (JObj (rev two_chains)))) = Some (JObj (rev two_chains))"
proof -
  have "canonical_map (rev two_chains)"
    by code_simp
  moreover have "fst ` set (rev two_chains) \<subseteq> set ADMIT_COLUMN_CHAINS"
    by code_simp
  ultimately show ?thesis
    using map_survives_columns [of "rev two_chains"] by blast
qed

section \<open>The stamp and the follower's bound\<close>

lemma margin_cases: "margin_of ADMIT_MARGIN_BLOCKS ''default'' k \<in> {4, 1, 144}"
  by (auto simp: margin_of_def ADMIT_MARGIN_BLOCKS_def)

lemma chain_margin_cases: "chainMarginBlocks show table chain = Some mc \<Longrightarrow> mc \<in> {14, 16, 17}"
  by (auto simp: chainMarginBlocks_def ADMIT_CHAIN_MARGIN_BLOCKS_def split: if_splits)

lemma chain_margin_table:
  "chainMarginBlocks show table chain = Some mc \<Longrightarrow> baseMarginBlocks show table = 4"
  by (auto simp: chainMarginBlocks_def ADMIT_CHAIN_MARGIN_BLOCKS_def baseMarginBlocks_def margin_of_def ADMIT_MARGIN_BLOCKS_def
      split: if_splits)

lemma base_margin_cases: "baseMarginBlocks show table \<in> {4, 1, 144}"
  using margin_cases by (simp add: baseMarginBlocks_def)

lemma stamp_margin_cases: "stampMarginBlocks show table chain network tip \<in> {1, 4, 14, 16, 17, 144}"
  using base_margin_cases [of "show" table] chain_margin_cases [of "show" table chain]
  by (auto simp: stampMarginBlocks_def stampMarginAt_def split: option.splits)

lemma stamp_margin_int:
  "int_valued t \<Longrightarrow> int_valued (t + stampMarginBlocks show table chain network tip)"
  "0 \<le> t \<Longrightarrow> 0 \<le> t + stampMarginBlocks show table chain network tip"
proof -
  obtain k where k: "stampMarginBlocks show table chain network tip = of_int k" "0 \<le> k"
    using stamp_margin_cases [of "show" table chain network tip]
      by (elim insertE emptyE) (use that [of 1] that [of 4] that [of 14] that [of 16] that [of 17] that [of 144] in simp_all)
  show "int_valued t \<Longrightarrow> int_valued (t + stampMarginBlocks show table chain network tip)"
    "0 \<le> t \<Longrightarrow> 0 \<le> t + stampMarginBlocks show table chain network tip"
    using k by (simp_all add: int_valued_add_int)
qed

lemma code_char_fixed: "is_code_char x \<Longrightarrow> upper_char x = x \<and> \<not> is_space x"
  by (auto simp: is_code_char_def upper_char_def is_space_def Let_def)

lemma normalizeChain_code: "normalizeChain show v = Some c \<Longrightarrow> chain_code c"
  by (auto simp: normalizeChain_def Let_def split: if_splits)

lemma normalizeChain_id:
  assumes "chain_code c"
  shows "normalizeChain show (JStr c) = Some c"
proof -
  have chars: "\<forall>x \<in> set c. upper_char x = x \<and> \<not> is_space x"
    using assms code_char_fixed by (auto simp: chain_code_def list_all_iff)
  then have "trim c = c" "to_upper c = c"
    by (auto simp: trim_no_space to_upper_def intro: map_idI)
  then show ?thesis
    using assms by (simp add: normalizeChain_def nullish_def)
qed

lemma those_map_set: "those (map f xs) = Some ys \<Longrightarrow> y \<in> set ys \<Longrightarrow> \<exists>x \<in> set xs. f x = Some y"
  by (induction xs arbitrary: ys) (auto split: option.splits)

lemma map_filter_Nil: "List.map_filter f xs = [] \<longleftrightarrow> (\<forall>x \<in> set xs. f x = None)"
  by (induction xs) (auto simp: List.map_filter_simps split: option.splits)

lemma missing_none:
  assumes "missingAdmissionTips show (map JStr codes) tips = []" and "c \<in> set codes" and "list_all chain_code codes"
  shows "usable_tip (tip_of tips c)"
proof -
  have "chain_code c"
    using assms(2, 3) by (simp add: list_all_iff)
  moreover have "(case normalizeChain show (JStr c) of None \<Rightarrow> Some (js_String show (JStr c))
      | Some c \<Rightarrow> if usable_tip (tip_of tips c) then None else Some c) = None"
    using assms(1, 2) by (simp add: missingAdmissionTips_def map_filter_Nil)
  ultimately show ?thesis
    using normalizeChain_id [of c "show"] by (simp split: if_splits)
qed

definition stamped_height :: "(rat \<Rightarrow> string) \<Rightarrow> jsval \<Rightarrow> jsval \<Rightarrow> tips \<Rightarrow> string \<Rightarrow> jsval" where
  "stamped_height show table network tips c =
     (case tip_of tips c of JNum (Fin t) \<Rightarrow> JNum (Fin (t + stampMarginBlocks show table (JStr c) network t)) | _ \<Rightarrow> JUndef)"

lemma stamp_fold:
  assumes "list_all (\<lambda>c. usable_tip (tip_of tips c)) codes"
  shows "fold (\<lambda>c m. case tip_of tips c of
            JNum (Fin tip) \<Rightarrow> js_put c (JNum (Fin (tip + stampMarginBlocks show table (JStr c) network tip))) m
          | _ \<Rightarrow> m) codes m = fold (\<lambda>c. js_put c (stamped_height show table network tips c)) codes m"
  using assms
  by (induction codes arbitrary: m) (auto simp: usable_tip_def stamped_height_def split: jsval.splits jsnum.splits)

lemma put_each:
  "map_of (fold (\<lambda>c. js_put c (g c)) codes m) c = (if c \<in> set codes then Some (g c) else map_of m c)"
  "fst ` set (fold (\<lambda>c. js_put c (g c)) codes m) = set codes \<union> fst ` set m"
  by (induction codes arbitrary: m) (auto simp: map_of_js_put set_keys_js_put)

text \<open>A stamped map names the chains of the read set and gives each its own tip plus the margin.\<close>

lemma stamp_facts:
  assumes "admitBlocks show readSet tips table network = Some m" and "those (map (normalizeChain show) readSet) = Some codes"
  shows "fst ` set m = set codes" "c \<in> set codes \<Longrightarrow> usable_tip (tip_of tips c)" "codes \<noteq> []"
    "c \<in> set codes \<Longrightarrow> map_of m c = Some (stamped_height show table network tips c)"
proof -
  have codes: "list_all chain_code codes"
    using those_map_set [OF assms(2)] normalizeChain_code by (fastforce simp: list_all_iff)
  have miss: "missingAdmissionTips show (map JStr codes) tips = []" and ne: "codes \<noteq> []"
    using assms by (auto simp: admitBlocks_def split: if_splits)
  then have u: "list_all (\<lambda>c. usable_tip (tip_of tips c)) codes"
    using missing_none [OF miss] codes by (simp add: list_all_iff)
  have m: "m = fold (\<lambda>c. js_put c (stamped_height show table network tips c)) codes []"
    using assms stamp_fold [OF u, of "show" table network "[]"] by (auto simp: admitBlocks_def split: if_splits)
  show "fst ` set m = set codes" "c \<in> set codes \<Longrightarrow> usable_tip (tip_of tips c)" "codes \<noteq> []"
    "c \<in> set codes \<Longrightarrow> map_of m c = Some (stamped_height show table network tips c)"
    using u ne put_each [of "stamped_height show table network tips" codes "[]"] unfolding m by (auto simp: list_all_iff)
qed

text \<open>The follower's own tip as \<open>checkAdmitBlocks\<close> reads it, and what it asks of the leader's.\<close>

definition follower_tip :: "tips \<Rightarrow> string \<Rightarrow> rat option" where
  "follower_tip own c =
     (let v = tip_of own c in
      if nullish v then None else (case js_Number v of Fin q \<Rightarrow> if int_valued q \<and> 0 \<le> q then Some q else None | _ \<Rightarrow> None))"

definition tips_close :: "(rat \<Rightarrow> string) \<Rightarrow> jsval \<Rightarrow> jsval \<Rightarrow> tips \<Rightarrow> tips \<Rightarrow> string \<Rightarrow> bool" where
  "tips_close show table network tips own c \<longleftrightarrow>
     (case (tip_of tips c, follower_tip own c) of
        (JNum (Fin t), Some h) \<Rightarrow>
          (let a = t + stampMarginBlocks show table (JStr c) network t
           in h + ADMIT_MIN_FUTURE_BLOCKS \<le> a \<and> a \<le> h + admitMaxFutureBlocks show (JStr c))
      | _ \<Rightarrow> False)"

lemma check_chains_None:
  "check_chains show am own cs = None \<longleftrightarrow>
     list_all (\<lambda>c. case (map_of am c, follower_tip own c) of
         (Some v, Some h) \<Rightarrow> isAdmitBlockInFollowerBound show (JStr c) v (JNum (Fin h))
       | _ \<Rightarrow> False) cs"
  by (induction cs)
    (auto simp: follower_tip_def Let_def split: option.splits jsnum.splits if_splits)

lemma stamp_in_bound:
  assumes "usable_tip (tip_of tips c)"
  shows "(case follower_tip own c of
       Some h \<Rightarrow> isAdmitBlockInFollowerBound show (JStr c) (stamped_height show table network tips c) (JNum (Fin h))
     | None \<Rightarrow> False) \<longleftrightarrow> tips_close show table network tips own c"
proof -
  obtain t where t: "tip_of tips c = JNum (Fin t)" "int_valued t" "0 \<le> t"
    using assms by (auto simp: usable_tip_def safe_integer_def split: jsval.splits jsnum.splits)
  then show ?thesis
    using stamp_margin_int [of t "show" table "JStr c" network t]
    by (simp add: tips_close_def stamped_height_def isAdmitBlockInFollowerBound_def readHeight_def Let_def split: option.split)
qed

text \<open>
  C30: the follower accepts exactly the honest stamps within its window. A map stamped by a leader passes
  a follower's check if and only if, on every chain that reads the row, the leader's tip plus the margin lies
  between one block and the chain's maximum above the follower's own tip; no other fault is reported.
\<close>

theorem honest_stamp_accepted:
  assumes "admitBlocks show readSet tips table network = Some m" and "those (map (normalizeChain show) readSet) = Some codes"
  shows "checkAdmitBlocks show readSet (JObj m) own = AdmitOk \<longleftrightarrow> list_all (tips_close show table network tips own) codes"
proof -
  note stamp = stamp_facts [OF assms]
  have "check_chains show m own codes = None \<longleftrightarrow> list_all (tips_close show table network tips own) codes"
    unfolding check_chains_None list_all_iff using stamp(2, 4) by (intro ball_cong refl) (simp add: stamp_in_bound [symmetric])
  moreover have "find (\<lambda>k. k \<notin> set codes) (map fst m) = None"
    using stamp(1) by (auto simp: find_None_iff)
  moreover have "check_chains show m own codes \<noteq> Some AdmitOk"
    by (induction codes) (auto simp: Let_def split: option.splits)
  ultimately show ?thesis
    using stamp(3) assms(2) by (auto simp: checkAdmitBlocks_def own_entries_def split: option.splits list.splits)
qed

theorem honest_stamp_accepted_witness:
  "checkAdmitBlocks (\<lambda>_. []) [JStr ''btc''] (JObj [(''BTC'', JNum (Fin 104))]) [(''BTC'', JNum (Fin 98))] = AdmitOk \<and>
   checkAdmitBlocks (\<lambda>_. []) [JStr ''btc''] (JObj [(''BTC'', JNum (Fin 104))]) [(''BTC'', JNum (Fin 97))] \<noteq> AdmitOk"
proof -
  let ?s = "\<lambda>_ :: rat. [] :: string"
  have st: "admitBlocks ?s [JStr ''btc''] [(''BTC'', JNum (Fin 100))] (JStr ''bridge_transfers'') (JStr ''testnet'') = Some [(''BTC'', JNum (Fin 104))]"
    by code_simp
  have codes: "those (map (normalizeChain ?s) [JStr ''btc'']) = Some [''BTC'']"
    by code_simp
  have "list_all (tips_close ?s (JStr ''bridge_transfers'') (JStr ''testnet'') [(''BTC'', JNum (Fin 100))] [(''BTC'', JNum (Fin 98))]) [''BTC'']"
    "\<not> list_all (tips_close ?s (JStr ''bridge_transfers'') (JStr ''testnet'') [(''BTC'', JNum (Fin 100))] [(''BTC'', JNum (Fin 97))]) [''BTC'']"
    by code_simp+
  then show ?thesis
    using honest_stamp_accepted [OF st codes] by simp
qed

section \<open>The consumer's wait\<close>

text \<open>
  C31: the consumer's wait covers every row it may have to read. A row stamped at tip \<open>tip\<close> and admitted at
  or below block B was stamped no later than the height the consumer waits for before it reads
  at B, and the margin a reader infers from the admission height is the one the producer used, on both
  sides of the margin's activation.
\<close>

theorem consumer_target_covers:
  assumes "tip + stampMarginBlocks show table chain network tip \<le> B"
  shows "tip \<le> consumerTargetHeight show table chain network B \<and>
    rowMarginBlocks show table chain network (tip + stampMarginBlocks show table chain network tip) = stampMarginBlocks show table chain network tip"
  using assms chain_margin_cases [of "show" table chain] chain_margin_table [of "show" table chain]
  by (auto simp: stampMarginBlocks_def stampMarginAt_def consumerTargetHeight_def consumerTargetAt_def rowMarginBlocks_def rowMarginAt_def
      split: option.splits if_splits)

theorem consumer_target_covers_witness:
  "stampMarginBlocks (\<lambda>_. []) (JStr ''price_snapshots'') (JStr ''LTC'') (JStr ''testnet'') 4949680 = 17 \<and>
   4949680 \<le> consumerTargetHeight (\<lambda>_. []) (JStr ''price_snapshots'') (JStr ''LTC'') (JStr ''testnet'') 4949697"
proof -
  have m: "stampMarginBlocks (\<lambda>_. []) (JStr ''price_snapshots'') (JStr ''LTC'') (JStr ''testnet'') 4949680 = 17"
    by code_simp
  then show ?thesis
    using consumer_target_covers [of 4949680 "\<lambda>_. []" "JStr ''price_snapshots''" "JStr ''LTC''" "JStr ''testnet''" 4949697] by simp
qed

section \<open>Tips\<close>

text \<open>Readings of one chain, one after the other.\<close>

fun observe :: "(rat \<Rightarrow> string) \<Rightarrow> string \<Rightarrow> jsval \<Rightarrow> jsval \<Rightarrow> (rat \<times> rat) list \<Rightarrow> tip_memory \<Rightarrow> bool list" where
  "observe show network cfg coin [] seen = []"
| "observe show network cfg coin ((nowMs, tip) # obs) seen =
     (case admissionTipFresh show network cfg nowMs coin tip seen of (ok, seen') \<Rightarrow> ok # observe show network cfg coin obs seen')"

definition stall_window :: "jsval \<Rightarrow> string \<Rightarrow> rat" where
  "stall_window cfg c = (case js_Number cfg of Fin a \<Rightarrow> if 0 < a then a else 6 * blockIntervalS c | _ \<Rightarrow> 6 * blockIntervalS c)"

text \<open>
  a frozen tip goes stale and asking again does not refresh it. After a chain has reached height h at
  time t0, a series of readings that never passes h is judged, each reading, by the time since t0 alone
  (off regtest); the first reading above h is accepted and restarts the clock.
\<close>

theorem frozen_tip_expires:
  assumes "normalizeChain show coin = Some c" and "map_of seen c = Some (h, t0)" and "to_lower network \<noteq> ''regtest''"
    and "list_all (\<lambda>(nowMs, tip). tip \<le> h) obs" and "h < tip"
  shows "observe show network cfg coin (obs @ (nowMs, tip) # later) seen =
           map (\<lambda>(nowMs, tip). of_int \<lfloor>(nowMs - t0) / 1000\<rfloor> \<le> stall_window cfg c) obs @ True #
           observe show network cfg coin later (js_put c (tip, nowMs) seen)"
  using assms(4)
proof (induction obs)
  case Nil
  then show ?case
    using assms(1, 2, 5) by (simp add: admissionTipFresh_def)
next
  case (Cons r obs)
  obtain n x where r: "r = (n, x)"
    by (cases r)
  have "admissionTipFresh show network cfg n coin x seen = (of_int \<lfloor>(n - t0) / 1000\<rfloor> \<le> stall_window cfg c, seen)"
    using assms(1-3) Cons.prems r by (simp add: admissionTipFresh_def stall_window_def Let_def)
  then show ?case
    using Cons r by simp
qed

theorem frozen_tip_expires_witness:
  "observe (\<lambda>_. []) ''testnet'' JUndef (JStr ''DOGE'') [(360000, 10), (361000, 10), (362000, 11)] [(''DOGE'', 10, 0)] = [True, False, True]"
proof -
  have "normalizeChain (\<lambda>_. []) (JStr ''DOGE'') = Some ''DOGE''"
    by code_simp
  moreover have "to_lower ''testnet'' \<noteq> ''regtest''"
    by code_simp
  moreover have "stall_window JUndef ''DOGE'' = 360"
    by code_simp
  ultimately show ?thesis
    using frozen_tip_expires [of "\<lambda>_. []" "JStr ''DOGE''" "''DOGE''" "[(''DOGE'', 10, 0)]" 10 0 "''testnet''" "[(360000, 10), (361000, 10)]" 11 JUndef 362000 "[]"]
    by simp
qed

lemma tip_of_js_put: "tip_of (js_put c v out) d = (if d = c then v else tip_of out d)"
  by (simp add: tip_of_def map_of_js_put)

lemma wanted_tips: "wanted_chains show rs out want = (out', want') \<Longrightarrow> tip_of out c \<noteq> JNum x \<Longrightarrow> tip_of out' c \<noteq> JNum x"
  by (induction rs arbitrary: out want) (auto simp: tip_of_js_put split: option.splits if_splits)

lemma read_tips_source:
  "read_tips rd cs out seen = (out', seen') \<Longrightarrow> tip_of out' c = JNum x \<Longrightarrow> tip_of out c \<noteq> JNum x \<Longrightarrow> \<exists>s. fst (rd c s) = JNum x"
proof (induction cs arbitrary: out seen)
  case (Cons d cs)
  obtain t s where rd: "rd d seen = (t, s)"
    by (cases "rd d seen")
  show ?case
  proof (cases "tip_of (js_put d t out) c = JNum x")
    case True
    then show ?thesis
      using Cons.prems(3) rd by (auto simp: tip_of_js_put split: if_splits intro: exI [of _ seen])
  next
    case False
    then show ?thesis
      using Cons.IH [of "js_put d t out" s] Cons.prems rd by simp
  qed
qed simp

lemma tip_source:
  assumes "fst (resolveAdmissionTip show network cfg nowMs answer (JStr c) seen) = JNum (Fin t)" and "chain_code c"
  shows "\<exists>r. answer c = Some r \<and> truthy r \<and> \<not> truthy (js_prop r ''error'') \<and> \<not> nullish (js_prop r ''decoder_block'')
    \<and> js_Number (js_prop r ''decoder_block'') = Fin t \<and> safe_integer t \<and> 0 \<le> t"
  using assms normalizeChain_id [OF assms(2), of "show"]
  by (auto simp: resolveAdmissionTip_def Let_def split: option.splits if_splits jsnum.splits prod.splits)

text \<open>
  a height is never guessed. Whatever the indexers answer, when the hub stamps a map for a read set,
  every chain of the read set has an answer of its own indexer without an error that carries a usable decoder height,
  and the stamped height is that decoder height plus the margin.
\<close>

theorem stamp_from_decoder_tip:
  assumes "resolveAdmissionTips show network cfg nowMs answer readSet seen = (tips, seen')"
    and "resolveAdmitBlocks show (JStr network) (Some tips) table readSet = JObj m"
    and "those (map (normalizeChain show) readSet) = Some codes" and "c \<in> set codes"
  shows "\<exists>r t. answer c = Some r \<and> truthy r \<and> \<not> truthy (js_prop r ''error'') \<and> \<not> nullish (js_prop r ''decoder_block'') \<and>
      js_Number (js_prop r ''decoder_block'') = Fin t \<and> safe_integer t \<and> 0 \<le> t \<and>
      map_of m c = Some (JNum (Fin (t + stampMarginBlocks show table (JStr c) (JStr network) t)))"
proof -
  have m: "admitBlocks show readSet tips table (JStr network) = Some m"
    using assms(2) by (auto simp: resolveAdmitBlocks_def split: if_splits option.splits)
  note stamp = stamp_facts [OF m assms(3)]
  obtain t where t: "tip_of tips c = JNum (Fin t)"
    using stamp(2) [OF assms(4)] by (auto simp: usable_tip_def split: jsval.splits jsnum.splits)
  obtain out want where w: "wanted_chains show readSet [] [] = (out, want)"
    by fastforce
  then have "read_tips (\<lambda>c. resolveAdmissionTip show network cfg nowMs answer (JStr c)) want out seen = (tips, seen')"
    using assms(1) by (simp add: resolveAdmissionTips_def)
  moreover have "tip_of out c \<noteq> JNum (Fin t)"
    using wanted_tips [OF w] by (simp add: tip_of_def)
  ultimately obtain s where "fst (resolveAdmissionTip show network cfg nowMs answer (JStr c) s) = JNum (Fin t)"
    using read_tips_source [OF _ t] by blast
  moreover have "chain_code c"
    using those_map_set [OF assms(3, 4)] normalizeChain_code by auto
  ultimately show ?thesis
    using tip_source stamp(4) [OF assms(4)] t by (fastforce simp: stamped_height_def)
qed

theorem stamp_from_decoder_tip_witness:
  "\<exists>r t. map_of [(''BTC'', JObj [(''decoder_block'', JStr ''100'')])] ''BTC'' = Some r \<and> js_Number (js_prop r ''decoder_block'') = Fin t \<and> 0 \<le> t \<and>
      map_of [(''BTC'', JNum (Fin 104))] ''BTC'' = Some (JNum (Fin (t + stampMarginBlocks (\<lambda>_. []) (JStr ''bridge_transfers'') (JStr ''BTC'') (JStr ''testnet'') t)))"
proof -
  let ?s = "\<lambda>_ :: rat. [] :: string" and ?answer = "map_of [(''BTC'', JObj [(''decoder_block'', JStr ''100'')])]"
  have tips: "resolveAdmissionTips ?s ''testnet'' JUndef 0 ?answer [JStr ''BTC''] [] = ([(''BTC'', JNum (Fin 100))], [(''BTC'', 100, 0)])"
    by code_simp
  have st: "resolveAdmitBlocks ?s (JStr ''testnet'') (Some [(''BTC'', JNum (Fin 100))]) (JStr ''bridge_transfers'') [JStr ''BTC''] = JObj [(''BTC'', JNum (Fin 104))]"
    by code_simp
  have codes: "those (map (normalizeChain ?s) [JStr ''BTC'']) = Some [''BTC'']"
    by code_simp
  show ?thesis
    using stamp_from_decoder_tip [OF tips st codes, of "''BTC''"] by auto
qed
end
