(* ===== verification/Spec2Isabelle.thy ===== *)
theory Spec2Isabelle
  imports Bft_Quorum Pbft_Properties Pbft_Election Pbft_Guards Oracle_Cosign Oracle_Round_Properties Spend_Gates Broadcast_Guard Attest_Properties Admission_Properties
begin

text \<open>
  Verification of the XChain hub (\<open>src/\<close> of the repository).

  \<^bold>\<open>The program.\<close> A federation of hubs agrees on configuration changes, aggregates
  price submissions, attests external data in batches written to a ledger, and pays for what it
  writes out of a bounded budget. Its parts meet in a few places: every round asks one quorum predicate
  over one membership snapshot, every vote passes one admission rule, every price passes one
  spelling guard, and every ledger write passes the spend guard.

  \<^bold>\<open>Theories and the code they model.\<close>
  \<^item> \<open>Prelude\<close>: JavaScript values (\<open>jsval\<close>, \<open>jsnum\<close>), truthiness, \<open>Number\<close>, insertion-ordered
    maps and sets.
  \<^item> \<open>Js_Float\<close>: the doubles behind \<open>parseFloat\<close>: rounding of a decimal to the nearest double, its error and
    the range of decimals the price gates admit.
  \<^item> \<open>Bft_Quorum\<close>: \<open>lib/bft_quorum.js\<close>.
  \<^item> \<open>Gate_Registry\<close>: \<open>consensus/gate_registry/\<close> (rows, lookup, overlay, \<open>activeAt\<close>),
    \<open>consensus/equivocation_header.js\<close>, \<open>consensus/snapshot_reorg_buffer.js\<close>.
  \<^item> \<open>Stake_Quorum\<close>: \<open>consensus/stake_weighted_quorum.js\<close>, \<open>oracle/quorum_margin.js\<close>.
  \<^item> \<open>Membership\<close>: \<open>lib/chain_signer_admission.js\<close>, \<open>rollcall/validator_order.js\<close>,
    \<open>validators/capability_snapshot/\<close>, \<open>consensus/federation.js\<close>.
  \<^item> \<open>Pbft_Model\<close>, \<open>Pbft_Rounds\<close>, \<open>Pbft_Engine\<close>: \<open>consensus/pbft.js\<close> and \<open>consensus/pbft/\<close>. The state is
    one record per hub with a heap of round objects, since timers and awaited continuations
    hold on to rounds that the maps have dropped. A handler runs up to its next await; the
    rest is a task in the state, and the step relation runs messages, tasks and timers in
    any order. A write of the store is recorded when the awaited call succeeds.
  \<^item> \<open>Pbft_Micro\<close>, \<open>Pbft_Safety\<close>: guarded atomic updates that every handler decomposes into (a
    simulation), and the invariants proved over them once per update, lifted to runs by a locale.
  \<^item> \<open>Pbft_Properties\<close>, \<open>Pbft_Election\<close>, \<open>Pbft_Guards\<close>, with \<open>Pbft_Demo\<close> for concrete runs: certificates
    behind applied configs, acknowledgement and durability, leader election and the liveness of
    proposing, the bounds of the vote buffer, the fail-closed guards and the two runs that pass them.
  \<^item> \<open>Oracle_Prices\<close>, \<open>Oracle_Aggregate\<close>, \<open>Oracle_Cosign\<close>: \<open>bcmath.js\<close>, \<open>consensus/deviation_band.js\<close>,
    \<open>oracle/canonical_price.js\<close>, \<open>oracle/oracle_round_band.js\<close>, \<open>oracle/round/messages.js\<close> and
    \<open>oracle/consensus/\<close> (aggregation, clamp, digest, co-sign gate).
  \<^item> \<open>Oracle_Membership\<close>, \<open>Oracle_Rounds\<close>: \<open>oracle/consensus.js\<close> and the round machine of \<open>oracle/consensus/\<close>
    (membership, seats, opening, proposing, following, committing, watchdog, lifecycle, round time, snapshot store)
    with \<open>oracle_clamp_reference_activation.js\<close>. As for the config engine, a handler runs up to its next
    await and the rest is a task, so messages, continuations, store results and timers interleave freely.
  \<^item> \<open>Oracle_Micro\<close>, \<open>Oracle_Simulation\<close>, \<open>Oracle_Safety\<close>: the atomic updates of a round, the proof that every
    step of the machine is a sequence of them, and the invariants of the rounds, the claims on a
    round, the timers and the certificates, lifted to runs by the locale \<open>oracle_run_invariant\<close>.
  \<^item> \<open>Oracle_Demo\<close>, \<open>Oracle_Round_Properties\<close>: scripted runs; the certificate behind a stored round, announcement
    after storing, what a signature binds, one submission per member, the recovery of a stalled round, and
    the two runs in which a retry passes the quorum and a leader signs twice.
  \<^item> \<open>Spend_Guard\<close>, \<open>Spend_Safety\<close>, \<open>Spend_Gates\<close>: \<open>lib/spend_guard.js\<close> and \<open>providers/effector_spend/\<close>
    with its file store: reservations, commits and releases in any interleaving, failed and torn
    writes, restarts. A run keeps two logs of what was granted: the last price of each reservation and the lowest
    price it was ever counted at, since a settlement may move a price either way and its write may be lost.
  \<^item> \<open>Broadcast_Guard\<close>: \<open>lib/guards/\<close>, the at-most-once send on top of the spend guard.
  \<^item> \<open>Json_Text\<close>, \<open>Wire_Codec\<close>: the texts the language and its library produce and read (JSON, UTF-8, base64)
    and CRC32, each with its round trip or injectivity.
  \<^item> \<open>Attest_Wire\<close>, \<open>Attest_Roundtrip\<close>, \<open>Attest_Properties\<close>: \<open>lib/attest_batch_wire.js\<close> and
    \<open>lib/attest_batch_wire/\<close>.
  \<^item> \<open>Admission\<close>, \<open>Admission_Properties\<close>: admission by height: \<open>consensus/gates/mirror_admission_gate.js\<close>,
    \<open>mirror_admission_margin_gate.js\<close>, \<open>lib/admission_height.js\<close>, \<open>lib/relay_margin.js\<close> and the admission tips of
    \<open>hub/chain_tips.js\<close>.

  \<^bold>\<open>Parameters.\<close> The decimal library (rounding to its working precision and to a number of
  decimals), SHA-256, DEFLATE, signatures, the text of a non-integral number and the
  environment overlay of the gate registry are arguments. What a theorem relies on of them is a hypothesis of
  that theorem, with a witness that instantiates it; for the oracle rounds it is \<open>signatures_ok\<close>: a key's own
  signature verifies.

  \<^bold>\<open>Numbers.\<close> A JavaScript number is a rational, an infinity or NaN. \<open>parseFloat\<close> rounds to the nearest double
  (\<open>Js_Float\<close>); elsewhere rounding to doubles is left out, except that values past the largest double read as an
  infinity. CRC32 is on 32-bit words.

  \<^bold>\<open>Bounds.\<close> \<open>JSON_parse\<close> has fuel \<open>2 * length + 1\<close>: each nested call consumes a
  character or moves from a value to its members, and \<open>JSON_roundtrip\<close> shows it is enough. The
  probe for a writable store walks at most 64 parent directories. The search for a chunk
  count is a function with its own termination proof.

  \<^bold>\<open>Not modelled.\<close> The network, the database and the HTTP interface, which are I/O; the
  cross-chain engines, anchoring and roll call, which are workflows over the
  database around the predicates modelled here; the oracle's price feeds, its scheduler and publisher, the mirror of a
  finalized round to the capability snapshot, and the re-seeding of the clamp reference;
  logging and diagnostics; the tables of coin parameters.
\<close>

end
